(* ===== verification/Montana_Prelude.thy ===== *)
theory Montana_Prelude
  imports Main "HOL-Library.Word"
begin

text \<open>
  What every component of the development shares: the machine integers of the Rust code,
  the result type of fallible operations with its sequencing, the arithmetic helpers of the
  Rust standard library (saturating and checked operations), the byte encodings
  \<^verbatim>\<open>u64::to_le_bytes\<close> and \<^verbatim>\<open>u64::to_be_bytes\<close>, and generic lemmas on lists.

  The workspace is built with the release profile (\<^verbatim>\<open>Cargo.toml\<close> sets no
  \<^verbatim>\<open>overflow-checks\<close>), so \<open>+\<close> on \<^verbatim>\<open>u64\<close> wraps: it is the addition of
  \<open>64 word\<close>. A \<^verbatim>\<open>usize\<close> that counts the elements of a collection is a \<open>nat\<close>; an
  \<^verbatim>\<open>Instant\<close> and a \<^verbatim>\<open>Duration\<close> are a \<open>nat\<close> of nanoseconds, and
  \<open>now - t\<close> is \<^verbatim>\<open>Instant::elapsed\<close>, which saturates at zero as \<open>nat\<close> subtraction does.
\<close>

section \<open>Machine integers\<close>

type_synonym u8 = "8 word"
type_synonym u16 = "16 word"
type_synonym u32 = "32 word"
type_synonym u64 = "64 word"
type_synonym u128 = "128 word"
type_synonym u256 = "256 word"
type_synonym usize = nat
type_synonym instant = nat
type_synonym duration = nat

text \<open>A 32-byte hash, as its list of bytes, and an unstructured byte string.\<close>

type_synonym bytes = "u8 list"

named_theorems montana_defs \<open>definitions of the small operations, unfolded together\<close>
named_theorems frame_simps \<open>fields an operation leaves unchanged\<close>

definition saturating_sub :: "'a::len word \<Rightarrow> 'a word \<Rightarrow> 'a word" where
  "saturating_sub a b = (if b \<le> a then a - b else 0)"

definition saturating_add :: "'a::len word \<Rightarrow> 'a word \<Rightarrow> 'a word" where
  "saturating_add a b = (if unat a + unat b < 2 ^ LENGTH('a) then a + b else - 1)"

definition saturating_mul :: "'a::len word \<Rightarrow> 'a word \<Rightarrow> 'a word" where
  "saturating_mul a b = (if unat a * unat b < 2 ^ LENGTH('a) then a * b else - 1)"

definition checked_div :: "'a::len word \<Rightarrow> 'a word \<Rightarrow> 'a word option" where
  "checked_div a b = (if b = 0 then None else Some (a div b))"

lemma unat_minus_one_word_pow: "unat (- 1 :: 'a::len word) = 2 ^ LENGTH('a) - 1"
  by (simp add: unsigned_minus_1_eq_mask mask_eq_exp_minus_1)

lemma unat_saturating_sub: "unat (saturating_sub a b) = unat a - unat b"
  by (auto simp: saturating_sub_def unat_sub word_le_nat_alt)

lemma unat_saturating_add:
  "unat (saturating_add a b) = min (unat a + unat b) (2 ^ LENGTH('a) - 1)"
  for a b :: "'a::len word"
  by (auto simp: saturating_add_def unat_word_ariths unat_minus_one_word_pow)

lemma unat_saturating_mul:
  "unat (saturating_mul a b) = min (unat a * unat b) (2 ^ LENGTH('a) - 1)"
  for a b :: "'a::len word"
  by (auto simp: saturating_mul_def unat_word_ariths unat_minus_one_word_pow)

lemma checked_div_eq_None_iff [simp]: "checked_div a b = None \<longleftrightarrow> b = 0"
  by (simp add: checked_div_def)

lemma checked_div_Some: "b \<noteq> 0 \<Longrightarrow> checked_div a b = Some (a div b)"
  by (simp add: checked_div_def)

section \<open>Results\<close>

text \<open>
  \<^verbatim>\<open>Result<T, E>\<close> is \<open>'e + 'a\<close>: \<open>Inl\<close> is \<^verbatim>\<open>Err\<close>, \<open>Inr\<close> is \<^verbatim>\<open>Ok\<close>.
  \<open>rbind r f\<close> is \<^verbatim>\<open>f(r?)\<close>, \<open>map_err\<close> is \<^verbatim>\<open>Result::map_err\<close>, \<open>ok_or\<close> is
  \<^verbatim>\<open>Option::ok_or\<close>.
\<close>

fun rbind :: "'e + 'a \<Rightarrow> ('a \<Rightarrow> 'e + 'b) \<Rightarrow> 'e + 'b" where
  "rbind (Inl e) f = Inl e"
| "rbind (Inr x) f = f x"

fun map_err :: "('e \<Rightarrow> 'f) \<Rightarrow> 'e + 'a \<Rightarrow> 'f + 'a" where
  "map_err f (Inl e) = Inl (f e)"
| "map_err f (Inr x) = Inr x"

fun ok_or :: "'a option \<Rightarrow> 'e \<Rightarrow> 'e + 'a" where
  "ok_or None e = Inl e"
| "ok_or (Some x) e = Inr x"

definition is_ok :: "'e + 'a \<Rightarrow> bool" where
  "is_ok r = (case r of Inl _ \<Rightarrow> False | Inr _ \<Rightarrow> True)"

lemma is_ok_simps [simp]: "is_ok (Inr x)" "\<not> is_ok (Inl e)"
  by (simp_all add: is_ok_def)

lemma rbind_Inr_iff: "rbind r f = Inr y \<longleftrightarrow> (\<exists>x. r = Inr x \<and> f x = Inr y)"
  by (cases r) auto

lemma map_err_Inr_iff [simp]: "map_err f r = Inr x \<longleftrightarrow> r = Inr x"
  by (cases r) auto

lemma map_err_Inl_iff [simp]: "map_err f r = Inl e \<longleftrightarrow> (\<exists>x. r = Inl x \<and> e = f x)"
  by (cases r) auto

lemma ok_or_Inr_iff [simp]: "ok_or v e = Inr x \<longleftrightarrow> v = Some x"
  by (cases v) auto

lemma ok_or_Inl_iff [simp]: "ok_or v e = Inl e' \<longleftrightarrow> v = None \<and> e' = e"
  by (cases v) auto

text \<open>\<^verbatim>\<open>iter().map(f).collect::<Result<Vec<_>, _>>()\<close>: stops at the first error.\<close>

fun collect_results :: "('a \<Rightarrow> 'e + 'b) \<Rightarrow> 'a list \<Rightarrow> 'e + 'b list" where
  "collect_results f [] = Inr []"
| "collect_results f (x # xs) =
     rbind (f x) (\<lambda>y. rbind (collect_results f xs) (\<lambda>ys. Inr (y # ys)))"

lemma collect_results_Inr:
  "(\<And>x. x \<in> set xs \<Longrightarrow> f x = Inr (g x)) \<Longrightarrow> collect_results f xs = Inr (map g xs)"
  by (induction xs) auto

section \<open>Byte encodings of u64\<close>

fun le_bytes :: "nat \<Rightarrow> nat \<Rightarrow> bytes" where
  "le_bytes 0 v = []"
| "le_bytes (Suc n) v = word_of_nat v # le_bytes n (v div 256)"

fun le_val :: "bytes \<Rightarrow> nat" where
  "le_val [] = 0"
| "le_val (b # bs) = unat b + 256 * le_val bs"

definition to_le_bytes :: "u64 \<Rightarrow> bytes" where
  "to_le_bytes w = le_bytes 8 (unat w)"

definition from_le_bytes :: "bytes \<Rightarrow> u64" where
  "from_le_bytes bs = word_of_nat (le_val bs)"

definition to_be_bytes :: "u64 \<Rightarrow> bytes" where
  "to_be_bytes w = rev (to_le_bytes w)"

definition from_be_bytes :: "bytes \<Rightarrow> u64" where
  "from_be_bytes bs = from_le_bytes (rev bs)"

lemma u8_256 [simp]: "(256 :: u8) = 0"
  by (simp add: word_unat_eq_iff)

lemma length_le_bytes [simp]: "length (le_bytes n v) = n"
  by (induction n arbitrary: v) auto

lemma le_val_le_bytes: "le_val (le_bytes n v) = v mod 256 ^ n"
proof (induction n arbitrary: v)
  case 0
  then show ?case by simp
next
  case (Suc n)
  have "le_val (le_bytes (Suc n) v) = v mod 256 + 256 * (v div 256 mod 256 ^ n)"
    by (simp add: Suc unat_of_nat take_bit_eq_mod)
  also have "\<dots> = v mod 256 ^ Suc n"
    by (simp add: mod_mult2_eq)
  finally show ?case .
qed

lemma le_val_less: "le_val bs < 256 ^ length bs"
proof (induction bs)
  case Nil
  then show ?case by simp
next
  case (Cons b bs)
  have "unat b < 256" using unsigned_less [of b, where ?'a = nat] by simp
  with Cons show ?case by simp
qed

lemma le_bytes_le_val: "le_bytes (length bs) (le_val bs) = bs"
proof (induction bs)
  case Nil
  then show ?case by simp
next
  case (Cons b bs)
  have "unat b < 256" using unsigned_less [of b, where ?'a = nat] by simp
  then have "(unat b + 256 * le_val bs) div 256 = le_val bs"
    and "word_of_nat (unat b + 256 * le_val bs) = b"
    by simp_all
  with Cons show ?case by simp
qed

lemma length_to_le_bytes [simp]: "length (to_le_bytes w) = 8"
  by (simp add: to_le_bytes_def)

lemma length_to_be_bytes [simp]: "length (to_be_bytes w) = 8"
  by (simp add: to_be_bytes_def)

lemma from_to_le_bytes [simp]: "from_le_bytes (to_le_bytes w) = w"
proof -
  have "unat w < 256 ^ 8" using unsigned_less [of w, where ?'a = nat] by simp
  then show ?thesis by (simp add: from_le_bytes_def to_le_bytes_def le_val_le_bytes)
qed

lemma from_to_be_bytes [simp]: "from_be_bytes (to_be_bytes w) = w"
  by (simp add: from_be_bytes_def to_be_bytes_def)

lemma to_from_le_bytes: "length bs = 8 \<Longrightarrow> to_le_bytes (from_le_bytes bs) = bs"
proof -
  assume len: "length bs = 8"
  have "le_val bs < 2 ^ 64" using le_val_less [of bs] len by simp
  then have "unat (from_le_bytes bs) = le_val bs"
    by (simp add: from_le_bytes_def unat_of_nat take_bit_eq_mod)
  then show ?thesis using le_bytes_le_val [of bs] len by (simp add: to_le_bytes_def)
qed

lemma to_from_be_bytes: "length bs = 8 \<Longrightarrow> to_be_bytes (from_be_bytes bs) = bs"
  by (simp add: from_be_bytes_def to_be_bytes_def to_from_le_bytes)

lemma to_le_bytes_inj: "to_le_bytes a = to_le_bytes b \<longleftrightarrow> a = b"
  by (metis from_to_le_bytes)

lemma to_be_bytes_inj: "to_be_bytes a = to_be_bytes b \<longleftrightarrow> a = b"
  by (metis from_to_be_bytes)

section \<open>Decimal numbers\<close>

text \<open>\<^verbatim>\<open>format!("{}", n)\<close> of an unsigned integer.\<close>

fun dec :: "nat \<Rightarrow> string" where
  "dec n = (if n < 10 then [char_of (48 + n)] else dec (n div 10) @ [char_of (48 + n mod 10)])"

declare dec.simps [simp del]

fun undec :: "nat \<Rightarrow> string \<Rightarrow> nat" where
  "undec n [] = n"
| "undec n (c # cs) = undec (10 * n + (of_char c - 48)) cs"

lemma undec_append: "undec n (cs @ ds) = undec (undec n cs) ds"
  by (induction cs arbitrary: n) auto

lemma undec_dec: "undec 0 (dec n) = n"
proof (induction n rule: dec.induct)
  case (1 n)
  then show ?case by (subst dec.simps) (auto simp: undec_append)
qed

lemma dec_inj [simp]: "dec m = dec n \<longleftrightarrow> m = n"
  by (metis undec_dec)

section \<open>Bounded histories\<close>

text \<open>
  The metrics keep the last 100 latency samples: \<^verbatim>\<open>if len >= 100 { remove(0) }; push(x)\<close>.
  One step drops at most one element.
\<close>

definition push_bounded :: "nat \<Rightarrow> 'a list \<Rightarrow> 'a \<Rightarrow> 'a list" where
  "push_bounded cap xs x = (if cap \<le> length xs then tl xs else xs) @ [x]"

lemma length_push_bounded: "0 < cap \<Longrightarrow> length xs \<le> cap \<Longrightarrow> length (push_bounded cap xs x) \<le> cap"
  by (auto simp: push_bounded_def)

definition last_n :: "nat \<Rightarrow> 'a list \<Rightarrow> 'a list" where
  "last_n k xs = drop (length xs - k) xs"

lemma push_bounded_last_n:
  "0 < cap \<Longrightarrow> push_bounded cap (last_n cap xs) x = last_n cap (xs @ [x])"
  by (auto simp: push_bounded_def last_n_def tl_drop drop_Suc [symmetric] Suc_diff_le)

lemma foldl_push_bounded:
  "0 < cap \<Longrightarrow> foldl (push_bounded cap) [] xs = last_n cap xs"
proof (induction xs rule: rev_induct)
  case Nil
  then show ?case by (simp add: last_n_def)
next
  case (snoc x xs)
  then show ?case by (simp add: push_bounded_last_n)
qed

end
