(* ===== verification/Pipeline.thy ===== *)
theory Pipeline
  imports Montana_Prelude
begin

text \<open>
  The data that flows between the components and the traits they meet at: the primitives
  (\<^verbatim>\<open>crates/common/primitives\<close>, \<^verbatim>\<open>crates/common/channel\<close>), the pipeline's errors, constants
  and \<^verbatim>\<open>Compressor\<close> trait (\<^verbatim>\<open>crates/consensus/pipeline\<close>), the compressors of the repository
  (\<^verbatim>\<open>crates/consensus/local\<close>, \<^verbatim>\<open>brotli\<close>, \<^verbatim>\<open>zlib\<close>, \<^verbatim>\<open>zstd\<close>), and the contract of a
  batch channel from a \<^verbatim>\<open>BatchSink\<close> to an \<^verbatim>\<open>L1BatchSource\<close>.

  Third-party code is a parameter: a block of \<^verbatim>\<open>op_alloy\<close> is the record of the header fields
  and the transactions the source reads, with the transaction type left open; \<^verbatim>\<open>serde_json\<close>
  and the compression packages are functions given as arguments.
\<close>

section \<open>Primitives\<close>

record 'tx op_block =
  header_number :: u64
  header_timestamp :: u64
  header_gas_used :: u64
  transactions :: "'tx list"

record l2_block_data =
  l2_block_number :: u64
  l2_timestamp :: u64
  l2_transactions :: "bytes list"

record compressed_batch =
  batch_number :: u64
  batch_data :: bytes
  block_count :: u64
  first_block :: u64
  last_block :: u64

record submission_receipt =
  receipt_batch_number :: u64
  tx_hash :: bytes
  l1_block :: u64
  blob_hash :: "bytes option"

record batch_header =
  header_version :: u8
  header_batch_number :: u64
  header_batch_timestamp :: u64
  header_block_count :: u16

text \<open>\<^verbatim>\<open>BatchHeader::SIZE\<close>: version, batch number, timestamp and block count in bytes.\<close>

definition BATCH_HEADER_SIZE :: usize where
  "BATCH_HEADER_SIZE = 1 + 8 + 8 + 2"

lemma BATCH_HEADER_SIZE_eq:
  "8 * BATCH_HEADER_SIZE = LENGTH(8) + LENGTH(64) + LENGTH(64) + LENGTH(16)"
  by (simp add: BATCH_HEADER_SIZE_def)

subsection \<open>Batches of blocks\<close>

text \<open>
  \<^verbatim>\<open>OpBlockBatch\<close> wraps a vector of blocks; \<^verbatim>\<open>to_bytes\<close> and \<^verbatim>\<open>from_bytes\<close> are \<^verbatim>\<open>serde_json\<close>'s
  (parameters wherever they are used).
\<close>

record 'tx op_block_batch =
  blocks :: "'tx op_block list"

definition batch_len :: "'tx op_block_batch \<Rightarrow> usize" where
  "batch_len b = length (blocks b)"

definition batch_is_empty :: "'tx op_block_batch \<Rightarrow> bool" where
  "batch_is_empty b = (blocks b = [])"

definition first_block_number :: "'tx op_block_batch \<Rightarrow> u64 option" where
  "first_block_number b = (case blocks b of [] \<Rightarrow> None | x # _ \<Rightarrow> Some (header_number x))"

definition last_block_number :: "'tx op_block_batch \<Rightarrow> u64 option" where
  "last_block_number b = (case rev (blocks b) of [] \<Rightarrow> None | x # _ \<Rightarrow> Some (header_number x))"

lemma block_number_None_iff:
  "first_block_number b = None \<longleftrightarrow> batch_is_empty b"
  "last_block_number b = None \<longleftrightarrow> batch_is_empty b"
  by (auto simp: first_block_number_def last_block_number_def batch_is_empty_def split: list.splits)

section \<open>Errors\<close>

datatype source_error = SourceConnection string | SourceEmpty

datatype sink_error =
    SinkConnection string
  | TxFailed string
  | SinkInsufficientFunds
  | SinkBlobGasTooExpensive u64 u64  \<comment> \<open>current, max\<close>
  | SinkTimeout

datatype compression_error = CompressionFailed string | Corrupted | TooLarge usize usize

datatype codec_error = InvalidVersion u8 | Truncated usize | InvalidBlockCount

datatype pipeline_error =
    PipeSource source_error
  | PipeSink sink_error
  | PipeCompression compression_error
  | PipeCodec codec_error
  | UnsupportedVersion u8
  | PipeSequenceGap u64 u64  \<comment> \<open>expected, got\<close>

section \<open>Constants\<close>

definition MAX_BATCH_SIZE :: usize where "MAX_BATCH_SIZE = 128 * 1024"
definition MIN_BATCH_SIZE :: usize where "MIN_BATCH_SIZE = 1024"
definition COMPRESSION_LEVEL :: u32 where "COMPRESSION_LEVEL = 11"
definition COMPRESSION_WINDOW :: u32 where "COMPRESSION_WINDOW = 22"

section \<open>Compressors\<close>

record compression_config =
  level :: u32
  window_size :: u32

definition compression_config_default :: compression_config where
  "compression_config_default = \<lparr>level = 11, window_size = 22\<rparr>"

text \<open>The contract of the trait: decompression returns what was compressed.\<close>

locale compressor =
  fixes compress decompress :: "bytes \<Rightarrow> compression_error + bytes"
  assumes decompress_compress: "compress d = Inr c \<Longrightarrow> decompress c = Inr d"
begin

lemma compress_inj: "compress d = Inr c \<Longrightarrow> compress d' = Inr c \<Longrightarrow> d = d'"
  using decompress_compress [of d c] decompress_compress [of d' c] by simp

lemma roundtrip: "compress d = Inr c \<Longrightarrow> rbind (compress d) decompress = Inr d"
  by (simp add: decompress_compress)

end

text \<open>The \<^verbatim>\<open>NoopCompressor\<close> copies its input both ways.\<close>

definition noop_compress :: "bytes \<Rightarrow> compression_error + bytes" where
  "noop_compress d = Inr d"

definition noop_decompress :: "bytes \<Rightarrow> compression_error + bytes" where
  "noop_decompress d = Inr d"

interpretation noop: compressor noop_compress noop_decompress
  by unfold_locales (simp add: noop_compress_def noop_decompress_def)

text \<open>
  The presets of the three compressors. The estimated ratios are constants with one decimal
  place: they are given in tenths. Rust matches \<^verbatim>\<open>u32\<close> ranges from the top down.
\<close>

definition brotli_max_compression :: compression_config where
  "brotli_max_compression = compression_config_default"

definition brotli_fast :: compression_config where
  "brotli_fast = \<lparr>level = 1, window_size = 22\<rparr>"

definition brotli_balanced :: compression_config where
  "brotli_balanced = \<lparr>level = 6, window_size = 22\<rparr>"

definition brotli_estimated_ratio :: "compression_config \<Rightarrow> nat" where
  "brotli_estimated_ratio c =
     (let l = unat (level c) in
      if l \<le> 3 then 20 else if 4 \<le> l \<and> l \<le> 6 then 35 else if 7 \<le> l \<and> l \<le> 9 then 50 else 60)"

definition zlib_best :: compression_config where
  "zlib_best = \<lparr>level = 9, window_size = 15\<rparr>"

definition zlib_fast :: compression_config where
  "zlib_fast = \<lparr>level = 1, window_size = 15\<rparr>"

definition zlib_balanced :: compression_config where
  "zlib_balanced = \<lparr>level = 6, window_size = 15\<rparr>"

definition zlib_estimated_ratio :: "compression_config \<Rightarrow> nat" where
  "zlib_estimated_ratio c =
     (let l = unat (level c) in
      if l = 0 then 10 else if 1 \<le> l \<and> l \<le> 3 then 15 else if 4 \<le> l \<and> l \<le> 6 then 20 else 25)"

definition zstd_best :: compression_config where
  "zstd_best = \<lparr>level = 19, window_size = 0\<rparr>"

definition zstd_fast :: compression_config where
  "zstd_fast = \<lparr>level = 1, window_size = 0\<rparr>"

definition zstd_balanced :: compression_config where
  "zstd_balanced = \<lparr>level = 3, window_size = 0\<rparr>"

definition zstd_estimated_ratio :: "compression_config \<Rightarrow> nat" where
  "zstd_estimated_ratio c =
     (let l = unat (level c) in
      if l \<le> 2 then 20 else if 3 \<le> l \<and> l \<le> 6 then 30 else if 7 \<le> l \<and> l \<le> 12 then 40 else 50)"

lemmas ratio_defs = brotli_estimated_ratio_def zlib_estimated_ratio_def zstd_estimated_ratio_def
  brotli_max_compression_def brotli_fast_def brotli_balanced_def zlib_best_def zlib_fast_def
  zlib_balanced_def zstd_best_def zstd_fast_def zstd_balanced_def compression_config_default_def

text \<open>A higher level never has a lower estimate, for each of the three compressors.\<close>

lemma estimated_ratio_mono:
  assumes "level c \<le> level c'"
  shows "brotli_estimated_ratio c \<le> brotli_estimated_ratio c'"
    and "zlib_estimated_ratio c \<le> zlib_estimated_ratio c'"
    and "zstd_estimated_ratio c \<le> zstd_estimated_ratio c'"
  using assms
  by (auto simp: brotli_estimated_ratio_def zlib_estimated_ratio_def zstd_estimated_ratio_def
      Let_def word_le_nat_alt)

section \<open>Batch channels\<close>

text \<open>Polling a source \<open>k\<close> times and keeping the batches that came.\<close>

fun poll :: "('s \<Rightarrow> compressed_batch option \<times> 's) \<Rightarrow> nat \<Rightarrow> 's \<Rightarrow> compressed_batch list \<times> 's" where
  "poll next 0 s = ([], s)"
| "poll next (Suc k) s =
     (let (b, s') = next s; (bs, t) = poll next k s'
      in ((case b of None \<Rightarrow> bs | Some x \<Rightarrow> x # bs), t))"

text \<open>
  The batches a consumer took from a source: \<open>pulled f s bs t\<close> says that polling the source with
  \<open>f\<close>, any number of times, led from \<open>s\<close> to \<open>t\<close> and returned exactly the batches \<open>bs\<close>, in this
  order; the other polls found nothing or failed.
\<close>

inductive pulled :: "('s \<Rightarrow> ('e + compressed_batch option) \<times> 's) \<Rightarrow> 's \<Rightarrow> compressed_batch list \<Rightarrow> 's \<Rightarrow> bool"
  for f s where
  pulled_start: "pulled f s [] s"
| pulled_empty: "pulled f s bs t \<Longrightarrow> f t = (Inr None, u) \<Longrightarrow> pulled f s bs u"
| pulled_error: "pulled f s bs t \<Longrightarrow> f t = (Inl e, u) \<Longrightarrow> pulled f s bs u"
| pulled_batch: "pulled f s bs t \<Longrightarrow> f t = (Inr (Some b), u) \<Longrightarrow> pulled f s (bs @ [b]) u"

lemma pulled_trans:
  assumes "pulled f t cs u" and "pulled f s bs t"
  shows "pulled f s (bs @ cs) u"
  using assms
proof (induction rule: pulled.induct)
  case (pulled_batch cs t b u)
  then show ?case using pulled.pulled_batch [of f s "bs @ cs" t b u] by simp
qed (auto intro: pulled.intros)

lemma pulled_one:
  "f s = (Inr None, u) \<Longrightarrow> pulled f s [] u" "f s = (Inl e, u) \<Longrightarrow> pulled f s [] u"
  "f s = (Inr (Some b), u) \<Longrightarrow> pulled f s [b] u"
  using pulled_batch [OF pulled_start, of f s b u]
  by (auto intro: pulled_start pulled_empty [OF pulled_start] pulled_error [OF pulled_start])

text \<open>A source that is a queue hands out its batches from the front.\<close>

lemma pulled_queue:
  assumes "pulled f q bs q'" and "f [] = (Inr None, [])" and "\<And>b q. f (b # q) = (Inr (Some b), q)"
  shows "q = bs @ q'"
  using assms(1)
proof (induction rule: pulled.induct)
  case (pulled_empty bs t u)
  with assms(2,3) show ?case by (cases t) auto
next
  case (pulled_error bs t e u)
  with assms(2,3) show ?case by (cases t) auto
next
  case (pulled_batch bs t b u)
  with assms(2,3) show ?case by (cases t) auto
qed simp

text \<open>
  A \<^verbatim>\<open>BatchSink\<close> and an \<^verbatim>\<open>L1BatchSource\<close> over one store: what the sink accepts, the source
  returns, once and in order. The source may number the batches anew (the Anvil source does),
  so the law is about \<open>view\<close>, the part of a batch that the channel carries. \<open>invar k s\<close> says
  that the store is well formed and has room for \<open>k\<close> more batches.
\<close>

locale batch_channel =
  fixes submit :: "compressed_batch \<Rightarrow> 's \<Rightarrow> 's"
    and next_batch :: "'s \<Rightarrow> compressed_batch option \<times> 's"
    and view :: "compressed_batch \<Rightarrow> 'v"
    and contents :: "'s \<Rightarrow> 'v list"
    and invar :: "nat \<Rightarrow> 's \<Rightarrow> bool"
  assumes invar_submit: "invar (Suc k) s \<Longrightarrow> invar k (submit b s)"
    and invar_next: "invar k s \<Longrightarrow> invar k (snd (next_batch s))"
    and contents_submit: "invar (Suc k) s \<Longrightarrow> contents (submit b s) = contents s @ [view b]"
    and next_empty: "invar k s \<Longrightarrow> contents s = [] \<Longrightarrow>
      fst (next_batch s) = None \<and> contents (snd (next_batch s)) = []"
    and next_nonempty: "invar k s \<Longrightarrow> contents s \<noteq> [] \<Longrightarrow>
      map_option view (fst (next_batch s)) = Some (hd (contents s))
      \<and> contents (snd (next_batch s)) = tl (contents s)"
begin

lemma submits:
  "invar (length bs + k) s \<Longrightarrow>
     invar k (fold submit bs s) \<and> contents (fold submit bs s) = contents s @ map view bs"
proof (induction bs arbitrary: s)
  case Nil
  then show ?case by simp
next
  case (Cons b bs)
  then have inv: "invar (Suc (length bs + k)) s" by simp
  from Cons.IH [OF invar_submit [OF inv]] contents_submit [OF inv] show ?case by simp
qed

lemma poll_views:
  "invar m s \<Longrightarrow> map view (fst (poll next_batch k s)) = take k (contents s)
     \<and> contents (snd (poll next_batch k s)) = drop k (contents s)
     \<and> invar m (snd (poll next_batch k s))"
proof (induction k arbitrary: s)
  case 0
  then show ?case by simp
next
  case (Suc k)
  obtain b s' where step: "next_batch s = (b, s')" by force
  have inv': "invar m s'" using invar_next [OF Suc.prems] step by simp
  show ?case
  proof (cases "contents s")
    case Nil
    then have "b = None" and "contents s' = []"
      using next_empty [OF Suc.prems] step by auto
    with Nil Suc.IH [OF inv'] step show ?thesis
      by (cases "poll next_batch k s'") simp
  next
    case (Cons v vs)
    then obtain x where "b = Some x" and "view x = v" and "contents s' = vs"
      using next_nonempty [OF Suc.prems] step by auto
    with Cons Suc.IH [OF inv'] step show ?thesis
      by (cases "poll next_batch k s'") simp
  qed
qed

lemma delivery:
  assumes "invar (length bs) s" and "contents s = []" and "length bs \<le> k"
  shows "map view (fst (poll next_batch k (fold submit bs s))) = map view bs"
  using poll_views [of 0 "fold submit bs s" k] submits [of bs 0 s] assms by simp

end

end
