(* ===== verification/Checkpoint.thy ===== *)
theory Checkpoint
  imports Montana_Prelude
begin

text \<open>
  The checkpoint file (\<^verbatim>\<open>crates/node/checkpoint/src/lib.rs\<close>): the high-water marks of a
  node's progress and their persistence. The file system is a map from paths to contents; a
  call of \<^verbatim>\<open>std::fs\<close> that fails is chosen by the environment, and what it has done before
  failing is kept, so the state after a failed save is also the state after a crash at that point.
  \<^verbatim>\<open>serde_json\<close> is a parameter: \<open>ser\<close> is \<^verbatim>\<open>to_string_pretty\<close>, \<open>de\<close> is \<^verbatim>\<open>from_str\<close>,
  both \<open>None\<close> on an error.

  The locale \<open>high_water\<close> is the contract shared by the four \<^verbatim>\<open>record_*\<close> operations: the
  recorded value is the largest one seen.
\<close>

section \<open>Paths and files\<close>

text \<open>
  A path with a file name: the parent as written (empty for a bare file name) and the name.
\<close>

record path =
  parent_dir :: string
  file_name :: string

definition file_stem :: "string \<Rightarrow> string" where
  "file_stem name =
     (case dropWhile (\<lambda>c. c \<noteq> CHR ''.'') (rev name) of
        [] \<Rightarrow> name
      | _ # r \<Rightarrow> (if r = [] then name else rev r))"

definition with_extension :: "path \<Rightarrow> string \<Rightarrow> path" where
  "with_extension p ext = p\<lparr>file_name := file_stem (file_name p) @ ''.'' @ ext\<rparr>"

lemma with_extension_parent [simp]: "parent_dir (with_extension p ext) = parent_dir p"
  by (simp add: with_extension_def)

record file_system =
  files :: "path \<Rightarrow> string option"
  dirs :: "string set"

text \<open>Which call of the save sequence fails, if any, and how much of a write is on disk then.\<close>

datatype io_fault = MkdirFails | WriteFails nat | RenameFails

datatype checkpoint_error = Io | Serialize

section \<open>The checkpoint\<close>

record checkpoint =
  last_batch_submitted :: u64
  last_batch_derived :: u64
  last_block_executed :: u64
  synced_to_block :: u64
  updated_at :: u64

definition checkpoint_default :: checkpoint where
  "checkpoint_default =
     \<lparr>last_batch_submitted = 0, last_batch_derived = 0, last_block_executed = 0,
      synced_to_block = 0, updated_at = 0\<rparr>"

text \<open>\<open>readable\<close> is \<open>False\<close> when \<^verbatim>\<open>read_to_string\<close> fails with an error other than NotFound.\<close>

definition load :: "(string \<Rightarrow> checkpoint option) \<Rightarrow> bool \<Rightarrow> file_system \<Rightarrow> path
    \<Rightarrow> checkpoint_error + checkpoint option" where
  "load de readable fs p =
     (if \<not> readable then Inl Io
      else case files fs p of
        None \<Rightarrow> Inr None
      | Some contents \<Rightarrow>
          (case de contents of None \<Rightarrow> Inl Serialize | Some cp \<Rightarrow> Inr (Some cp)))"

definition save :: "(checkpoint \<Rightarrow> string option) \<Rightarrow> io_fault option \<Rightarrow> checkpoint \<Rightarrow> path
    \<Rightarrow> file_system \<Rightarrow> (checkpoint_error + unit) \<times> file_system" where
  "save ser fault cp p fs =
     (case ser cp of
        None \<Rightarrow> (Inl Serialize, fs)
      | Some json \<Rightarrow>
          if parent_dir p \<noteq> [] \<and> fault = Some MkdirFails then (Inl Io, fs)
          else
            let fs = (if parent_dir p \<noteq> [] then fs\<lparr>dirs := insert (parent_dir p) (dirs fs)\<rparr> else fs);
                temp = with_extension p ''tmp''
            in (case fault of
                  Some (WriteFails n) \<Rightarrow>
                    (Inl Io, fs\<lparr>files := (files fs)(temp \<mapsto> take n json)\<rparr>)
                | _ \<Rightarrow>
                    let fs = fs\<lparr>files := (files fs)(temp \<mapsto> json)\<rparr>
                    in if fault = Some RenameFails then (Inl Io, fs)
                       else (Inr (), fs\<lparr>files := ((files fs)(temp := None))(p := files fs temp)\<rparr>)))"

text \<open>\<^verbatim>\<open>SystemTime::now()\<close> in seconds since the epoch is the argument \<open>now\<close>.\<close>

definition touch :: "u64 \<Rightarrow> checkpoint \<Rightarrow> checkpoint" where
  "touch now cp = cp\<lparr>updated_at := now\<rparr>"

definition should_skip_batch :: "checkpoint \<Rightarrow> u64 \<Rightarrow> bool" where
  "should_skip_batch cp n =
     (if last_batch_submitted cp = 0 then False else n \<le> last_batch_submitted cp)"

definition record_batch_submitted :: "u64 \<Rightarrow> checkpoint \<Rightarrow> checkpoint" where
  "record_batch_submitted n cp =
     (if last_batch_submitted cp < n then cp\<lparr>last_batch_submitted := n\<rparr> else cp)"

definition record_batch_derived :: "u64 \<Rightarrow> checkpoint \<Rightarrow> checkpoint" where
  "record_batch_derived n cp =
     (if last_batch_derived cp < n then cp\<lparr>last_batch_derived := n\<rparr> else cp)"

definition record_block_executed :: "u64 \<Rightarrow> checkpoint \<Rightarrow> checkpoint" where
  "record_block_executed n cp =
     (if last_block_executed cp < n then cp\<lparr>last_block_executed := n\<rparr> else cp)"

definition record_sync_progress :: "u64 \<Rightarrow> checkpoint \<Rightarrow> checkpoint" where
  "record_sync_progress n cp =
     (if synced_to_block cp < n then cp\<lparr>synced_to_block := n\<rparr> else cp)"

lemmas record_defs = record_batch_submitted_def record_batch_derived_def
  record_block_executed_def record_sync_progress_def

section \<open>High-water marks\<close>

locale high_water =
  fixes mark :: "checkpoint \<Rightarrow> u64" and record_mark :: "u64 \<Rightarrow> checkpoint \<Rightarrow> checkpoint"
  assumes mark_record [simp]: "mark (record_mark n cp) = max (mark cp) n"
begin

lemma mark_mono: "mark cp \<le> mark (record_mark n cp)"
  by simp

lemma mark_fold: "mark (fold record_mark ns cp) = foldl max (mark cp) ns"
  by (induction ns arbitrary: cp) auto

lemma mark_fold_Max: "mark (fold record_mark ns cp) = Max (insert (mark cp) (set ns))"
proof (induction ns arbitrary: cp)
  case Nil
  then show ?case by simp
next
  case (Cons n ns)
  have "mark (fold record_mark (n # ns) cp) = Max (insert (max (mark cp) n) (set ns))"
    using Cons [of "record_mark n cp"] by simp
  also have "\<dots> = Max (insert (mark cp) (set (n # ns)))"
    by (cases "set ns = {}") (simp_all add: max.assoc)
  finally show ?case .
qed

lemma mark_fold_perm: "set ns = set ms \<Longrightarrow> mark (fold record_mark ns cp) = mark (fold record_mark ms cp)"
  by (simp add: mark_fold_Max)

end

interpretation submitted: high_water last_batch_submitted record_batch_submitted
  by unfold_locales (auto simp: record_defs max_def)

interpretation derived: high_water last_batch_derived record_batch_derived
  by unfold_locales (auto simp: record_defs max_def)

interpretation executed: high_water last_block_executed record_block_executed
  by unfold_locales (auto simp: record_defs max_def)

interpretation synced: high_water synced_to_block record_sync_progress
  by unfold_locales (auto simp: record_defs max_def)

text \<open>Each operation writes its own mark only.\<close>

lemma record_frames [frame_simps, simp]:
  "last_batch_derived (record_batch_submitted n cp) = last_batch_derived cp"
  "last_block_executed (record_batch_submitted n cp) = last_block_executed cp"
  "synced_to_block (record_batch_submitted n cp) = synced_to_block cp"
  "last_batch_submitted (record_batch_derived n cp) = last_batch_submitted cp"
  "last_block_executed (record_batch_derived n cp) = last_block_executed cp"
  "synced_to_block (record_batch_derived n cp) = synced_to_block cp"
  "last_batch_submitted (record_block_executed n cp) = last_batch_submitted cp"
  "last_batch_derived (record_block_executed n cp) = last_batch_derived cp"
  "synced_to_block (record_block_executed n cp) = synced_to_block cp"
  "last_batch_submitted (record_sync_progress n cp) = last_batch_submitted cp"
  "last_batch_derived (record_sync_progress n cp) = last_batch_derived cp"
  "last_block_executed (record_sync_progress n cp) = last_block_executed cp"
  by (simp_all add: record_defs)

lemma touch_frames [frame_simps, simp]:
  "last_batch_submitted (touch now cp) = last_batch_submitted cp"
  "last_batch_derived (touch now cp) = last_batch_derived cp"
  "last_block_executed (touch now cp) = last_block_executed cp"
  "synced_to_block (touch now cp) = synced_to_block cp"
  by (simp_all add: touch_def)

lemma should_skip_batch_iff:
  "should_skip_batch cp n \<longleftrightarrow> last_batch_submitted cp \<noteq> 0 \<and> n \<le> last_batch_submitted cp"
  by (simp add: should_skip_batch_def)

lemma should_skip_batch_touch [simp]: "should_skip_batch (touch now cp) n = should_skip_batch cp n"
  by (simp add: should_skip_batch_iff)

text \<open>
  The submission mark is a high-water mark. Whatever batch numbers are recorded, in any
  order and with repetitions, afterwards exactly the batches up to the largest of them (or up
  to the old mark) are skipped, provided one of them is not the reserved number 0.
\<close>

theorem skip_after_records:
  "should_skip_batch (fold record_batch_submitted ns cp) n =
     (let m = Max (insert (last_batch_submitted cp) (set ns)) in m \<noteq> 0 \<and> n \<le> m)"
  by (simp add: should_skip_batch_iff submitted.mark_fold_Max Let_def)

text \<open>
  Batches once skipped stay skipped: no operation on the checkpoint other than replacing
  it makes a submitted batch due again.
\<close>

theorem skip_monotone:
  assumes "should_skip_batch cp n"
  shows "should_skip_batch (record_batch_submitted b cp) n
    \<and> should_skip_batch (record_batch_derived b cp) n
    \<and> should_skip_batch (record_block_executed b cp) n
    \<and> should_skip_batch (record_sync_progress b cp) n
    \<and> should_skip_batch (touch now cp) n"
proof -
  have "should_skip_batch (record_batch_submitted b cp) n"
    using assms submitted.mark_mono [of cp b]
    by (auto simp: should_skip_batch_iff max_def split: if_splits)
  with assms show ?thesis by (simp add: should_skip_batch_iff)
qed

theorem skip_monotone_witness:
  "should_skip_batch (record_batch_submitted 3 (checkpoint_default\<lparr>last_batch_submitted := 7\<rparr>)) 5"
proof -
  have "should_skip_batch (checkpoint_default\<lparr>last_batch_submitted := 7\<rparr>) 5"
    by (simp add: should_skip_batch_def)
  from skip_monotone [OF this] show ?thesis by blast
qed

section \<open>Persistence\<close>

text \<open>The temporary file is another file unless the checkpoint's own extension is \<open>tmp\<close>.\<close>

definition has_tmp_extension :: "path \<Rightarrow> bool" where
  "has_tmp_extension p = (drop (length (file_name p) - 4) (file_name p) = ''.tmp'')"

lemma temp_differs: "\<not> has_tmp_extension p \<Longrightarrow> with_extension p ''tmp'' \<noteq> p"
proof
  assume "\<not> has_tmp_extension p" and eq: "with_extension p ''tmp'' = p"
  obtain s where "file_name (with_extension p ''tmp'') = s @ ''.tmp''"
    by (auto simp: with_extension_def)
  then have "file_name p = s @ ''.tmp''" by (simp add: eq)
  then have "has_tmp_extension p" by (simp add: has_tmp_extension_def)
  with \<open>\<not> has_tmp_extension p\<close> show False by simp
qed

lemma save_Ok_iff:
  "(\<exists>fs'. save ser fault cp p fs = (Inr (), fs')) \<longleftrightarrow>
     (\<exists>json. ser cp = Some json) \<and> (fault = None \<or> (fault = Some MkdirFails \<and> parent_dir p = []))"
  by (auto simp: save_def Let_def split: option.splits io_fault.splits)

lemma save_Ok_files:
  assumes "save ser fault cp p fs = (Inr (), fs')" and "ser cp = Some json"
  shows "files fs' = (files fs)(with_extension p ''tmp'' := None, p := Some json)"
  using assms
  by (auto simp: save_def Let_def split: option.splits io_fault.splits if_splits)

lemma save_Err_files:
  assumes "save ser fault cp p fs = (Inl e, fs')"
  shows "\<forall>q. q \<noteq> with_extension p ''tmp'' \<longrightarrow> files fs' q = files fs q"
  using assms
  by (auto simp: save_def Let_def split: option.splits io_fault.splits if_splits)

text \<open>
  C29: saving is atomic. Whichever call fails and however much of the temporary file was
  written, the checkpoint file afterwards holds its old contents or the complete new ones: it
  is the new ones exactly when \<^verbatim>\<open>save\<close> returns Ok, and no file other than it and the temporary
  file changes. This needs the checkpoint's name not to end in \<^verbatim>\<open>.tmp\<close> already.
\<close>

theorem save_atomic:
  assumes "\<not> has_tmp_extension p" and "save ser fault cp p fs = (r, fs')"
  shows "files fs' p = (case r of Inl _ \<Rightarrow> files fs p | Inr _ \<Rightarrow> ser cp)
    \<and> (\<forall>q. q \<noteq> p \<and> q \<noteq> with_extension p ''tmp'' \<longrightarrow> files fs' q = files fs q)"
proof (cases r)
  case (Inl e)
  then show ?thesis
    using save_Err_files [of ser fault cp p fs e fs'] assms temp_differs [of p] by auto
next
  case (Inr u)
  then obtain json where "ser cp = Some json"
    using assms(2) save_Ok_iff [of ser fault cp p fs] by auto
  with Inr show ?thesis using save_Ok_files assms(2) by auto
qed

definition demo_path :: path where
  "demo_path = \<lparr>parent_dir = ''./data'', file_name = ''checkpoint.json''\<rparr>"

definition demo_ser :: "checkpoint \<Rightarrow> string option" where
  "demo_ser cp = Some (replicate (unat (last_batch_submitted cp)) CHR ''x'')"

theorem save_atomic_witness:
  "files (snd (save demo_ser (Some (WriteFails 1)) (checkpoint_default\<lparr>last_batch_submitted := 3\<rparr>)
     demo_path \<lparr>files = [demo_path \<mapsto> ''xx''], dirs = {}\<rparr>)) demo_path = Some ''xx''"
proof -
  let ?s = "save demo_ser (Some (WriteFails 1)) (checkpoint_default\<lparr>last_batch_submitted := 3\<rparr>)
     demo_path \<lparr>files = [demo_path \<mapsto> ''xx''], dirs = {}\<rparr>"
  have "\<not> has_tmp_extension demo_path"
    by (simp add: has_tmp_extension_def demo_path_def)
  moreover have "?s = (Inl Io, snd ?s)"
    by (simp add: save_def demo_ser_def Let_def)
  ultimately show ?thesis using save_atomic by fastforce
qed

text \<open>
  With a checkpoint name that already ends in \<^verbatim>\<open>.tmp\<close> the temporary file is the checkpoint
  itself, and a failed write truncates it.
\<close>

lemma save_not_atomic_for_tmp:
  "files (snd (save demo_ser (Some (WriteFails 1)) (checkpoint_default\<lparr>last_batch_submitted := 3\<rparr>)
     \<lparr>parent_dir = [], file_name = ''cp.tmp''\<rparr>
     \<lparr>files = [\<lparr>parent_dir = [], file_name = ''cp.tmp''\<rparr> \<mapsto> ''xx''], dirs = {}\<rparr>))
     \<lparr>parent_dir = [], file_name = ''cp.tmp''\<rparr> = Some ''x''"
  by (simp add: save_def demo_ser_def with_extension_def file_stem_def Let_def)

text \<open>
  What is saved is what is loaded: after a save that returned Ok, a load from the same
  path returns the saved checkpoint, given that \<^verbatim>\<open>serde_json\<close> reads back what it wrote.
\<close>

lemma save_load_roundtrip:
  assumes "\<And>c json. ser c = Some json \<Longrightarrow> de json = Some c"
    and "save ser fault cp p fs = (Inr (), fs')"
  shows "load de True fs' p = Inr (Some cp)"
proof -
  obtain json where json: "ser cp = Some json"
    using assms(2) save_Ok_iff [of ser fault cp p fs] by auto
  then have "files fs' p = Some json"
    using save_Ok_files [OF assms(2)] by simp
  with assms(1) [OF json] show ?thesis by (simp add: load_def)
qed

text \<open>A serializer for the witness: the five marks in unary, separated by dots.\<close>

definition unary :: "u64 \<Rightarrow> string" where
  "unary n = replicate (unat n) CHR ''1'' @ ''.''"

fun read_unary :: "string \<Rightarrow> u64 \<times> string" where
  "read_unary [] = (0, [])"
| "read_unary (c # cs) =
     (if c = CHR ''1'' then (let (n, r) = read_unary cs in (n + 1, r)) else (0, cs))"

lemma read_unary_ones: "read_unary (replicate k CHR ''1'' @ ''.'' @ r) = (word_of_nat k, r)"
  by (induction k) (auto simp: Let_def add.commute)

lemma read_unary_unary [simp]: "read_unary (unary n @ r) = (n, r)"
  using read_unary_ones [of "unat n" r] by (simp add: unary_def)

definition unary_ser :: "checkpoint \<Rightarrow> string option" where
  "unary_ser cp = Some (unary (last_batch_submitted cp) @ unary (last_batch_derived cp) @
     unary (last_block_executed cp) @ unary (synced_to_block cp) @ unary (updated_at cp) @ [])"

definition unary_de :: "string \<Rightarrow> checkpoint option" where
  "unary_de s =
     (let (a, s) = read_unary s; (b, s) = read_unary s; (c, s) = read_unary s;
          (d, s) = read_unary s; (e, s) = read_unary s
      in Some \<lparr>last_batch_submitted = a, last_batch_derived = b, last_block_executed = c,
               synced_to_block = d, updated_at = e\<rparr>)"

lemma unary_roundtrip: "unary_ser c = Some json \<Longrightarrow> unary_de json = Some c"
  by (auto simp: unary_ser_def unary_de_def Let_def simp del: append_Nil2)

theorem save_load_roundtrip_witness:
  "load unary_de True
     (snd (save unary_ser None (checkpoint_default\<lparr>last_batch_submitted := 3\<rparr>) demo_path
        \<lparr>files = Map.empty, dirs = {}\<rparr>)) demo_path
   = Inr (Some (checkpoint_default\<lparr>last_batch_submitted := 3\<rparr>))"
proof (rule save_load_roundtrip [OF unary_roundtrip])
  let ?s = "save unary_ser None (checkpoint_default\<lparr>last_batch_submitted := 3\<rparr>) demo_path
        \<lparr>files = Map.empty, dirs = {}\<rparr>"
  show "?s = (Inr (), snd ?s)"
    by (simp add: save_def unary_ser_def Let_def)
qed

end
