(* ===== verification/Role.thy ===== *)
theory Role
  imports Pipeline Checkpoint
begin

text \<open>
  What the two roles of a node share (\<^verbatim>\<open>crates/node/roles/src/lib.rs\<close>): the result of a tick,
  the marks a role reports, the errors a tick can return, and the construction of a role's
  checkpoint from an optional path.
\<close>

datatype tick_result = Progress | Idle | Complete

record role_checkpoint =
  rc_last_batch_submitted :: "u64 option"
  rc_last_batch_derived :: "u64 option"
  rc_last_block_processed :: "u64 option"

definition role_checkpoint_default :: role_checkpoint where
  "role_checkpoint_default =
     \<lparr>rc_last_batch_submitted = None, rc_last_batch_derived = None, rc_last_block_processed = None\<rparr>"

text \<open>What \<^verbatim>\<open>eyre::Report\<close> is made from in the roles.\<close>

datatype role_error =
    RoleSink sink_error
  | RoleCheckpoint checkpoint_error
  | RoleCompression compression_error
  | RoleReport string

text \<open>
  \<^verbatim>\<open>if let Some(path) = checkpoint_path { Checkpoint::load(path)?.unwrap_or_default() }\<close>, and
  the default checkpoint when there is no path.
\<close>

definition initial_checkpoint :: "(string \<Rightarrow> checkpoint option) \<Rightarrow> bool \<Rightarrow> file_system
    \<Rightarrow> path option \<Rightarrow> role_error + checkpoint" where
  "initial_checkpoint de readable fs p =
     (case p of
        None \<Rightarrow> Inr checkpoint_default
      | Some q \<Rightarrow> rbind (map_err RoleCheckpoint (load de readable fs q))
          (\<lambda>cp. Inr (case cp of None \<Rightarrow> checkpoint_default | Some c \<Rightarrow> c)))"

text \<open>\<^verbatim>\<open>if let Some(path) = self.checkpoint_path { self.checkpoint.save(path)? }\<close>.\<close>

definition save_if_path :: "(checkpoint \<Rightarrow> string option) \<Rightarrow> io_fault option \<Rightarrow> checkpoint
    \<Rightarrow> path option \<Rightarrow> file_system \<Rightarrow> (role_error + unit) \<times> file_system" where
  "save_if_path ser fault cp p fs =
     (case p of
        None \<Rightarrow> (Inr (), fs)
      | Some q \<Rightarrow> (case save ser fault cp q fs of (r, fs') \<Rightarrow> (map_err RoleCheckpoint r, fs')))"

lemma save_if_path_Inl: "save_if_path ser fault cp p fs = (Inl e, fs') \<Longrightarrow> \<exists>c. e = RoleCheckpoint c"
  by (auto simp: save_if_path_def split: option.splits prod.splits)

lemma save_if_path_ok: "ser c \<noteq> None \<Longrightarrow> fst (save_if_path ser None c p fs) = Inr ()"
proof (cases p)
  case (Some q)
  assume "ser c \<noteq> None"
  then obtain fs' where "save ser None c q fs = (Inr (), fs')"
    using save_Ok_iff [of ser None c q fs] by auto
  with Some show ?thesis by (simp add: save_if_path_def)
qed (simp add: save_if_path_def)

text \<open>The \<^verbatim>\<open>Display\<close> of a compression error.\<close>

fun show_compression_error :: "compression_error \<Rightarrow> string" where
  "show_compression_error (CompressionFailed s) = ''Compression failed: '' @ s"
| "show_compression_error Corrupted = ''Decompression failed: corrupted data''"
| "show_compression_error (TooLarge n m) = ''Input too large: '' @ dec n @ '' > '' @ dec m"

end
