(* ===== verification/Batcher.thy ===== *)
theory Batcher
  imports Pipeline Checkpoint
begin

text \<open>
  The batcher (\<^verbatim>\<open>crates/consensus/batcher\<close>): its configuration with the builder, its errors,
  its metrics, the \<^verbatim>\<open>BatchDriver\<close> that groups blocks into numbered batches, and the
  \<^verbatim>\<open>BatcherService\<close> around it.

  \<^verbatim>\<open>Instant::now()\<close> is the argument \<open>now\<close>. The driver's abstract specification is a ledger:
  the blocks of the batches built so far followed by the pending ones are the blocks added.
\<close>

section \<open>Configuration\<close>

text \<open>\<^verbatim>\<open>Duration::from_secs(1)\<close>, in nanoseconds.\<close>

definition SECS :: duration where "SECS = 1000000000"

record batcher_config =
  max_batch_size :: usize
  max_blocks_per_batch :: u16
  batch_interval :: duration
  min_batch_size :: usize
  use_blobs :: bool
  max_blob_fee_per_gas :: u128
  max_blobs_per_tx :: usize
  num_confirmations :: u64
  resubmission_timeout :: duration
  network_timeout :: duration
  max_l1_drift :: u64
  sequencing_window :: u64
  safe_confirmations :: u64

definition batcher_config_default :: batcher_config where
  "batcher_config_default =
     \<lparr>max_batch_size = 128 * 1024,
      max_blocks_per_batch = 100,
      batch_interval = 12 * SECS,
      min_batch_size = 1024,
      use_blobs = True,
      max_blob_fee_per_gas = 10000000000,
      max_blobs_per_tx = 6,
      num_confirmations = 10,
      resubmission_timeout = 48 * SECS,
      network_timeout = 10 * SECS,
      max_l1_drift = 30,
      sequencing_window = 3600,
      safe_confirmations = 12\<rparr>"

record batcher_config_builder =
  b_max_batch_size :: usize
  b_max_blocks_per_batch :: u16
  b_batch_interval :: duration
  b_min_batch_size :: usize
  b_use_blobs :: bool
  b_max_blob_fee_per_gas :: u128
  b_max_blobs_per_tx :: usize
  b_num_confirmations :: u64
  b_resubmission_timeout :: duration
  b_network_timeout :: duration
  b_max_l1_drift :: u64
  b_sequencing_window :: u64
  b_safe_confirmations :: u64

definition builder :: batcher_config_builder where
  "builder =
     (let defaults = batcher_config_default in
      \<lparr>b_max_batch_size = max_batch_size defaults,
       b_max_blocks_per_batch = max_blocks_per_batch defaults,
       b_batch_interval = batch_interval defaults,
       b_min_batch_size = min_batch_size defaults,
       b_use_blobs = use_blobs defaults,
       b_max_blob_fee_per_gas = max_blob_fee_per_gas defaults,
       b_max_blobs_per_tx = max_blobs_per_tx defaults,
       b_num_confirmations = num_confirmations defaults,
       b_resubmission_timeout = resubmission_timeout defaults,
       b_network_timeout = network_timeout defaults,
       b_max_l1_drift = max_l1_drift defaults,
       b_sequencing_window = sequencing_window defaults,
       b_safe_confirmations = safe_confirmations defaults\<rparr>)"

definition set_max_batch_size :: "usize \<Rightarrow> batcher_config_builder \<Rightarrow> batcher_config_builder" where
  "set_max_batch_size v b = b\<lparr>b_max_batch_size := v\<rparr>"

definition set_max_blocks_per_batch :: "u16 \<Rightarrow> batcher_config_builder \<Rightarrow> batcher_config_builder" where
  "set_max_blocks_per_batch v b = b\<lparr>b_max_blocks_per_batch := v\<rparr>"

definition set_batch_interval :: "duration \<Rightarrow> batcher_config_builder \<Rightarrow> batcher_config_builder" where
  "set_batch_interval v b = b\<lparr>b_batch_interval := v\<rparr>"

definition set_min_batch_size :: "usize \<Rightarrow> batcher_config_builder \<Rightarrow> batcher_config_builder" where
  "set_min_batch_size v b = b\<lparr>b_min_batch_size := v\<rparr>"

definition set_use_blobs :: "bool \<Rightarrow> batcher_config_builder \<Rightarrow> batcher_config_builder" where
  "set_use_blobs v b = b\<lparr>b_use_blobs := v\<rparr>"

definition set_max_blob_fee_per_gas :: "u128 \<Rightarrow> batcher_config_builder \<Rightarrow> batcher_config_builder" where
  "set_max_blob_fee_per_gas v b = b\<lparr>b_max_blob_fee_per_gas := v\<rparr>"

definition set_max_blobs_per_tx :: "usize \<Rightarrow> batcher_config_builder \<Rightarrow> batcher_config_builder" where
  "set_max_blobs_per_tx v b = b\<lparr>b_max_blobs_per_tx := v\<rparr>"

definition set_num_confirmations :: "u64 \<Rightarrow> batcher_config_builder \<Rightarrow> batcher_config_builder" where
  "set_num_confirmations v b = b\<lparr>b_num_confirmations := v\<rparr>"

definition set_resubmission_timeout :: "duration \<Rightarrow> batcher_config_builder \<Rightarrow> batcher_config_builder" where
  "set_resubmission_timeout v b = b\<lparr>b_resubmission_timeout := v\<rparr>"

definition set_network_timeout :: "duration \<Rightarrow> batcher_config_builder \<Rightarrow> batcher_config_builder" where
  "set_network_timeout v b = b\<lparr>b_network_timeout := v\<rparr>"

definition set_max_l1_drift :: "u64 \<Rightarrow> batcher_config_builder \<Rightarrow> batcher_config_builder" where
  "set_max_l1_drift v b = b\<lparr>b_max_l1_drift := v\<rparr>"

definition set_sequencing_window :: "u64 \<Rightarrow> batcher_config_builder \<Rightarrow> batcher_config_builder" where
  "set_sequencing_window v b = b\<lparr>b_sequencing_window := v\<rparr>"

definition set_safe_confirmations :: "u64 \<Rightarrow> batcher_config_builder \<Rightarrow> batcher_config_builder" where
  "set_safe_confirmations v b = b\<lparr>b_safe_confirmations := v\<rparr>"

definition build :: "batcher_config_builder \<Rightarrow> batcher_config" where
  "build b =
     \<lparr>max_batch_size = b_max_batch_size b,
      max_blocks_per_batch = b_max_blocks_per_batch b,
      batch_interval = b_batch_interval b,
      min_batch_size = b_min_batch_size b,
      use_blobs = b_use_blobs b,
      max_blob_fee_per_gas = b_max_blob_fee_per_gas b,
      max_blobs_per_tx = b_max_blobs_per_tx b,
      num_confirmations = b_num_confirmations b,
      resubmission_timeout = b_resubmission_timeout b,
      network_timeout = b_network_timeout b,
      max_l1_drift = b_max_l1_drift b,
      sequencing_window = b_sequencing_window b,
      safe_confirmations = b_safe_confirmations b\<rparr>"

lemmas setter_defs = set_max_batch_size_def set_max_blocks_per_batch_def set_batch_interval_def set_min_batch_size_def set_use_blobs_def set_max_blob_fee_per_gas_def set_max_blobs_per_tx_def set_num_confirmations_def set_resubmission_timeout_def set_network_timeout_def set_max_l1_drift_def set_sequencing_window_def set_safe_confirmations_def

text \<open>A setter followed by \<^verbatim>\<open>build\<close> changes its own field of the configuration and no other.\<close>

lemma build_set [simp]:
  "build (set_max_batch_size k b) = (build b)\<lparr>max_batch_size := k\<rparr>"
  "build (set_max_blocks_per_batch w b) = (build b)\<lparr>max_blocks_per_batch := w\<rparr>"
  "build (set_batch_interval k b) = (build b)\<lparr>batch_interval := k\<rparr>"
  "build (set_min_batch_size k b) = (build b)\<lparr>min_batch_size := k\<rparr>"
  "build (set_use_blobs flag b) = (build b)\<lparr>use_blobs := flag\<rparr>"
  "build (set_max_blob_fee_per_gas fee b) = (build b)\<lparr>max_blob_fee_per_gas := fee\<rparr>"
  "build (set_max_blobs_per_tx k b) = (build b)\<lparr>max_blobs_per_tx := k\<rparr>"
  "build (set_num_confirmations n b) = (build b)\<lparr>num_confirmations := n\<rparr>"
  "build (set_resubmission_timeout k b) = (build b)\<lparr>resubmission_timeout := k\<rparr>"
  "build (set_network_timeout k b) = (build b)\<lparr>network_timeout := k\<rparr>"
  "build (set_max_l1_drift n b) = (build b)\<lparr>max_l1_drift := n\<rparr>"
  "build (set_sequencing_window n b) = (build b)\<lparr>sequencing_window := n\<rparr>"
  "build (set_safe_confirmations n b) = (build b)\<lparr>safe_confirmations := n\<rparr>"
  by (simp_all add: build_def setter_defs)

lemma build_builder [simp]: "build builder = batcher_config_default"
  by (simp add: build_def builder_def batcher_config_default_def Let_def)

section \<open>Errors\<close>

datatype batcher_error =
    SourceUnavailable string
  | NoPendingBlocks
  | SequenceGap u64 u64  \<comment> \<open>expected, got\<close>
  | BatcherCompressionFailed string
  | BatchTooLarge usize usize  \<comment> \<open>size, max\<close>
  | SubmissionFailed string
  | BlobGasTooExpensive u128 u128  \<comment> \<open>current, max\<close>
  | ConfirmationTimeout
  | L1DriftExceeded u64 u64  \<comment> \<open>drift, max\<close>
  | SequencingWindowExpired
  | PipelineError string
  | TxManager string

fun is_retryable :: "batcher_error \<Rightarrow> bool" where
  "is_retryable (SourceUnavailable _) = True"
| "is_retryable (SubmissionFailed _) = True"
| "is_retryable (BlobGasTooExpensive _ _) = True"
| "is_retryable ConfirmationTimeout = True"
| "is_retryable _ = False"

fun is_fatal :: "batcher_error \<Rightarrow> bool" where
  "is_fatal SequencingWindowExpired = True"
| "is_fatal (L1DriftExceeded _ _) = True"
| "is_fatal _ = False"

lemma retryable_not_fatal: "is_retryable e \<Longrightarrow> \<not> is_fatal e"
  by (cases e) auto

section \<open>Metrics\<close>

text \<open>\<^verbatim>\<open>compression_ratio\<close> divides two \<^verbatim>\<open>f64\<close>; the model gives its numerator and denominator.\<close>

record batcher_metrics =
  batches_submitted :: u64
  batches_failed :: u64
  blocks_processed :: u64
  metrics_pending_blocks :: u64
  l2_safe_block :: u64
  total_uncompressed_bytes :: u64
  total_compressed_bytes :: u64
  l1_gas_used :: u64
  blob_gas_used :: u64
  tx_resubmissions :: u64
  l1_drift :: u64

definition batcher_metrics_default :: batcher_metrics where
  "batcher_metrics_default =
     \<lparr>batches_submitted = 0, batches_failed = 0, blocks_processed = 0,
      metrics_pending_blocks = 0, l2_safe_block = 0, total_uncompressed_bytes = 0,
      total_compressed_bytes = 0, l1_gas_used = 0, blob_gas_used = 0, tx_resubmissions = 0,
      l1_drift = 0\<rparr>"

definition record_submission :: "u64 \<Rightarrow> u64 \<Rightarrow> u64 \<Rightarrow> batcher_metrics \<Rightarrow> batcher_metrics" where
  "record_submission uncompressed compressed gas_used m =
     m\<lparr>batches_submitted := batches_submitted m + 1,
       total_uncompressed_bytes := total_uncompressed_bytes m + uncompressed,
       total_compressed_bytes := total_compressed_bytes m + compressed,
       l1_gas_used := l1_gas_used m + gas_used\<rparr>"

definition record_failure :: "batcher_metrics \<Rightarrow> batcher_metrics" where
  "record_failure m = m\<lparr>batches_failed := batches_failed m + 1\<rparr>"

definition record_blocks :: "u64 \<Rightarrow> batcher_metrics \<Rightarrow> batcher_metrics" where
  "record_blocks count m = m\<lparr>blocks_processed := blocks_processed m + count\<rparr>"

definition set_pending_blocks :: "u64 \<Rightarrow> batcher_metrics \<Rightarrow> batcher_metrics" where
  "set_pending_blocks count m = m\<lparr>metrics_pending_blocks := count\<rparr>"

definition compression_ratio :: "batcher_metrics \<Rightarrow> nat \<times> nat" where
  "compression_ratio m =
     (if total_uncompressed_bytes m = 0 then (1, 1)
      else (unat (total_uncompressed_bytes m), unat (max (total_compressed_bytes m) 1)))"

lemma compression_ratio_defined: "0 < snd (compression_ratio m)"
  by (auto simp: compression_ratio_def max_def unat_gt_0)

section \<open>The batch driver\<close>

record pending_batch =
  pending_batch_number :: u64
  pending_batch_blocks :: "l2_block_data list"
  uncompressed_size :: usize

record batch_driver =
  driver_config :: batcher_config
  pending_blocks :: "l2_block_data list"
  current_size :: usize
  last_submission :: instant
  next_number :: u64
  driver_checkpoint :: checkpoint
  driver_checkpoint_path :: "path option"

definition driver_new :: "instant \<Rightarrow> batcher_config \<Rightarrow> batch_driver" where
  "driver_new now cfg =
     \<lparr>driver_config = cfg, pending_blocks = [], current_size = 0, last_submission = now,
      next_number = 1, driver_checkpoint = checkpoint_default, driver_checkpoint_path = None\<rparr>"

definition block_size :: "l2_block_data \<Rightarrow> usize" where
  "block_size b = sum_list (map length (l2_transactions b))"

primrec add_blocks :: "l2_block_data list \<Rightarrow> batch_driver \<Rightarrow> batch_driver" where
  "add_blocks [] d = d"
| "add_blocks (b # bs) d =
     add_blocks bs (d\<lparr>current_size := current_size d + block_size b,
                      pending_blocks := pending_blocks d @ [b]\<rparr>)"

definition size_ready :: "batch_driver \<Rightarrow> bool" where
  "size_ready d = (min_batch_size (driver_config d) \<le> current_size d)"

definition time_ready :: "instant \<Rightarrow> batch_driver \<Rightarrow> bool" where
  "time_ready now d = (batch_interval (driver_config d) \<le> now - last_submission d)"

definition max_blocks :: "batch_driver \<Rightarrow> usize" where
  "max_blocks d = unat (max_blocks_per_batch (driver_config d))"

definition blocks_ready :: "batch_driver \<Rightarrow> bool" where
  "blocks_ready d = (max_blocks d \<le> length (pending_blocks d))"

definition should_submit :: "instant \<Rightarrow> batch_driver \<Rightarrow> bool" where
  "should_submit now d = (size_ready d \<or> time_ready now d \<or> blocks_ready d)"

text \<open>The \<^verbatim>\<open>while\<close> loop: blocks taken so far and blocks still pending.\<close>

function drain_loop :: "nat \<Rightarrow> l2_block_data list \<times> l2_block_data list
    \<Rightarrow> l2_block_data list \<times> l2_block_data list" where
  "drain_loop m (taken, pending) =
     (if pending \<noteq> [] \<and> length taken < m
      then drain_loop m (taken @ [hd pending], tl pending)
      else (taken, pending))"
  by auto
termination by (relation "measure (\<lambda>(m, taken, pending). length pending)") auto

declare drain_loop.simps [simp del]

definition tx_bytes :: "l2_block_data list \<Rightarrow> usize" where
  "tx_bytes bs = sum_list (map length (concat (map l2_transactions bs)))"

definition build_batch :: "instant \<Rightarrow> batch_driver \<Rightarrow> pending_batch option \<times> batch_driver" where
  "build_batch now d =
     (if \<not> should_submit now d then (None, d)
      else let (taken, rest) = drain_loop (max_blocks d) ([], pending_blocks d);
               d = d\<lparr>pending_blocks := rest, current_size := tx_bytes rest\<rparr>;
               batch = \<lparr>pending_batch_number = next_number d, pending_batch_blocks = taken,
                        uncompressed_size = tx_bytes taken\<rparr>
           in (Some batch, d\<lparr>next_number := next_number d + 1, last_submission := now\<rparr>))"

definition pending_count :: "batch_driver \<Rightarrow> usize" where
  "pending_count d = length (pending_blocks d)"

definition with_checkpoint :: "(string \<Rightarrow> checkpoint option) \<Rightarrow> bool \<Rightarrow> file_system \<Rightarrow> path
    \<Rightarrow> batch_driver \<Rightarrow> checkpoint_error + batch_driver" where
  "with_checkpoint de readable fs p d =
     rbind (load de readable fs p) (\<lambda>cp.
       let d = (case cp of Some c \<Rightarrow> d\<lparr>driver_checkpoint := c\<rparr> | None \<Rightarrow> d)
       in Inr (d\<lparr>driver_checkpoint_path := Some p\<rparr>))"

definition driver_should_skip :: "batch_driver \<Rightarrow> u64 \<Rightarrow> bool" where
  "driver_should_skip d n = should_skip_batch (driver_checkpoint d) n"

definition driver_record_submitted :: "(checkpoint \<Rightarrow> string option) \<Rightarrow> io_fault option \<Rightarrow> u64
    \<Rightarrow> u64 \<Rightarrow> batch_driver \<times> file_system
    \<Rightarrow> (checkpoint_error + unit) \<times> batch_driver \<times> file_system" where
  "driver_record_submitted ser fault now n s =
     (case s of (d, fs) \<Rightarrow>
        let cp = touch now (record_batch_submitted n (driver_checkpoint d));
            d = d\<lparr>driver_checkpoint := cp\<rparr>
        in case driver_checkpoint_path d of
             None \<Rightarrow> (Inr (), d, fs)
           | Some p \<Rightarrow> (case save ser fault cp p fs of (r, fs') \<Rightarrow> (r, d, fs')))"

subsection \<open>Functional behaviour\<close>

lemma drain_loop_eq:
  "drain_loop m (taken, pending) =
     (taken @ take (m - length taken) pending, drop (m - length taken) pending)"
proof (induction m "(taken, pending)" arbitrary: taken pending rule: drain_loop.induct)
  case (1 m taken pending)
  show ?case
  proof (cases "pending \<noteq> [] \<and> length taken < m")
    case True
    then obtain b bs k where "pending = b # bs" and "m - length taken = Suc k"
      by (metis Suc_diff_Suc list.exhaust)
    moreover from this have "m - Suc (length taken) = k" by simp
    ultimately show ?thesis using 1 True by (subst drain_loop.simps) simp
  next
    case False
    then show ?thesis by (subst drain_loop.simps) auto
  qed
qed

lemma block_size_tx_bytes: "block_size b = tx_bytes [b]"
  by (simp add: block_size_def tx_bytes_def)

lemma tx_bytes_simps [simp]:
  "tx_bytes [] = 0"
  "tx_bytes (b # bs) = block_size b + tx_bytes bs"
  "tx_bytes (bs @ cs) = tx_bytes bs + tx_bytes cs"
  by (simp_all add: tx_bytes_def block_size_def)

lemma add_blocks_eq:
  "add_blocks bs d = d\<lparr>current_size := current_size d + tx_bytes bs,
                       pending_blocks := pending_blocks d @ bs\<rparr>"
  by (induction bs arbitrary: d) (simp_all add: add.assoc)

lemma build_batch_None_iff: "fst (build_batch now d) = None \<longleftrightarrow> \<not> should_submit now d"
  by (simp add: build_batch_def Let_def split: prod.splits)

lemma build_batch_None: "build_batch now d = (None, d') \<Longrightarrow> d' = d"
  by (auto simp: build_batch_def Let_def split: if_splits prod.splits)

lemma build_batch_Some:
  assumes "build_batch now d = (Some b, d')"
  shows "b = \<lparr>pending_batch_number = next_number d,
              pending_batch_blocks = take (max_blocks d) (pending_blocks d),
              uncompressed_size = tx_bytes (take (max_blocks d) (pending_blocks d))\<rparr>"
    and "d' = d\<lparr>pending_blocks := drop (max_blocks d) (pending_blocks d),
                current_size := tx_bytes (drop (max_blocks d) (pending_blocks d)),
                next_number := next_number d + 1, last_submission := now\<rparr>"
  using assms by (auto simp: build_batch_def drain_loop_eq Let_def split: if_splits)

subsection \<open>Runs of the driver\<close>

text \<open>
  A client adds blocks and asks for batches at chosen times; \<open>drive\<close> is such a run with the
  batches it got.
\<close>

datatype driver_op = Add "l2_block_data list" | Build instant

fun drive :: "driver_op list \<Rightarrow> batch_driver \<Rightarrow> pending_batch list \<times> batch_driver" where
  "drive [] d = ([], d)"
| "drive (Add bs # ops) d = drive ops (add_blocks bs d)"
| "drive (Build now # ops) d =
     (case build_batch now d of
        (None, d') \<Rightarrow> drive ops d'
      | (Some b, d') \<Rightarrow> (case drive ops d' of (out, d'') \<Rightarrow> (b # out, d'')))"

fun added :: "driver_op list \<Rightarrow> l2_block_data list" where
  "added [] = []"
| "added (Add bs # ops) = bs @ added ops"
| "added (Build _ # ops) = added ops"

definition size_exact :: "batch_driver \<Rightarrow> bool" where
  "size_exact d = (current_size d = tx_bytes (pending_blocks d))"

lemma size_exact_new: "size_exact (driver_new now cfg)"
  by (simp add: size_exact_def driver_new_def)

lemma size_exact_add: "size_exact d \<Longrightarrow> size_exact (add_blocks bs d)"
  by (simp add: size_exact_def add_blocks_eq)

lemma size_exact_build: "size_exact d \<Longrightarrow> build_batch now d = (r, d') \<Longrightarrow> size_exact d'"
  by (cases r) (auto simp: size_exact_def dest: build_batch_None build_batch_Some)

lemma drive_Build_Some:
  assumes "build_batch now d = (Some b, d')"
  shows "fst (drive (Build now # ops) d) = b # fst (drive ops d')"
    and "snd (drive (Build now # ops) d) = snd (drive ops d')"
  using assms by (auto split: prod.splits)

lemma drive_invariant:
  assumes "\<And>bs d. P d \<Longrightarrow> P (add_blocks bs d)"
    and "\<And>now d r d'. P d \<Longrightarrow> build_batch now d = (r, d') \<Longrightarrow> P d'"
    and "P d"
  shows "P (snd (drive ops d))"
  using assms(3)
proof (induction ops d rule: drive.induct)
  case (1 d)
  then show ?case by simp
next
  case (2 bs ops d)
  then show ?case by (simp add: assms(1))
next
  case (3 now ops d)
  obtain r d' where r: "build_batch now d = (r, d')" by force
  with 3 assms(2) [OF 3(3) r] show ?case by (cases r) (auto split: prod.splits)
qed

lemma drive_config: "driver_config (snd (drive ops d)) = driver_config d"
proof (rule drive_invariant [where P = "\<lambda>x. driver_config x = driver_config d"])
  fix now x r x'
  assume "driver_config x = driver_config d" and "build_batch now x = (r, x')"
  then show "driver_config x' = driver_config d"
    by (cases r) (auto dest: build_batch_None build_batch_Some)
qed (simp_all add: add_blocks_eq)

lemma drive_ledger:
  "concat (map pending_batch_blocks (fst (drive ops d))) @ pending_blocks (snd (drive ops d))
     = pending_blocks d @ added ops"
proof (induction ops d rule: drive.induct)
  case (1 d)
  then show ?case by simp
next
  case (2 bs ops d)
  then show ?case by (simp add: add_blocks_eq)
next
  case (3 now ops d)
  obtain r d' where r: "build_batch now d = (r, d')" by force
  show ?case
  proof (cases r)
    case None
    with 3 r build_batch_None [of now d d'] show ?thesis by simp
  next
    case (Some b)
    note step = r [unfolded Some]
    have "concat (map pending_batch_blocks (fst (drive ops d'))) @ pending_blocks (snd (drive ops d'))
        = pending_blocks d' @ added ops"
      using 3(2) [OF r [symmetric] Some] .
    then show ?thesis
      using build_batch_Some [OF step] unfolding drive_Build_Some [OF step] by simp
  qed
qed

lemma drive_numbers:
  "map pending_batch_number (fst (drive ops d)) =
     map (\<lambda>i. next_number d + of_nat i) [0..<length (fst (drive ops d))]"
proof (induction ops d rule: drive.induct)
  case (1 d)
  then show ?case by simp
next
  case (2 bs ops d)
  then show ?case by (simp add: add_blocks_eq)
next
  case (3 now ops d)
  obtain r d' where r: "build_batch now d = (r, d')" by force
  show ?case
  proof (cases r)
    case None
    with 3 r build_batch_None [of now d d'] show ?thesis by simp
  next
    case (Some b)
    obtain out d'' where out: "drive ops d' = (out, d'')" by force
    have "map pending_batch_number out = map (\<lambda>i. next_number d + 1 + of_nat i) [0..<length out]"
      using 3(2) [OF r [symmetric] Some] out build_batch_Some(2) [of now d b d'] r Some by simp
    moreover have "pending_batch_number b = next_number d"
      using build_batch_Some(1) [of now d b d'] r Some by simp
    ultimately show ?thesis using r Some out
      by (simp add: map_upt_Suc add.assoc del: upt_Suc)
  qed
qed

lemma drive_batch_shape:
  "\<forall>b \<in> set (fst (drive ops d)). length (pending_batch_blocks b) \<le> max_blocks d
     \<and> uncompressed_size b = tx_bytes (pending_batch_blocks b)"
proof (induction ops d rule: drive.induct)
  case (1 d)
  then show ?case by simp
next
  case (2 bs ops d)
  then show ?case by (simp add: add_blocks_eq max_blocks_def)
next
  case (3 now ops d)
  obtain r d' where r: "build_batch now d = (r, d')" by force
  show ?case
  proof (cases r)
    case None
    with 3 r build_batch_None [of now d d'] show ?thesis by simp
  next
    case (Some b)
    obtain out d'' where out: "drive ops d' = (out, d'')" by force
    have b: "b = \<lparr>pending_batch_number = next_number d,
              pending_batch_blocks = take (max_blocks d) (pending_blocks d),
              uncompressed_size = tx_bytes (take (max_blocks d) (pending_blocks d))\<rparr>"
      and d': "max_blocks d' = max_blocks d"
      using build_batch_Some [of now d b d'] r Some by (simp_all add: max_blocks_def)
    have "\<forall>b \<in> set out. length (pending_batch_blocks b) \<le> max_blocks d
        \<and> uncompressed_size b = tx_bytes (pending_batch_blocks b)"
      using 3(2) [OF r [symmetric] Some] out d' by simp
    with b show ?thesis using r Some out by simp
  qed
qed

text \<open>
  C25: no block is lost, duplicated or reordered between the driver's input and its batches:
  whatever the order of additions and build attempts, the blocks of the batches built, in
  order, followed by the blocks still pending are the blocks added. The batches are numbered
  1, 2, 3, and so on (modulo the width of the counter), none has more than
  \<^verbatim>\<open>max_blocks_per_batch\<close> blocks, each carries the size of its transactions, and the driver's
  running size is that of the pending blocks.
\<close>

theorem driver_ledger:
  "case drive ops (driver_new now cfg) of (out, d) \<Rightarrow>
     concat (map pending_batch_blocks out) @ pending_blocks d = added ops
     \<and> map pending_batch_number out = map (\<lambda>i. 1 + of_nat i) [0..<length out]
     \<and> list_all (\<lambda>b. length (pending_batch_blocks b) \<le> unat (max_blocks_per_batch cfg)
                   \<and> uncompressed_size b = tx_bytes (pending_batch_blocks b)) out
     \<and> current_size d = tx_bytes (pending_blocks d)"
proof -
  let ?d = "driver_new now cfg"
  have "size_exact (snd (drive ops ?d))"
    by (rule drive_invariant [OF size_exact_add size_exact_build size_exact_new])
  then show ?thesis
    using drive_ledger [of ops ?d] drive_numbers [of ops ?d] drive_batch_shape [of ops ?d]
    by (auto simp: size_exact_def list_all_iff max_blocks_def driver_new_def split: prod.splits)
qed

subsection \<open>Progress\<close>

text \<open>Build attempts spaced by the batch interval always give a batch.\<close>

lemma build_after_interval:
  "last_submission d + batch_interval (driver_config d) \<le> now \<Longrightarrow> should_submit now d"
  unfolding should_submit_def time_ready_def by linarith

fun build_every :: "nat \<Rightarrow> batch_driver \<Rightarrow> driver_op list" where
  "build_every 0 d = []"
| "build_every (Suc k) d =
     Build (last_submission d + batch_interval (driver_config d))
     # build_every k (d\<lparr>last_submission := last_submission d + batch_interval (driver_config d)\<rparr>)"

lemma build_every_cong:
  "last_submission d = last_submission d' \<Longrightarrow> driver_config d = driver_config d'
     \<Longrightarrow> build_every k d = build_every k d'"
  by (induction k arbitrary: d d') auto

lemma drain_in_time:
  "pending_blocks (snd (drive (build_every k d) d)) = drop (k * max_blocks d) (pending_blocks d)"
proof (induction k arbitrary: d)
  case 0
  then show ?case by simp
next
  case (Suc k)
  let ?now = "last_submission d + batch_interval (driver_config d)"
  obtain b d' where step: "build_batch ?now d = (Some b, d')"
    using build_batch_None_iff [of ?now d] build_after_interval [of d ?now]
    by (metis option.exhaust order_refl prod.collapse)
  note d' = build_batch_Some(2) [OF step]
  have "build_every k (d\<lparr>last_submission := ?now\<rparr>) = build_every k d'"
    by (rule build_every_cong) (simp_all add: d')
  then have "pending_blocks (snd (drive (build_every (Suc k) d) d))
      = pending_blocks (snd (drive (build_every k d') d'))"
    using drive_Build_Some(2) [OF step, of "build_every k d'"] by simp
  also have "\<dots> = drop (k * max_blocks d') (pending_blocks d')" by (rule Suc)
  also have "\<dots> = drop (Suc k * max_blocks d) (pending_blocks d)"
    by (simp add: d' max_blocks_def add.commute)
  finally show ?case .
qed

text \<open>
  The driver makes progress: polled once per batch interval it empties its queue, however
  small the blocks are, in as many polls as there are full batches in the queue.
\<close>

theorem driver_drains:
  assumes "max_blocks_per_batch (driver_config d) \<noteq> 0"
    and "length (pending_blocks d) \<le> k * unat (max_blocks_per_batch (driver_config d))"
  shows "case drive (build_every k d) d of (out, d') \<Rightarrow>
     pending_blocks d' = [] \<and> concat (map pending_batch_blocks out) = pending_blocks d"
proof -
  let ?r = "drive (build_every k d) d"
  have none: "added (build_every k d) = []" for d
    by (induction k arbitrary: d) auto
  have "pending_blocks (snd ?r) = []"
    using drain_in_time [of k d] assms(2) by (simp add: max_blocks_def)
  with drive_ledger [of "build_every k d" d] none show ?thesis
    by (auto split: prod.splits)
qed

theorem driver_drains_witness:
  "let b = \<lparr>l2_block_number = 7, l2_timestamp = 0, l2_transactions = []\<rparr>;
       d = add_blocks [b, b, b] (driver_new 0 (batcher_config_default\<lparr>max_blocks_per_batch := 2\<rparr>))
   in concat (map pending_batch_blocks (fst (drive (build_every 2 d) d))) = [b, b, b]"
proof -
  let ?b = "\<lparr>l2_block_number = 7, l2_timestamp = 0, l2_transactions = []\<rparr>"
  let ?d = "add_blocks [?b, ?b, ?b]
    (driver_new 0 (batcher_config_default\<lparr>max_blocks_per_batch := 2\<rparr>))"
  have d: "pending_blocks ?d = [?b, ?b, ?b]"
    by (simp add: driver_new_def)
  have "max_blocks_per_batch (driver_config ?d) \<noteq> 0"
    and "length (pending_blocks ?d) \<le> 2 * unat (max_blocks_per_batch (driver_config ?d))"
    by (simp_all add: driver_new_def)
  from driver_drains [OF this] show ?thesis
    unfolding Let_def d by (simp only: prod.case_eq_if)
qed

text \<open>
  With no pending block the driver still builds: after an interval it returns a batch
  without blocks and uses up a number.
\<close>

lemma builds_empty_batch:
  assumes "last_submission d + batch_interval (driver_config d) \<le> now" and "pending_blocks d = []"
  shows "fst (build_batch now d) = Some \<lparr>pending_batch_number = next_number d,
           pending_batch_blocks = [], uncompressed_size = 0\<rparr>"
proof -
  obtain b d' where "build_batch now d = (Some b, d')"
    using build_batch_None_iff [of now d] build_after_interval [OF assms(1)]
    by (metis option.exhaust prod.collapse)
  with build_batch_Some [of now d b d'] assms(2) show ?thesis by simp
qed

subsection \<open>Recovery after a restart\<close>

text \<open>
  A batch whose recording returned Ok on a driver with a checkpoint path is skipped by a
  driver started later from that path, and so is every batch below it. Batch number 0 is
  never used.
\<close>

theorem driver_recovers:
  assumes "\<And>c json. ser c = Some json \<Longrightarrow> de json = Some c"
    and "driver_checkpoint_path d = Some p"
    and "driver_record_submitted ser fault now n (d, fs) = (Inr (), d', fs')"
    and "n \<noteq> 0" and "m \<le> n"
  shows "\<exists>d''. with_checkpoint de True fs' p (driver_new now' cfg) = Inr d'' \<and> driver_should_skip d'' m
     \<and> driver_checkpoint d'' = driver_checkpoint d' \<and> driver_checkpoint_path d'' = Some p"
proof -
  let ?cp = "touch now (record_batch_submitted n (driver_checkpoint d))"
  have saved: "save ser fault ?cp p fs = (Inr (), fs')" and d': "driver_checkpoint d' = ?cp"
    using assms(2,3) by (auto simp: driver_record_submitted_def Let_def split: prod.splits)
  obtain json where json: "ser ?cp = Some json"
    using saved save_Ok_iff [of ser fault ?cp p fs] by auto
  have "load de True fs' p = Inr (Some ?cp)"
    using save_Ok_files [OF saved json] assms(1) [OF json] by (simp add: load_def)
  moreover have "should_skip_batch ?cp m"
    using assms(4,5) by (auto simp: should_skip_batch_iff max_def word_gt_0)
  ultimately show ?thesis
    by (simp add: with_checkpoint_def driver_should_skip_def Let_def d')
qed

theorem driver_recovers_witness:
  "\<exists>d''. with_checkpoint unary_de True
     (snd (snd (driver_record_submitted unary_ser None 9 2
        ((driver_new 0 batcher_config_default)\<lparr>driver_checkpoint_path := Some demo_path\<rparr>,
         \<lparr>files = Map.empty, dirs = {}\<rparr>))))
     demo_path (driver_new 5 batcher_config_default) = Inr d'' \<and> driver_should_skip d'' 1"
proof -
  let ?d = "(driver_new 0 batcher_config_default)\<lparr>driver_checkpoint_path := Some demo_path\<rparr>"
  let ?r = "driver_record_submitted unary_ser None 9 2 (?d, \<lparr>files = Map.empty, dirs = {}\<rparr>)"
  have "?r = (Inr (), fst (snd ?r), snd (snd ?r))"
    by (simp add: driver_record_submitted_def save_def unary_ser_def Let_def)
  moreover have "driver_checkpoint_path ?d = Some demo_path" by simp
  moreover have "(2 :: u64) \<noteq> 0" and "(1 :: u64) \<le> 2" by simp_all
  ultimately show ?thesis
    using driver_recovers [where ser = unary_ser and de = unary_de and d = ?d and m = 1,
        OF unary_roundtrip] by blast
qed

section \<open>The batcher service\<close>

text \<open>
  \<^verbatim>\<open>BatcherService\<close> holds a driver, counters and metrics around the pipeline's source,
  compressor and sink. Its \<^verbatim>\<open>tick\<close> is a list of \<^verbatim>\<open>TODO\<close> comments that returns \<^verbatim>\<open>Ok(None)\<close>.
\<close>

record batcher_state =
  last_batch_number :: u64
  last_l1_block :: u64
  total_blocks_processed :: u64
  total_batches_submitted :: u64
  is_healthy :: bool

definition batcher_state_default :: batcher_state where
  "batcher_state_default =
     \<lparr>last_batch_number = 0, last_l1_block = 0, total_blocks_processed = 0,
      total_batches_submitted = 0, is_healthy = False\<rparr>"

record batcher_service =
  service_config :: batcher_config
  service_driver :: batch_driver
  service_state :: batcher_state
  service_metrics :: batcher_metrics

definition service_new :: "instant \<Rightarrow> batcher_config \<Rightarrow> batcher_service" where
  "service_new now cfg =
     \<lparr>service_config = cfg, service_driver = driver_new now cfg,
      service_state = batcher_state_default, service_metrics = batcher_metrics_default\<rparr>"

definition service_pending_blocks :: "batcher_service \<Rightarrow> usize" where
  "service_pending_blocks s = pending_count (service_driver s)"

definition service_tick :: "batcher_service
    \<Rightarrow> (batcher_error + submission_receipt option) \<times> batcher_service" where
  "service_tick s = (Inr None, s)"

end
