(* ===== verification/Sequencer.thy ===== *)
theory Sequencer
  imports Role Batcher
begin

text \<open>
  The sequencer role (\<^verbatim>\<open>crates/node/roles/src/sequencer.rs\<close>): blocks come in over a channel,
  are cut into numbered batches, prepared (serialised and compressed) by concurrent worker
  tasks, and submitted to L1 in the order of their numbers.

  The record \<open>sequencer\<close> has the fields of the struct; \<open>world\<close> extends it with the sequencer's
  surroundings: the block feeder's end of the channel, the worker tasks of the runtime, the
  sink's log, the file system, and what observers and callbacks were told. Code outside the
  repository and readings of the clock are the fields of \<open>deps\<close>, all of them arbitrary
  functions: the sink answers as a function of the calls made to it so far.

  A tick is a function of the schedule \<open>e\<close>: the actions of the surroundings (a block arrives,
  the channel closes, a worker finishes) that happen at each point of the tick where they can
  make a difference. The final flush may wait for ever, so it is a \<^theory_text>\<open>partial_function\<close> whose
  value \<open>None\<close> says that it never returns.
\<close>

section \<open>Constants\<close>

definition MAX_BLOCKS_HEAVY_BACKLOG :: usize where "MAX_BLOCKS_HEAVY_BACKLOG = 100"
definition MAX_BLOCKS_MODERATE_BACKLOG :: usize where "MAX_BLOCKS_MODERATE_BACKLOG = 50"
definition MAX_BLOCKS_LIGHT_BACKLOG :: usize where "MAX_BLOCKS_LIGHT_BACKLOG = 25"
definition HEAVY_BACKLOG_THRESHOLD :: usize where "HEAVY_BACKLOG_THRESHOLD = 200"
definition MODERATE_BACKLOG_THRESHOLD :: usize where "MODERATE_BACKLOG_THRESHOLD = 50"
definition LIGHT_BACKLOG_THRESHOLD :: usize where "LIGHT_BACKLOG_THRESHOLD = 10"
definition MAX_CONCURRENT_PREPARATIONS :: usize where "MAX_CONCURRENT_PREPARATIONS = 4"

lemmas backlog_constants = MAX_BLOCKS_HEAVY_BACKLOG_def MAX_BLOCKS_MODERATE_BACKLOG_def
  MAX_BLOCKS_LIGHT_BACKLOG_def HEAVY_BACKLOG_THRESHOLD_def MODERATE_BACKLOG_THRESHOLD_def
  LIGHT_BACKLOG_THRESHOLD_def

section \<open>Data\<close>

record prepared_batch =
  prepared_number :: u64
  prepared_batch :: compressed_batch
  prepared_uncompressed_size :: usize
  prepared_compressed_size :: usize
  prepared_block_count :: usize
  prepared_first_block :: u64
  prepared_last_block :: u64
  prepared_tx_counts :: "usize list"

datatype sequencer_event =
    BlockExecuted u64 bytes  \<comment> \<open>block number, block hash\<close>
  | BatchBuilt u64 usize  \<comment> \<open>batch number, block count\<close>
  | BatchSubmitted u64 bytes  \<comment> \<open>batch number, transaction hash\<close>

text \<open>What the event channel and the two callbacks received, in order.\<close>

datatype sequencer_output =
    SequencerEvent sequencer_event
  | OnBlockExecuted u64 u64 u64  \<comment> \<open>block number, microseconds, gas used\<close>
  | OnBatchSubmitted u64 usize u64 u64 usize usize "usize list" u64

text \<open>A spawned task: the arguments \<^verbatim>\<open>prepare_batch_sync\<close> is called with.\<close>

record 'tx worker =
  worker_blocks :: "'tx op_block list"
  worker_number :: u64
  worker_block_count :: usize
  worker_first_block :: u64
  worker_last_block :: u64
  worker_tx_counts :: "usize list"

type_synonym prepared = "string + prepared_batch"
type_synonym sink_call = "compressed_batch \<times> (sink_error + submission_receipt)"

record 'tx sequencer =
  config :: batcher_config
  cp :: checkpoint
  cp_path :: "path option"
  block_rx :: "'tx op_block list"
  pending :: "'tx op_block list"
  current_batch_size :: usize
  last_submission_at :: instant
  next_batch_number :: u64
  next_submission_number :: u64
  has_event_tx :: bool
  has_execution_callback :: bool
  has_batch_callback :: bool
  blocks_executed :: u64
  prepared_rx :: "prepared list"
  in_flight :: usize
  ready :: "prepared_batch list"  \<comment> \<open>the heap, as the list of its elements by number\<close>

text \<open>
  The surroundings: \<open>sent\<close> are all the blocks ever sent into the channel, \<open>spawned\<close> all the
  tasks ever spawned, \<open>running\<close> those that have not finished.
\<close>

record 'tx world = "'tx sequencer" +
  rx_closed :: bool
  sent :: "'tx op_block list"
  spawned :: "'tx worker list"
  running :: "'tx worker list"
  sink_log :: "sink_call list"
  disk :: file_system
  outputs :: "sequencer_output list"

text \<open>
  The parameters: \<^verbatim>\<open>OpBlockBatch::to_bytes\<close> (\<^verbatim>\<open>serde_json\<close>), the compressor, the length of a
  serialised block, the sink, the checkpoint's serialisation and the file system's faults (by
  the number of sink calls), and the readings of the clock after each sink call and around
  each block.
\<close>

record 'tx deps =
  to_bytes :: "'tx op_block list \<Rightarrow> string + bytes"
  compress :: "bytes \<Rightarrow> compression_error + bytes"
  block_json :: "'tx op_block \<Rightarrow> usize option"
  sink_submit :: "sink_call list \<Rightarrow> compressed_batch \<Rightarrow> sink_error + submission_receipt"
  cp_ser :: "checkpoint \<Rightarrow> string option"
  cp_fault :: "nat \<Rightarrow> io_fault option"
  submitted_at :: "nat \<Rightarrow> instant"
  touched_at :: "nat \<Rightarrow> u64"
  execution_us :: "u64 \<Rightarrow> u64"

section \<open>Construction\<close>

definition sequencer_new :: "(string \<Rightarrow> checkpoint option) \<Rightarrow> bool \<Rightarrow> file_system \<Rightarrow> instant
    \<Rightarrow> batcher_config \<Rightarrow> path option \<Rightarrow> 'tx op_block list \<Rightarrow> role_error + 'tx sequencer" where
  "sequencer_new de readable fs now cfg p rx =
     rbind (initial_checkpoint de readable fs p) (\<lambda>c.
       Inr \<lparr>config = cfg, cp = c, cp_path = p, block_rx = rx, pending = [],
            current_batch_size = 0, last_submission_at = now, next_batch_number = 1,
            next_submission_number = 1, has_event_tx = False, has_execution_callback = False,
            has_batch_callback = False, blocks_executed = 0, prepared_rx = [], in_flight = 0,
            ready = []\<rparr>)"

definition with_execution_callback :: "('tx, 'm) sequencer_scheme \<Rightarrow> ('tx, 'm) sequencer_scheme" where
  "with_execution_callback s = s\<lparr>has_execution_callback := True\<rparr>"

definition with_batch_callback :: "('tx, 'm) sequencer_scheme \<Rightarrow> ('tx, 'm) sequencer_scheme" where
  "with_batch_callback s = s\<lparr>has_batch_callback := True\<rparr>"

definition with_event_sender :: "('tx, 'm) sequencer_scheme \<Rightarrow> ('tx, 'm) sequencer_scheme" where
  "with_event_sender s = s\<lparr>has_event_tx := True\<rparr>"

definition sequencer_resume :: "checkpoint \<Rightarrow> ('tx, 'm) sequencer_scheme \<Rightarrow> ('tx, 'm) sequencer_scheme" where
  "sequencer_resume c s = s\<lparr>cp := c\<rparr>"

definition sequencer_checkpoint :: "('tx, 'm) sequencer_scheme \<Rightarrow> role_checkpoint" where
  "sequencer_checkpoint s =
     \<lparr>rc_last_batch_submitted = Some (last_batch_submitted (cp s)),
      rc_last_batch_derived = None,
      rc_last_block_processed = Some (last_block_executed (cp s))\<rparr>"

section \<open>Operations\<close>

definition emit :: "sequencer_event \<Rightarrow> 'tx world \<Rightarrow> 'tx world" where
  "emit ev w = (if has_event_tx w then w\<lparr>outputs := outputs w @ [SequencerEvent ev]\<rparr> else w)"

definition seq_should_submit :: "instant \<Rightarrow> 'tx world \<Rightarrow> bool" where
  "seq_should_submit now w =
     (let size_ready = min_batch_size (config w) \<le> current_batch_size w;
          time_ready = batch_interval (config w) \<le> now - last_submission_at w;
          blocks_ready = unat (max_blocks_per_batch (config w)) \<le> length (pending w)
      in size_ready \<or> time_ready \<or> blocks_ready)"

definition dynamic_max_blocks :: "'tx world \<Rightarrow> usize \<Rightarrow> usize" where
  "dynamic_max_blocks w backlog_depth =
     (if HEAVY_BACKLOG_THRESHOLD \<le> backlog_depth then MAX_BLOCKS_HEAVY_BACKLOG
      else if MODERATE_BACKLOG_THRESHOLD \<le> backlog_depth then MAX_BLOCKS_MODERATE_BACKLOG
      else if LIGHT_BACKLOG_THRESHOLD \<le> backlog_depth then MAX_BLOCKS_LIGHT_BACKLOG
      else unat (max_blocks_per_batch (config w)))"

definition estimate_backlog :: "'tx world \<Rightarrow> usize" where
  "estimate_backlog w = length (block_rx w) + length (pending w)"

definition prepare_batch_sync :: "'tx deps \<Rightarrow> 'tx worker \<Rightarrow> prepared" where
  "prepare_batch_sync d t =
     (case to_bytes d (worker_blocks t) of
        Inl e \<Rightarrow> Inl (''Failed to serialize OpBlockBatch: '' @ e)
      | Inr data \<Rightarrow>
          (case compress d data of
             Inl e \<Rightarrow> Inl (''Compression failed: '' @ show_compression_error e)
           | Inr compressed \<Rightarrow> Inr
               \<lparr>prepared_number = worker_number t,
                prepared_batch =
                  \<lparr>batch_number = worker_number t, batch_data = compressed,
                   block_count = of_nat (worker_block_count t),
                   first_block = worker_first_block t, last_block = worker_last_block t\<rparr>,
                prepared_uncompressed_size = length data,
                prepared_compressed_size = length compressed,
                prepared_block_count = worker_block_count t,
                prepared_first_block = worker_first_block t,
                prepared_last_block = worker_last_block t,
                prepared_tx_counts = worker_tx_counts t\<rparr>))"

definition new_worker :: "'tx op_block list \<Rightarrow> u64 \<Rightarrow> 'tx worker" where
  "new_worker blks n =
     \<lparr>worker_blocks = blks, worker_number = n, worker_block_count = length blks,
      worker_first_block = (case blks of [] \<Rightarrow> 0 | b # _ \<Rightarrow> header_number b),
      worker_last_block = (case rev blks of [] \<Rightarrow> 0 | b # _ \<Rightarrow> header_number b),
      worker_tx_counts = map (\<lambda>b. length (transactions b)) blks\<rparr>"

definition spawn_preparation_worker :: "'tx op_block list \<Rightarrow> u64 \<Rightarrow> 'tx world \<Rightarrow> 'tx world" where
  "spawn_preparation_worker blks n w =
     w\<lparr>spawned := spawned w @ [new_worker blks n], running := running w @ [new_worker blks n]\<rparr>"

text \<open>\<^verbatim>\<open>BinaryHeap::push\<close>, and the loop of \<^verbatim>\<open>collect_prepared_batches\<close> over the channel.\<close>

definition push_ready :: "prepared_batch \<Rightarrow> 'tx world \<Rightarrow> 'tx world" where
  "push_ready p w = w\<lparr>ready := insort_key prepared_number p (ready w)\<rparr>"

fun collect_one :: "prepared \<Rightarrow> 'tx world \<Rightarrow> 'tx world" where
  "collect_one (Inr p) w = (push_ready p w)\<lparr>in_flight := in_flight w - 1\<rparr>"
| "collect_one (Inl e) w = w\<lparr>in_flight := in_flight w - 1\<rparr>"

primrec collect_loop :: "prepared list \<Rightarrow> 'tx world \<Rightarrow> 'tx world" where
  "collect_loop [] w = w"
| "collect_loop (x # xs) w = collect_loop xs (collect_one x (w\<lparr>prepared_rx := xs\<rparr>))"

definition collect_prepared_batches :: "'tx world \<Rightarrow> 'tx world" where
  "collect_prepared_batches w = collect_loop (prepared_rx w) w"

text \<open>The bookkeeping after the sink accepted a batch and the checkpoint was saved.\<close>

definition report_submitted :: "prepared_batch \<Rightarrow> submission_receipt \<Rightarrow> 'tx world \<Rightarrow> 'tx world" where
  "report_submitted p r w =
     (let w = emit (BatchSubmitted (prepared_number p) (tx_hash r)) w in
      if has_batch_callback w
      then w\<lparr>outputs := outputs w @
             [OnBatchSubmitted (prepared_number p) (prepared_block_count p) (prepared_first_block p)
                (prepared_last_block p) (prepared_uncompressed_size p)
                (prepared_compressed_size p) (prepared_tx_counts p) (l1_block r)]\<rparr>
      else w)"

definition submit_prepared_batch :: "'tx deps \<Rightarrow> prepared_batch \<Rightarrow> 'tx world
    \<Rightarrow> (role_error + unit) \<times> 'tx world" where
  "submit_prepared_batch d p w =
     (let n = prepared_number p in
      if should_skip_batch (cp w) n
      then (Inr (), w\<lparr>next_submission_number := next_submission_number w + 1\<rparr>)
      else
        let w = emit (BatchBuilt n (prepared_block_count p)) w;
            answer = sink_submit d (sink_log w) (prepared_batch p);
            w = w\<lparr>sink_log := sink_log w @ [(prepared_batch p, answer)]\<rparr>
        in case answer of
             Inl e \<Rightarrow> (Inl (RoleSink e), w)
           | Inr receipt \<Rightarrow>
               let k = length (sink_log w);
                   w = w\<lparr>cp := touch (touched_at d k) (record_batch_submitted n (cp w))\<rparr>;
                   (saved, fs) = save_if_path (cp_ser d) (cp_fault d k) (cp w) (cp_path w) (disk w);
                   w = w\<lparr>disk := fs\<rparr>
               in case saved of
                    Inl e \<Rightarrow> (Inl e, w)
                  | Inr _ \<Rightarrow>
                      (Inr (), report_submitted p receipt
                        (w\<lparr>next_submission_number := next_submission_number w + 1,
                           last_submission_at := submitted_at d k\<rparr>)))"

lemma emit_ready [simp]: "ready (emit ev w) = ready w"
  by (simp add: emit_def)

lemma submit_prepared_ready [simp]: "ready (snd (submit_prepared_batch d p w)) = ready w"
  by (simp add: submit_prepared_batch_def report_submitted_def Let_def split: sum.splits prod.splits)

lemma submit_prepared_ready_eq: "(r, w') = submit_prepared_batch d p w \<Longrightarrow> ready w' = ready w"
  by (metis submit_prepared_ready snd_conv)

text \<open>\<^verbatim>\<open>while let Some(prepared) = self.ready_batches.peek()\<close>, with the count of submissions.\<close>

function submit_loop :: "'tx deps \<Rightarrow> usize \<Rightarrow> 'tx world \<Rightarrow> (role_error + usize) \<times> 'tx world" where
  "submit_loop d submitted w =
     (case ready w of
        [] \<Rightarrow> (Inr submitted, w)
      | p # rest \<Rightarrow>
          (if prepared_number p \<noteq> next_submission_number w then (Inr submitted, w)
           else (case submit_prepared_batch d p (w\<lparr>ready := rest\<rparr>) of
                   (Inl e, w') \<Rightarrow> (Inl e, w')
                 | (Inr _, w') \<Rightarrow> submit_loop d (submitted + 1) w')))"
  by auto
termination
  by (relation "measure (\<lambda>(d, k, w). length (ready w))")
    (auto dest!: submit_prepared_ready_eq)

declare submit_loop.simps [simp del]


definition submit_ready_batches :: "'tx deps \<Rightarrow> 'tx world \<Rightarrow> (role_error + usize) \<times> 'tx world" where
  "submit_ready_batches d w = submit_loop d 0 w"

definition accumulate_block :: "'tx deps \<Rightarrow> 'tx op_block \<Rightarrow> 'tx world \<Rightarrow> 'tx world" where
  "accumulate_block d b w =
     (let size = (case block_json d b of None \<Rightarrow> 0 | Some n \<Rightarrow> n);
          us = execution_us d (blocks_executed w);
          w = w\<lparr>pending := pending w @ [b],
                current_batch_size := current_batch_size w + size,
                blocks_executed := blocks_executed w + 1\<rparr>;
          w = emit (BlockExecuted (header_number b) (replicate 32 0)) w
      in if has_execution_callback w
         then w\<lparr>outputs := outputs w @ [OnBlockExecuted (header_number b) us (header_gas_used b)]\<rparr>
         else w)"

text \<open>Receiving one block from the channel and accumulating it.\<close>

definition receive_block :: "'tx deps \<Rightarrow> 'tx world \<Rightarrow> 'tx world" where
  "receive_block d w =
     (case block_rx w of [] \<Rightarrow> w | b # rest \<Rightarrow> accumulate_block d b (w\<lparr>block_rx := rest\<rparr>))"

lemma receive_block_rx [simp]: "block_rx (receive_block d w) = tl (block_rx w)"
  by (cases "block_rx w") (simp_all add: receive_block_def accumulate_block_def emit_def Let_def)

text \<open>The loop of phase 3: how many blocks were accumulated, and whether the channel is closed.\<close>

function accumulate_loop :: "'tx deps \<Rightarrow> usize \<Rightarrow> usize \<Rightarrow> 'tx world \<Rightarrow> (usize \<times> bool) \<times> 'tx world" where
  "accumulate_loop d dynamic_max accumulated w =
     (if block_rx w = [] then ((accumulated, rx_closed w), w)
      else
        let w = receive_block d w in
        if dynamic_max \<le> length (pending w) then ((accumulated + 1, False), w)
        else accumulate_loop d dynamic_max (accumulated + 1) w)"
  by auto
termination
  by (relation "measure (\<lambda>(d, m, k, w). length (block_rx w))") auto

declare accumulate_loop.simps [simp del]

text \<open>
  Cutting the first \<open>k\<close> pending blocks off as the next batch and handing it to a worker; the
  size of what is left is computed afterwards.
\<close>

definition spawn_batch :: "usize \<Rightarrow> 'tx world \<Rightarrow> 'tx world" where
  "spawn_batch k w =
     (let blks = take k (pending w); n = next_batch_number w;
          w = w\<lparr>pending := drop k (pending w), next_batch_number := n + 1\<rparr>;
          w = spawn_preparation_worker blks n w
      in w\<lparr>in_flight := in_flight w + 1\<rparr>)"

definition recompute_size :: "'tx deps \<Rightarrow> 'tx world \<Rightarrow> 'tx world" where
  "recompute_size d w =
     w\<lparr>current_batch_size :=
        sum_list (map (\<lambda>b. case block_json d b of None \<Rightarrow> 0 | Some n \<Rightarrow> n) (pending w))\<rparr>"

section \<open>The surroundings\<close>

text \<open>
  The feeder sends a block or drops its end of the channel; the \<open>i\<close>-th running worker
  finishes and sends its result.
\<close>

datatype 'tx env_action = Send "'tx op_block" | Close | Finish nat

fun env_step :: "'tx deps \<Rightarrow> 'tx env_action \<Rightarrow> 'tx world \<Rightarrow> 'tx world" where
  "env_step d (Send b) w =
     (if rx_closed w then w else w\<lparr>block_rx := block_rx w @ [b], sent := sent w @ [b]\<rparr>)"
| "env_step d Close w = w\<lparr>rx_closed := True\<rparr>"
| "env_step d (Finish i) w =
     (if i < length (running w)
      then w\<lparr>running := take i (running w) @ drop (Suc i) (running w),
             prepared_rx := prepared_rx w @ [prepare_batch_sync d (running w ! i)]\<rparr>
      else w)"

definition env_steps :: "'tx deps \<Rightarrow> 'tx env_action list \<Rightarrow> 'tx world \<Rightarrow> 'tx world" where
  "env_steps d acts w = fold (env_step d) acts w"

text \<open>The points of a tick at which an action of the surroundings can make a difference.\<close>

datatype point =
    AtCollect | AtBacklog | AtAccumulate | AtSpawn | AtWorker nat | AtFlush nat

type_synonym 'tx schedule = "point \<Rightarrow> 'tx env_action list"

section \<open>The tick\<close>

text \<open>Catch-up mode: several workers, as long as half a batch is pending.\<close>

function catch_up :: "'tx deps \<Rightarrow> 'tx schedule \<Rightarrow> usize \<Rightarrow> usize \<Rightarrow> 'tx world \<Rightarrow> usize \<times> 'tx world" where
  "catch_up d e slots workers w =
     (if workers < slots \<and> pending w \<noteq> []
      then
        let w = env_steps d (e (AtWorker workers)) w;
            remaining_backlog = length (pending w) + length (block_rx w);
            effective_max = dynamic_max_blocks w remaining_backlog;
            min_for_spawn = max (effective_max div 2) 1
        in if length (pending w) < min_for_spawn then (workers, w)
           else catch_up d e slots (workers + 1)
                  (recompute_size d (spawn_batch (min (length (pending w)) effective_max) w))
      else (workers, w))"
  by auto
termination
  by (relation "measure (\<lambda>(d, e, slots, workers, w). slots - workers)") auto

declare catch_up.simps [simp del]

text \<open>Phase 4: the number of workers spawned.\<close>

definition spawn_phase :: "'tx deps \<Rightarrow> 'tx schedule \<Rightarrow> instant \<Rightarrow> 'tx world \<Rightarrow> usize \<times> 'tx world" where
  "spawn_phase d e now w =
     (let available_slots = MAX_CONCURRENT_PREPARATIONS - in_flight w in
      if 0 < available_slots \<and> pending w \<noteq> []
      then
        (if LIGHT_BACKLOG_THRESHOLD \<le> estimate_backlog w
         then catch_up d e available_slots 0 w
         else if seq_should_submit now w
         then (1, recompute_size d
                (spawn_batch (min (length (pending w)) (unat (max_blocks_per_batch (config w)))) w))
         else (0, w))
      else (0, w))"

text \<open>
  The wait for the workers after the channel was closed. In every iteration what the workers
  have sent is collected and what is in order is submitted; \<open>e (AtFlush i)\<close> is what happens
  before the \<open>i\<close>-th iteration.
\<close>

partial_function (option) flush_loop :: "'tx deps \<Rightarrow> 'tx schedule \<Rightarrow> nat \<Rightarrow> 'tx world
    \<Rightarrow> ((role_error + unit) \<times> 'tx world) option" where
  "flush_loop d e i w =
     (if 0 < in_flight w \<or> ready w \<noteq> []
      then (case submit_ready_batches d (collect_prepared_batches (env_steps d (e (AtFlush i)) w)) of
              (Inl err, w') \<Rightarrow> Some (Inl err, w')
            | (Inr _, w') \<Rightarrow> flush_loop d e (Suc i) w')
      else Some (Inr (), w))"

text \<open>The last worker takes whatever is pending.\<close>

definition spawn_final :: "'tx world \<Rightarrow> 'tx world" where
  "spawn_final w =
     (if pending w \<noteq> [] then (spawn_batch (length (pending w)) w)\<lparr>current_batch_size := 0\<rparr> else w)"

definition sequencer_tick :: "'tx deps \<Rightarrow> 'tx schedule \<Rightarrow> instant \<Rightarrow> 'tx world
    \<Rightarrow> ((role_error + tick_result) \<times> 'tx world) option" where
  "sequencer_tick d e now w =
     (let w = collect_prepared_batches (env_steps d (e AtCollect) w) in
      case submit_ready_batches d w of
        (Inl err, w) \<Rightarrow> Some (Inl err, w)
      | (Inr submitted, w) \<Rightarrow>
          (let w = env_steps d (e AtBacklog) w;
               dynamic_max = dynamic_max_blocks w (estimate_backlog w);
               w = env_steps d (e AtAccumulate) w;
               ((accumulated, disconnected), w) = accumulate_loop d dynamic_max 0 w;
               w = env_steps d (e AtSpawn) w;
               (workers, w) = spawn_phase d e now w
           in if disconnected
              then (case flush_loop d e 0 (spawn_final w) of
                      None \<Rightarrow> None
                    | Some (Inl err, w) \<Rightarrow> Some (Inl err, w)
                    | Some (Inr _, w) \<Rightarrow> Some (Inr Complete, w))
              else Some (Inr (if 0 < submitted \<or> 0 < accumulated \<or> 0 < workers
                              then Progress else Idle), w)))"

end
