(* ===== verification/Sequencer_Safety.thy ===== *)
theory Sequencer_Safety
  imports Sequencer
begin

text \<open>
  The safety of the sequencer. A tick is shown to be a sequence of \<open>atomic\<close> steps, each one
  operation of the sequencer or one action of its surroundings; the invariants are proved over
  atomic steps and so hold for every interleaving of them. The abstract specification is a
  ledger: the blocks sent are the blocks of the batches cut so far, in order, then the pending
  blocks, then the blocks in the channel; and the sink has seen a run of consecutive batches.
\<close>

section \<open>Frames\<close>

lemma emit_frames [simp]:
  "config (emit ev w) = config w" "cp (emit ev w) = cp w" "cp_path (emit ev w) = cp_path w"
  "block_rx (emit ev w) = block_rx w" "pending (emit ev w) = pending w"
  "next_batch_number (emit ev w) = next_batch_number w"
  "next_submission_number (emit ev w) = next_submission_number w"
  "prepared_rx (emit ev w) = prepared_rx w" "in_flight (emit ev w) = in_flight w"
  "rx_closed (emit ev w) = rx_closed w" "sent (emit ev w) = sent w"
  "spawned (emit ev w) = spawned w" "running (emit ev w) = running w"
  "sink_log (emit ev w) = sink_log w" "disk (emit ev w) = disk w"
  by (simp_all add: emit_def)

lemma submit_frames [simp]:
  "config (snd (submit_prepared_batch d p w)) = config w"
  "block_rx (snd (submit_prepared_batch d p w)) = block_rx w"
  "pending (snd (submit_prepared_batch d p w)) = pending w"
  "next_batch_number (snd (submit_prepared_batch d p w)) = next_batch_number w"
  "prepared_rx (snd (submit_prepared_batch d p w)) = prepared_rx w"
  "in_flight (snd (submit_prepared_batch d p w)) = in_flight w"
  "rx_closed (snd (submit_prepared_batch d p w)) = rx_closed w"
  "sent (snd (submit_prepared_batch d p w)) = sent w"
  "spawned (snd (submit_prepared_batch d p w)) = spawned w"
  "running (snd (submit_prepared_batch d p w)) = running w"
  by (simp_all add: submit_prepared_batch_def report_submitted_def Let_def
      split: sum.splits prod.splits)

text \<open>The four ways a submission can end: skipped, refused, accepted but not recorded, done.\<close>

lemma submit_prepared_cases:
  assumes "submit_prepared_batch d p w = (r, w')"
  obtains
    (skipped) "should_skip_batch (cp w) (prepared_number p)" "r = Inr ()"
      "sink_log w' = sink_log w" "cp w' = cp w"
      "next_submission_number w' = next_submission_number w + 1"
  | (failed) ans err where "\<not> should_skip_batch (cp w) (prepared_number p)" "r = Inl err"
      "sink_log w' = sink_log w @ [(prepared_batch p, ans)]"
      "next_submission_number w' = next_submission_number w"
  | (accepted) receipt where "\<not> should_skip_batch (cp w) (prepared_number p)" "r = Inr ()"
      "sink_log w' = sink_log w @ [(prepared_batch p, Inr receipt)]"
      "last_batch_submitted (cp w') = max (last_batch_submitted (cp w)) (prepared_number p)"
      "next_submission_number w' = next_submission_number w + 1"
proof (cases "should_skip_batch (cp w) (prepared_number p)")
  case True
  with assms skipped show thesis by (auto simp: submit_prepared_batch_def)
next
  case False
  then show thesis
    using assms failed accepted
    by (auto simp: submit_prepared_batch_def report_submitted_def Let_def
        split: sum.splits prod.splits if_splits)
qed

lemma receive_frames [simp]:
  "config (receive_block d w) = config w" "cp (receive_block d w) = cp w"
  "next_batch_number (receive_block d w) = next_batch_number w"
  "next_submission_number (receive_block d w) = next_submission_number w"
  "prepared_rx (receive_block d w) = prepared_rx w" "in_flight (receive_block d w) = in_flight w"
  "ready (receive_block d w) = ready w" "rx_closed (receive_block d w) = rx_closed w"
  "sent (receive_block d w) = sent w" "spawned (receive_block d w) = spawned w"
  "running (receive_block d w) = running w" "sink_log (receive_block d w) = sink_log w"
  by (simp_all add: receive_block_def accumulate_block_def Let_def split: list.splits)

lemma receive_pending [simp]: "pending (receive_block d w) = pending w @ take 1 (block_rx w)"
  by (cases "block_rx w") (simp_all add: receive_block_def accumulate_block_def Let_def)

lemma spawn_batch_simps [simp]:
  "config (spawn_batch k w) = config w" "cp (spawn_batch k w) = cp w"
  "block_rx (spawn_batch k w) = block_rx w" "pending (spawn_batch k w) = drop k (pending w)"
  "next_batch_number (spawn_batch k w) = next_batch_number w + 1"
  "next_submission_number (spawn_batch k w) = next_submission_number w"
  "prepared_rx (spawn_batch k w) = prepared_rx w" "in_flight (spawn_batch k w) = in_flight w + 1"
  "ready (spawn_batch k w) = ready w" "rx_closed (spawn_batch k w) = rx_closed w"
  "sent (spawn_batch k w) = sent w" "sink_log (spawn_batch k w) = sink_log w"
  "spawned (spawn_batch k w) =
     spawned w @ [new_worker (take k (pending w)) (next_batch_number w)]"
  "running (spawn_batch k w) =
     running w @ [new_worker (take k (pending w)) (next_batch_number w)]"
  by (simp_all add: spawn_batch_def spawn_preparation_worker_def Let_def)

section \<open>Atomic steps\<close>

inductive atomic :: "'tx deps \<Rightarrow> 'tx world \<Rightarrow> 'tx world \<Rightarrow> bool" for d where
  environment: "atomic d w (env_step d a w)"
| collect: "prepared_rx w = x # xs \<Longrightarrow> atomic d w (collect_one x (w\<lparr>prepared_rx := xs\<rparr>))"
| submit: "ready w = p # rest \<Longrightarrow> prepared_number p = next_submission_number w \<Longrightarrow>
    submit_prepared_batch d p (w\<lparr>ready := rest\<rparr>) = (r, w') \<Longrightarrow> atomic d w w'"
| receive: "block_rx w \<noteq> [] \<Longrightarrow> atomic d w (receive_block d w)"
| spawn: "pending w \<noteq> [] \<Longrightarrow> in_flight w < MAX_CONCURRENT_PREPARATIONS
      \<or> rx_closed w \<and> block_rx w = [] \<and> length (pending w) \<le> k \<Longrightarrow> atomic d w (spawn_batch k w)"
| resize: "atomic d w (w\<lparr>current_batch_size := n\<rparr>)"

abbreviation steps :: "'tx deps \<Rightarrow> 'tx world \<Rightarrow> 'tx world \<Rightarrow> bool" where
  "steps d \<equiv> (atomic d)\<^sup>*\<^sup>*"

lemma steps_trans: "steps d w w' \<Longrightarrow> steps d w' w'' \<Longrightarrow> steps d w w''"
  by simp

lemma steps_env: "steps d w (env_steps d acts w)"
  unfolding env_steps_def
  by (induction acts arbitrary: w) (auto intro: converse_rtranclp_into_rtranclp atomic.environment)

lemma steps_collect: "prepared_rx w = xs \<Longrightarrow> steps d w (collect_loop xs w)"
proof (induction xs arbitrary: w)
  case Nil
  then show ?case by simp
next
  case (Cons x xs)
  let ?w = "collect_one x (w\<lparr>prepared_rx := xs\<rparr>)"
  have "atomic d w ?w" by (rule atomic.collect [OF Cons.prems])
  moreover have "prepared_rx ?w = xs" by (cases x) (simp_all add: push_ready_def)
  ultimately show ?case using Cons.IH [of ?w] by (simp add: converse_rtranclp_into_rtranclp)
qed

lemma steps_collect_prepared: "steps d w (collect_prepared_batches w)"
  by (simp add: collect_prepared_batches_def steps_collect)

lemma steps_submit_loop: "submit_loop d k w = (r, w') \<Longrightarrow> steps d w w'"
proof (induction d k w rule: submit_loop.induct)
  case (1 d k w)
  show ?case
  proof (cases "ready w")
    case Nil
    with 1(2) show ?thesis by (simp add: submit_loop.simps)
  next
    case (Cons p rest)
    show ?thesis
    proof (cases "prepared_number p = next_submission_number w")
      case False
      with 1(2) Cons show ?thesis by (simp add: submit_loop.simps)
    next
      case True
      obtain b y where step: "submit_prepared_batch d p (w\<lparr>ready := rest\<rparr>) = (b, y)" by force
      have first: "atomic d w y" by (rule atomic.submit [OF Cons True step])
      show ?thesis
      proof (cases b)
        case (Inl e)
        with 1(2) Cons True step first show ?thesis by (simp add: submit_loop.simps)
      next
        case (Inr u)
        then have "submit_loop d (k + 1) y = (r, w')"
          using 1(2) Cons True step by (simp add: submit_loop.simps [of d k w])
        then have "steps d y w'" using 1(1) [OF Cons] True step Inr by simp
        with first show ?thesis by (rule converse_rtranclp_into_rtranclp)
      qed
    qed
  qed
qed

lemma steps_submit: "submit_ready_batches d w = (r, w') \<Longrightarrow> steps d w w'"
  by (simp add: submit_ready_batches_def steps_submit_loop)

lemma steps_accumulate:
  "accumulate_loop d m k w = ((n, c), w') \<Longrightarrow> steps d w w' \<and> (c \<longrightarrow> rx_closed w' \<and> block_rx w' = [])"
proof (induction d m k w rule: accumulate_loop.induct)
  case (1 d m k w)
  show ?case
  proof (cases "block_rx w = []")
    case True
    with 1(2) show ?thesis by (auto simp: accumulate_loop.simps)
  next
    case False
    then have first: "atomic d w (receive_block d w)" by (rule atomic.receive)
    show ?thesis
    proof (cases "m \<le> length (pending (receive_block d w))")
      case True
      with False 1(2) first show ?thesis by (auto simp: accumulate_loop.simps)
    next
      case more: False
      have "accumulate_loop d m (k + 1) (receive_block d w) = ((n, c), w')"
        using 1(2) False more by (simp add: accumulate_loop.simps [of d m k w] del: receive_pending)
      then show ?thesis
        using 1(1) [OF False refl more] first by (meson converse_rtranclp_into_rtranclp)
    qed
  qed
qed

lemma steps_recompute: "steps d w (recompute_size d w)"
  unfolding recompute_size_def by (rule r_into_rtranclp, rule atomic.resize)

lemma env_steps_frames [simp]:
  "in_flight (env_steps d acts w) = in_flight w" "pending (env_steps d acts w) = pending w"
  "ready (env_steps d acts w) = ready w" "spawned (env_steps d acts w) = spawned w"
  "next_submission_number (env_steps d acts w) = next_submission_number w"
proof -
  have step: "in_flight (env_step d a w) = in_flight w \<and> pending (env_step d a w) = pending w
      \<and> ready (env_step d a w) = ready w \<and> spawned (env_step d a w) = spawned w
      \<and> next_submission_number (env_step d a w) = next_submission_number w" for a w
    by (cases a) auto
  have "in_flight (env_steps d acts w) = in_flight w \<and> pending (env_steps d acts w) = pending w
      \<and> ready (env_steps d acts w) = ready w \<and> spawned (env_steps d acts w) = spawned w
      \<and> next_submission_number (env_steps d acts w) = next_submission_number w"
    unfolding env_steps_def by (induction acts arbitrary: w) (simp_all add: step)
  then show "in_flight (env_steps d acts w) = in_flight w"
    "pending (env_steps d acts w) = pending w"
    "ready (env_steps d acts w) = ready w" "spawned (env_steps d acts w) = spawned w"
    "next_submission_number (env_steps d acts w) = next_submission_number w"
    by simp_all
qed

lemma recompute_frames [simp]:
  "in_flight (recompute_size d w) = in_flight w" "pending (recompute_size d w) = pending w"
  by (simp_all add: recompute_size_def)

lemma steps_catch_up:
  "catch_up d e slots k w = (n, w') \<Longrightarrow> in_flight w + slots \<le> MAX_CONCURRENT_PREPARATIONS + k
     \<Longrightarrow> steps d w w'"
proof (induction d e slots k w rule: catch_up.induct)
  case (1 d e slots k w)
  let ?w = "env_steps d (e (AtWorker k)) w"
  let ?eff = "dynamic_max_blocks ?w (length (pending ?w) + length (block_rx ?w))"
  let ?s = "spawn_batch (min (length (pending ?w)) ?eff) ?w"
  show ?case
  proof (cases "k < slots \<and> pending w \<noteq> []")
    case False
    with 1(2) show ?thesis by (auto simp: catch_up.simps [of d e slots k w])
  next
    case go: True
    show ?thesis
    proof (cases "length (pending ?w) < max (?eff div 2) 1")
      case True
      with 1(2) go have "w' = ?w" by (auto simp: catch_up.simps [of d e slots k w] Let_def)
      then show ?thesis using steps_env by metis
    next
      case False
      have rec: "catch_up d e slots (k + 1) (recompute_size d ?s) = (n, w')"
        using 1(2) go False by (simp add: catch_up.simps [of d e slots k w] Let_def)
      have "steps d (recompute_size d ?s) w'"
        by (rule 1(1) [OF go refl refl refl refl False rec]) (use 1(3) in simp)
      moreover have "atomic d ?w ?s"
        by (rule atomic.spawn) (use 1(3) go in auto)
      ultimately show ?thesis
        using steps_env [of d w "e (AtWorker k)"] steps_recompute [of d ?s] by (meson r_into_rtranclp steps_trans)
    qed
  qed
qed

lemma steps_spawn_phase: "spawn_phase d e now w = (n, w') \<Longrightarrow> steps d w w'"
  using steps_catch_up [of d e "MAX_CONCURRENT_PREPARATIONS - in_flight w" 0 w n w']
    atomic.spawn [of w _ d] steps_recompute [of d]
  by (auto simp: spawn_phase_def Let_def split: if_splits
      intro: converse_rtranclp_into_rtranclp)

text \<open>Once the channel is closed and empty it stays so.\<close>

definition quiet :: "'tx world \<Rightarrow> bool" where
  "quiet w = (rx_closed w \<and> block_rx w = [])"

lemma push_ready_frames [simp]:
  "config (push_ready p w) = config w" "cp (push_ready p w) = cp w"
  "block_rx (push_ready p w) = block_rx w" "pending (push_ready p w) = pending w"
  "next_batch_number (push_ready p w) = next_batch_number w"
  "next_submission_number (push_ready p w) = next_submission_number w"
  "prepared_rx (push_ready p w) = prepared_rx w" "in_flight (push_ready p w) = in_flight w"
  "rx_closed (push_ready p w) = rx_closed w" "sent (push_ready p w) = sent w"
  "spawned (push_ready p w) = spawned w" "running (push_ready p w) = running w"
  "sink_log (push_ready p w) = sink_log w"
  "ready (push_ready p w) = insort_key prepared_number p (ready w)"
  by (simp_all add: push_ready_def)

lemma collect_one_frames [simp]:
  "config (collect_one x w) = config w" "cp (collect_one x w) = cp w"
  "block_rx (collect_one x w) = block_rx w" "pending (collect_one x w) = pending w"
  "next_batch_number (collect_one x w) = next_batch_number w"
  "next_submission_number (collect_one x w) = next_submission_number w"
  "prepared_rx (collect_one x w) = prepared_rx w"
  "in_flight (collect_one x w) = in_flight w - 1"
  "rx_closed (collect_one x w) = rx_closed w" "sent (collect_one x w) = sent w"
  "spawned (collect_one x w) = spawned w" "running (collect_one x w) = running w"
  "sink_log (collect_one x w) = sink_log w"
  by (cases x; simp)+

lemma quiet_atomic: "atomic d w w' \<Longrightarrow> quiet w \<Longrightarrow> quiet w'"
proof (induction rule: atomic.induct)
  case (environment w a)
  then show ?case by (cases a) (auto simp: quiet_def)
next
  case (submit w p rest r w')
  then show ?case using submit_frames(2,7) [of d p "w\<lparr>ready := rest\<rparr>"] by (simp add: quiet_def)
qed (auto simp: quiet_def)

lemma quiet_steps: "steps d w w' \<Longrightarrow> quiet w \<Longrightarrow> quiet w'"
  by (induction rule: rtranclp_induct) (auto intro: quiet_atomic)

lemma steps_spawn_final: "quiet w \<Longrightarrow> steps d w (spawn_final w)"
proof (cases "pending w = []")
  case False
  assume "quiet w"
  with False have "atomic d w (spawn_batch (length (pending w)) w)"
    by (intro atomic.spawn) (simp_all add: quiet_def)
  then show ?thesis
    using False atomic.resize [of d "spawn_batch (length (pending w)) w" 0]
    by (simp add: spawn_final_def)
qed (simp add: spawn_final_def)

text \<open>Induction on the iterations of a flush that returns.\<close>

lemma flush_loop_induct [consumes 1, case_names stop fail step]:
  assumes "flush_loop d e i w = Some x"
    and stop: "\<And>i w. \<not> (0 < in_flight w \<or> ready w \<noteq> []) \<Longrightarrow> P i w (Inr (), w)"
    and fail: "\<And>i w err w'. 0 < in_flight w \<or> ready w \<noteq> [] \<Longrightarrow>
      submit_ready_batches d (collect_prepared_batches (env_steps d (e (AtFlush i)) w)) = (Inl err, w')
      \<Longrightarrow> P i w (Inl err, w')"
    and step: "\<And>i w n w' x. 0 < in_flight w \<or> ready w \<noteq> [] \<Longrightarrow>
      submit_ready_batches d (collect_prepared_batches (env_steps d (e (AtFlush i)) w)) = (Inr n, w')
      \<Longrightarrow> P (Suc i) w' x \<Longrightarrow> P i w x"
  shows "P i w x"
proof -
  have "d' = d \<longrightarrow> e' = e \<longrightarrow> P i' w' x'" if "flush_loop d' e' i' w' = Some x'" for d' e' i' w' x'
    apply (rule flush_loop.raw_induct [OF _ that, where P = "\<lambda>d' e' i' w' x'. d' = d \<longrightarrow> e' = e \<longrightarrow> P i' w' x'"])
    apply (intro impI)
    subgoal premises prems for flush d' e' i w x
    proof (cases "0 < in_flight w \<or> ready w \<noteq> []")
      case False
      then have "x = (Inr (), w)" using prems(2) by simp
      with stop [OF False] show ?thesis by simp
    next
      case True
      obtain b y where b: "submit_ready_batches d
          (collect_prepared_batches (env_steps d (e (AtFlush i)) w)) = (b, y)" by force
      show ?thesis
      proof (cases b)
        case (Inl err)
        then have "x = (Inl err, y)" using prems(2) b True unfolding prems(3,4) by simp
        then show ?thesis using fail [OF True b [unfolded Inl]] by simp
      next
        case (Inr n)
        then have "flush d e (Suc i) y = Some x" using prems(2) b True unfolding prems(3,4) by simp
        from prems(1) [OF this] have "P (Suc i) y x" by simp
        from step [OF True b [unfolded Inr] this] show ?thesis .
      qed
    qed
    done
  with assms(1) show ?thesis by blast
qed
lemma steps_flush: "flush_loop d e i w = Some x \<Longrightarrow> steps d w (snd x)"
proof (induction rule: flush_loop_induct)
  case (stop i w)
  then show ?case by simp
next
  case (fail i w err w')
  then show ?case
    using steps_env [of d w "e (AtFlush i)"] steps_collect_prepared [of d] steps_submit
    by (metis snd_conv steps_trans)
next
  case (step i w n w' x)
  then have "steps d w w'"
    using steps_env [of d w "e (AtFlush i)"] steps_collect_prepared [of d] steps_submit
    by (metis steps_trans)
  then show ?case using step.IH by (rule steps_trans)
qed

text \<open>Every tick that returns is a sequence of atomic steps.\<close>

lemma tick_steps:
  assumes "sequencer_tick d e now w = Some (r, w')"
  shows "steps d w w'"
proof -
  let ?a = "collect_prepared_batches (env_steps d (e AtCollect) w)"
  obtain b w1 where b: "submit_ready_batches d ?a = (b, w1)" by force
  have s1: "steps d w w1"
    using steps_env [of d w] steps_collect_prepared [of d] steps_submit [OF b] by (meson steps_trans)
  show ?thesis
  proof (cases b)
    case (Inl err)
    with assms b s1 show ?thesis by (simp add: sequencer_tick_def Let_def)
  next
    case (Inr k)
    define w2 where "w2 = env_steps d (e AtBacklog) w1"
    define w3 where "w3 = env_steps d (e AtAccumulate) w2"
    obtain n c w4 where acc:
      "accumulate_loop d (dynamic_max_blocks w2 (estimate_backlog w2)) 0 w3 = ((n, c), w4)"
      by (metis prod.exhaust)
    define w5 where "w5 = env_steps d (e AtSpawn) w4"
    obtain m w6 where sp: "spawn_phase d e now w5 = (m, w6)" by force
    note acc' = steps_accumulate [OF acc]
    have s5: "steps d w w5"
      using s1 steps_env [of d w1 "e AtBacklog"] steps_env [of d w2 "e AtAccumulate"] acc'
        steps_env [of d w4 "e AtSpawn"]
      unfolding w2_def [symmetric] w3_def [symmetric] w5_def [symmetric]
      by (meson steps_trans)
    have s6: "steps d w w6" using s5 steps_spawn_phase [OF sp] by (rule steps_trans)
    note eqs = b Inr w2_def [symmetric] w3_def [symmetric] acc w5_def [symmetric] sp
    show ?thesis
    proof (cases c)
      case False
      with assms s6 show ?thesis by (simp add: sequencer_tick_def eqs Let_def)
    next
      case True
      have "quiet w4" using acc' True by (simp add: quiet_def)
      moreover have "steps d w4 w6"
        using steps_env [of d w4 "e AtSpawn"] steps_spawn_phase [OF sp] unfolding w5_def
        by (rule steps_trans)
      ultimately have "steps d w6 (spawn_final w6)" using quiet_steps steps_spawn_final by blast
      moreover obtain r' where "flush_loop d e 0 (spawn_final w6) = Some (r', w')"
        using assms True
        by (auto simp: sequencer_tick_def eqs Let_def split: option.splits sum.splits prod.splits)
      ultimately show ?thesis using s6 steps_flush [of d e 0 "spawn_final w6" "(r', w')"] by simp
    qed
  qed
qed

end
