(* ===== verification/Sequencer_Ledger.thy ===== *)
theory Sequencer_Ledger
  imports Sequencer_Safety "HOL-Library.Multiset"
begin

text \<open>
  The invariants of the sequencer over atomic steps and its safety properties. \<open>ledger\<close> ties the
  blocks sent to the batches cut and says where every batch can be; \<open>order\<close> is about the batch
  numbers: \<open>m\<close> numbers have been passed (submitted or skipped), \<open>s\<close> says that a submission has
  failed, and the sink's log is a run of consecutive numbers that starts after the checkpoint
  \<open>c\<close> the sequencer was started with. \<open>order\<close> needs fewer than \<open>2 ^ 64 - 1\<close> batches.
\<close>

section \<open>Workers and jobs\<close>

lemma prepare_Inr:
  assumes "prepare_batch_sync d t = Inr p"
  shows "prepared_number p = worker_number t"
    and "batch_number (prepared_batch p) = worker_number t"
  using assms by (auto simp: prepare_batch_sync_def split: sum.splits)

lemma new_worker_simps [simp]:
  "worker_number (new_worker bs n) = n" "worker_blocks (new_worker bs n) = bs"
  by (simp_all add: new_worker_def)

primrec oks :: "prepared list \<Rightarrow> prepared_batch list" where
  "oks [] = []"
| "oks (x # xs) = (case x of Inl _ \<Rightarrow> oks xs | Inr p \<Rightarrow> p # oks xs)"

lemma oks_append [simp]: "oks (xs @ ys) = oks xs @ oks ys"
  by (induction xs) (auto split: sum.splits)

text \<open>The batches between being cut and being submitted, by number.\<close>

definition jobs :: "'tx world \<Rightarrow> nat multiset" where
  "jobs w = image_mset (unat \<circ> worker_number) (mset (running w))
     + image_mset (unat \<circ> prepared_number) (mset (oks (prepared_rx w)) + mset (ready w))"

lemma mset_remove_nth:
  "i < length xs \<Longrightarrow> mset xs = add_mset (xs ! i) (mset (take i xs @ drop (Suc i) xs))"
  by (subst id_take_nth_drop [of i xs]) simp_all

lemma jobs_finish:
  assumes "i < length (running w)"
  shows "jobs w = (case prepare_batch_sync d (running w ! i) of
      Inr _ \<Rightarrow> jobs (env_step d (Finish i) w)
    | Inl _ \<Rightarrow> add_mset (unat (worker_number (running w ! i))) (jobs (env_step d (Finish i) w)))"
  using assms mset_remove_nth [OF assms]
  by (auto simp: jobs_def prepare_Inr split: sum.splits)

lemma jobs_env: "\<not> (\<exists>i. a = Finish i \<and> i < length (running w)) \<Longrightarrow> jobs (env_step d a w) = jobs w"
  by (cases a) (auto simp: jobs_def)

lemma jobs_collect: "prepared_rx w = x # xs \<Longrightarrow> jobs (collect_one x (w\<lparr>prepared_rx := xs\<rparr>)) = jobs w"
  by (cases x) (simp_all add: jobs_def push_ready_def)

lemma jobs_submit:
  assumes "ready w = p # rest" and "submit_prepared_batch d p (w\<lparr>ready := rest\<rparr>) = (r, w')"
  shows "jobs w = add_mset (unat (prepared_number p)) (jobs w')"
  using assms(1) submit_frames [of d p "w\<lparr>ready := rest\<rparr>"]
    submit_prepared_ready [of d p "w\<lparr>ready := rest\<rparr>"]
  unfolding assms(2) by (simp add: jobs_def)

lemma jobs_spawn: "jobs (spawn_batch k w) = add_mset (unat (next_batch_number w)) (jobs w)"
  by (simp add: jobs_def)

section \<open>The ledger\<close>

definition prepared_from :: "'tx deps \<Rightarrow> 'tx world \<Rightarrow> prepared_batch \<Rightarrow> bool" where
  "prepared_from d w p = list_ex (\<lambda>t. prepare_batch_sync d t = Inr p) (spawned w)"

definition ledger :: "'tx deps \<Rightarrow> 'tx world \<Rightarrow> bool" where
  "ledger d w =
     (next_batch_number w = 1 + of_nat (length (spawned w))
      \<and> map worker_number (spawned w) = map (\<lambda>i. 1 + of_nat i) [0..<length (spawned w)]
      \<and> concat (map worker_blocks (spawned w)) @ pending w @ block_rx w = sent w
      \<and> in_flight w = length (running w) + length (prepared_rx w)
      \<and> set (running w) \<subseteq> set (spawned w)
      \<and> list_all (prepared_from d w) (oks (prepared_rx w))
      \<and> list_all (prepared_from d w) (ready w)
      \<and> list_all (\<lambda>c. \<exists>p. prepared_batch p = fst c \<and> prepared_from d w p) (sink_log w)
      \<and> sorted (map prepared_number (ready w)))"

definition fresh :: "'tx world \<Rightarrow> bool" where
  "fresh w =
     (pending w = [] \<and> next_batch_number w = 1 \<and> next_submission_number w = 1
      \<and> prepared_rx w = [] \<and> in_flight w = 0 \<and> ready w = [] \<and> sent w = block_rx w
      \<and> spawned w = [] \<and> running w = [] \<and> sink_log w = [])"

definition start_world :: "'tx sequencer \<Rightarrow> file_system \<Rightarrow> 'tx world" where
  "start_world s fs = sequencer.extend s
     \<lparr>rx_closed = False, sent = block_rx s, spawned = [], running = [], sink_log = [],
      disk = fs, outputs = []\<rparr>"

lemma fresh_new:
  "sequencer_new de readable fs now cfg p rx = Inr s \<Longrightarrow> fresh (start_world s fs)
     \<and> fresh (sequencer_resume c (start_world s fs))"
  by (auto simp: sequencer_new_def rbind_Inr_iff fresh_def start_world_def sequencer.extend_def
      sequencer_resume_def)

lemma fresh_ledger: "fresh w \<Longrightarrow> ledger d w"
  by (simp add: fresh_def ledger_def)

lemma prepared_from_mono:
  "set (spawned w) \<subseteq> set (spawned w') \<Longrightarrow> prepared_from d w p \<Longrightarrow> prepared_from d w' p"
  by (auto simp: prepared_from_def list_ex_iff)

lemma prepared_from_cong: "spawned w' = spawned w \<Longrightarrow> prepared_from d w' = prepared_from d w"
  by (simp add: prepared_from_def fun_eq_iff)

lemma prepared_from_number:
  "prepared_from d w p \<Longrightarrow> batch_number (prepared_batch p) = prepared_number p"
  unfolding prepared_from_def list_ex_iff by (metis prepare_Inr)

lemma prepared_from_upd [simp]:
  "prepared_from d (w\<lparr>rx_closed := v\<rparr>) = prepared_from d w"
  "prepared_from d (w\<lparr>current_batch_size := n\<rparr>) = prepared_from d w"
  by (simp_all add: prepared_from_def fun_eq_iff)

lemma ledger_spawn:
  assumes "ledger d w"
  shows "ledger d (spawn_batch k w)"
proof -
  have mono: "prepared_from d (spawn_batch k w) p" if "prepared_from d w p" for p
    by (rule prepared_from_mono [OF _ that]) auto
  have "list_all (prepared_from d (spawn_batch k w)) (oks (prepared_rx w))"
    and "list_all (prepared_from d (spawn_batch k w)) (ready w)"
    using assms by (auto simp: ledger_def intro: list.pred_mono_strong mono)
  moreover have "list_all (\<lambda>c. \<exists>p. prepared_batch p = fst c \<and> prepared_from d w p) (sink_log w)"
    using assms by (simp add: ledger_def)
  then have "list_all (\<lambda>c. \<exists>p. prepared_batch p = fst c \<and> prepared_from d (spawn_batch k w) p)
      (sink_log w)"
    by (rule list.pred_mono_strong) (use mono in blast)
  moreover have "concat (map worker_blocks (spawned w)) @ take k (pending w) @ drop k (pending w)
      @ block_rx w = sent w"
    using assms by (simp add: ledger_def flip: append_assoc)
  ultimately show ?thesis using assms by (auto simp: ledger_def)
qed

lemma ledger_env: "ledger d w \<Longrightarrow> ledger d (env_step d a w)"
proof (cases a)
  case (Send b)
  assume "ledger d w"
  with Send show ?thesis
    by (auto simp: ledger_def prepared_from_def list_all_iff)
next
  case Close
  assume "ledger d w"
  with Close show ?thesis by (simp add: ledger_def)
next
  case (Finish i)
  assume L: "ledger d w"
  show ?thesis
  proof (cases "i < length (running w)")
    case True
    let ?w = "env_step d (Finish i) w"
    have same: "prepared_from d ?w = prepared_from d w"
      by (rule prepared_from_cong) simp
    have mem: "running w ! i \<in> set (spawned w)" using L True by (auto simp: ledger_def)
    then have new: "list_all (prepared_from d w) (oks [prepare_batch_sync d (running w ! i)])"
      by (auto simp: prepared_from_def list_ex_iff split: sum.splits)
    have "set (take i (running w) @ drop (Suc i) (running w)) \<subseteq> set (spawned w)"
      using L set_take_subset [of i "running w"] set_drop_subset [of "Suc i" "running w"]
      by (auto simp: ledger_def)
    then show ?thesis using Finish L True new same by (simp add: ledger_def)
  qed (use Finish L in simp)
qed

lemma ledger_collect:
  assumes "ledger d w" and rx: "prepared_rx w = x # xs"
  shows "ledger d (collect_one x (w\<lparr>prepared_rx := xs\<rparr>))"
proof -
  have same: "prepared_from d (collect_one x (w\<lparr>prepared_rx := xs\<rparr>)) = prepared_from d w"
    by (rule prepared_from_cong) simp
  show ?thesis
    using assms same
    by (cases x) (auto simp: ledger_def list_all_iff set_insort_key sorted_insort_key)
qed

lemma ledger_submit:
  assumes L: "ledger d w" and p: "ready w = p # rest"
    and r: "submit_prepared_batch d p (w\<lparr>ready := rest\<rparr>) = (r, w')"
  shows "ledger d w'"
proof -
  have w': "snd (submit_prepared_batch d p (w\<lparr>ready := rest\<rparr>)) = w'" by (simp add: r)
  have rdy: "ready w' = rest"
    using submit_prepared_ready [of d p "w\<lparr>ready := rest\<rparr>"] unfolding w' by simp
  note frames = submit_frames [of d p "w\<lparr>ready := rest\<rparr>", unfolded w', simplified]
  have same: "prepared_from d w' = prepared_from d w"
    by (rule prepared_from_cong) (simp add: frames)
  have log: "sink_log w' = sink_log w \<or> (\<exists>ans. sink_log w' = sink_log w @ [(prepared_batch p, ans)])"
    using r by (cases rule: submit_prepared_cases) auto
  show ?thesis using L p log same
    by (auto simp: ledger_def frames rdy)
qed

lemma ledger_atomic: "atomic d w w' \<Longrightarrow> ledger d w \<Longrightarrow> ledger d w'"
proof (induction rule: atomic.induct)
  case (environment w a)
  then show ?case by (simp add: ledger_env)
next
  case (collect w x xs)
  then show ?case by (simp add: ledger_collect)
next
  case (submit w p rest r w')
  then show ?case by (simp add: ledger_submit)
next
  case (receive w)
  have "prepared_from d (receive_block d w) = prepared_from d w"
    by (rule prepared_from_cong) simp
  moreover have "pending (receive_block d w) @ block_rx (receive_block d w) = pending w @ block_rx w"
    using receive by (cases "block_rx w") simp_all
  ultimately show ?case using receive by (simp add: ledger_def)
next
  case (spawn w k)
  then show ?case by (simp add: ledger_spawn)
next
  case (resize w n)
  then show ?case by (simp add: ledger_def)
qed

lemma ledger_steps: "steps d w w' \<Longrightarrow> ledger d w \<Longrightarrow> ledger d w'"
  by (induction rule: rtranclp_induct) (auto intro: ledger_atomic)

lemma atomic_spawned: "atomic d w w' \<Longrightarrow> \<exists>new. spawned w' = spawned w @ new"
proof (induction rule: atomic.induct)
  case (environment w a)
  then show ?case by (cases a) auto
next
  case (submit w p rest r w')
  then show ?case using submit_frames(9) [of d p "w\<lparr>ready := rest\<rparr>"] by simp
qed auto

lemma ledger_nth:
  assumes "ledger d w" and "i < length (spawned w)"
  shows "worker_number (spawned w ! i) = 1 + of_nat i"
proof -
  have "map worker_number (spawned w) ! i = map (\<lambda>i. 1 + of_nat i) [0..<length (spawned w)] ! i"
    using assms(1) by (simp add: ledger_def)
  with assms(2) show ?thesis by simp
qed

lemma unat_Suc_of_nat: "i < 2 ^ 64 - 1 \<Longrightarrow> unat (1 + of_nat i :: u64) = Suc i"
proof -
  assume "i < 2 ^ 64 - 1"
  moreover have "(1 + of_nat i :: u64) = of_nat (Suc i)" by simp
  ultimately show ?thesis by (simp add: unat_of_nat take_bit_eq_mod del: of_nat_Suc)
qed

text \<open>Every job is a batch that was cut: its number is between 1 and the number of batches.\<close>

lemma jobs_bounds:
  assumes "ledger d w" and "length (spawned w) < 2 ^ 64 - 1" and "n \<in># jobs w"
  shows "1 \<le> n \<and> n \<le> length (spawned w)"
proof -
  have spawned: "1 \<le> unat (worker_number t) \<and> unat (worker_number t) \<le> length (spawned w)"
    if mem: "t \<in> set (spawned w)" for t
  proof -
    obtain i where "i < length (spawned w)" and "spawned w ! i = t"
      using mem by (auto simp: in_set_conv_nth)
    with ledger_nth [OF assms(1)] unat_Suc_of_nat [of i] assms(2) show ?thesis by fastforce
  qed
  have prep: "1 \<le> unat (prepared_number p) \<and> unat (prepared_number p) \<le> length (spawned w)"
    if "prepared_from d w p" for p
    using that spawned prepare_Inr(1) by (fastforce simp: prepared_from_def list_ex_iff)
  from assms(3) consider t where "t \<in> set (running w)" "n = unat (worker_number t)"
    | p where "p \<in> set (oks (prepared_rx w)) \<union> set (ready w)" "n = unat (prepared_number p)"
    by (auto simp: jobs_def)
  then show ?thesis
    using spawned prep assms(1) by cases (auto simp: ledger_def list_all_iff)
qed

section \<open>The order of submissions\<close>

definition order :: "'tx deps \<Rightarrow> nat \<Rightarrow> nat \<Rightarrow> bool \<Rightarrow> 'tx world \<Rightarrow> bool" where
  "order d c m s w =
     (unat (next_submission_number w) = Suc m \<and> m \<le> length (spawned w)
      \<and> (\<forall>n. count (jobs w) n \<le> 1) \<and> (\<forall>n \<in># jobs w. Suc m \<le> n)
      \<and> map (\<lambda>x. unat (batch_number (fst x))) (sink_log w) = [Suc c..<(if s then m + 2 else m + 1)]
      \<and> list_all (\<lambda>x. is_ok (snd x)) (if s then butlast (sink_log w) else sink_log w)
      \<and> (if s then c \<le> m \<and> m < length (spawned w) \<and> Suc m \<notin># jobs w
         else unat (last_batch_submitted (cp w)) = max c m)
      \<and> (list_all (\<lambda>t. is_ok (prepare_batch_sync d t)) (spawned w) \<longrightarrow>
           (\<forall>n. (if s then m + 2 else m + 1) \<le> n \<and> n \<le> length (spawned w) \<longrightarrow> n \<in># jobs w)))"

lemma order_cong:
  assumes "order d c m s w" and "spawned w' = spawned w" and "jobs w' = jobs w"
    and "next_submission_number w' = next_submission_number w"
    and "sink_log w' = sink_log w" and "cp w' = cp w"
  shows "order d c m s w'"
  using assms by (cases s) (simp_all add: order_def)

lemma fresh_order:
  "fresh w \<Longrightarrow> order d (unat (last_batch_submitted (cp w))) 0 False w"
  by (auto simp: fresh_def order_def jobs_def)

lemma order_spawn:
  assumes O: "order d c m s w" and L: "ledger d w" and n: "length (spawned (spawn_batch k w)) < 2 ^ 64 - 1"
  shows "order d c m s (spawn_batch k w)"
proof -
  let ?n = "length (spawned w)"
  have num: "unat (next_batch_number w) = Suc ?n"
    using L n unat_Suc_of_nat [of ?n] by (simp add: ledger_def)
  have new: "Suc ?n \<notin># jobs w" using jobs_bounds [OF L, of "Suc ?n"] n by auto
  have "\<forall>i. count (jobs (spawn_batch k w)) i \<le> 1"
    using O new by (auto simp: order_def jobs_spawn num count_eq_zero_iff)
  moreover have "\<forall>i \<in># jobs (spawn_batch k w). Suc m \<le> i"
    using O by (auto simp: order_def jobs_spawn num)
  moreover have "s \<longrightarrow> Suc m \<notin># jobs (spawn_batch k w)"
    using O by (auto simp: order_def jobs_spawn num)
  ultimately show ?thesis using O by (auto simp: order_def jobs_spawn num le_Suc_eq)
qed

lemma order_remove:
  assumes O: "order d c m s w" and eq: "jobs w = add_mset x (jobs w')"
    and sp: "spawned w' = spawned w" and nx: "next_submission_number w' = next_submission_number w"
    and lg: "sink_log w' = sink_log w" and c: "cp w' = cp w"
    and bad: "\<not> list_all (\<lambda>t. is_ok (prepare_batch_sync d t)) (spawned w)"
  shows "order d c m s w'"
proof -
  have "count (jobs w') i \<le> count (jobs w) i" for i by (simp add: eq)
  moreover have "i \<in># jobs w' \<Longrightarrow> i \<in># jobs w" for i by (simp add: eq)
  moreover have "(\<forall>n. count (jobs w) n \<le> 1)" using O by (simp add: order_def)
  ultimately have "\<forall>n. count (jobs w') n \<le> 1" by (meson order_trans)
  with \<open>\<And>i. i \<in># jobs w' \<Longrightarrow> i \<in># jobs w\<close> show ?thesis
    using O bad by (auto simp: order_def sp nx lg c)
qed

lemma order_env:
  assumes O: "order d c m s w" and L: "ledger d w"
  shows "order d c m s (env_step d a w)"
proof (cases "\<exists>i. a = Finish i \<and> i < length (running w)")
  case True
  then obtain i where a: "a = Finish i" and i: "i < length (running w)" by blast
  let ?t = "running w ! i"
  have t: "?t \<in> set (spawned w)" using L i by (auto simp: ledger_def)
  show ?thesis
  proof (cases "prepare_batch_sync d ?t")
    case (Inr p)
    then have "jobs (env_step d a w) = jobs w" using jobs_finish [OF i, of d] a by simp
    then show ?thesis by (intro order_cong [OF O]) (simp_all add: a)
  next
    case (Inl e)
    then have "\<not> list_all (\<lambda>t. is_ok (prepare_batch_sync d t)) (spawned w)"
      using t by (auto simp: list_all_iff intro!: bexI [of _ ?t])
    moreover have "jobs w = add_mset (unat (worker_number ?t)) (jobs (env_step d a w))"
      using jobs_finish [OF i, of d] Inl a by simp
    ultimately show ?thesis by (intro order_remove [OF O]) (simp_all add: a)
  qed
next
  case False
  show ?thesis
  proof (rule order_cong [OF O])
    show "jobs (env_step d a w) = jobs w" using False by (rule jobs_env)
  qed (cases a; simp)+
qed

lemma order_submit:
  assumes O: "order d c m s w" and L: "ledger d w" and p: "ready w = p # rest"
    and n: "prepared_number p = next_submission_number w"
    and r: "submit_prepared_batch d p (w\<lparr>ready := rest\<rparr>) = (r, w')"
    and len: "length (spawned w) < 2 ^ 64 - 1"
  shows "order d c (if next_submission_number w' = next_submission_number w then m else Suc m)
           (next_submission_number w' = next_submission_number w) w'"
proof -
  have w': "snd (submit_prepared_batch d p (w\<lparr>ready := rest\<rparr>)) = w'" by (simp add: r)
  note sp = submit_frames(9) [of d p "w\<lparr>ready := rest\<rparr>", unfolded w', simplified]
  have nx: "unat (next_submission_number w) = Suc m" using O by (simp add: order_def)
  have j: "jobs w = add_mset (Suc m) (jobs w')" using jobs_submit [OF p r] n nx by simp
  then have mlen: "m < length (spawned w)" using jobs_bounds [OF L len, of "Suc m"] by simp
  have ns: "\<not> s" using O j by (auto simp: order_def split: if_splits)
  have nx1: "unat (next_submission_number w + 1) = Suc (Suc m)"
    using nx mlen len by (simp add: unat_word_ariths)
  then have ne: "next_submission_number w + 1 \<noteq> next_submission_number w" using nx by auto
  have cnt: "\<forall>i. count (jobs w') i \<le> 1" "Suc m \<notin># jobs w'"
    using O unfolding order_def j
    by (auto simp: count_eq_zero_iff [symmetric] split: if_splits) (metis Suc_leD Suc_le_mono le_antisym le_zero_eq not_less_eq_eq)+
  have above: "\<forall>i \<in># jobs w'. Suc (Suc m) \<le> i"
  proof
    fix i assume i: "i \<in># jobs w'"
    then have "Suc m \<le> i" using O by (simp add: order_def j)
    moreover have "i \<noteq> Suc m" using i cnt(2) by auto
    ultimately show "Suc (Suc m) \<le> i" by simp
  qed
  have cov: "list_all (\<lambda>t. is_ok (prepare_batch_sync d t)) (spawned w) \<longrightarrow>
      (\<forall>i. m + 2 \<le> i \<and> i \<le> length (spawned w) \<longrightarrow> i \<in># jobs w')"
  proof (intro impI allI)
    fix i
    assume "list_all (\<lambda>t. is_ok (prepare_batch_sync d t)) (spawned w)"
      and i: "m + 2 \<le> i \<and> i \<le> length (spawned w)"
    then have "i \<in># jobs w" using O ns by (simp add: order_def)
    with i show "i \<in># jobs w'" by (simp add: j)
  qed
  have log: "map (\<lambda>x. unat (batch_number (fst x))) (sink_log w) = [Suc c..<m + 1]"
    "list_all (\<lambda>x. is_ok (snd x)) (sink_log w)"
    and lbs: "unat (last_batch_submitted (cp w)) = max c m"
    using O ns by (simp_all add: order_def)
  have skip: "should_skip_batch (cp w) (prepared_number p) \<longleftrightarrow> Suc m \<le> c"
    using lbs nx by (auto simp: should_skip_batch_iff n word_le_nat_alt unat_eq_0 [symmetric])
  have pn: "batch_number (prepared_batch p) = prepared_number p"
    using L p prepared_from_number [of d w p] by (simp add: ledger_def)
  have snoc: "\<not> Suc m \<le> c \<Longrightarrow> [Suc c..<m + 2] = [Suc c..<m + 1] @ [Suc m]" by simp
  note common = sp cnt above mlen
  from r show ?thesis
  proof (cases rule: submit_prepared_cases)
    case skipped
    then have c: "Suc m \<le> c" using skip by simp
    then have "[Suc c..<m + 1] = [Suc c..<Suc m + 1]" and "max c m = max c (Suc m)" by simp_all
    then have "order d c (Suc m) False w'"
      unfolding order_def using common cov log lbs nx1 skipped by simp
    then show ?thesis using skipped ne by simp
  next
    case (failed ans err)
    then have "c \<le> m" using skip by simp
    moreover have "map (\<lambda>x. unat (batch_number (fst x))) (sink_log w') = [Suc c..<m + 2]"
      using failed skip snoc log(1) pn n nx by simp
    moreover have "\<forall>i \<in># jobs w'. Suc m \<le> i" using above by (meson Suc_leD)
    ultimately have "order d c m True w'"
      unfolding order_def using sp cnt mlen cov log(2) nx failed by simp
    then show ?thesis using failed by simp
  next
    case (accepted receipt)
    have "unat (last_batch_submitted (cp w')) = max c (Suc m)"
      using accepted lbs skip nx by (simp add: max_def n word_le_nat_alt)
    moreover have "map (\<lambda>x. unat (batch_number (fst x))) (sink_log w') = [Suc c..<Suc m + 1]"
      using accepted skip snoc log(1) pn n nx by simp
    ultimately have "order d c (Suc m) False w'"
      unfolding order_def using common cov log(2) nx1 accepted by simp
    then show ?thesis using accepted ne by simp
  qed
qed

lemma order_atomic:
  "atomic d w w' \<Longrightarrow> order d c m s w \<Longrightarrow> ledger d w \<Longrightarrow> length (spawned w') < 2 ^ 64 - 1
     \<Longrightarrow> \<exists>m s. order d c m s w'"
proof (induction rule: atomic.induct)
  case (environment w a)
  then show ?case using order_env by blast
next
  case (collect w x xs)
  show ?case
    by (intro exI, rule order_cong [OF collect(2)]) (simp_all add: jobs_collect [OF collect(1)])
next
  case (submit w p rest r w')
  have "spawned w' = spawned w" using submit_frames(9) [of d p "w\<lparr>ready := rest\<rparr>"] submit(3) by simp
  with submit show ?case using order_submit [of d c m s w p rest r w'] by auto
next
  case (receive w)
  show ?case by (intro exI, rule order_cong [OF receive(2)]) (simp_all add: jobs_def)
next
  case (spawn w k)
  then show ?case using order_spawn by blast
next
  case (resize w n)
  show ?case by (intro exI, rule order_cong [OF resize(1)]) (simp_all add: jobs_def)
qed

lemma order_steps:
  "steps d w w' \<Longrightarrow> order d c m s w \<Longrightarrow> ledger d w \<Longrightarrow> length (spawned w') < 2 ^ 64 - 1
     \<Longrightarrow> \<exists>m s. order d c m s w'"
proof (induction rule: rtranclp_induct)
  case base
  then show ?case by blast
next
  case (step y z)
  have "length (spawned y) < 2 ^ 64 - 1"
    using atomic_spawned [OF step(2)] step.prems(3) by auto
  then obtain m' s' where "order d c m' s' y" using step by blast
  then show ?case using order_atomic [OF step(2)] ledger_steps [OF step(1)] step.prems by blast
qed

end
