(* ===== verification/Sequencer_Props.thy ===== *)
theory Sequencer_Props
  imports Sequencer_Ledger
begin

text \<open>
  The safety properties of the sequencer over its runs: any sequence of ticks, whatever they
  return, and of actions of the surroundings. What L1 holds is read back with a decoder
  \<open>decode\<close>, about which only one thing is assumed: it undoes serialisation and compression.
\<close>

section \<open>Runs\<close>

inductive sequencer_run :: "'tx deps \<Rightarrow> 'tx world \<Rightarrow> 'tx world \<Rightarrow> bool" for d w where
  run_start: "sequencer_run d w w"
| run_env: "sequencer_run d w w' \<Longrightarrow> sequencer_run d w (env_step d a w')"
| run_tick: "sequencer_run d w w' \<Longrightarrow> sequencer_tick d e now w' = Some (r, w'')
    \<Longrightarrow> sequencer_run d w w''"

lemma run_steps: "sequencer_run d w w' \<Longrightarrow> steps d w w'"
proof (induction rule: sequencer_run.induct)
  case run_start
  then show ?case by simp
next
  case (run_env w' a)
  then show ?case by (auto intro: rtranclp.rtrancl_into_rtrancl atomic.environment)
next
  case (run_tick w' e now r w'')
  then show ?case using tick_steps steps_trans by blast
qed

lemma run_env_steps: "sequencer_run d w w' \<Longrightarrow> sequencer_run d w (env_steps d acts w')"
  unfolding env_steps_def by (induction acts arbitrary: w') (auto intro: run_env)

definition start_mark :: "'tx world \<Rightarrow> nat" where
  "start_mark w = unat (last_batch_submitted (cp w))"

lemma run_order:
  assumes "fresh w\<^sub>0" and "steps d w\<^sub>0 w" and "length (spawned w) < 2 ^ 64 - 1"
  obtains m s where "order d (start_mark w\<^sub>0) m s w" "ledger d w"
  using order_steps [OF assms(2) _ _ assms(3)] fresh_order [OF assms(1)]
    fresh_ledger [OF assms(1)] ledger_steps [OF assms(2)] unfolding start_mark_def by blast

lemma upt_shift: "[a..<b] = map (\<lambda>i. a + i) [0..<b - a]" for a b :: nat
  by (rule nth_equalityI) simp_all

lemma order_log_numbers:
  assumes "order d c m s w"
  shows "map (\<lambda>x. unat (batch_number (fst x))) (sink_log w)
      = map (\<lambda>i. Suc (c + i)) [0..<length (sink_log w)]"
proof -
  let ?ns = "map (\<lambda>x. unat (batch_number (fst x))) (sink_log w)"
  let ?stop = "if s then m + 2 else m + 1"
  have eq: "?ns = [Suc c..<?stop]" using assms by (simp only: order_def)
  have len: "length (sink_log w) = ?stop - Suc c" using arg_cong [OF eq, of length] by simp
  show ?thesis unfolding eq len by (subst upt_shift) simp
qed

lemma order_log_ok: "order d c m s w \<Longrightarrow> list_all (\<lambda>x. is_ok (snd x)) (butlast (sink_log w))"
  by (auto simp: order_def list_all_iff split: if_splits dest: in_set_butlastD)

text \<open>A decoder that undoes serialisation and compression.\<close>

definition decodes :: "'tx deps \<Rightarrow> (bytes \<Rightarrow> 'tx op_block list) \<Rightarrow> bool" where
  "decodes d decode =
     (\<forall>blks data c. to_bytes d blks = Inr data \<longrightarrow> compress d data = Inr c \<longrightarrow> decode c = blks)"

section \<open>A concrete run\<close>

text \<open>
  One block is sent, cut into a batch, prepared by a worker and submitted; then the channel is
  closed. The witnesses of the properties below are about this run.
\<close>

definition demo_block :: "unit op_block" where
  "demo_block =
     \<lparr>header_number = 7, header_timestamp = 0, header_gas_used = 21000, transactions = [()]\<rparr>"

definition demo_deps :: "unit deps" where
  "demo_deps =
     \<lparr>to_bytes = (\<lambda>blks. if blks = [demo_block] then Inr [1, 2, 3] else Inl ''unsupported''),
      compress = noop_compress, block_json = (\<lambda>_. Some 2000),
      sink_submit = (\<lambda>log b. Inr \<lparr>receipt_batch_number = batch_number b, tx_hash = [],
        l1_block = 0, blob_hash = None\<rparr>),
      cp_ser = unary_ser, cp_fault = (\<lambda>_. None), submitted_at = (\<lambda>n. n), touched_at = of_nat,
      execution_us = (\<lambda>_. 0)\<rparr>"

definition demo_decode :: "bytes \<Rightarrow> unit op_block list" where
  "demo_decode bs = [demo_block]"

lemma demo_decodes: "decodes demo_deps demo_decode"
  by (simp add: decodes_def demo_deps_def demo_decode_def)

definition demo_start :: "unit world" where
  "demo_start = start_world
     \<lparr>config = batcher_config_default, cp = checkpoint_default, cp_path = None, block_rx = [],
      pending = [], current_batch_size = 0, last_submission_at = 0, next_batch_number = 1,
      next_submission_number = 1, has_event_tx = False, has_execution_callback = False,
      has_batch_callback = False, blocks_executed = 0, prepared_rx = [], in_flight = 0, ready = []\<rparr>
     \<lparr>files = Map.empty, dirs = {}\<rparr>"

definition demo_mid :: "unit world" where
  "demo_mid = demo_start\<lparr>next_batch_number := 2, spawned := [new_worker [demo_block] 1],
     sent := [demo_block], running := [new_worker [demo_block] 1], in_flight := 1,
     blocks_executed := 1\<rparr>"

definition demo_batch :: compressed_batch where
  "demo_batch = \<lparr>batch_number = 1, batch_data = [1, 2, 3], block_count = 1, first_block = 7, last_block = 7\<rparr>"

definition demo_end :: "unit world" where
  "demo_end = demo_mid\<lparr>running := [], in_flight := 0, next_submission_number := 2,
     sink_log := [(demo_batch, sink_submit demo_deps [] demo_batch)],
     cp := checkpoint_default\<lparr>last_batch_submitted := 1, updated_at := 1\<rparr>,
     last_submission_at := 1\<rparr>"

lemmas tick_eval = sequencer_tick_def env_steps_def collect_prepared_batches_def
  submit_ready_batches_def submit_loop.simps accumulate_loop.simps Let_def estimate_backlog_def
  dynamic_max_blocks_def backlog_constants receive_block_def accumulate_block_def emit_def
  spawn_phase_def MAX_CONCURRENT_PREPARATIONS_def seq_should_submit_def spawn_batch_def
  spawn_preparation_worker_def recompute_size_def prepare_batch_sync_def push_ready_def
  submit_prepared_batch_def report_submitted_def save_if_path_def should_skip_batch_def
  spawn_final_def flush_loop.simps

lemmas demo_eval = demo_start_def start_world_def sequencer.extend_def demo_deps_def
  batcher_config_default_def checkpoint_default_def noop_compress_def demo_block_def demo_batch_def

lemma demo_fresh: "fresh demo_start"
  by (simp add: fresh_def demo_eval)

lemma demo_first: "sequencer_tick demo_deps (\<lambda>_. []) 0 (env_step demo_deps (Send demo_block) demo_start)
    = Some (Inr Progress, demo_mid)"
  by (simp add: demo_eval tick_eval demo_mid_def del: receive_block_rx receive_pending receive_frames)

lemma demo_second: "sequencer_tick demo_deps (\<lambda>_. []) 0 (env_step demo_deps (Finish 0) demo_mid)
    = Some (Inr Progress, demo_end)"
  by (simp add: demo_eval tick_eval demo_mid_def demo_end_def new_worker_def record_defs touch_def)

lemma demo_third: "sequencer_tick demo_deps (\<lambda>_. []) 0 (env_step demo_deps Close demo_end)
    = Some (Inr Complete, demo_end\<lparr>rx_closed := True\<rparr>)"
  by (simp add: demo_eval tick_eval demo_mid_def demo_end_def)

lemma demo_run_mid: "sequencer_run demo_deps demo_start demo_mid"
  using demo_first by (blast intro: sequencer_run.intros)

lemma demo_run: "sequencer_run demo_deps demo_start demo_end"
  using demo_run_mid demo_second by (blast intro: sequencer_run.intros)

lemma demo_fields:
  "length (spawned demo_end) = 1" "length (sink_log demo_end) = 1" "sent demo_end = [demo_block]"
  "start_mark demo_start = 0" "spawned demo_end = [new_worker [demo_block] 1]"
  by (simp_all add: demo_end_def demo_mid_def demo_eval start_mark_def)

text \<open>The same run with a sink that refuses.\<close>

definition refusing :: "unit deps" where
  "refusing = demo_deps\<lparr>sink_submit := (\<lambda>_ _. Inl SinkTimeout)\<rparr>"

lemma refused_run:
  "\<exists>w. sequencer_run refusing demo_start w \<and> length (spawned w) = 1
     \<and> sink_log w = [] @ [(demo_batch, Inl SinkTimeout)]"
proof -
  have "sequencer_tick refusing (\<lambda>_. []) 0 (env_step refusing (Send demo_block) demo_start)
      = Some (Inr Progress, demo_mid)"
    by (simp add: refusing_def demo_eval tick_eval demo_mid_def
        del: receive_block_rx receive_pending receive_frames)
  then have mid: "sequencer_run refusing demo_start demo_mid"
    by (blast intro: sequencer_run.intros)
  have "\<exists>r w. sequencer_tick refusing (\<lambda>_. []) 0 (env_step refusing (Finish 0) demo_mid) = Some (r, w)
      \<and> length (spawned w) = 1 \<and> sink_log w = [(demo_batch, Inl SinkTimeout)]"
    by (simp add: refusing_def demo_eval tick_eval demo_mid_def new_worker_def)
  then obtain r w where w: "sequencer_tick refusing (\<lambda>_. []) 0 (env_step refusing (Finish 0) demo_mid) = Some (r, w)"
    "length (spawned w) = 1 \<and> sink_log w = [(demo_batch, Inl SinkTimeout)]" by blast
  have "sequencer_run refusing demo_start w" by (rule run_tick [OF run_env [OF mid] w(1)])
  with w(2) show ?thesis by auto
qed

section \<open>The order of submissions\<close>

text \<open>
  C1: the sink sees the batches in order, each one once. Whatever the schedule of workers and
  of the block feeder, and whatever the sink, the compressor and the file system do, the
  batch numbers of the calls to the sink are consecutive, starting with the number after the
  checkpoint's, and every call but the last was accepted: after a submission that the sink
  refused nothing is submitted any more.
\<close>

theorem submits_in_order:
  assumes "fresh w\<^sub>0" and "sequencer_run d w\<^sub>0 w" and "length (spawned w) < 2 ^ 64 - 1"
  shows "map (\<lambda>c. unat (batch_number (fst c))) (sink_log w)
       = map (\<lambda>i. Suc (start_mark w\<^sub>0 + i)) [0..<length (sink_log w)]
     \<and> list_all (\<lambda>c. is_ok (snd c)) (butlast (sink_log w))"
proof -
  obtain m s where "order d (start_mark w\<^sub>0) m s w"
    using run_order [OF assms(1) run_steps [OF assms(2)] assms(3)] .
  then show ?thesis using order_log_numbers order_log_ok by blast
qed

theorem submits_in_order_witness:
  "map (\<lambda>c. unat (batch_number (fst c))) (sink_log demo_end) = [1]"
proof -
  have "length (spawned demo_end) < 2 ^ 64 - 1" by (simp add: demo_fields)
  from submits_in_order [OF demo_fresh demo_run this] show ?thesis by (simp add: demo_fields)
qed

section \<open>What L1 holds\<close>

lemma decodes_prepared:
  assumes "decodes d decode" and "prepare_batch_sync d t = Inr p"
  shows "decode (batch_data (prepared_batch p)) = worker_blocks t"
  using assms by (auto simp: decodes_def prepare_batch_sync_def split: sum.splits)

definition l1_blocks :: "(bytes \<Rightarrow> 'tx op_block list) \<Rightarrow> 'tx world \<Rightarrow> 'tx op_block list" where
  "l1_blocks decode w = concat (map (\<lambda>c. decode (batch_data (fst c))) (sink_log w))"

definition cut_blocks :: "'tx worker list \<Rightarrow> 'tx op_block list" where
  "cut_blocks ts = concat (map worker_blocks ts)"

lemma order_log_length: "order d c m s w \<Longrightarrow> c + length (sink_log w) \<le> length (spawned w) \<or> sink_log w = []"
proof -
  assume O: "order d c m s w"
  then have "length [Suc c..<(if s then m + 2 else m + 1)] = length (sink_log w)"
    unfolding order_def by (metis length_map)
  with O show ?thesis by (auto simp: order_def split: if_splits)
qed

lemma log_payload:
  assumes L: "ledger d w" and O: "order d c m s w" and dec: "decodes d decode"
    and len: "length (spawned w) < 2 ^ 64 - 1"
  shows "map (\<lambda>x. decode (batch_data (fst x))) (sink_log w)
     = map worker_blocks (take (length (sink_log w)) (drop c (spawned w)))"
proof (cases "sink_log w = []")
  case False
  then have bound: "c + length (sink_log w) \<le> length (spawned w)" using order_log_length [OF O] by blast
  show ?thesis
  proof (rule nth_equalityI)
    show "length (map (\<lambda>x. decode (batch_data (fst x))) (sink_log w))
        = length (map worker_blocks (take (length (sink_log w)) (drop c (spawned w))))"
      using bound by simp
  next
    fix i assume "i < length (map (\<lambda>x. decode (batch_data (fst x))) (sink_log w))"
    then have i: "i < length (sink_log w)" by simp
    let ?b = "fst (sink_log w ! i)"
    have "sink_log w ! i \<in> set (sink_log w)" using i by simp
    then obtain p t where p: "prepared_batch p = ?b" "prepare_batch_sync d t = Inr p"
      and t: "t \<in> set (spawned w)"
      using L unfolding ledger_def prepared_from_def list_all_iff list_ex_iff by blast
    obtain j where j: "j < length (spawned w)" "spawned w ! j = t"
      using t by (auto simp: in_set_conv_nth)
    have "unat (batch_number ?b) = Suc (c + i)"
      using arg_cong [OF order_log_numbers [OF O], of "\<lambda>xs. xs ! i"] i by simp
    moreover have "unat (batch_number ?b) = Suc j"
      using ledger_nth [OF L j(1)] unat_Suc_of_nat [of j] len j prepare_Inr(2) [OF p(2)] p(1) by simp
    ultimately have "j = c + i" by simp
    then show "map (\<lambda>x. decode (batch_data (fst x))) (sink_log w) ! i
        = map worker_blocks (take (length (sink_log w)) (drop c (spawned w))) ! i"
      using i j bound decodes_prepared [OF dec p(2)] p(1) by simp
  qed
qed simp

lemma l1_blocks_eq:
  assumes "ledger d w" and "order d c m s w" and "decodes d decode"
    and "length (spawned w) < 2 ^ 64 - 1"
  shows "l1_blocks decode w = cut_blocks (take (length (sink_log w)) (drop c (spawned w)))"
  using log_payload [OF assms] by (simp add: l1_blocks_def cut_blocks_def)

lemma cut_blocks_split:
  "cut_blocks (take c ts) @ cut_blocks (take n (drop c ts)) @ cut_blocks (drop (c + n) ts) = cut_blocks ts"
proof -
  have "take c ts @ take n (drop c ts) @ drop (c + n) ts = ts"
    by (metis add.commute append_take_drop_id drop_drop)
  then show ?thesis unfolding cut_blocks_def by (metis concat_append map_append)
qed

text \<open>The blocks sent: those of the skipped batches, those on L1, and the rest.\<close>

lemma stream_split:
  assumes "fresh w\<^sub>0" and "steps d w\<^sub>0 w" and "length (spawned w) < 2 ^ 64 - 1"
    and "decodes d decode"
  shows "\<exists>rest. cut_blocks (take (start_mark w\<^sub>0) (spawned w)) @ l1_blocks decode w @ rest = sent w"
proof -
  obtain m s where O: "order d (start_mark w\<^sub>0) m s w" and L: "ledger d w"
    using run_order [OF assms(1,2,3)] .
  have "sent w = cut_blocks (spawned w) @ pending w @ block_rx w"
    using L by (simp add: ledger_def cut_blocks_def)
  then show ?thesis
    using l1_blocks_eq [OF L O assms(4,3)]
      cut_blocks_split [of "start_mark w\<^sub>0" "spawned w" "length (sink_log w)"]
    by (metis append_assoc)
qed

text \<open>
  C3: L1 holds the block stream. The blocks decoded from the batches handed to the sink, in
  order, are the blocks sent to the sequencer, without a gap, a repetition or a permutation,
  from the first batch that the checkpoint does not skip up to some point. For a sequencer
  started without a checkpoint they are a prefix of the blocks sent; with a checkpoint mark
  \<open>n\<close> the blocks of its first \<open>n\<close> batches are missing on L1, because its numbering starts
  again at 1.
\<close>

theorem l1_holds_the_stream:
  assumes "fresh w\<^sub>0" and "sequencer_run d w\<^sub>0 w" and "length (spawned w) < 2 ^ 64 - 1"
    and "decodes d decode"
  shows "\<exists>rest. cut_blocks (take (start_mark w\<^sub>0) (spawned w)) @ l1_blocks decode w @ rest = sent w"
  using stream_split [OF assms(1) run_steps [OF assms(2)] assms(3,4)] .

theorem l1_holds_the_stream_witness:
  "\<exists>rest. l1_blocks demo_decode demo_end @ rest = [demo_block]"
proof -
  have "length (spawned demo_end) < 2 ^ 64 - 1" by (simp add: demo_fields)
  from l1_holds_the_stream [OF demo_fresh demo_run this demo_decodes] show ?thesis
    by (simp add: demo_fields cut_blocks_def)
qed

section \<open>Completion\<close>

lemma collect_loop_frames [simp]:
  "pending (collect_loop xs w) = pending w" "rx_closed (collect_loop xs w) = rx_closed w"
  "block_rx (collect_loop xs w) = block_rx w" "spawned (collect_loop xs w) = spawned w"
  "running (collect_loop xs w) = running w" "cp (collect_loop xs w) = cp w"
  "sink_log (collect_loop xs w) = sink_log w"
  "next_submission_number (collect_loop xs w) = next_submission_number w"
  by (induction xs arbitrary: w) simp_all

lemma collect_loop_rx: "prepared_rx w = xs \<Longrightarrow> prepared_rx (collect_loop xs w) = []"
  by (induction xs arbitrary: w) simp_all

lemma collect_prepared_rx [simp]: "prepared_rx (collect_prepared_batches w) = []"
  by (simp add: collect_prepared_batches_def collect_loop_rx)

lemma submit_loop_frames:
  "submit_loop d k w = (r, w') \<Longrightarrow> pending w' = pending w \<and> running w' = running w
     \<and> prepared_rx w' = prepared_rx w \<and> spawned w' = spawned w \<and> in_flight w' = in_flight w"
proof (induction d k w rule: submit_loop.induct)
  case (1 d k w)
  show ?case
  proof (cases "ready w")
    case Nil
    with 1(2) show ?thesis by (simp add: submit_loop.simps)
  next
    case (Cons p rest)
    obtain b y where step: "submit_prepared_batch d p (w\<lparr>ready := rest\<rparr>) = (b, y)" by force
    note frames = submit_frames [of d p "w\<lparr>ready := rest\<rparr>", unfolded step, simplified]
    show ?thesis
    proof (cases "prepared_number p = next_submission_number w \<and> is_ok b")
      case True
      then obtain u where b: "b = Inr u" by (cases b) auto
      then have "submit_loop d (k + 1) y = (r, w')"
        using 1(2) Cons True step by (simp add: submit_loop.simps [of d k w])
      with 1(1) [OF Cons _ step [symmetric] b] True frames show ?thesis by simp
    next
      case False
      with 1(2) Cons step frames show ?thesis
        by (cases b) (auto simp: submit_loop.simps [of d k w] split: if_splits)
    qed
  qed
qed

lemma flush_end:
  "flush_loop d e i w = Some x \<Longrightarrow>
     pending (snd x) = pending w \<and> (is_ok (fst x) \<longrightarrow> in_flight (snd x) = 0 \<and> ready (snd x) = [])"
proof (induction rule: flush_loop_induct)
  case (stop i w)
  then show ?case by simp
next
  case (fail i w err w')
  then show ?case
    using submit_loop_frames [of d 0] by (simp add: submit_ready_batches_def collect_prepared_batches_def)
next
  case (step i w n w' x)
  then show ?case
    using submit_loop_frames [of d 0] by (simp add: submit_ready_batches_def collect_prepared_batches_def)
qed

lemma spawn_final_pending: "pending (spawn_final w) = []"
  by (simp add: spawn_final_def)

lemma complete_state:
  assumes "sequencer_tick d e now w = Some (Inr Complete, w')"
  shows "in_flight w' = 0 \<and> ready w' = [] \<and> pending w' = [] \<and> quiet w'"
proof -
  let ?a = "collect_prepared_batches (env_steps d (e AtCollect) w)"
  obtain b w1 where b: "submit_ready_batches d ?a = (b, w1)" by force
  obtain k where k: "b = Inr k"
    using assms b by (cases b) (simp_all add: sequencer_tick_def Let_def)
  define w2 where "w2 = env_steps d (e AtBacklog) w1"
  define w3 where "w3 = env_steps d (e AtAccumulate) w2"
  obtain n c w4 where acc:
    "accumulate_loop d (dynamic_max_blocks w2 (estimate_backlog w2)) 0 w3 = ((n, c), w4)"
    by (metis prod.exhaust)
  define w5 where "w5 = env_steps d (e AtSpawn) w4"
  obtain m w6 where sp: "spawn_phase d e now w5 = (m, w6)" by force
  note eqs = b k w2_def [symmetric] w3_def [symmetric] acc w5_def [symmetric] sp
  have c: "c" using assms by (cases c) (auto simp: sequencer_tick_def eqs Let_def split: if_splits)
  obtain u where fl: "flush_loop d e 0 (spawn_final w6) = Some (Inr u, w')"
    using assms c
    by (auto simp: sequencer_tick_def eqs Let_def split: option.splits sum.splits prod.splits)
  have "quiet w4" using steps_accumulate [OF acc] c by (simp add: quiet_def)
  moreover have s6: "steps d w4 w6"
    using steps_env [of d w4 "e AtSpawn"] steps_spawn_phase [OF sp] unfolding w5_def
    by (rule steps_trans)
  ultimately have "quiet w6" using quiet_steps by blast
  then have "steps d w6 w'"
    using steps_spawn_final steps_flush [OF fl] by (metis snd_conv steps_trans)
  with \<open>quiet w6\<close> have "quiet w'" using quiet_steps by blast
  then show ?thesis using flush_end [OF fl] spawn_final_pending [of w6] by simp
qed

definition preparations_ok :: "'tx deps \<Rightarrow> 'tx world \<Rightarrow> bool" where
  "preparations_ok d w = list_all (\<lambda>t. is_ok (prepare_batch_sync d t)) (spawned w)"

lemma order_all_passed:
  assumes O: "order d c m s w" and "jobs w = {#}" and "preparations_ok d w"
  shows "length (sink_log w) = length (spawned w) - c"
proof -
  let ?stop = "if s then m + 2 else m + 1"
  have "length [Suc c..<?stop] = length (sink_log w)"
    using O unfolding order_def by (metis length_map)
  moreover have "length (spawned w) < ?stop"
  proof (rule ccontr)
    assume "\<not> length (spawned w) < ?stop"
    then have "length (spawned w) \<in># jobs w"
      using O assms(3) unfolding order_def preparations_ok_def by (meson linorder_not_less order_refl)
    with assms(2) show False by simp
  qed
  ultimately show ?thesis using O by (auto simp: order_def split: if_splits)
qed

text \<open>
  When a tick reports completion and no preparation has failed, every block that was ever
  sent to the sequencer has been handed to the sink, in order, except the blocks of the
  batches skipped for the checkpoint.
\<close>

theorem complete_means_all_submitted:
  assumes "fresh w\<^sub>0" and "sequencer_run d w\<^sub>0 w"
    and "sequencer_tick d e now w = Some (Inr Complete, w')"
    and "length (spawned w') < 2 ^ 64 - 1" and "decodes d decode" and "preparations_ok d w'"
  shows "cut_blocks (take (start_mark w\<^sub>0) (spawned w')) @ l1_blocks decode w' = sent w'"
proof -
  let ?c = "start_mark w\<^sub>0"
  have run: "sequencer_run d w\<^sub>0 w'" using assms(2,3) by (rule run_tick)
  obtain m s where O: "order d ?c m s w'" and L: "ledger d w'"
    using run_order [OF assms(1) run_steps [OF run] assms(4)] .
  note fin = complete_state [OF assms(3)]
  then have "running w' = []" and "prepared_rx w' = []" using L by (auto simp: ledger_def)
  then have "jobs w' = {#}" using fin by (simp add: jobs_def)
  then have len: "length (sink_log w') = length (spawned w') - ?c"
    using order_all_passed [OF O] assms(6) by blast
  have "sent w' = cut_blocks (spawned w')"
    using L fin by (simp add: ledger_def cut_blocks_def quiet_def)
  then show ?thesis
    using l1_blocks_eq [OF L O assms(5,4)] len
      cut_blocks_split [of ?c "spawned w'" "length (spawned w') - ?c"]
    by (simp add: cut_blocks_def)
qed

theorem complete_means_all_submitted_witness:
  "l1_blocks demo_decode (demo_end\<lparr>rx_closed := True\<rparr>) = [demo_block]"
proof -
  let ?w = "demo_end\<lparr>rx_closed := True\<rparr>"
  have "sequencer_run demo_deps demo_start (env_step demo_deps Close demo_end)"
    by (rule run_env [OF demo_run])
  moreover have "length (spawned ?w) < 2 ^ 64 - 1" by (simp add: demo_fields)
  moreover have "preparations_ok demo_deps ?w"
    by (simp add: preparations_ok_def demo_fields prepare_batch_sync_def demo_deps_def noop_compress_def)
  ultimately show ?thesis
    using complete_means_all_submitted [OF demo_fresh _ demo_third _ demo_decodes]
    by (simp add: demo_fields cut_blocks_def)
qed

section \<open>Bounded concurrency\<close>

definition worker_bound :: "'tx world \<Rightarrow> bool" where
  "worker_bound w =
     (in_flight w \<le> MAX_CONCURRENT_PREPARATIONS
      \<or> quiet w \<and> pending w = [] \<and> in_flight w \<le> MAX_CONCURRENT_PREPARATIONS + 1)"

lemma worker_bound_atomic: "atomic d w w' \<Longrightarrow> worker_bound w \<Longrightarrow> worker_bound w'"
proof (induction rule: atomic.induct)
  case (environment w a)
  then show ?case by (cases a) (auto simp: worker_bound_def quiet_def)
next
  case (collect w x xs)
  then show ?case by (auto simp: worker_bound_def quiet_def push_ready_def elim!: collect_one.elims)
next
  case (submit w p rest r w')
  then show ?case
    using submit_frames [of d p "w\<lparr>ready := rest\<rparr>"] by (simp add: worker_bound_def quiet_def)
next
  case (receive w)
  then show ?case by (auto simp: worker_bound_def quiet_def)
next
  case (spawn w k)
  then show ?case by (auto simp: worker_bound_def quiet_def)
next
  case (resize w n)
  then show ?case by (simp add: worker_bound_def quiet_def)
qed

lemma worker_bound_steps: "steps d w w' \<Longrightarrow> worker_bound w \<Longrightarrow> worker_bound w'"
  by (induction rule: rtranclp_induct) (auto intro: worker_bound_atomic)

text \<open>
  At most four batches are being prepared at any time, counting the finished ones not yet
  collected; only the worker for the last blocks, after the channel was closed, can be a fifth.
  The counter the code keeps is exact.
\<close>

theorem workers_bounded:
  assumes "fresh w\<^sub>0" and "sequencer_run d w\<^sub>0 w"
  shows "in_flight w = length (running w) + length (prepared_rx w)
     \<and> (in_flight w \<le> 4 \<or> rx_closed w \<and> block_rx w = [] \<and> pending w = [] \<and> in_flight w \<le> 5)"
proof -
  have "worker_bound w\<^sub>0" using assms(1) by (simp add: worker_bound_def fresh_def)
  then have "worker_bound w" using worker_bound_steps run_steps [OF assms(2)] by blast
  moreover have "ledger d w"
    using ledger_steps [OF run_steps [OF assms(2)]] fresh_ledger [OF assms(1)] by blast
  ultimately show ?thesis
    by (auto simp: worker_bound_def ledger_def quiet_def MAX_CONCURRENT_PREPARATIONS_def)
qed

theorem workers_bounded_witness:
  "in_flight demo_mid = length (running demo_mid) + length (prepared_rx demo_mid) \<and> in_flight demo_mid \<le> 5"
  using workers_bounded [OF demo_fresh demo_run_mid] by auto

section \<open>Failed submissions\<close>

lemma atomic_log: "atomic d w w' \<Longrightarrow> \<exists>new. sink_log w' = sink_log w @ new"
proof (induction rule: atomic.induct)
  case (environment w a)
  then show ?case by (cases a) auto
next
  case (submit w p rest r w')
  from submit(3) show ?case by (cases rule: submit_prepared_cases) auto
qed auto

lemma steps_log: "steps d w w' \<Longrightarrow> \<exists>new. sink_log w' = sink_log w @ new"
proof (induction rule: rtranclp_induct)
  case base
  then show ?case by simp
next
  case (step y z)
  then show ?case using atomic_log [OF step(2)] by auto
qed

lemma run_trans: "sequencer_run d w' w'' \<Longrightarrow> sequencer_run d w w' \<Longrightarrow> sequencer_run d w w''"
  by (induction rule: sequencer_run.induct) (auto intro: sequencer_run.intros)

text \<open>
  A submission that the sink refuses is final. The batch was taken off the queue before
  the call, its number is never reached again, and no later run of the sequencer submits
  another batch: its log stays as it is.
\<close>

theorem nothing_after_refusal:
  assumes "fresh w\<^sub>0" and "sequencer_run d w\<^sub>0 w" and "sequencer_run d w w'"
    and "length (spawned w') < 2 ^ 64 - 1"
    and "sink_log w = log @ [(b, Inl err)]"
  shows "sink_log w' = sink_log w"
proof -
  have run: "sequencer_run d w\<^sub>0 w'" using run_trans assms(2,3) by blast
  obtain m s where "order d (start_mark w\<^sub>0) m s w'"
    using run_order [OF assms(1) run_steps [OF run] assms(4)] .
  then have ok: "list_all (\<lambda>c. is_ok (snd c)) (butlast (sink_log w'))" by (rule order_log_ok)
  obtain new where new: "sink_log w' = sink_log w @ new" using steps_log run_steps [OF assms(3)] by blast
  have "new = []"
  proof (rule ccontr)
    assume "new \<noteq> []"
    then have "(b, Inl err) \<in> set (butlast (sink_log w'))"
      unfolding new assms(5) by (simp add: butlast_append)
    with ok show False by (auto simp: list_all_iff)
  qed
  with new show ?thesis by simp
qed

theorem nothing_after_refusal_witness:
  "\<exists>w. sequencer_run refusing demo_start w \<and> sink_log w = [(demo_batch, Inl SinkTimeout)]
     \<and> sink_log (env_step refusing Close w) = sink_log w"
proof -
  obtain w where w: "sequencer_run refusing demo_start w" "length (spawned w) = 1"
    "sink_log w = [] @ [(demo_batch, Inl SinkTimeout)]"
    using refused_run by blast
  have "sequencer_run refusing w (env_step refusing Close w)" by (rule run_env [OF run_start])
  from nothing_after_refusal [OF demo_fresh w(1) this _ w(3)] w show ?thesis by auto
qed

end
