(* ===== verification/Sequencer_Flush.thy ===== *)
theory Sequencer_Flush
  imports Sequencer_Props
begin

text \<open>
  When the final flush of the sequencer returns. It does if every preparation succeeds, the sink
  and the file system accept what they are given, and every worker finishes in the end: the
  workers that run become fewer, and with none running all the batches are ready. It never
  returns when a preparation has failed and a later batch is ready: the number of the failed
  batch is waited for in vain.
\<close>

section \<open>An accepting environment\<close>

definition accepting :: "'tx deps \<Rightarrow> bool" where
  "accepting d =
     ((\<forall>log b. is_ok (sink_submit d log b)) \<and> (\<forall>k. cp_fault d k = None) \<and> (\<forall>c. cp_ser d c \<noteq> None))"

definition preparing :: "'tx deps \<Rightarrow> bool" where
  "preparing d = (\<forall>t. is_ok (prepare_batch_sync d t))"

lemma accepting_save:
  "accepting d \<Longrightarrow> \<exists>fs'. save_if_path (cp_ser d) (cp_fault d k) c p fs = (Inr (), fs')"
  using save_if_path_ok [of "cp_ser d" c p fs]
  by (cases "save_if_path (cp_ser d) None c p fs") (simp add: accepting_def)

lemma accepting_submit:
  assumes "accepting d"
  shows "fst (submit_prepared_batch d p w) = Inr ()"
proof -
  obtain r w' where r: "submit_prepared_batch d p w = (r, w')" by force
  from r show ?thesis
  proof (cases rule: submit_prepared_cases)
    case (failed ans err)
    let ?w = "emit (BatchBuilt (prepared_number p) (prepared_block_count p)) w"
    obtain receipt where rec: "sink_submit d (sink_log w) (prepared_batch p) = Inr receipt"
      using assms by (metis accepting_def is_ok_simps(2) sum.exhaust)
    from failed(1,2) r rec accepting_save [OF assms] show ?thesis
      by (auto simp: submit_prepared_batch_def Let_def split: prod.splits sum.splits)
        (metis Pair_inject sum.distinct(1))
  qed (use r in simp_all)
qed

lemma order_False_atomic:
  "atomic d w w' \<Longrightarrow> order d c m False w \<Longrightarrow> ledger d w \<Longrightarrow> length (spawned w') < 2 ^ 64 - 1
     \<Longrightarrow> accepting d \<Longrightarrow> \<exists>m. order d c m False w'"
proof (induction rule: atomic.induct)
  case (environment w a)
  then show ?case using order_env by blast
next
  case (collect w x xs)
  show ?case
    by (intro exI, rule order_cong [OF collect(2)]) (simp_all add: jobs_collect [OF collect(1)])
next
  case (submit w p rest r w')
  have len: "length (spawned w) < 2 ^ 64 - 1"
    using submit_frames(9) [of d p "w\<lparr>ready := rest\<rparr>"] submit by simp
  have "r = Inr ()" using accepting_submit [OF submit(7), of p "w\<lparr>ready := rest\<rparr>"] submit(3) by simp
  with submit(3) have "next_submission_number w' = next_submission_number w + 1"
    by (cases rule: submit_prepared_cases) auto
  then have "next_submission_number w' \<noteq> next_submission_number w" by simp
  then show ?case using order_submit [OF submit(4,5,1,2,3) len] by auto
next
  case (receive w)
  show ?case by (intro exI, rule order_cong [OF receive(2)]) (simp_all add: jobs_def)
next
  case (spawn w k)
  then show ?case using order_spawn by blast
next
  case (resize w n)
  show ?case by (intro exI, rule order_cong [OF resize(1)]) (simp_all add: jobs_def)
qed

text \<open>The state in which the flush makes progress.\<close>

definition healthy :: "'tx deps \<Rightarrow> nat \<Rightarrow> 'tx world \<Rightarrow> bool" where
  "healthy d c w = (ledger d w \<and> (\<exists>m. order d c m False w) \<and> length (spawned w) < 2 ^ 64 - 1)"

lemma healthy_steps:
  "steps d w w' \<Longrightarrow> healthy d c w \<Longrightarrow> length (spawned w') < 2 ^ 64 - 1 \<Longrightarrow> accepting d \<Longrightarrow> healthy d c w'"
proof (induction rule: rtranclp_induct)
  case base
  then show ?case by simp
next
  case (step y z)
  have "length (spawned y) < 2 ^ 64 - 1"
    using atomic_spawned [OF step(2)] step.prems(2) by auto
  then have "healthy d c y" using step by simp
  then show ?case
    using order_False_atomic [OF step(2)] ledger_atomic [OF step(2)] step.prems
    unfolding healthy_def by blast
qed

lemma healthy_fresh: "fresh w \<Longrightarrow> healthy d (start_mark w) w"
  using fresh_ledger [of w d] fresh_order [of w d] unfolding healthy_def start_mark_def
  by (auto simp: fresh_def)

section \<open>One iteration of the flush\<close>

lemma submit_loop_ok: "accepting d \<Longrightarrow> \<exists>n w'. submit_loop d k w = (Inr n, w')"
proof (induction d k w rule: submit_loop.induct)
  case (1 d k w)
  show ?case
  proof (cases "ready w")
    case Nil
    then show ?thesis by (simp add: submit_loop.simps)
  next
    case (Cons p rest)
    show ?thesis
    proof (cases "prepared_number p = next_submission_number w")
      case False
      with Cons show ?thesis by (simp add: submit_loop.simps)
    next
      case True
      obtain y where step: "submit_prepared_batch d p (w\<lparr>ready := rest\<rparr>) = (Inr (), y)"
        using accepting_submit [OF 1(2), of p "w\<lparr>ready := rest\<rparr>"] by (metis prod.collapse)
      have "\<not> prepared_number p \<noteq> next_submission_number w" using True by simp
      from 1(1) [OF Cons this step [symmetric] refl 1(2)] show ?thesis
        using Cons True step by (simp add: submit_loop.simps [of d k w])
    qed
  qed
qed

lemma submit_loop_end:
  "submit_loop d k w = (Inr n, w') \<Longrightarrow>
     ready w' = [] \<or> prepared_number (hd (ready w')) \<noteq> next_submission_number w'"
proof (induction d k w rule: submit_loop.induct)
  case (1 d k w)
  show ?case
  proof (cases "ready w")
    case Nil
    with 1(2) show ?thesis by (simp add: submit_loop.simps)
  next
    case (Cons p rest)
    obtain b y where step: "submit_prepared_batch d p (w\<lparr>ready := rest\<rparr>) = (b, y)" by force
    show ?thesis
    proof (cases "prepared_number p = next_submission_number w")
      case False
      with 1(2) Cons show ?thesis by (auto simp: submit_loop.simps [of d k w])
    next
      case True
      then obtain u where b: "b = Inr u"
        using 1(2) Cons step by (cases b) (simp_all add: submit_loop.simps [of d k w])
      then have "submit_loop d (k + 1) y = (Inr n, w')"
        using 1(2) Cons True step by (simp add: submit_loop.simps [of d k w])
      with 1(1) [OF Cons _ step [symmetric] b] True show ?thesis by simp
    qed
  qed
qed

text \<open>With no worker running and every result collected, nothing can be ready out of order.\<close>

lemma all_ready_in_order:
  assumes H: "healthy d c w" and prep: "preparing d"
    and idle: "running w = []" "prepared_rx w = []"
    and fin: "ready w = [] \<or> prepared_number (hd (ready w)) \<noteq> next_submission_number w"
  shows "ready w = [] \<and> in_flight w = 0"
proof -
  obtain m where L: "ledger d w" and O: "order d c m False w" and len: "length (spawned w) < 2 ^ 64 - 1"
    using H by (auto simp: healthy_def)
  have jobs: "jobs w = image_mset (unat \<circ> prepared_number) (mset (ready w))"
    using idle by (simp add: jobs_def)
  have "ready w = []"
  proof (rule ccontr)
    assume "ready w \<noteq> []"
    then obtain p rest where p: "ready w = p # rest" by (cases "ready w") auto
    then have mem: "unat (prepared_number p) \<in># jobs w" by (simp add: jobs)
    have "\<forall>n \<in># jobs w. Suc m \<le> n" using O unfolding order_def by blast
    with mem have ge: "Suc m \<le> unat (prepared_number p)" by blast
    have "unat (prepared_number p) \<le> length (spawned w)" using jobs_bounds [OF L len mem] by simp
    with ge have "m + 1 \<le> Suc m \<and> Suc m \<le> length (spawned w)" by linarith
    moreover have "list_all (\<lambda>t. is_ok (prepare_batch_sync d t)) (spawned w)"
      using prep by (simp add: preparing_def list_all_iff)
    ultimately have "Suc m \<in># jobs w" using O unfolding order_def by (metis (full_types))
    then obtain q where q: "q \<in> set (ready w)" "unat (prepared_number q) = Suc m"
      by (auto simp: jobs)
    have "prepared_number p \<le> prepared_number q"
      using L q(1) p by (auto simp: ledger_def)
    then have "unat (prepared_number p) = Suc m"
      using ge q(2) by (simp add: word_le_nat_alt)
    then have "prepared_number p = next_submission_number w"
      using O by (simp add: order_def word_unat_eq_iff)
    with fin p show False by simp
  qed
  with L idle show ?thesis by (simp add: ledger_def)
qed

lemma env_running_le:
  "length (running (env_step d a w)) \<le> length (running w)"
  by (cases a) auto

lemma env_steps_running:
  "length (running (env_steps d acts w)) \<le> length (running w)
     \<and> (Finish 0 \<in> set acts \<longrightarrow> running w \<noteq> [] \<longrightarrow> length (running (env_steps d acts w)) < length (running w))"
proof (induction acts arbitrary: w)
  case Nil
  then show ?case by (simp add: env_steps_def)
next
  case (Cons a acts)
  let ?v = "env_step d a w"
  have eq: "env_steps d (a # acts) w = env_steps d acts ?v" by (simp add: env_steps_def)
  have le: "length (running (env_steps d acts ?v)) \<le> length (running ?v)"
    "length (running ?v) \<le> length (running w)"
    using Cons [of ?v] env_running_le by blast+
  have lt: "length (running (env_steps d acts ?v)) < length (running w)"
    if fin: "Finish 0 \<in> set (a # acts)" and ne: "running w \<noteq> []"
  proof (cases "a = Finish 0")
    case True
    then have "length (running ?v) < length (running w)" using ne by (cases "running w") auto
    with le show ?thesis by simp
  next
    case False
    then have mem: "Finish 0 \<in> set acts" using fin by simp
    show ?thesis
    proof (cases "running ?v = []")
      case True
      with le ne show ?thesis by (cases "running w") auto
    next
      case nonempty: False
      then have "length (running (env_steps d acts ?v)) < length (running ?v)"
        using Cons [of ?v] mem by blast
      with le show ?thesis by simp
    qed
  qed
  from le lt show ?case unfolding eq by (meson le_trans)
qed

section \<open>Termination\<close>

text \<open>In every schedule in which the oldest worker finishes again and again, the flush ends.\<close>

definition fair :: "'tx schedule \<Rightarrow> bool" where
  "fair e = (\<forall>i. \<exists>j. Finish 0 \<in> set (e (AtFlush (i + j))))"

lemma flush_iteration:
  assumes "healthy d c w" and "accepting d"
  obtains n w' where "submit_ready_batches d (collect_prepared_batches (env_steps d (e (AtFlush i)) w)) = (Inr n, w')"
    and "healthy d c w'" and "running w' = running (env_steps d (e (AtFlush i)) w)"
    and "prepared_rx w' = []"
    and "ready w' = [] \<or> prepared_number (hd (ready w')) \<noteq> next_submission_number w'"
proof -
  let ?c = "collect_prepared_batches (env_steps d (e (AtFlush i)) w)"
  obtain n w' where s: "submit_ready_batches d ?c = (Inr n, w')"
    using submit_loop_ok [OF assms(2)] unfolding submit_ready_batches_def by blast
  then have loop: "submit_loop d 0 ?c = (Inr n, w')" by (simp add: submit_ready_batches_def)
  note frames = submit_loop_frames [OF loop]
  have sp: "spawned w' = spawned w" using frames by (simp add: collect_prepared_batches_def)
  have "steps d w w'"
    using steps_env [of d w "e (AtFlush i)"] steps_collect_prepared [of d] steps_submit [OF s]
    by (meson steps_trans)
  then have "healthy d c w'"
    using healthy_steps assms sp unfolding healthy_def by (metis (no_types, lifting))
  moreover have "running w' = running (env_steps d (e (AtFlush i)) w)"
    using frames by (simp add: collect_prepared_batches_def)
  moreover have "prepared_rx w' = []" using frames by simp
  ultimately show thesis using that s submit_loop_end [OF loop] by blast
qed

lemma flush_spawned: "flush_loop d e i w = Some x \<Longrightarrow> spawned (snd x) = spawned w"
proof (induction rule: flush_loop_induct)
  case (stop i w)
  then show ?case by simp
next
  case (fail i w err w')
  then show ?case
    using submit_loop_frames [of d 0] by (simp add: submit_ready_batches_def collect_prepared_batches_def)
next
  case (step i w n w' x)
  then show ?case
    using submit_loop_frames [of d 0] by (simp add: submit_ready_batches_def collect_prepared_batches_def)
qed

lemma flush_idle:
  assumes "healthy d c w" and "preparing d" and "running w = []" and "prepared_rx w = []"
    and "ready w = [] \<or> prepared_number (hd (ready w)) \<noteq> next_submission_number w"
  shows "flush_loop d e i w = Some (Inr (), w)"
  using all_ready_in_order [OF assms] by (simp add: flush_loop.simps)

lemma flush_returns:
  assumes "accepting d" and "preparing d" and "fair e"
  shows "healthy d c w \<Longrightarrow> \<exists>w'. flush_loop d e i w = Some (Inr (), w')"
proof (induction "length (running w)" arbitrary: w i rule: less_induct)
  case less
  obtain j where j: "Finish 0 \<in> set (e (AtFlush (i + j)))" using assms(3) by (auto simp: fair_def)
  from less.prems j less.hyps show ?case
  proof (induction j arbitrary: w i)
    case (0 w i)
    show ?case
    proof (cases "0 < in_flight w \<or> ready w \<noteq> []")
      case False
      then show ?thesis by (simp add: flush_loop.simps)
    next
      case True
      obtain n w' where it: "submit_ready_batches d (collect_prepared_batches
            (env_steps d (e (AtFlush i)) w)) = (Inr n, w')"
        and H: "healthy d c w'" and run: "running w' = running (env_steps d (e (AtFlush i)) w)"
        and rx: "prepared_rx w' = []"
        and fin: "ready w' = [] \<or> prepared_number (hd (ready w')) \<noteq> next_submission_number w'"
        using flush_iteration [OF 0(1) assms(1)] by blast
      have eq: "flush_loop d e i w = flush_loop d e (Suc i) w'"
        using True it by (simp add: flush_loop.simps [of d e i w])
      show ?thesis
      proof (cases "running w' = []")
        case True
        then show ?thesis using flush_idle [OF H assms(2) _ rx fin] eq by simp
      next
        case False
        then have "length (running w') < length (running w)"
          using env_steps_running [of d "e (AtFlush i)" w] 0(2) run by fastforce
        then show ?thesis using 0(3) H eq by simp
      qed
    qed
  next
    case (Suc j w i)
    show ?case
    proof (cases "0 < in_flight w \<or> ready w \<noteq> []")
      case False
      then show ?thesis by (simp add: flush_loop.simps)
    next
      case True
      obtain n w' where it: "submit_ready_batches d (collect_prepared_batches
            (env_steps d (e (AtFlush i)) w)) = (Inr n, w')"
        and H: "healthy d c w'" and run: "running w' = running (env_steps d (e (AtFlush i)) w)"
        using flush_iteration [OF Suc(2) assms(1)] by blast
      have eq: "flush_loop d e i w = flush_loop d e (Suc i) w'"
        using True it by (simp add: flush_loop.simps [of d e i w])
      have le: "length (running w') \<le> length (running w)"
        using env_steps_running [of d "e (AtFlush i)" w] run by simp
      have "\<exists>w''. flush_loop d e (Suc i) w' = Some (Inr (), w'')"
      proof (rule Suc(1) [OF H])
        show "Finish 0 \<in> set (e (AtFlush (Suc i + j)))" using Suc(3) by simp
        show "\<exists>w'. flush_loop d e i v = Some (Inr (), w')"
          if "length (running v) < length (running w')" and "healthy d c v" for v i
          using Suc(4) [of v i] that le by simp
      qed
      then show ?thesis by (simp add: eq)
    qed
  qed
qed

section \<open>Shutdown\<close>

lemma spawn_final_spawned: "length (spawned (spawn_final w)) \<le> length (spawned w) + 1"
  by (simp add: spawn_final_def)

lemma catch_up_spawned:
  "catch_up d e slots k w = (n, w') \<Longrightarrow> length (spawned w') \<le> length (spawned w) + (slots - k)"
proof (induction d e slots k w rule: catch_up.induct)
  case (1 d e slots k w)
  let ?w = "env_steps d (e (AtWorker k)) w"
  let ?eff = "dynamic_max_blocks ?w (length (pending ?w) + length (block_rx ?w))"
  let ?s = "spawn_batch (min (length (pending ?w)) ?eff) ?w"
  show ?case
  proof (cases "(k < slots \<and> pending w \<noteq> []) \<and> \<not> length (pending ?w) < max (?eff div 2) 1")
    case False
    with 1(2) show ?thesis by (auto simp: catch_up.simps [of d e slots k w] Let_def split: if_splits)
  next
    case True
    then have go: "k < slots \<and> pending w \<noteq> []" and more: "\<not> length (pending ?w) < max (?eff div 2) 1"
      by blast+
    have "catch_up d e slots (k + 1) (recompute_size d ?s) = (n, w')"
      using 1(2) go more by (simp add: catch_up.simps [of d e slots k w] Let_def)
    from 1(1) [OF go refl refl refl refl more this] go show ?thesis
      by (simp add: recompute_size_def, arith)
  qed
qed

lemma spawn_phase_spawned:
  "spawn_phase d e now w = (n, w') \<Longrightarrow> length (spawned w') \<le> length (spawned w) + 4"
  using catch_up_spawned [of d e "MAX_CONCURRENT_PREPARATIONS - in_flight w" 0 w n w']
  by (auto simp: spawn_phase_def Let_def recompute_size_def MAX_CONCURRENT_PREPARATIONS_def
      split: if_splits)

text \<open>A tick on a closed and empty channel goes on to the flush.\<close>

lemma quiet_tick:
  assumes "quiet w" and "healthy d c w" and "accepting d" and "length (spawned w) + 5 < 2 ^ 64 - 1"
  obtains v where "healthy d c v"
    and "sequencer_tick d e now w = (case flush_loop d e 0 v of
           None \<Rightarrow> None | Some (Inl err, w) \<Rightarrow> Some (Inl err, w) | Some (Inr _, w) \<Rightarrow> Some (Inr Complete, w))"
proof -
  let ?a = "collect_prepared_batches (env_steps d (e AtCollect) w)"
  obtain k w1 where b: "submit_ready_batches d ?a = (Inr k, w1)"
    using submit_loop_ok [OF assms(3)] unfolding submit_ready_batches_def by blast
  have s1: "steps d w w1"
    using steps_env [of d w] steps_collect_prepared [of d] steps_submit [OF b] by (meson steps_trans)
  have n1: "spawned w1 = spawned w"
    using submit_loop_frames [of d 0 ?a] b by (simp add: submit_ready_batches_def collect_prepared_batches_def)
  define w2 where "w2 = env_steps d (e AtBacklog) w1"
  define w3 where "w3 = env_steps d (e AtAccumulate) w2"
  have s3: "steps d w w3"
    using s1 steps_env [of d w1 "e AtBacklog"] steps_env [of d w2 "e AtAccumulate"]
    unfolding w2_def [symmetric] w3_def [symmetric] by (meson steps_trans)
  have q3: "quiet w3" using quiet_steps [OF s3 assms(1)] .
  then have acc: "accumulate_loop d (dynamic_max_blocks w2 (estimate_backlog w2)) 0 w3 = ((0, True), w3)"
    by (simp add: accumulate_loop.simps quiet_def)
  define w5 where "w5 = env_steps d (e AtSpawn) w3"
  obtain m w6 where sp: "spawn_phase d e now w5 = (m, w6)" by force
  have s6: "steps d w3 w6"
    using steps_env [of d w3 "e AtSpawn"] steps_spawn_phase [OF sp] unfolding w5_def
    by (rule steps_trans)
  then have "quiet w6" using q3 by (rule quiet_steps)
  then have sf: "steps d w (spawn_final w6)"
    using s3 s6 steps_spawn_final by (meson steps_trans)
  have n6: "length (spawned w6) \<le> length (spawned w) + 4"
    using spawn_phase_spawned [OF sp] n1 by (simp add: w5_def w3_def w2_def)
  have "healthy d c (spawn_final w6)"
    using healthy_steps [OF sf assms(2) _ assms(3)] spawn_final_spawned [of w6] n6 assms(4) by linarith
  moreover have "sequencer_tick d e now w = (case flush_loop d e 0 (spawn_final w6) of
      None \<Rightarrow> None | Some (Inl err, w) \<Rightarrow> Some (Inl err, w) | Some (Inr _, w) \<Rightarrow> Some (Inr Complete, w))"
    by (simp add: sequencer_tick_def b w2_def [symmetric] w3_def [symmetric] acc
        w5_def [symmetric] sp Let_def)
  ultimately show thesis by (rule that)
qed

lemma healthy_run:
  "fresh w\<^sub>0 \<Longrightarrow> sequencer_run d w\<^sub>0 w \<Longrightarrow> length (spawned w) < 2 ^ 64 - 1 \<Longrightarrow> accepting d
     \<Longrightarrow> healthy d (start_mark w\<^sub>0) w"
  by (rule healthy_steps [OF run_steps healthy_fresh])

text \<open>
  C2: an orderly shutdown terminates and loses nothing. When the channel has been closed and
  drained, the sink and the file system accept what they are given and preparations succeed,
  the tick returns under every fair schedule of the workers, it reports completion, and then
  every block ever sent is on L1, in order, except the blocks of the batches skipped for the
  checkpoint.
\<close>

theorem shutdown_completes:
  assumes "fresh w\<^sub>0" and "sequencer_run d w\<^sub>0 w" and "rx_closed w" and "block_rx w = []"
    and "accepting d" and "preparing d" and "fair e" and "decodes d decode"
    and "length (spawned w) + 5 < 2 ^ 64 - 1"
  shows "\<exists>w'. sequencer_tick d e now w = Some (Inr Complete, w')
     \<and> cut_blocks (take (start_mark w\<^sub>0) (spawned w')) @ l1_blocks decode w' = sent w'"
proof -
  have q: "quiet w" using assms(3,4) by (simp add: quiet_def)
  have H: "healthy d (start_mark w\<^sub>0) w"
    using healthy_run [OF assms(1,2) _ assms(5)] assms(9) by simp
  obtain v where v: "healthy d (start_mark w\<^sub>0) v"
    and tick: "sequencer_tick d e now w = (case flush_loop d e 0 v of
      None \<Rightarrow> None | Some (Inl err, w) \<Rightarrow> Some (Inl err, w) | Some (Inr _, w) \<Rightarrow> Some (Inr Complete, w))"
    using quiet_tick [OF q H assms(5,9)] by blast
  obtain w' where fl: "flush_loop d e 0 v = Some (Inr (), w')"
    using flush_returns [OF assms(5,6,7) v] by blast
  then have complete: "sequencer_tick d e now w = Some (Inr Complete, w')" by (simp add: tick)
  have "healthy d (start_mark w\<^sub>0) w'"
    if "length (spawned w') < 2 ^ 64 - 1"
    using healthy_steps [OF steps_flush [OF fl] v _ assms(5)] that by simp
  moreover have "length (spawned w') = length (spawned v)"
    using flush_spawned [OF fl] by simp
  ultimately have "length (spawned w') < 2 ^ 64 - 1" using v by (simp add: healthy_def)
  moreover have "preparations_ok d w'"
    using assms(6) by (simp add: preparing_def preparations_ok_def list_all_iff)
  ultimately show ?thesis
    using complete_means_all_submitted [OF assms(1,2) complete _ assms(8)] complete by blast
qed

text \<open>An encoder for the witness: the number of transactions in unary, then the header fields.\<close>

definition encode_block :: "unit op_block \<Rightarrow> bytes" where
  "encode_block b = replicate (length (transactions b)) 1 @ 0 # to_le_bytes (header_number b)
     @ to_le_bytes (header_timestamp b) @ to_le_bytes (header_gas_used b)"

function decode_blocks :: "bytes \<Rightarrow> unit op_block list" where
  "decode_blocks bs =
     (if bs = [] then []
      else let rest = drop 1 (dropWhile (\<lambda>x. x = 1) bs) in
        \<lparr>header_number = from_le_bytes (take 8 rest),
         header_timestamp = from_le_bytes (take 8 (drop 8 rest)),
         header_gas_used = from_le_bytes (take 8 (drop 16 rest)),
         transactions = map (\<lambda>_. ()) (takeWhile (\<lambda>x. x = 1) bs)\<rparr> # decode_blocks (drop 24 rest))"
  by auto
termination
proof (relation "measure length")
  fix bs rest :: bytes
  assume "bs \<noteq> []" and "rest = drop 1 (dropWhile (\<lambda>x. x = 1) bs)"
  moreover have "length (dropWhile (\<lambda>x. x = 1) bs) \<le> length bs" by (rule length_dropWhile_le)
  moreover have "0 < length bs" using \<open>bs \<noteq> []\<close> by simp
  ultimately show "(drop 24 rest, bs) \<in> measure length" by (simp, linarith)
qed simp

declare decode_blocks.simps [simp del]

lemma decode_encode_block: "decode_blocks (encode_block b @ bs) = b # decode_blocks bs"
proof -
  have "map (\<lambda>_. ()) (replicate (length (transactions b)) (1 :: u8)) = transactions b"
    by (rule nth_equalityI) simp_all
  then show ?thesis
    by (subst decode_blocks.simps)
      (simp add: encode_block_def dropWhile_append takeWhile_append Let_def)
qed

lemma decode_encode_blocks: "decode_blocks (concat (map encode_block bs)) = bs"
  by (induction bs) (simp_all add: decode_encode_block, simp add: decode_blocks.simps)

definition plain :: "unit deps" where
  "plain = demo_deps\<lparr>to_bytes := (\<lambda>blks. Inr (concat (map encode_block blks)))\<rparr>"

lemma plain_ok: "accepting plain" "preparing plain" "decodes plain decode_blocks"
  by (simp_all add: accepting_def preparing_def decodes_def plain_def demo_deps_def unary_ser_def
      prepare_batch_sync_def noop_compress_def decode_encode_blocks)

definition oldest_first :: "unit schedule" where
  "oldest_first p = [Finish 0]"

lemma oldest_first_fair: "fair oldest_first"
  by (simp add: fair_def oldest_first_def)

lemma plain_received:
  "\<exists>r w. sequencer_tick plain (\<lambda>_. []) 0 (env_step plain (Send demo_block) demo_start) = Some (r, w)
     \<and> length (spawned w) = 1 \<and> block_rx w = [] \<and> sent w = [demo_block]"
  by (simp add: plain_def demo_eval tick_eval del: receive_block_rx receive_pending receive_frames)

theorem shutdown_completes_witness:
  "\<exists>w w'. sequencer_run plain demo_start w \<and> sequencer_tick plain oldest_first 0 w = Some (Inr Complete, w')
     \<and> sent w = [demo_block] \<and> l1_blocks decode_blocks w' = sent w'"
proof -
  obtain r v where v: "sequencer_tick plain (\<lambda>_. []) 0 (env_step plain (Send demo_block) demo_start) = Some (r, v)"
    "length (spawned v) = 1" "block_rx v = []" "sent v = [demo_block]"
    using plain_received by blast
  let ?w = "env_step plain Close v"
  have run: "sequencer_run plain demo_start ?w"
    by (rule run_env [OF run_tick [OF run_env [OF run_start] v(1)]])
  have "rx_closed ?w" and "block_rx ?w = []" and "length (spawned ?w) + 5 < 2 ^ 64 - 1"
    using v by simp_all
  from shutdown_completes [OF demo_fresh run this(1,2) plain_ok(1,2) oldest_first_fair plain_ok(3) this(3)]
  obtain w' where "sequencer_tick plain oldest_first 0 ?w = Some (Inr Complete, w')"
    and "l1_blocks decode_blocks w' = sent w'"
    by (auto simp: demo_fields cut_blocks_def)
  then show ?thesis using run v(4) by fastforce
qed

section \<open>A failed preparation\<close>

text \<open>The state in which the head of the queue is not the batch that is waited for.\<close>

definition gap :: "'tx world \<Rightarrow> bool" where
  "gap w = (running w = [] \<and> prepared_rx w = [] \<and> ready w \<noteq> []
     \<and> prepared_number (hd (ready w)) \<noteq> next_submission_number w)"

lemma gap_env: "gap w \<Longrightarrow> gap (env_steps d acts w)"
proof -
  have "gap w \<Longrightarrow> gap (env_step d a w)" for a w by (cases a) (simp_all add: gap_def)
  then show "gap w \<Longrightarrow> gap (env_steps d acts w)"
    unfolding env_steps_def by (induction acts arbitrary: w) simp_all
qed

lemma gap_collect: "gap w \<Longrightarrow> collect_prepared_batches w = w"
  by (simp add: gap_def collect_prepared_batches_def)

lemma gap_submit: "gap w \<Longrightarrow> submit_ready_batches d w = (Inr 0, w)"
  by (cases "ready w") (simp_all add: gap_def submit_ready_batches_def submit_loop.simps)

lemma gap_flush: "gap w \<Longrightarrow> flush_loop d e i w = None"
proof (rule ccontr)
  assume "gap w" and "flush_loop d e i w \<noteq> None"
  then obtain x where "flush_loop d e i w = Some x" by blast
  then have "gap w \<longrightarrow> False"
  proof (induction rule: flush_loop_induct)
    case (stop i w)
    then show ?case by (simp add: gap_def)
  next
    case (fail i w err w')
    then show ?case by (auto simp: gap_collect gap_submit dest!: gap_env [of w d "e (AtFlush i)"])
  next
    case (step i w n w' x)
    then show ?case by (auto simp: gap_collect gap_submit dest!: gap_env [of w d "e (AtFlush i)"])
  qed
  with \<open>gap w\<close> show False by blast
qed

text \<open>
  C27: a failed preparation makes the shutdown hang. When the number that is waited for belongs
  to a batch whose preparation failed, so that no worker is running, nothing is left to
  collect, and the head of the queue has another number, the tick on the closed channel never
  returns, under any schedule.
\<close>

theorem failed_preparation_hangs:
  assumes "rx_closed w" and "block_rx w = []" and "pending w = []"
    and "running w = []" and "prepared_rx w = []" and "ready w \<noteq> []"
    and "prepared_number (hd (ready w)) \<noteq> next_submission_number w"
  shows "sequencer_tick d e now w = None"
proof -
  define w1 where "w1 = env_steps d (e AtCollect) w"
  define w2 where "w2 = env_steps d (e AtBacklog) w1"
  define w3 where "w3 = env_steps d (e AtAccumulate) w2"
  define w5 where "w5 = env_steps d (e AtSpawn) w3"
  have g: "gap w1" "gap w3" "gap w5"
  proof -
    have "gap w" using assms by (simp add: gap_def)
    then show "gap w1" "gap w3" "gap w5"
      by (simp_all add: w1_def w2_def w3_def w5_def gap_env)
  qed
  have "steps d w w3"
    using steps_env [of d w "e AtCollect"] steps_env [of d w1 "e AtBacklog"]
      steps_env [of d w2 "e AtAccumulate"]
    unfolding w1_def [symmetric] w2_def [symmetric] w3_def [symmetric] by (meson steps_trans)
  then have "quiet w3" using quiet_steps assms(1,2) by (auto simp: quiet_def)
  then have acc: "accumulate_loop d m 0 w3 = ((0, True), w3)" for m
    by (simp add: accumulate_loop.simps quiet_def)
  have "pending w5 = []" using assms(3) by (simp add: w5_def w3_def w2_def w1_def)
  then have sp: "spawn_phase d e now w5 = (0, w5)" and fin: "spawn_final w5 = w5"
    by (simp_all add: spawn_phase_def spawn_final_def)
  show ?thesis
    by (simp add: sequencer_tick_def w1_def [symmetric] gap_collect [OF g(1)] gap_submit [OF g(1)]
        w2_def [symmetric] w3_def [symmetric] acc w5_def [symmetric] sp fin gap_flush [OF g(3)] Let_def)
qed

text \<open>
  The witness: the block of the first batch cannot be serialised, that of the second can.
\<close>

definition odd_block :: "unit op_block" where
  "odd_block = demo_block\<lparr>header_number := 6\<rparr>"

definition hung :: "unit world" where
  "hung = demo_start\<lparr>next_batch_number := 3,
     spawned := [new_worker [odd_block] 1, new_worker [demo_block] 2],
     sent := [odd_block, demo_block], blocks_executed := 2, rx_closed := True,
     ready := (case prepare_batch_sync demo_deps (new_worker [demo_block] 2) of
       Inr p \<Rightarrow> [p] | Inl _ \<Rightarrow> [])\<rparr>"

lemma hung_reached: "sequencer_run demo_deps demo_start hung"
proof -
  let ?tick = "sequencer_tick demo_deps (\<lambda>_. []) 0"
  define w1 where "w1 = snd (the (?tick (env_step demo_deps (Send odd_block) demo_start)))"
  define w2 where "w2 = snd (the (?tick (env_step demo_deps (Send demo_block) (env_step demo_deps (Finish 0) w1))))"
  define w3 where "w3 = snd (the (?tick (env_step demo_deps (Finish 0) w2)))"
  have w1: "w1 = demo_start\<lparr>next_batch_number := 2, spawned := [new_worker [odd_block] 1],
      sent := [odd_block], running := [new_worker [odd_block] 1], in_flight := 1, blocks_executed := 1\<rparr>"
    "?tick (env_step demo_deps (Send odd_block) demo_start) = Some (Inr Progress, w1)"
    by (simp_all add: w1_def demo_eval odd_block_def tick_eval del: receive_block_rx receive_pending receive_frames)
  have w2: "w2 = demo_start\<lparr>next_batch_number := 3,
      spawned := [new_worker [odd_block] 1, new_worker [demo_block] 2],
      sent := [odd_block, demo_block], running := [new_worker [demo_block] 2], in_flight := 1,
      blocks_executed := 2\<rparr>"
    "?tick (env_step demo_deps (Send demo_block) (env_step demo_deps (Finish 0) w1)) = Some (Inr Progress, w2)"
    unfolding w2_def w1(1)
    by (simp_all add: demo_eval odd_block_def tick_eval del: receive_block_rx receive_pending receive_frames)
  have w3: "w3 = hung\<lparr>rx_closed := False\<rparr>"
    "?tick (env_step demo_deps (Finish 0) w2) = Some (Inr Idle, w3)"
    unfolding w3_def w2(1)
    by (simp_all add: hung_def demo_eval odd_block_def tick_eval new_worker_def)
  have "env_step demo_deps Close w3 = hung" by (simp add: w3(1) hung_def)
  moreover have "sequencer_run demo_deps demo_start w3"
    by (rule run_tick [OF run_env [OF run_tick [OF run_env [OF run_env [OF run_tick [OF run_env
        [OF run_start] w1(2)]]] w2(2)]] w3(2)])
  ultimately show ?thesis using run_env by metis
qed

theorem failed_preparation_hangs_witness:
  "sequencer_run demo_deps demo_start hung \<and> sequencer_tick demo_deps oldest_first 0 hung = None"
proof
  show "sequencer_run demo_deps demo_start hung" by (rule hung_reached)
  show "sequencer_tick demo_deps oldest_first 0 hung = None"
    by (rule failed_preparation_hangs)
      (simp_all add: hung_def demo_eval prepare_batch_sync_def new_worker_def)
qed

end
