(* ===== verification/AnvilL1.thy ===== *)
theory AnvilL1
  imports Pipeline
begin

text \<open>
  The two stores of batches: the Anvil L1 chain (\<^verbatim>\<open>crates/consensus/anvil/src\<close>), written by
  \<^verbatim>\<open>AnvilBatchSink\<close> and read by \<^verbatim>\<open>AnvilBatchSource\<close>, and the in-memory queue and the mode
  selection of \<^verbatim>\<open>crates/consensus/batch-context/src/lib.rs\<close>. The JSON-RPC provider is a
  parameter; both stores are interpretations of \<open>batch_channel\<close>.
\<close>

section \<open>The wire format of a batch\<close>

type_synonym address = "160 word"

record l1_tx =
  tx_to :: "address option"
  tx_from :: address
  tx_input :: bytes

text \<open>\<^verbatim>\<open>[8: block_count][8: first_block][8: last_block][compressed data]\<close>, little endian.\<close>

definition encode_batch :: "compressed_batch \<Rightarrow> bytes" where
  "encode_batch b =
     to_le_bytes (block_count b) @ to_le_bytes (first_block b) @ to_le_bytes (last_block b) @
     batch_data b"

definition decode_batch :: "u64 \<Rightarrow> bytes \<Rightarrow> compressed_batch" where
  "decode_batch n input =
     (if 24 \<le> length input
      then \<lparr>batch_number = n, batch_data = drop 24 input,
            block_count = from_le_bytes (take 8 input),
            first_block = from_le_bytes (take 8 (drop 8 input)),
            last_block = from_le_bytes (take 8 (drop 16 input))\<rparr>
      else \<lparr>batch_number = n, batch_data = input, block_count = 1, first_block = 0, last_block = 0\<rparr>)"

lemma length_encode_batch [simp]: "length (encode_batch b) = 24 + length (batch_data b)"
  by (simp add: encode_batch_def)

lemma decode_encode: "decode_batch n (encode_batch b) = b\<lparr>batch_number := n\<rparr>"
  by (simp add: decode_batch_def encode_batch_def)

lemma encode_decode: "24 \<le> length input \<Longrightarrow> encode_batch (decode_batch n input) = input"
proof -
  assume len: "24 \<le> length input"
  have "input = take 8 input @ take 8 (drop 8 input) @ take 8 (drop 16 input) @ drop 24 input"
    using take_add [of 8 16 input] take_add [of 8 8 "drop 8 input"] append_take_drop_id [of 24 input]
    by simp
  with len show ?thesis by (simp add: encode_batch_def decode_batch_def to_from_le_bytes)
qed

lemma batch_number_decode [simp]: "batch_number (decode_batch n input) = n"
  by (simp add: decode_batch_def)

text \<open>
  The calldata format loses nothing. Decoding what the sink encodes gives the batch back,
  with the number the source assigns, and every calldata of at least a header's length is the
  encoding of the batch it decodes to.
\<close>

theorem wire_roundtrip:
  "decode_batch n (encode_batch b) = b\<lparr>batch_number := n\<rparr>
   \<and> (24 \<le> length input \<longrightarrow> encode_batch (decode_batch n input) = input)"
  using decode_encode encode_decode by simp

theorem wire_roundtrip_witness:
  "encode_batch (decode_batch 7 (replicate 25 1)) = replicate 25 1"
  using wire_roundtrip [of 7 "\<lparr>batch_number = 0, batch_data = [], block_count = 0, first_block = 0, last_block = 0\<rparr>" "replicate 25 1"]
  by simp

section \<open>The sink\<close>

record anvil_sink =
  sink_sender :: address
  sink_inbox :: address

text \<open>
  \<open>send\<close> is \<^verbatim>\<open>send_transaction\<close> (the transaction hash), \<open>receipt\<close> is \<^verbatim>\<open>get_receipt\<close> (the
  block that includes it, if known).
\<close>

definition anvil_request :: "anvil_sink \<Rightarrow> compressed_batch \<Rightarrow> l1_tx" where
  "anvil_request k b =
     \<lparr>tx_to = Some (sink_inbox k), tx_from = sink_sender k, tx_input = encode_batch b\<rparr>"

definition anvil_submit :: "(l1_tx \<Rightarrow> string + bytes) \<Rightarrow> (bytes \<Rightarrow> string + u64 option)
    \<Rightarrow> anvil_sink \<Rightarrow> compressed_batch \<Rightarrow> sink_error + submission_receipt" where
  "anvil_submit send receipt k b =
     rbind (map_err (\<lambda>e. TxFailed (''Failed to send transaction: '' @ e)) (send (anvil_request k b)))
       (\<lambda>h. rbind (map_err (\<lambda>e. TxFailed (''Failed to get receipt: '' @ e)) (receipt h))
         (\<lambda>n. Inr \<lparr>receipt_batch_number = batch_number b, tx_hash = h,
                   l1_block = (case n of None \<Rightarrow> 0 | Some x \<Rightarrow> x), blob_hash = None\<rparr>))"

definition anvil_capacity :: "anvil_sink \<Rightarrow> sink_error + usize" where
  "anvil_capacity k = Inr (128 * 1024)"

definition anvil_health_check :: "(string + u64) \<Rightarrow> anvil_sink \<Rightarrow> sink_error + unit" where
  "anvil_health_check block_num k = rbind (map_err SinkConnection block_num) (\<lambda>_. Inr ())"

lemma anvil_submit_Inr:
  "anvil_submit send receipt k b = Inr r \<longleftrightarrow>
     (\<exists>h n. send (anvil_request k b) = Inr h \<and> receipt h = Inr n
        \<and> r = \<lparr>receipt_batch_number = batch_number b, tx_hash = h,
               l1_block = (case n of None \<Rightarrow> 0 | Some x \<Rightarrow> x), blob_hash = None\<rparr>)"
  by (auto simp: anvil_submit_def rbind_Inr_iff)

section \<open>The source\<close>

text \<open>What one call of \<^verbatim>\<open>next_batch\<close> sees of the chain: the head, and the blocks by number.\<close>

record l1_provider =
  get_block_number :: "string + u64"
  get_block :: "u64 \<Rightarrow> string + l1_tx list option"

record anvil_source =
  batch_inbox :: address
  last_scanned_block :: u64
  next_batch_number :: u64

definition anvil_source_new :: "address \<Rightarrow> anvil_source" where
  "anvil_source_new inbox = \<lparr>batch_inbox = inbox, last_scanned_block = 0, next_batch_number = 1\<rparr>"

definition first_inbox_tx :: "address \<Rightarrow> l1_tx list \<Rightarrow> l1_tx option" where
  "first_inbox_tx inbox txs = List.find (\<lambda>tx. tx_to tx = Some inbox) txs"

fun scan_blocks :: "l1_provider \<Rightarrow> u64 list \<Rightarrow> anvil_source
    \<Rightarrow> (source_error + compressed_batch option) \<times> anvil_source" where
  "scan_blocks p [] s = (Inr None, s)"
| "scan_blocks p (n # ns) s =
     (case get_block p n of
        Inl e \<Rightarrow> (Inl (SourceConnection e), s)
      | Inr None \<Rightarrow> scan_blocks p ns s
      | Inr (Some txs) \<Rightarrow>
          (case first_inbox_tx (batch_inbox s) txs of
             Some tx \<Rightarrow>
               (Inr (Some (decode_batch (next_batch_number s) (tx_input tx))),
                s\<lparr>next_batch_number := next_batch_number s + 1, last_scanned_block := n\<rparr>)
           | None \<Rightarrow> scan_blocks p ns (s\<lparr>last_scanned_block := n\<rparr>)))"

definition anvil_next_batch :: "l1_provider \<Rightarrow> anvil_source
    \<Rightarrow> (source_error + compressed_batch option) \<times> anvil_source" where
  "anvil_next_batch p s =
     (case get_block_number p of
        Inl e \<Rightarrow> (Inl (SourceConnection e), s)
      | Inr current \<Rightarrow>
          if current \<le> last_scanned_block s then (Inr None, s)
          else scan_blocks p
                 (map word_of_nat [Suc (unat (last_scanned_block s)) ..< Suc (unat current)]) s)"

definition anvil_l1_head :: "l1_provider \<Rightarrow> source_error + u64" where
  "anvil_l1_head p = map_err SourceConnection (get_block_number p)"

subsection \<open>What the source reads from a chain\<close>

text \<open>
  A chain is the list of its blocks, block 1 first (the genesis block 0 holds no
  transactions). \<open>chain_provider\<close> is a provider that answers from it without errors.
\<close>

definition chain_provider :: "l1_tx list list \<Rightarrow> l1_provider" where
  "chain_provider bl =
     \<lparr>get_block_number = Inr (word_of_nat (length bl)),
      get_block = (\<lambda>n. Inr (if n = 0 then Some []
                             else if unat n \<le> length bl then Some (bl ! (unat n - 1)) else None))\<rparr>"

text \<open>The inputs of the batches that are due: the first inbox transaction of each unscanned block.\<close>

definition due_inputs :: "l1_tx list list \<Rightarrow> anvil_source \<Rightarrow> bytes list" where
  "due_inputs bl s =
     map tx_input (List.map_filter (first_inbox_tx (batch_inbox s)) (drop (unat (last_scanned_block s)) bl))"

definition source_ok :: "l1_tx list list \<Rightarrow> anvil_source \<Rightarrow> bool" where
  "source_ok bl s \<longleftrightarrow> length bl < 2 ^ 64 \<and> unat (last_scanned_block s) \<le> length bl"

lemma chain_provider_simps [simp]:
  "get_block_number (chain_provider bl) = Inr (word_of_nat (length bl))"
  "m < length bl \<Longrightarrow> length bl < 2 ^ 64 \<Longrightarrow>
     get_block (chain_provider bl) (word_of_nat (Suc m)) = Inr (Some (bl ! m))"
  by (auto simp: chain_provider_def unat_of_nat take_bit_eq_mod word_of_nat_eq_0_iff
      simp del: of_nat_Suc dest: dvd_imp_le)

text \<open>What a call of \<^verbatim>\<open>next_batch\<close> may do to the source, given the inputs that were due.\<close>

definition served :: "l1_tx list list \<Rightarrow> anvil_source
    \<Rightarrow> (source_error + compressed_batch option) \<times> anvil_source \<Rightarrow> bool" where
  "served bl s r \<longleftrightarrow>
     source_ok bl (snd r) \<and> batch_inbox (snd r) = batch_inbox s
     \<and> due_inputs bl (snd r) = tl (due_inputs bl s)
     \<and> (case due_inputs bl s of
          [] \<Rightarrow> fst r = Inr None \<and> next_batch_number (snd r) = next_batch_number s
        | i # _ \<Rightarrow> fst r = Inr (Some (decode_batch (next_batch_number s) i))
            \<and> next_batch_number (snd r) = next_batch_number s + 1)"

lemma due_inputs_step:
  assumes "length bl < 2 ^ 64" and "m < length bl"
  shows "due_inputs bl (s\<lparr>last_scanned_block := word_of_nat m\<rparr>) =
    (case first_inbox_tx (batch_inbox s) (bl ! m) of None \<Rightarrow> [] | Some tx \<Rightarrow> [tx_input tx])
    @ due_inputs bl (s\<lparr>last_scanned_block := word_of_nat (Suc m)\<rparr>)"
  using assms Cons_nth_drop_Suc [of m bl]
  by (auto simp: due_inputs_def unat_of_nat take_bit_eq_mod List.map_filter_simps
      simp del: of_nat_Suc simp flip: Cons_nth_drop_Suc split: option.splits)

lemma source_ok_of_nat:
  "length bl < 2 ^ 64 \<Longrightarrow> m \<le> length bl \<Longrightarrow> source_ok bl (s\<lparr>last_scanned_block := word_of_nat m\<rparr>)"
  by (simp add: source_ok_def unat_of_nat take_bit_eq_mod)

lemma scan_chain:
  assumes "length bl < 2 ^ 64" and "m \<le> length bl"
  shows "served bl (s\<lparr>last_scanned_block := word_of_nat m\<rparr>)
    (scan_blocks (chain_provider bl) (map word_of_nat [Suc m ..< Suc (length bl)])
       (s\<lparr>last_scanned_block := word_of_nat m\<rparr>))"
  using assms(2)
proof (induction "length bl - m" arbitrary: m s)
  case 0
  then have m: "m = length bl" by simp
  have "due_inputs bl (s\<lparr>last_scanned_block := word_of_nat m\<rparr>) = []"
    using assms(1) m by (simp add: due_inputs_def unat_of_nat take_bit_eq_mod List.map_filter_simps)
  then show ?case using m assms(1) by (simp add: served_def source_ok_of_nat)
next
  case (Suc d)
  then have m: "m < length bl" and d: "d = length bl - Suc m" by simp_all
  have range: "[Suc m ..< Suc (length bl)] = Suc m # [Suc (Suc m) ..< Suc (length bl)]"
    using m by (simp add: upt_conv_Cons)
  have blk: "get_block (chain_provider bl) (word_of_nat (Suc m)) = Inr (Some (bl ! m))"
    using m assms(1) by (rule chain_provider_simps(2))
  have ok: "source_ok bl (t\<lparr>last_scanned_block := word_of_nat (Suc m)\<rparr>)" for t
    using m assms(1) by (intro source_ok_of_nat) auto
  note step = due_inputs_step [OF assms(1) m]
  show ?case
  proof (cases "first_inbox_tx (batch_inbox s) (bl ! m)")
    case None
    have "served bl (s\<lparr>last_scanned_block := word_of_nat (Suc m)\<rparr>)
      (scan_blocks (chain_provider bl) (map word_of_nat [Suc (Suc m) ..< Suc (length bl)])
         (s\<lparr>last_scanned_block := word_of_nat (Suc m)\<rparr>))"
      using Suc.hyps(1) [OF d] m by simp
    then show ?thesis
      unfolding range using None blk step [of s]
      by (simp add: served_def split: list.splits del: of_nat_Suc upt_Suc)
  next
    case (Some tx)
    have "due_inputs bl (s\<lparr>next_batch_number := k, last_scanned_block := w\<rparr>) =
        due_inputs bl (s\<lparr>last_scanned_block := w\<rparr>)" for k w
      by (simp add: due_inputs_def)
    then show ?thesis
      unfolding range using Some blk step [of s] ok [of "s\<lparr>next_batch_number := next_batch_number s + 1\<rparr>"]
      by (simp add: served_def del: of_nat_Suc upt_Suc)
  qed
qed

lemma next_batch_served:
  assumes "source_ok bl s"
  shows "served bl s (anvil_next_batch (chain_provider bl) s)"
proof -
  let ?m = "unat (last_scanned_block s)"
  have len: "length bl < 2 ^ 64" and m: "?m \<le> length bl"
    using assms by (auto simp: source_ok_def)
  have un: "unat (word_of_nat (length bl) :: u64) = length bl"
    using len by (simp add: unat_of_nat take_bit_eq_mod)
  have s: "s\<lparr>last_scanned_block := word_of_nat ?m\<rparr> = s" by simp
  have scan: "served bl s
      (scan_blocks (chain_provider bl) (map word_of_nat [Suc ?m ..< Suc (length bl)]) s)"
    using scan_chain [OF len m, of s] unfolding s .
  show ?thesis
  proof (cases "length bl \<le> ?m")
    case True
    then have "word_of_nat (length bl) \<le> last_scanned_block s"
      by (simp add: word_le_nat_alt un)
    moreover have "map word_of_nat [Suc ?m ..< Suc (length bl)] = ([] :: u64 list)"
      using True by simp
    ultimately show ?thesis using scan by (simp add: anvil_next_batch_def)
  next
    case False
    then have "\<not> word_of_nat (length bl) \<le> last_scanned_block s"
      by (simp add: word_le_nat_alt un)
    then show ?thesis using scan by (simp add: anvil_next_batch_def un del: upt_Suc)
  qed
qed

section \<open>Sink and source over one chain\<close>

text \<open>
  The pair an \<^verbatim>\<open>AnvilManager\<close> hands out: a sink and a source with the same inbox over one
  chain. With the default \<^verbatim>\<open>block_time: 0\<close> Anvil mines every transaction into a block of its own.
\<close>

record anvil_config =
  config_batch_inbox :: address
  block_time :: u64

definition anvil_config_default :: anvil_config where
  "anvil_config_default =
     \<lparr>config_batch_inbox = 0x4242424242424242424242424242424242424242, block_time = 0\<rparr>"

record anvil_l1 =
  chain_blocks :: "l1_tx list list"
  l1_sink :: anvil_sink
  l1_source :: anvil_source

definition anvil_spawn :: "anvil_config \<Rightarrow> address \<Rightarrow> anvil_l1" where
  "anvil_spawn cfg sender =
     \<lparr>chain_blocks = [],
      l1_sink = \<lparr>sink_sender = sender, sink_inbox = config_batch_inbox cfg\<rparr>,
      l1_source = anvil_source_new (config_batch_inbox cfg)\<rparr>"

definition mine :: "l1_tx list \<Rightarrow> anvil_l1 \<Rightarrow> anvil_l1" where
  "mine txs s = s\<lparr>chain_blocks := chain_blocks s @ [txs]\<rparr>"

definition l1_submit :: "compressed_batch \<Rightarrow> anvil_l1 \<Rightarrow> anvil_l1" where
  "l1_submit b s = mine [anvil_request (l1_sink s) b] s"

definition l1_next :: "anvil_l1 \<Rightarrow> compressed_batch option \<times> anvil_l1" where
  "l1_next s =
     (case anvil_next_batch (chain_provider (chain_blocks s)) (l1_source s) of
        (Inl e, src) \<Rightarrow> (None, s\<lparr>l1_source := src\<rparr>)
      | (Inr b, src) \<Rightarrow> (b, s\<lparr>l1_source := src\<rparr>))"

definition payload :: "compressed_batch \<Rightarrow> bytes \<times> u64 \<times> u64 \<times> u64" where
  "payload b = (batch_data b, block_count b, first_block b, last_block b)"

definition input_payload :: "bytes \<Rightarrow> bytes \<times> u64 \<times> u64 \<times> u64" where
  "input_payload i = payload (decode_batch 0 i)"

definition l1_due :: "anvil_l1 \<Rightarrow> bytes list" where
  "l1_due s = due_inputs (chain_blocks s) (l1_source s)"

definition l1_contents :: "anvil_l1 \<Rightarrow> (bytes \<times> u64 \<times> u64 \<times> u64) list" where
  "l1_contents s = map input_payload (l1_due s)"

definition l1_inv :: "nat \<Rightarrow> anvil_l1 \<Rightarrow> bool" where
  "l1_inv k s \<longleftrightarrow> length (chain_blocks s) + k < 2 ^ 64
     \<and> unat (last_scanned_block (l1_source s)) \<le> length (chain_blocks s)
     \<and> sink_inbox (l1_sink s) = batch_inbox (l1_source s)"

lemma l1_inv_source_ok: "l1_inv k s \<Longrightarrow> source_ok (chain_blocks s) (l1_source s)"
  by (simp add: l1_inv_def source_ok_def)

lemma payload_decode [simp]: "payload (decode_batch n i) = input_payload i"
  by (simp add: input_payload_def payload_def decode_batch_def)

lemma payload_encode [simp]: "input_payload (encode_batch b) = payload b"
  by (simp add: input_payload_def decode_encode payload_def)

lemma batch_eq_iff: "b = c \<longleftrightarrow> batch_number b = batch_number c \<and> payload b = payload c"
  for b c :: compressed_batch
  by (auto simp: payload_def)

lemma l1_next_cases:
  assumes "l1_inv k s"
  shows "l1_inv k (snd (l1_next s)) \<and> l1_due (snd (l1_next s)) = tl (l1_due s)
    \<and> (case l1_due s of
         [] \<Rightarrow> fst (l1_next s) = None
           \<and> next_batch_number (l1_source (snd (l1_next s))) = next_batch_number (l1_source s)
       | i # _ \<Rightarrow> fst (l1_next s) = Some (decode_batch (next_batch_number (l1_source s)) i)
           \<and> next_batch_number (l1_source (snd (l1_next s))) = next_batch_number (l1_source s) + 1)"
proof -
  obtain r src where step:
    "anvil_next_batch (chain_provider (chain_blocks s)) (l1_source s) = (r, src)" by force
  have "served (chain_blocks s) (l1_source s) (r, src)"
    using next_batch_served [OF l1_inv_source_ok [OF assms]] step by simp
  then show ?thesis using assms step
    by (auto simp: served_def l1_next_def l1_due_def l1_inv_def source_ok_def split: list.splits sum.splits)
qed

lemma l1_due_mine:
  assumes "l1_inv (Suc k) s"
  shows "l1_inv k (mine txs s)"
    and "l1_due (mine txs s) = l1_due s @
      (case first_inbox_tx (batch_inbox (l1_source s)) txs of None \<Rightarrow> [] | Some tx \<Rightarrow> [tx_input tx])"
  using assms
  by (auto simp: l1_inv_def mine_def l1_due_def due_inputs_def List.map_filter_def split: option.splits)

lemma l1_due_submit:
  assumes "l1_inv (Suc k) s"
  shows "l1_due (l1_submit b s) = l1_due s @ [encode_batch b]"
  using assms l1_due_mine(2) [OF assms, of "[anvil_request (l1_sink s) b]"]
  by (simp add: l1_submit_def first_inbox_tx_def anvil_request_def l1_inv_def)

interpretation l1: batch_channel l1_submit l1_next payload l1_contents l1_inv
proof (unfold_locales, goal_cases)
  case (1 k s b)
  then show ?case by (simp add: l1_submit_def l1_due_mine(1))
next
  case (2 k s)
  then show ?case using l1_next_cases by blast
next
  case (3 k s b)
  then show ?case by (simp add: l1_contents_def l1_due_submit)
next
  case (4 k s)
  then show ?case using l1_next_cases [OF 4(1)] by (simp add: l1_contents_def)
next
  case (5 k s)
  then show ?case using l1_next_cases [OF 5(1)] by (cases "l1_due s") (auto simp: l1_contents_def)
qed

lemma l1_inv_spawn: "k < 2 ^ 64 \<Longrightarrow> l1_inv k (anvil_spawn cfg sender)"
  by (simp add: l1_inv_def anvil_spawn_def anvil_source_new_def)

lemma l1_contents_spawn [simp]: "l1_contents (anvil_spawn cfg sender) = []"
  by (simp add: l1_contents_def l1_due_def due_inputs_def anvil_spawn_def List.map_filter_simps)

lemma poll_numbers:
  "l1_inv m s \<Longrightarrow> map batch_number (fst (poll l1_next k s)) =
     map (\<lambda>i. next_batch_number (l1_source s) + word_of_nat i) [0 ..< length (fst (poll l1_next k s))]"
proof (induction k arbitrary: s)
  case 0
  then show ?case by simp
next
  case (Suc k)
  obtain b s' where step: "l1_next s = (b, s')" by force
  obtain bs t where rest: "poll l1_next k s' = (bs, t)" by force
  note facts = l1_next_cases [OF Suc.prems, unfolded step, simplified]
  have IH: "map batch_number bs = map (\<lambda>i. next_batch_number (l1_source s') + word_of_nat i) [0 ..< length bs]"
    using Suc.IH [of s'] facts rest by simp
  show ?case
  proof (cases "l1_due s")
    case Nil
    with facts IH step rest show ?thesis by simp
  next
    case (Cons i js)
    have "map (\<lambda>i. x + word_of_nat i) [0 ..< Suc n] = x # map (\<lambda>i. (x + 1) + word_of_nat i) [0 ..< n]"
      for x :: u64 and n
      by (simp add: upt_conv_Cons map_Suc_upt [symmetric] add.assoc del: upt_Suc)
    with Cons facts IH step rest show ?thesis by (simp del: upt_Suc)
  qed
qed

text \<open>
  C28: batches reach the derivation side through the Anvil chain. Whatever batches the sink
  submits to a freshly spawned chain, a source that polls often enough returns exactly these
  batches, in order and without loss or duplication, numbered 1, 2, 3, and so on.
\<close>

theorem anvil_delivers_in_order:
  assumes "length bs < 2 ^ 64" and "length bs \<le> k"
  shows "fst (poll l1_next k (fold l1_submit bs (anvil_spawn cfg sender))) =
    map2 (\<lambda>b i. b\<lparr>batch_number := word_of_nat i\<rparr>) bs [1 ..< Suc (length bs)]"
    (is "?got = ?want")
proof (rule nth_equalityI)
  let ?s = "fold l1_submit bs (anvil_spawn cfg sender)"
  have start: "l1_inv (length bs) (anvil_spawn cfg sender)" using assms(1) by (rule l1_inv_spawn)
  have inv: "l1_inv 0 ?s" using l1.submits [of bs 0] start by simp
  have views: "map payload ?got = map payload bs"
    using l1.delivery [OF start _ assms(2)] by simp
  then have len: "length ?got = length bs" by (metis length_map)
  then show "length ?got = length ?want" by (simp del: upt_Suc)
  have src: "next_batch_number (l1_source (fold l1_submit cs s)) = next_batch_number (l1_source s)" for cs s
    by (induction cs arbitrary: s) (simp_all add: l1_submit_def mine_def)
  fix i assume i: "i < length ?got"
  then have "batch_number (?got ! i) = 1 + word_of_nat i"
    using arg_cong [OF poll_numbers [OF inv, of k], of "\<lambda>xs. xs ! i"]
    by (simp add: src) (simp add: anvil_spawn_def anvil_source_new_def)
  moreover have "payload (?got ! i) = payload (bs ! i)"
    using arg_cong [OF views, of "\<lambda>xs. xs ! i"] i len by simp
  ultimately show "?got ! i = ?want ! i"
    using i len by (simp add: batch_eq_iff payload_def del: upt_Suc)
qed

theorem anvil_delivers_in_order_witness:
  "fst (poll l1_next 3 (fold l1_submit
      [\<lparr>batch_number = 1, batch_data = [9], block_count = 2, first_block = 4, last_block = 5\<rparr>,
       \<lparr>batch_number = 2, batch_data = [8], block_count = 1, first_block = 6, last_block = 6\<rparr>]
      (anvil_spawn anvil_config_default 1))) =
   [\<lparr>batch_number = 1, batch_data = [9], block_count = 2, first_block = 4, last_block = 5\<rparr>,
    \<lparr>batch_number = 2, batch_data = [8], block_count = 1, first_block = 6, last_block = 6\<rparr>]"
  by (subst anvil_delivers_in_order) (simp_all add: upt_conv_Cons)

text \<open>
  A block carries at most one batch to the source. When a block is mined with several
  inbox transactions, only the first is ever returned: the source that returns it has marked
  the block as scanned, and the other batches of the block are never derived.
\<close>

theorem one_batch_per_block:
  assumes "l1_inv 1 s" and "l1_due s = []"
    and "first_inbox_tx (batch_inbox (l1_source s)) txs = Some tx"
  shows "fst (poll l1_next k (mine txs s)) =
    (if k = 0 then [] else [decode_batch (next_batch_number (l1_source s)) (tx_input tx)])"
proof (cases k)
  case 0
  then show ?thesis by simp
next
  case (Suc j)
  have inv: "l1_inv 0 (mine txs s)" and due: "l1_due (mine txs s) = [tx_input tx]"
    using l1_due_mine [of 0 s txs] assms by auto
  obtain b s' where step: "l1_next (mine txs s) = (b, s')" by force
  have "b = Some (decode_batch (next_batch_number (l1_source s)) (tx_input tx))"
    and "l1_due s' = []" and "l1_inv 0 s'"
    using l1_next_cases [OF inv] due step by (simp_all add: mine_def)
  moreover from this have "fst (poll l1_next j s') = []"
    using l1.poll_views [of 0 s' j] by (simp add: l1_contents_def)
  ultimately show ?thesis using Suc step by (cases "poll l1_next j s'") simp
qed

definition two_batches :: "l1_tx list" where
  "two_batches =
     [\<lparr>tx_to = Some 0x4242424242424242424242424242424242424242, tx_from = 1, tx_input = [1]\<rparr>,
      \<lparr>tx_to = Some 0x4242424242424242424242424242424242424242, tx_from = 1, tx_input = [2]\<rparr>]"

theorem one_batch_per_block_witness:
  "fst (poll l1_next 10 (mine two_batches (anvil_spawn anvil_config_default 1))) =
     [decode_batch 1 [1]]"
proof -
  let ?s = "anvil_spawn anvil_config_default 1"
  have "l1_inv 1 ?s" by (rule l1_inv_spawn) simp
  moreover have "l1_due ?s = []"
    by (simp add: l1_due_def due_inputs_def anvil_spawn_def List.map_filter_simps)
  moreover have "first_inbox_tx (batch_inbox (l1_source ?s)) two_batches = Some (hd two_batches)"
    by (simp add: first_inbox_tx_def two_batches_def anvil_spawn_def anvil_source_new_def anvil_config_default_def)
  ultimately show ?thesis
    using one_batch_per_block [of ?s two_batches "hd two_batches" 10]
    by (simp add: two_batches_def) (simp add: anvil_spawn_def anvil_source_new_def)
qed

end
