(* ===== verification/Batch_Context.thy ===== *)
theory Batch_Context
  imports AnvilL1
begin

text \<open>
  The batch sinks and sources by submission mode (\<^verbatim>\<open>crates/consensus/batch-context/src/lib.rs\<close>
  and \<^verbatim>\<open>crates/consensus/batcher/src/context.rs\<close>): the in-memory queue, the wrappers around
  the Anvil pair, the error conversions (also those of \<^verbatim>\<open>crates/consensus/anvil/src/error.rs\<close> and
  of \<^verbatim>\<open>crates/utilities/adapters/src/lib.rs\<close>) and the factory. The queue is a second
  interpretation of \<open>batch_channel\<close>.
\<close>

section \<open>Errors\<close>

datatype ctx_sink_error = CtxSinkConnection string | CtxTxFailed string | CtxUnsupported string

datatype ctx_source_error = CtxSourceConnection string | CtxEmpty

datatype anvil_error =
    AnvilSpawn string | AnvilConnection string | AnvilTransaction string | AnvilReceipt string
  | AnvilBlockNotFound u64 | AnvilProvider string

fun ctx_sink_error_from :: "sink_error \<Rightarrow> ctx_sink_error" where
  "ctx_sink_error_from (SinkConnection msg) = CtxSinkConnection msg"
| "ctx_sink_error_from (TxFailed msg) = CtxTxFailed msg"
| "ctx_sink_error_from SinkTimeout = CtxTxFailed ''Timeout''"
| "ctx_sink_error_from SinkInsufficientFunds = CtxTxFailed ''Insufficient funds''"
| "ctx_sink_error_from (SinkBlobGasTooExpensive current mx) =
     CtxTxFailed (''Blob gas too expensive: max='' @ dec (unat mx) @ '', current='' @ dec (unat current))"

fun ctx_source_error_from :: "source_error \<Rightarrow> ctx_source_error" where
  "ctx_source_error_from (SourceConnection msg) = CtxSourceConnection msg"
| "ctx_source_error_from SourceEmpty = CtxEmpty"

fun anvil_to_sink_error :: "anvil_error \<Rightarrow> sink_error" where
  "anvil_to_sink_error (AnvilSpawn msg) = SinkConnection msg"
| "anvil_to_sink_error (AnvilConnection msg) = SinkConnection msg"
| "anvil_to_sink_error (AnvilTransaction msg) = TxFailed msg"
| "anvil_to_sink_error (AnvilReceipt msg) = TxFailed msg"
| "anvil_to_sink_error (AnvilBlockNotFound n) = TxFailed (''Block not found: '' @ dec (unat n))"
| "anvil_to_sink_error (AnvilProvider msg) = TxFailed msg"

fun anvil_to_source_error :: "anvil_error \<Rightarrow> source_error" where
  "anvil_to_source_error (AnvilSpawn msg) = SourceConnection msg"
| "anvil_to_source_error (AnvilConnection msg) = SourceConnection msg"
| "anvil_to_source_error (AnvilProvider msg) = SourceConnection msg"
| "anvil_to_source_error (AnvilTransaction msg) = SourceConnection msg"
| "anvil_to_source_error (AnvilReceipt msg) = SourceConnection msg"
| "anvil_to_source_error (AnvilBlockNotFound n) = SourceEmpty"

text \<open>\<^verbatim>\<open>to_string\<close> of the two error types, from their \<^verbatim>\<open>#[error(...)]\<close> attributes.\<close>

fun show_ctx_sink_error :: "ctx_sink_error \<Rightarrow> string" where
  "show_ctx_sink_error (CtxSinkConnection msg) = ''Connection error: '' @ msg"
| "show_ctx_sink_error (CtxTxFailed msg) = ''Transaction failed: '' @ msg"
| "show_ctx_sink_error (CtxUnsupported msg) = ''Mode not supported: '' @ msg"

fun show_ctx_source_error :: "ctx_source_error \<Rightarrow> string" where
  "show_ctx_source_error (CtxSourceConnection msg) = ''Connection error: '' @ msg"
| "show_ctx_source_error CtxEmpty = ''No batches available''"

section \<open>The in-memory queue\<close>

type_synonym batch_queue = "compressed_batch list"

definition queue_submit :: "compressed_batch \<Rightarrow> batch_queue
    \<Rightarrow> (ctx_sink_error + submission_receipt) \<times> batch_queue" where
  "queue_submit b q =
     (Inr \<lparr>receipt_batch_number = batch_number b, tx_hash = replicate 32 0, l1_block = 0, blob_hash = None\<rparr>,
      q @ [b])"

definition queue_next_batch :: "batch_queue
    \<Rightarrow> (ctx_source_error + compressed_batch option) \<times> batch_queue" where
  "queue_next_batch q = (if q = [] then (Inr None, q) else (Inr (Some (hd q)), tl q))"

definition queue_l1_head :: "batch_queue \<Rightarrow> ctx_source_error + u64" where
  "queue_l1_head q = Inr 0"

text \<open>The state change of the two operations, and the batch that comes.\<close>

definition queue_push :: "compressed_batch \<Rightarrow> batch_queue \<Rightarrow> batch_queue" where
  "queue_push b q = snd (queue_submit b q)"

definition queue_pull :: "batch_queue \<Rightarrow> compressed_batch option \<times> batch_queue" where
  "queue_pull q =
     (case queue_next_batch q of (Inl _, q') \<Rightarrow> (None, q') | (Inr b, q') \<Rightarrow> (b, q'))"

interpretation mem: batch_channel queue_push queue_pull "\<lambda>b. b" "\<lambda>q. q" "\<lambda>_ _. True"
  by unfold_locales
     (auto simp: queue_push_def queue_submit_def queue_pull_def queue_next_batch_def)

text \<open>
  The in-memory queue is first in, first out: polled often enough it returns the very
  batches that were submitted, in order, numbers included, and is empty afterwards.
\<close>

theorem queue_delivers_in_order:
  assumes "length bs \<le> k"
  shows "poll queue_pull k (fold queue_push bs []) = (bs, [])"
proof -
  have "fold queue_push bs [] = bs" using mem.submits [of bs "[]"] by simp
  then show ?thesis
    using mem.poll_views [of k bs] assms by (cases "poll queue_pull k bs") simp
qed

theorem queue_delivers_in_order_witness:
  "fst (poll queue_pull 2 (fold queue_push
     [\<lparr>batch_number = 1, batch_data = [], block_count = 0, first_block = 0, last_block = 0\<rparr>] [])) =
     [\<lparr>batch_number = 1, batch_data = [], block_count = 0, first_block = 0, last_block = 0\<rparr>]"
  by (subst queue_delivers_in_order) simp_all

section \<open>Counting sink\<close>

text \<open>The batcher's own in-memory sink keeps only a count of what it was given.\<close>

definition counting_submit :: "compressed_batch \<Rightarrow> u64 \<Rightarrow> (sink_error + submission_receipt) \<times> u64" where
  "counting_submit b n =
     (Inr \<lparr>receipt_batch_number = batch_number b, tx_hash = replicate 32 0, l1_block = 0, blob_hash = None\<rparr>,
      n + 1)"

section \<open>Wrappers and adapters\<close>

definition wrapped_submit :: "(l1_tx \<Rightarrow> string + bytes) \<Rightarrow> (bytes \<Rightarrow> string + u64 option)
    \<Rightarrow> anvil_sink \<Rightarrow> compressed_batch \<Rightarrow> ctx_sink_error + submission_receipt" where
  "wrapped_submit send receipt k b = map_err ctx_sink_error_from (anvil_submit send receipt k b)"

definition wrapped_next_batch :: "l1_provider \<Rightarrow> anvil_source
    \<Rightarrow> (ctx_source_error + compressed_batch option) \<times> anvil_source" where
  "wrapped_next_batch p s = (let (r, s') = anvil_next_batch p s in (map_err ctx_source_error_from r, s'))"

definition wrapped_l1_head :: "l1_provider \<Rightarrow> ctx_source_error + u64" where
  "wrapped_l1_head p = map_err ctx_source_error_from (anvil_l1_head p)"

text \<open>
  \<^verbatim>\<open>BatchSinkAdapter\<close>, \<^verbatim>\<open>BatchSourceAdapter\<close> and \<^verbatim>\<open>L1BatchSourceAdapter\<close> turn every
  context error into a pipeline connection error with the printed message.
\<close>

definition adapt_sink_result :: "ctx_sink_error + 'a \<Rightarrow> sink_error + 'a" where
  "adapt_sink_result r = map_err (\<lambda>e. SinkConnection (show_ctx_sink_error e)) r"

definition adapt_source_result :: "ctx_source_error + 'a \<Rightarrow> source_error + 'a" where
  "adapt_source_result r = map_err (\<lambda>e. SourceConnection (show_ctx_source_error e)) r"

lemma adapt_Inr_iff [simp]:
  "adapt_sink_result r = Inr x \<longleftrightarrow> r = Inr x"
  "adapt_source_result s = Inr y \<longleftrightarrow> s = Inr y"
  by (simp_all add: adapt_sink_result_def adapt_source_result_def)

text \<open>
  The error kinds that survive the way from the Anvil sink to the sequencer: none. Every
  failure arrives as a connection error, so \<^verbatim>\<open>InsufficientFunds\<close> cannot be told apart.
\<close>

lemma adapted_errors_are_connection:
  "adapt_sink_result r = Inl e \<Longrightarrow> \<exists>msg. e = SinkConnection msg"
  by (cases r) (auto simp: adapt_sink_result_def)

section \<open>The factory\<close>

datatype submission_mode = InMemory | AnvilMode | Remote

fun show_submission_mode :: "submission_mode \<Rightarrow> string" where
  "show_submission_mode InMemory = ''in-memory''"
| "show_submission_mode AnvilMode = ''anvil''"
| "show_submission_mode Remote = ''remote''"

datatype context_store = QueueStore batch_queue | AnvilStore anvil_l1

record batch_context =
  context_store :: context_store
  context_mode :: submission_mode

text \<open>
  \<open>spawn\<close> is the outcome of starting the Anvil process with the given configuration: the
  address of its first account.
\<close>

definition batch_context_new :: "(anvil_config \<Rightarrow> string + address) \<Rightarrow> submission_mode \<Rightarrow> address
    \<Rightarrow> ctx_sink_error + batch_context" where
  "batch_context_new spawn mode inbox =
     (case mode of
        InMemory \<Rightarrow> Inr \<lparr>context_store = QueueStore [], context_mode = mode\<rparr>
      | AnvilMode \<Rightarrow>
          (let cfg = anvil_config_default\<lparr>config_batch_inbox := inbox\<rparr>
           in rbind (map_err CtxSinkConnection (spawn cfg))
                (\<lambda>sender. Inr \<lparr>context_store = AnvilStore (anvil_spawn cfg sender), context_mode = mode\<rparr>))
      | Remote \<Rightarrow> Inl (CtxUnsupported ''Remote batch submission mode is currently unsupported.''))"

text \<open>
  The context of the batcher (\<^verbatim>\<open>crates/consensus/batcher/src/context.rs\<close>), which only submits: its
  in-memory sink counts, and its errors are its own.
\<close>

datatype batcher_context_error = BatcherConnection string | BatcherUnsupported string

fun show_batcher_context_error :: "batcher_context_error \<Rightarrow> string" where
  "show_batcher_context_error (BatcherConnection m) = ''Connection error: '' @ m"
| "show_batcher_context_error (BatcherUnsupported m) = ''Mode not supported: '' @ m"

datatype batcher_sink = CountingSink u64 | AnvilWrapped anvil_sink

record batcher_context =
  bx_sink :: batcher_sink
  bx_anvil :: "anvil_l1 option"
  bx_mode :: submission_mode

definition batcher_context_new :: "(anvil_config \<Rightarrow> string + address) \<Rightarrow> submission_mode \<Rightarrow> address
    \<Rightarrow> batcher_context_error + batcher_context" where
  "batcher_context_new spawn mode inbox =
     (case mode of
        InMemory \<Rightarrow> Inr \<lparr>bx_sink = CountingSink 0, bx_anvil = None, bx_mode = mode\<rparr>
      | AnvilMode \<Rightarrow>
          (let cfg = anvil_config_default\<lparr>config_batch_inbox := inbox\<rparr>
           in rbind (map_err BatcherConnection (spawn cfg)) (\<lambda>sender.
                let anvil = anvil_spawn cfg sender
                in Inr \<lparr>bx_sink = AnvilWrapped (l1_sink anvil), bx_anvil = Some anvil, bx_mode = mode\<rparr>))
      | Remote \<Rightarrow> Inl (BatcherUnsupported (''Remote batch submission mode is currently unsupported. ''
          @ ''Please use 'anvil' (default) or 'in-memory' mode.'')))"

text \<open>
  \<^verbatim>\<open>BatchSink::submit\<close> of the batcher's sinks. Unlike the other context it passes the errors of the
  Anvil sink on as they are.
\<close>

definition batcher_submit :: "(l1_tx \<Rightarrow> string + bytes) \<Rightarrow> (bytes \<Rightarrow> string + u64 option)
    \<Rightarrow> batcher_sink \<Rightarrow> compressed_batch \<Rightarrow> (sink_error + submission_receipt) \<times> batcher_sink" where
  "batcher_submit send receipt k b =
     (case k of
        CountingSink n \<Rightarrow> (let (r, n) = counting_submit b n in (r, CountingSink n))
      | AnvilWrapped a \<Rightarrow> (anvil_submit send receipt a b, k))"

text \<open>Both contexts are built in the same modes, for the same outside.\<close>

lemma contexts_agree:
  "isl (batcher_context_new spawn mode inbox) = isl (batch_context_new spawn mode inbox)"
  by (cases mode; cases "spawn (anvil_config_default\<lparr>config_batch_inbox := inbox\<rparr>)")
     (simp_all add: batcher_context_new_def batch_context_new_def Let_def)

definition store_submit :: "compressed_batch \<Rightarrow> context_store \<Rightarrow> context_store" where
  "store_submit b st =
     (case st of QueueStore q \<Rightarrow> QueueStore (queue_push b q) | AnvilStore s \<Rightarrow> AnvilStore (l1_submit b s))"

definition store_next :: "context_store \<Rightarrow> compressed_batch option \<times> context_store" where
  "store_next st =
     (case st of
        QueueStore q \<Rightarrow> (let (b, q') = queue_pull q in (b, QueueStore q'))
      | AnvilStore s \<Rightarrow> (let (b, s') = l1_next s in (b, AnvilStore s')))"

definition store_contents :: "context_store \<Rightarrow> (bytes \<times> u64 \<times> u64 \<times> u64) list" where
  "store_contents st =
     (case st of QueueStore q \<Rightarrow> map payload q | AnvilStore s \<Rightarrow> l1_contents s)"

definition store_inv :: "nat \<Rightarrow> context_store \<Rightarrow> bool" where
  "store_inv k st = (case st of QueueStore _ \<Rightarrow> True | AnvilStore s \<Rightarrow> l1_inv k s)"

lemmas store_defs = store_submit_def store_next_def store_contents_def store_inv_def

text \<open>A context is a batch channel in either mode: the contract is inherited from both stores.\<close>

interpretation store: batch_channel store_submit store_next payload store_contents store_inv
proof (unfold_locales, goal_cases)
  case (1 k s b)
  then show ?case using l1.invar_submit by (auto simp: store_defs split: context_store.splits)
next
  case (2 k s)
  then show ?case using l1.invar_next by (fastforce simp: store_defs split: context_store.splits prod.splits)
next
  case (3 k s b)
  then show ?case using l1.contents_submit mem.contents_submit
    by (auto simp: store_defs split: context_store.splits)
next
  case (4 k s)
  then show ?case using l1.next_empty mem.next_empty
    by (fastforce simp: store_defs split: context_store.splits prod.splits)
next
  case (5 k s)
  then show ?case
  proof (cases s)
    case (QueueStore q)
    with 5 mem.next_nonempty [of q] show ?thesis
      by (cases "queue_pull q") (auto simp: store_defs hd_map map_tl)
  next
    case (AnvilStore a)
    with 5 l1.next_nonempty [of k a] show ?thesis
      by (cases "l1_next a") (auto simp: store_defs)
  qed
qed

text \<open>
  A freshly made context delivers. Whatever the mode, if the factory returns a context
  then the payloads polled from its source are exactly those submitted to its sink, in order.
\<close>

theorem context_delivers:
  assumes "batch_context_new spawn mode inbox = Inr ctx"
    and "length bs < 2 ^ 64" and "length bs \<le> k"
  shows "map payload (fst (poll store_next k (fold store_submit bs (context_store ctx)))) = map payload bs"
proof (rule store.delivery)
  show "store_inv (length bs) (context_store ctx)"
    using assms(1,2) l1_inv_spawn
    by (auto simp: batch_context_new_def store_inv_def rbind_Inr_iff Let_def split: submission_mode.splits)
  show "store_contents (context_store ctx) = []"
    using assms(1)
    by (auto simp: batch_context_new_def store_contents_def rbind_Inr_iff Let_def split: submission_mode.splits)
qed (rule assms(3))

theorem context_delivers_witness:
  "\<exists>ctx. batch_context_new (\<lambda>_. Inr 1) AnvilMode 7 = Inr ctx
     \<and> map payload (fst (poll store_next 1 (fold store_submit
         [\<lparr>batch_number = 1, batch_data = [9], block_count = 2, first_block = 4, last_block = 5\<rparr>]
         (context_store ctx)))) = [([9], 2, 4, 5)]"
proof -
  obtain ctx where ctx: "batch_context_new (\<lambda>_. Inr 1) AnvilMode 7 = Inr ctx"
    by (auto simp: batch_context_new_def Let_def)
  from context_delivers [OF ctx, where bs =
      "[\<lparr>batch_number = 1, batch_data = [9], block_count = 2, first_block = 4, last_block = 5\<rparr>]" and k = 1]
  show ?thesis using ctx by (simp add: payload_def)
qed

end
