(* ===== verification/Validator.thy ===== *)
theory Validator
  imports Role Batch_Context
begin

text \<open>
  The validator role (\<^verbatim>\<open>crates/node/roles/src/validator.rs\<close>): it polls a source of batches,
  decompresses and deserialises each new one, has the executor run its blocks, and records the
  batch in its checkpoint.

  The record \<open>validator\<close> has the struct's fields; \<open>vworld\<close> adds the surroundings: the state
  of the source, the log of the executor's calls with their outcomes, the file system, the
  number of saves, and what observers and callbacks were told. Decompression, \<^verbatim>\<open>serde_json\<close>,
  the source, the executor and the clock are parameters.
\<close>

section \<open>Data\<close>

datatype validator_event = BatchDerived u64 usize | BatchValidated u64

datatype validator_output =
    ValidatorEvent validator_event
  | OnBatchDerived u64 usize u64 u64
  | OnBlockDerived u64 usize u64 u64
  | OnL1BlockProduced u64

record validator =
  v_cp :: checkpoint
  v_cp_path :: "path option"
  poll_interval_ms :: u64
  v_has_event_tx :: bool
  has_derivation_callback :: bool
  last_l1_head :: u64

record ('tx, 's) vworld = validator +
  source :: 's
  executions :: "('tx op_block \<times> (string + unit)) list"
  v_disk :: file_system
  saves :: nat
  v_outputs :: "validator_output list"

record ('tx, 's) vdeps =
  v_decompress :: "bytes \<Rightarrow> compression_error + bytes"
  v_from_bytes :: "bytes \<Rightarrow> string + 'tx op_block list"
  v_execute :: "('tx op_block \<times> (string + unit)) list \<Rightarrow> 'tx op_block \<Rightarrow> string + unit"
  v_next_batch :: "'s \<Rightarrow> (source_error + compressed_batch option) \<times> 's"
  v_l1_head :: "'s \<Rightarrow> source_error + u64"
  v_cp_ser :: "checkpoint \<Rightarrow> string option"
  v_cp_fault :: "nat \<Rightarrow> io_fault option"
  v_touched_at :: "nat \<Rightarrow> u64"
  execution_ms :: "nat \<Rightarrow> u64"

section \<open>Construction\<close>

definition validator_new :: "(string \<Rightarrow> checkpoint option) \<Rightarrow> bool \<Rightarrow> file_system
    \<Rightarrow> path option \<Rightarrow> role_error + validator" where
  "validator_new de readable fs p =
     rbind (initial_checkpoint de readable fs p) (\<lambda>c.
       Inr \<lparr>v_cp = c, v_cp_path = p, poll_interval_ms = 50, v_has_event_tx = False,
            has_derivation_callback = False, last_l1_head = 0\<rparr>)"

definition with_poll_interval :: "u64 \<Rightarrow> 'm validator_scheme \<Rightarrow> 'm validator_scheme" where
  "with_poll_interval ms v = v\<lparr>poll_interval_ms := ms\<rparr>"

definition v_with_event_sender :: "'m validator_scheme \<Rightarrow> 'm validator_scheme" where
  "v_with_event_sender v = v\<lparr>v_has_event_tx := True\<rparr>"

definition with_derivation_callback :: "'m validator_scheme \<Rightarrow> 'm validator_scheme" where
  "with_derivation_callback v = v\<lparr>has_derivation_callback := True\<rparr>"

definition validator_resume :: "checkpoint \<Rightarrow> 'm validator_scheme \<Rightarrow> 'm validator_scheme" where
  "validator_resume c v = v\<lparr>v_cp := c\<rparr>"

definition validator_checkpoint :: "'m validator_scheme \<Rightarrow> role_checkpoint" where
  "validator_checkpoint v = role_checkpoint_default
     \<lparr>rc_last_batch_derived := Some (last_batch_derived (v_cp v)),
      rc_last_block_processed := Some (last_block_executed (v_cp v))\<rparr>"

definition vworld_of :: "validator \<Rightarrow> 's \<Rightarrow> file_system \<Rightarrow> ('tx, 's) vworld" where
  "vworld_of v s fs = validator.extend v
     \<lparr>source = s, executions = [], v_disk = fs, saves = 0, v_outputs = []\<rparr>"

section \<open>Operations\<close>

definition v_emit :: "validator_event \<Rightarrow> ('tx, 's) vworld \<Rightarrow> ('tx, 's) vworld" where
  "v_emit ev w = (if v_has_event_tx w then w\<lparr>v_outputs := v_outputs w @ [ValidatorEvent ev]\<rparr> else w)"

definition v_call :: "validator_output \<Rightarrow> ('tx, 's) vworld \<Rightarrow> ('tx, 's) vworld" where
  "v_call out w = (if has_derivation_callback w then w\<lparr>v_outputs := v_outputs w @ [out]\<rparr> else w)"

text \<open>The loop over the blocks of a batch: the outcome of an execution is not looked at.\<close>

fun execute_blocks :: "('tx, 's) vdeps \<Rightarrow> 'tx op_block list \<Rightarrow> ('tx, 's) vworld \<Rightarrow> ('tx, 's) vworld" where
  "execute_blocks d [] w = w"
| "execute_blocks d (b # bs) w =
     (let ms = execution_ms d (length (executions w));
          w = w\<lparr>executions := executions w @ [(b, v_execute d (executions w) b)]\<rparr>
      in execute_blocks d bs
           (v_call (OnBlockDerived (header_number b) (length (transactions b)) 0 ms) w))"

definition process_batch :: "('tx, 's) vdeps \<Rightarrow> compressed_batch \<Rightarrow> ('tx, 's) vworld
    \<Rightarrow> (role_error + unit) \<times> ('tx, 's) vworld" where
  "process_batch d b w =
     (if batch_number b \<le> last_batch_derived (v_cp w) then (Inr (), w)
      else
        let n = batch_number b; count = unat (block_count b) in
        case v_decompress d (batch_data b) of
          Inl e \<Rightarrow> (Inl (RoleCompression e), w)
        | Inr data \<Rightarrow>
            (case v_from_bytes d data of
               Inl e \<Rightarrow> (Inl (RoleReport (''Failed to deserialize OpBlockBatch: '' @ e)), w)
             | Inr blks \<Rightarrow>
                 (let w = v_emit (BatchDerived n count) w;
                      w = execute_blocks d blks w;
                      w = w\<lparr>v_cp := touch (v_touched_at d (saves w)) (record_batch_derived n (v_cp w))\<rparr>;
                      (saved, fs) = save_if_path (v_cp_ser d) (v_cp_fault d (saves w)) (v_cp w)
                        (v_cp_path w) (v_disk w);
                      w = w\<lparr>v_disk := fs, saves := saves w + 1\<rparr>
                  in case saved of
                       Inl e \<Rightarrow> (Inl e, w)
                     | Inr _ \<Rightarrow>
                         (Inr (), v_call (OnBatchDerived n count (first_block b) (last_block b))
                           (v_emit (BatchValidated n) w)))))"

text \<open>The notification of new L1 blocks at the head of a tick.\<close>

definition notify_l1_blocks :: "('tx, 's) vdeps \<Rightarrow> ('tx, 's) vworld \<Rightarrow> ('tx, 's) vworld" where
  "notify_l1_blocks d w =
     (if has_derivation_callback w
      then (case v_l1_head d (source w) of
              Inl _ \<Rightarrow> w
            | Inr head \<Rightarrow>
                if last_l1_head w < head
                then w\<lparr>v_outputs := v_outputs w @
                         map (\<lambda>n. OnL1BlockProduced (of_nat n)) [unat (last_l1_head w + 1)..<unat head + 1],
                       last_l1_head := head\<rparr>
                else w)
      else w)"

definition MAX_BATCHES_PER_TICK :: usize where "MAX_BATCHES_PER_TICK = 10"

text \<open>The drain loop; \<open>processed\<close> counts the batches taken from the source in this tick.\<close>

function drain_batches :: "('tx, 's) vdeps \<Rightarrow> usize \<Rightarrow> ('tx, 's) vworld
    \<Rightarrow> (role_error + usize) \<times> ('tx, 's) vworld" where
  "drain_batches d processed w =
     (case v_next_batch d (source w) of
        (Inl e, s) \<Rightarrow> (Inr processed, w\<lparr>source := s\<rparr>)
      | (Inr None, s) \<Rightarrow> (Inr processed, w\<lparr>source := s\<rparr>)
      | (Inr (Some b), s) \<Rightarrow>
          (case process_batch d b (w\<lparr>source := s\<rparr>) of
             (Inl e, w') \<Rightarrow> (Inl e, w')
           | (Inr _, w') \<Rightarrow>
               (if MAX_BATCHES_PER_TICK \<le> processed + 1 then (Inr (processed + 1), w')
                else drain_batches d (processed + 1) w')))"
  by auto
termination
  by (relation "measure (\<lambda>(d, n, w). MAX_BATCHES_PER_TICK - n)") auto

declare drain_batches.simps [simp del]

definition validator_tick :: "('tx, 's) vdeps \<Rightarrow> ('tx, 's) vworld
    \<Rightarrow> (role_error + tick_result) \<times> ('tx, 's) vworld" where
  "validator_tick d w =
     (case drain_batches d 0 (notify_l1_blocks d w) of
        (Inl e, w') \<Rightarrow> (Inl e, w')
      | (Inr n, w') \<Rightarrow> (Inr (if 0 < n then Progress else Idle), w'))"

section \<open>Functional behaviour\<close>

lemma v_emit_frames [simp]:
  "v_cp (v_emit ev w) = v_cp w" "v_cp_path (v_emit ev w) = v_cp_path w"
  "source (v_emit ev w) = source w" "executions (v_emit ev w) = executions w"
  "v_disk (v_emit ev w) = v_disk w" "saves (v_emit ev w) = saves w"
  by (simp_all add: v_emit_def)

lemma v_call_frames [simp]:
  "v_cp (v_call ev w) = v_cp w" "v_cp_path (v_call ev w) = v_cp_path w"
  "source (v_call ev w) = source w" "executions (v_call ev w) = executions w"
  "v_disk (v_call ev w) = v_disk w" "saves (v_call ev w) = saves w"
  by (simp_all add: v_call_def)

lemma execute_blocks_frames [simp]:
  "v_cp (execute_blocks d bs w) = v_cp w" "v_cp_path (execute_blocks d bs w) = v_cp_path w"
  "source (execute_blocks d bs w) = source w" "v_disk (execute_blocks d bs w) = v_disk w"
  "saves (execute_blocks d bs w) = saves w"
  by (induction d bs w rule: execute_blocks.induct) (simp_all add: Let_def)

lemma execute_blocks_log [simp]:
  "map fst (executions (execute_blocks d bs w)) = map fst (executions w) @ bs"
  by (induction d bs w rule: execute_blocks.induct) (simp_all add: Let_def)

lemma notify_frames [simp]:
  "v_cp (notify_l1_blocks d w) = v_cp w" "v_cp_path (notify_l1_blocks d w) = v_cp_path w"
  "source (notify_l1_blocks d w) = source w" "executions (notify_l1_blocks d w) = executions w"
  "v_disk (notify_l1_blocks d w) = v_disk w" "saves (notify_l1_blocks d w) = saves w"
  by (simp_all add: notify_l1_blocks_def split: sum.splits)

text \<open>What the payload of a batch decodes to.\<close>

definition v_decode :: "('tx, 's) vdeps \<Rightarrow> compressed_batch \<Rightarrow> 'tx op_block list option" where
  "v_decode d b =
     (case v_decompress d (batch_data b) of
        Inl _ \<Rightarrow> None
      | Inr data \<Rightarrow> (case v_from_bytes d data of Inl _ \<Rightarrow> None | Inr blks \<Rightarrow> Some blks))"

text \<open>The four ways a batch can be processed.\<close>

lemma process_batch_cases:
  assumes "process_batch d b w = (r, w')"
  obtains
    (old) "batch_number b \<le> last_batch_derived (v_cp w)" "r = Inr ()" "w' = w"
  | (undecodable) e where "last_batch_derived (v_cp w) < batch_number b" "v_decode d b = None"
      "r = Inl e" "w' = w"
  | (validated) blks where "last_batch_derived (v_cp w) < batch_number b" "v_decode d b = Some blks"
      "last_batch_derived (v_cp w') = batch_number b" "source w' = source w"
      "map fst (executions w') = map fst (executions w) @ blks"
      "v_cp_path w' = v_cp_path w" "\<forall>e. r = Inl e \<longrightarrow> (\<exists>c. e = RoleCheckpoint c)"
proof (cases "batch_number b \<le> last_batch_derived (v_cp w)")
  case True
  then have "(r, w') = (Inr (), w)" unfolding assms [symmetric] by (simp add: process_batch_def)
  with old True show thesis by simp
next
  case new: False
  show thesis
  proof (cases "v_decode d b")
    case None
    then have "\<exists>e. (r, w') = (Inl e, w)"
      using assms new by (auto simp: process_batch_def v_decode_def split: sum.splits)
    with undecodable new None show thesis by auto
  next
    case (Some blks)
    then obtain data where data: "v_decompress d (batch_data b) = Inr data" "v_from_bytes d data = Inr blks"
      by (auto simp: v_decode_def split: sum.splits)
    define x where "x = execute_blocks d blks (v_emit (BatchDerived (batch_number b) (unat (block_count b))) w)"
    define c where "c = touch (v_touched_at d (saves x)) (record_batch_derived (batch_number b) (v_cp x))"
    obtain saved fs where s: "save_if_path (v_cp_ser d) (v_cp_fault d (saves x)) c (v_cp_path x) (v_disk x)
        = (saved, fs)" by force
    define y where "y = x\<lparr>v_cp := c, v_disk := fs, saves := saves x + 1\<rparr>"
    have rw: "(r, w') = (case saved of Inl e \<Rightarrow> (Inl e, y)
      | Inr _ \<Rightarrow> (Inr (), v_call (OnBatchDerived (batch_number b) (unat (block_count b)) (first_block b)
          (last_block b)) (v_emit (BatchValidated (batch_number b)) y)))"
      unfolding assms [symmetric] process_batch_def Let_def data
        x_def [symmetric] sum.case c_def [symmetric] s prod.case y_def
      using new by (cases saved) (simp_all add: s)
    have num: "last_batch_derived (v_cp y) = batch_number b"
      using new by (simp add: y_def c_def x_def max_absorb2 linorder_not_le less_imp_le)
    have y: "v_cp_path y = v_cp_path w" "source y = source w"
      "map fst (executions y) = map fst (executions w) @ blks"
      by (simp_all add: y_def x_def)
    have lt: "last_batch_derived (v_cp w) < batch_number b" using new by simp
    show thesis
    proof (cases saved)
      case (Inl e)
      with rw have "r = Inl e" and "w' = y" by simp_all
      moreover obtain ce where "e = RoleCheckpoint ce" using save_if_path_Inl s Inl by blast
      ultimately show thesis using validated [OF lt Some] num y by simp
    next
      case (Inr u)
      with rw show thesis using validated [OF lt Some] num y by simp
    qed
  qed
qed

section \<open>A concrete validator\<close>

definition vdemo_block :: "unit op_block" where
  "vdemo_block =
     \<lparr>header_number = 7, header_timestamp = 0, header_gas_used = 21000, transactions = [()]\<rparr>"

definition vdemo_deps :: "(unit, batch_queue) vdeps" where
  "vdemo_deps =
     \<lparr>v_decompress = noop_decompress,
      v_from_bytes = (\<lambda>bs. if bs = [1] then Inr [vdemo_block] else Inl ''bad json''),
      v_execute = (\<lambda>_ _. Inl ''out of gas''),
      v_next_batch = (\<lambda>q. case queue_next_batch q of (r, q') \<Rightarrow> (adapt_source_result r, q')),
      v_l1_head = (\<lambda>q. adapt_source_result (queue_l1_head q)),
      v_cp_ser = unary_ser, v_cp_fault = (\<lambda>_. None), v_touched_at = of_nat, execution_ms = (\<lambda>_. 0)\<rparr>"

definition vdemo_batch :: "u64 \<Rightarrow> bytes \<Rightarrow> compressed_batch" where
  "vdemo_batch n bs = \<lparr>batch_number = n, batch_data = bs, block_count = 1, first_block = 7, last_block = 7\<rparr>"

definition vdemo :: "compressed_batch list \<Rightarrow> (unit, batch_queue) vworld" where
  "vdemo q = vworld_of
     \<lparr>v_cp = checkpoint_default, v_cp_path = Some demo_path, poll_interval_ms = 50,
      v_has_event_tx = True, has_derivation_callback = True, last_l1_head = 0\<rparr>
     q \<lparr>files = Map.empty, dirs = {}\<rparr>"

lemma vdemo_fields:
  "source (vdemo q) = q" "executions (vdemo q) = []" "v_cp (vdemo q) = checkpoint_default"
  by (simp_all add: vdemo_def vworld_of_def validator.extend_def)

lemma vdemo_decode: "v_decode vdemo_deps (vdemo_batch n bs) = (if bs = [1] then Some [vdemo_block] else None)"
  by (simp add: v_decode_def vdemo_deps_def vdemo_batch_def noop_decompress_def)

section \<open>Every batch is executed at most once\<close>

inductive validator_run :: "('tx, 's) vdeps \<Rightarrow> ('tx, 's) vworld \<Rightarrow> ('tx, 's) vworld \<Rightarrow> bool" for d w where
  vrun_start: "validator_run d w w"
| vrun_tick: "validator_run d w w' \<Longrightarrow> validator_tick d w' = (r, w'') \<Longrightarrow> validator_run d w w''"

abbreviation mark :: "('tx, 's) vworld \<Rightarrow> u64" where
  "mark w \<equiv> last_batch_derived (v_cp w)"

definition decoded :: "('tx, 's) vdeps \<Rightarrow> compressed_batch list \<Rightarrow> 'tx op_block list" where
  "decoded d bs = concat (map (\<lambda>b. case v_decode d b of None \<Rightarrow> [] | Some blks \<Rightarrow> blks) bs)"

lemma decoded_simps [simp]:
  "decoded d [] = []"
  "decoded d (b # bs) = (case v_decode d b of None \<Rightarrow> [] | Some blks \<Rightarrow> blks) @ decoded d bs"
  "decoded d (bs @ cs) = decoded d bs @ decoded d cs"
  by (simp_all add: decoded_def)

text \<open>From \<open>w\<close> to \<open>w'\<close> exactly the batches \<open>bs\<close> were executed, with increasing numbers.\<close>

definition executed_between :: "('tx, 's) vdeps \<Rightarrow> compressed_batch list \<Rightarrow> ('tx, 's) vworld
    \<Rightarrow> ('tx, 's) vworld \<Rightarrow> bool" where
  "executed_between d bs w w' =
     (map fst (executions w') = map fst (executions w) @ decoded d bs
      \<and> sorted_wrt (<) (mark w # map batch_number bs)
      \<and> mark w' = last (mark w # map batch_number bs))"

lemma executed_none: "map fst (executions w') = map fst (executions w) \<Longrightarrow> mark w' = mark w \<Longrightarrow> executed_between d [] w w'"
  by (simp add: executed_between_def)

lemma sorted_wrt_last:
  "sorted_wrt (<) (m # xs) \<Longrightarrow> sorted_wrt (<) (last (m # xs) # ys) \<Longrightarrow> sorted_wrt (<) (m # xs @ ys)"
  for m :: "'a::linorder"
proof (induction xs arbitrary: m)
  case (Cons x xs)
  have "sorted_wrt (<) (x # xs @ ys)"
    by (rule Cons.IH) (use Cons.prems in \<open>auto split: if_splits\<close>)
  with Cons.prems show ?case by (auto intro: less_trans)
qed simp

lemma executed_trans:
  assumes "executed_between d bs w w'" and "executed_between d cs w' w''"
  shows "executed_between d (bs @ cs) w w''"
proof -
  have "sorted_wrt (<) (mark w # map batch_number bs @ map batch_number cs)"
    using assms by (intro sorted_wrt_last) (auto simp: executed_between_def)
  with assms show ?thesis by (auto simp: executed_between_def)
qed

text \<open>
  Of the batches a source delivers, those a validator with mark \<open>m\<close> has to execute: the ones it
  can decode whose number is above the mark, which each of them moves to its own number.
\<close>

fun due :: "('tx, 's) vdeps \<Rightarrow> u64 \<Rightarrow> compressed_batch list \<Rightarrow> compressed_batch list" where
  "due d m [] = []"
| "due d m (b # bs) =
     (if m < batch_number b \<and> v_decode d b \<noteq> None then b # due d (batch_number b) bs else due d m bs)"

lemma due_append:
  "due d m (bs @ cs) = due d m bs @ due d (last (m # map batch_number (due d m bs))) cs"
proof (induction d m bs rule: due.induct)
  case (2 d m b bs)
  then show ?case by (cases "m < batch_number b \<and> v_decode d b \<noteq> None") auto
qed simp

lemma due_above: "sorted_wrt (<) (m # map batch_number (due d m bs))"
proof (induction d m bs rule: due.induct)
  case (2 d m b bs)
  then show ?case by (auto intro: less_trans)
qed simp

lemma process_executes:
  assumes "process_batch d b w = (r, w')"
  shows "executed_between d (due d (mark w) [b]) w w' \<and> source w' = source w \<and> v_cp_path w' = v_cp_path w"
  using assms
  by (cases rule: process_batch_cases) (auto simp: executed_between_def)

lemma executed_set_source: "executed_between d bs (w\<lparr>source := s\<rparr>) w' = executed_between d bs w w'"
  by (simp add: executed_between_def)

lemma executed_due_trans:
  assumes "executed_between d (due d (mark w) bs) w w'" and "executed_between d (due d (mark w') cs) w' w''"
  shows "executed_between d (due d (mark w) (bs @ cs)) w w''"
proof -
  have "mark w' = last (mark w # map batch_number (due d (mark w) bs))"
    using assms(1) unfolding executed_between_def by blast
  with executed_trans [OF assms] show ?thesis by (simp add: due_append)
qed

text \<open>From \<open>w\<close> to \<open>w'\<close> the batches \<open>ds\<close> were delivered, and the due ones of them executed.\<close>

definition follows :: "('tx, 's) vdeps \<Rightarrow> compressed_batch list \<Rightarrow> ('tx, 's) vworld \<Rightarrow> ('tx, 's) vworld \<Rightarrow> bool" where
  "follows d ds w w' =
     (pulled (v_next_batch d) (source w) ds (source w') \<and> executed_between d (due d (mark w) ds) w w'
      \<and> v_cp_path w' = v_cp_path w)"

lemma follows_trans: "follows d bs w w' \<Longrightarrow> follows d cs w' w'' \<Longrightarrow> follows d (bs @ cs) w w''"
  unfolding follows_def using pulled_trans executed_due_trans by metis

lemma drain_executes: "drain_batches d n w = (r, w') \<Longrightarrow> \<exists>ds. follows d ds w w'"
proof (induction d n w rule: drain_batches.induct)
  case (1 d n w)
  obtain a s where a: "v_next_batch d (source w) = (a, s)" by force
  show ?case
  proof (cases "\<exists>b. a = Inr (Some b)")
    case False
    then have "w' = w\<lparr>source := s\<rparr>" and "pulled (v_next_batch d) (source w) [] s"
      using 1(2) a by (auto simp: drain_batches.simps [of d n w] intro: pulled_one split: sum.splits option.splits)
    then have "follows d [] w w'" by (simp add: follows_def executed_none)
    then show ?thesis by blast
  next
    case True
    then obtain b where b: "a = Inr (Some b)" by blast
    obtain q y where q: "process_batch d b (w\<lparr>source := s\<rparr>) = (q, y)" by force
    have y: "follows d [b] w y"
      using process_executes [OF q] pulled_one(3) [of "v_next_batch d"] a b
      by (simp add: follows_def executed_set_source)
    show ?thesis
    proof (cases "is_ok q \<and> \<not> MAX_BATCHES_PER_TICK \<le> n + 1")
      case False
      then have "w' = y"
        using 1(2) a b q by (cases q) (auto simp: drain_batches.simps [of d n w])
      with y show ?thesis by blast
    next
      case True
      then obtain u where u: "q = Inr u" by (cases q) auto
      then have "drain_batches d (n + 1) y = (r, w')"
        using 1(2) a b q True by (simp add: drain_batches.simps [of d n w])
      then obtain ds where "follows d ds y w'"
        using 1(1) [OF a [symmetric] b refl q [symmetric] u] True by blast
      with y follows_trans show ?thesis by blast
    qed
  qed
qed

lemma tick_executes: "validator_tick d w = (r, w') \<Longrightarrow> \<exists>ds. follows d ds w w'"
proof -
  assume t: "validator_tick d w = (r, w')"
  obtain q y where q: "drain_batches d 0 (notify_l1_blocks d w) = (q, y)" by force
  then have "y = w'" using t by (auto simp: validator_tick_def split: sum.splits)
  with drain_executes [OF q] show ?thesis by (simp add: follows_def executed_between_def)
qed

lemma run_executes: "validator_run d w w' \<Longrightarrow> \<exists>ds. follows d ds w w'"
proof (induction rule: validator_run.induct)
  case vrun_start
  have "follows d [] w w" by (simp add: follows_def executed_none pulled_start)
  then show ?case by blast
next
  case (vrun_tick w' r w'')
  with tick_executes follows_trans show ?case by blast
qed

lemma run_frames:
  assumes "validator_run d w w'"
  shows "v_cp_path w' = v_cp_path w" and "mark w \<le> mark w'"
proof -
  obtain ds where ds: "follows d ds w w'" using run_executes [OF assms] by blast
  then show "v_cp_path w' = v_cp_path w" by (simp add: follows_def)
  have "mark w' \<in> set (mark w # map batch_number (due d (mark w) ds))"
    using ds unfolding follows_def executed_between_def by (metis last_in_set list.distinct(1))
  then show "mark w \<le> mark w'"
    using due_above [of "mark w" d ds] by (auto intro: less_imp_le)
qed

text \<open>
  C6: the validator executes every batch it is given exactly once and never goes back. Over any
  run, whatever the source delivers and whichever operation fails, let \<open>ds\<close> be the batches the
  source handed out. The blocks executed are exactly those of the due batches of \<open>ds\<close>, the
  decodable ones whose number is above the mark at the time, complete and in the order of
  delivery; their numbers increase strictly from the checkpoint's mark on, and the mark is the
  number of the last of them.
\<close>

theorem validator_executes_once:
  assumes "validator_run d w w'"
  shows "\<exists>ds. pulled (v_next_batch d) (source w) ds (source w')
     \<and> map fst (executions w') = map fst (executions w) @ decoded d (due d (last_batch_derived (v_cp w)) ds)
     \<and> sorted_wrt (<) (last_batch_derived (v_cp w) # map batch_number (due d (last_batch_derived (v_cp w)) ds))
     \<and> last_batch_derived (v_cp w')
         = last (last_batch_derived (v_cp w) # map batch_number (due d (last_batch_derived (v_cp w)) ds))"
  using run_executes [OF assms] unfolding follows_def executed_between_def by blast

section \<open>Catching up\<close>

definition v_accepting :: "('tx, 's) vdeps \<Rightarrow> bool" where
  "v_accepting d = ((\<forall>k. v_cp_fault d k = None) \<and> (\<forall>c. v_cp_ser d c \<noteq> None))"

text \<open>The in-memory queue as the validator's source, through the adapter.\<close>

definition queue_source :: "batch_queue \<Rightarrow> (source_error + compressed_batch option) \<times> batch_queue" where
  "queue_source q = (case queue_next_batch q of (r, q') \<Rightarrow> (adapt_source_result r, q'))"

lemma queue_source_simps [simp]:
  "queue_source [] = (Inr None, [])" "queue_source (b # q) = (Inr (Some b), q)"
  by (simp_all add: queue_source_def queue_next_batch_def adapt_source_result_def)

lemma process_ok:
  assumes "v_accepting d" and "v_decode d b = Some blks"
  shows "fst (process_batch d b w) = Inr ()"
proof -
  obtain data where data: "v_decompress d (batch_data b) = Inr data" "v_from_bytes d data = Inr blks"
    using assms(2) by (auto simp: v_decode_def split: sum.splits)
  show ?thesis
    using assms(1) save_if_path_ok
    by (simp add: process_batch_def Let_def data case_prod_unfold v_accepting_def)
qed

text \<open>A short queue of decodable batches, new or old, is emptied by one tick.\<close>

lemma drain_empties:
  assumes "v_next_batch d = queue_source" and "v_accepting d"
  shows "list_all (\<lambda>b. v_decode d b \<noteq> None) (source w) \<Longrightarrow> n + length (source w) < MAX_BATCHES_PER_TICK \<Longrightarrow>
      \<exists>w'. drain_batches d n w = (Inr (n + length (source w)), w') \<and> source w' = []"
proof (induction "source w" arbitrary: n w)
  case Nil
  then have "drain_batches d n w = (Inr n, w\<lparr>source := []\<rparr>)"
    by (simp add: drain_batches.simps [of d n w] assms(1))
  with Nil show ?case by simp
next
  case (Cons b q)
  obtain r y where y: "process_batch d b (w\<lparr>source := q\<rparr>) = (r, y)" by force
  have "r = Inr ()"
    using process_ok [OF assms(2), of b _ "w\<lparr>source := q\<rparr>"] Cons.prems(1) y by (auto simp: Cons.hyps(2) [symmetric])
  moreover have "source y = q" using process_executes [OF y] by simp
  moreover have "\<exists>w'. drain_batches d (n + 1) y = (Inr (n + 1 + length q), w') \<and> source w' = []"
    using Cons.hyps(1) [of y "n + 1"] Cons.prems \<open>source y = q\<close> by (simp add: Cons.hyps(2) [symmetric])
  ultimately show ?case
    using y Cons.prems(2) by (simp add: drain_batches.simps [of d n w] assms(1) Cons.hyps(2) [symmetric])
qed

lemma vdemo_deps_laws: "v_next_batch vdemo_deps = queue_source" "v_accepting vdemo_deps"
  by (simp_all add: vdemo_deps_def queue_source_def fun_eq_iff v_accepting_def unary_ser_def)

text \<open>Batch 3, again batch 3, batch 2: only the first is executed.\<close>

theorem validator_executes_once_witness:
  "\<exists>w'. validator_tick vdemo_deps (vdemo [vdemo_batch 3 [1], vdemo_batch 3 [1], vdemo_batch 2 [1]])
       = (Inr Progress, w')
     \<and> map fst (executions w') = [vdemo_block] \<and> last_batch_derived (v_cp w') = 3"
proof -
  let ?q = "[vdemo_batch 3 [1], vdemo_batch 3 [1], vdemo_batch 2 [1]]"
  let ?v = "notify_l1_blocks vdemo_deps (vdemo ?q)"
  obtain w' where drain: "drain_batches vdemo_deps 0 ?v = (Inr 3, w')" and empty: "source w' = []"
    using drain_empties [OF vdemo_deps_laws, of ?v 0]
    by (auto simp: vdemo_fields vdemo_decode MAX_BATCHES_PER_TICK_def)
  then have tick: "validator_tick vdemo_deps (vdemo ?q) = (Inr Progress, w')" by (simp add: validator_tick_def)
  have "validator_run vdemo_deps (vdemo ?q) w'" by (rule vrun_tick [OF vrun_start tick])
  from validator_executes_once [OF this] obtain ds where ds:
    "pulled queue_source ?q ds []"
    "map fst (executions w') = decoded vdemo_deps (due vdemo_deps 0 ds)"
    "last_batch_derived (v_cp w') = last (0 # map batch_number (due vdemo_deps 0 ds))"
    by (auto simp: vdemo_fields checkpoint_default_def empty vdemo_deps_laws)
  have "?q = ds @ []" by (rule pulled_queue [OF ds(1)]) simp_all
  then have "ds = ?q" by simp
  moreover have "batch_number (vdemo_batch n bs) = n" for n bs by (simp add: vdemo_batch_def)
  ultimately show ?thesis using ds(2,3) tick by (simp add: vdemo_decode)
qed

lemma process_new:
  assumes "v_accepting d" and "v_decode d b \<noteq> None" and "mark w < batch_number b"
  obtains w' where "process_batch d b w = (Inr (), w')" "executed_between d [b] w w'" "source w' = source w"
proof -
  obtain blks where dec: "v_decode d b = Some blks" using assms(2) by blast
  obtain w' where p: "process_batch d b w = (Inr (), w')"
    using process_ok [OF assms(1) dec, of w] by (metis prod.collapse)
  from p show thesis
  proof (cases rule: process_batch_cases)
    case (validated blks')
    then have "executed_between d [b] w w'" by (simp add: executed_between_def)
    with that p validated show thesis by blast
  qed (use assms in auto)
qed

lemma drain_queue:
  assumes "v_next_batch d = queue_source" and "v_accepting d"
  shows "n < MAX_BATCHES_PER_TICK \<Longrightarrow> sorted_wrt (<) (mark w # map batch_number (source w)) \<Longrightarrow>
      list_all (\<lambda>b. v_decode d b \<noteq> None) (source w) \<Longrightarrow>
      \<exists>k w'. drain_batches d n w = (Inr k, w')
        \<and> executed_between d (take (MAX_BATCHES_PER_TICK - n) (source w)) w w'
        \<and> source w' = drop (MAX_BATCHES_PER_TICK - n) (source w)"
proof (induction "MAX_BATCHES_PER_TICK - n" arbitrary: n w)
  case 0
  then show ?case by simp
next
  case (Suc j)
  show ?case
  proof (cases "source w")
    case Nil
    then have "drain_batches d n w = (Inr n, w\<lparr>source := []\<rparr>)"
      by (simp add: drain_batches.simps [of d n w] assms(1))
    with Nil show ?thesis by (simp add: executed_between_def)
  next
    case (Cons b q)
    obtain y where y: "process_batch d b (w\<lparr>source := q\<rparr>) = (Inr (), y)"
      "executed_between d [b] w y" "source y = q"
      using process_new [OF assms(2), of b "w\<lparr>source := q\<rparr>"] Suc.prems Cons
      by (auto simp: executed_set_source)
    have diff: "MAX_BATCHES_PER_TICK - n = Suc j" using Suc.hyps(2) by simp
    show ?thesis
    proof (cases "j = 0")
      case True
      then have "MAX_BATCHES_PER_TICK \<le> n + 1" using diff by simp
      then have "drain_batches d n w = (Inr (n + 1), y)"
        using Cons y by (simp add: drain_batches.simps [of d n w] assms(1))
      with y Cons diff True show ?thesis by simp
    next
      case False
      then have "\<not> MAX_BATCHES_PER_TICK \<le> n + 1" using diff by simp
      then have eq: "drain_batches d n w = drain_batches d (n + 1) y"
        using Cons y by (simp add: drain_batches.simps [of d n w] assms(1))
      have "mark y = batch_number b" using y(2) by (simp add: executed_between_def)
      then have "sorted_wrt (<) (mark y # map batch_number (source y))"
        and "list_all (\<lambda>b. v_decode d b \<noteq> None) (source y)"
        using Suc.prems Cons y(3) by simp_all
      moreover have "j = MAX_BATCHES_PER_TICK - (n + 1)" and "n + 1 < MAX_BATCHES_PER_TICK"
        using diff False by simp_all
      ultimately obtain k w' where "drain_batches d (n + 1) y = (Inr k, w')"
        and ex: "executed_between d (take j q) y w'" and "source w' = drop j q"
        using Suc.hyps(1) [of "n + 1" y] y(3) by auto
      with executed_trans [OF y(2) ex] eq Cons diff show ?thesis by simp
    qed
  qed
qed

fun validator_ticks :: "('tx, 's) vdeps \<Rightarrow> nat \<Rightarrow> ('tx, 's) vworld \<Rightarrow> ('tx, 's) vworld" where
  "validator_ticks d 0 w = w"
| "validator_ticks d (Suc k) w = validator_ticks d k (snd (validator_tick d w))"

lemma ticks_queue:
  assumes "v_next_batch d = queue_source" and "v_accepting d"
  shows "sorted_wrt (<) (mark w # map batch_number (source w)) \<Longrightarrow>
      list_all (\<lambda>b. v_decode d b \<noteq> None) (source w) \<Longrightarrow>
      executed_between d (take (10 * k) (source w)) w (validator_ticks d k w)
        \<and> source (validator_ticks d k w) = drop (10 * k) (source w)"
proof (induction k arbitrary: w)
  case 0
  then show ?case by (simp add: executed_between_def)
next
  case (Suc k)
  let ?v = "notify_l1_blocks d w"
  have ten: "MAX_BATCHES_PER_TICK = 10" by (simp add: MAX_BATCHES_PER_TICK_def)
  obtain j y where "drain_batches d 0 ?v = (Inr j, y)"
    and ex: "executed_between d (take 10 (source w)) w y" and src: "source y = drop 10 (source w)"
    using drain_queue [OF assms, of 0 ?v] Suc.prems by (auto simp: ten executed_between_def)
  then have y: "snd (validator_tick d w) = y" by (simp add: validator_tick_def)
  have split: "take 10 (source w) @ drop 10 (source w) = source w" by (rule append_take_drop_id)
  have "sorted_wrt (<) (mark y # map batch_number (source y))"
  proof -
    have "sorted_wrt (<) ((mark w # map batch_number (take 10 (source w))) @ map batch_number (source y))"
      using Suc.prems(1) by (simp add: src flip: map_append)
    moreover have "mark y = last (mark w # map batch_number (take 10 (source w)))"
      using ex by (simp add: executed_between_def)
    ultimately show ?thesis unfolding sorted_wrt_append by (metis (no_types, lifting) last_in_set list.distinct(1) sorted_wrt.simps(2))
  qed
  moreover have "list_all (\<lambda>b. v_decode d b \<noteq> None) (source y)"
    using Suc.prems(2) by (auto simp: src list_all_iff dest: in_set_dropD)
  ultimately have IH: "executed_between d (take (10 * k) (source y)) y (validator_ticks d k y)"
    "source (validator_ticks d k y) = drop (10 * k) (source y)"
    using Suc.IH [of y] by blast+
  have "take (10 * Suc k) (source w) = take 10 (source w) @ take (10 * k) (drop 10 (source w))"
    by (simp add: take_add [of 10 "10 * k", symmetric])
  with executed_trans [OF ex IH(1)] IH(2) show ?case by (simp add: y src add.commute)
qed

text \<open>
  C16: the validator catches up. Reading from the in-memory queue with increasing batch numbers
  above its mark, decodable payloads and a working file system, \<open>k\<close> ticks empty a queue of up
  to \<open>10 * k\<close> batches, execute exactly the blocks of these batches, in order, and leave the
  mark at the last batch.
\<close>

theorem validator_catches_up:
  assumes "v_next_batch d = queue_source" and "v_accepting d"
    and "sorted_wrt (<) (last_batch_derived (v_cp w) # map batch_number (source w))"
    and "list_all (\<lambda>b. v_decode d b \<noteq> None) (source w)"
    and "length (source w) \<le> 10 * k"
  shows "source (validator_ticks d k w) = []
     \<and> map fst (executions (validator_ticks d k w)) = map fst (executions w) @ decoded d (source w)
     \<and> last_batch_derived (v_cp (validator_ticks d k w))
         = last (last_batch_derived (v_cp w) # map batch_number (source w))"
  using ticks_queue [OF assms(1,2,3,4), of k] assms(5) by (simp add: executed_between_def)

theorem validator_catches_up_witness:
  "map fst (executions (validator_ticks vdemo_deps 1 (vdemo [vdemo_batch 3 [1], vdemo_batch 5 [1]])))
     = [vdemo_block, vdemo_block]"
proof -
  let ?w = "vdemo [vdemo_batch 3 [1], vdemo_batch 5 [1]]"
  note vdemo_deps_laws
  moreover have "sorted_wrt (<) (last_batch_derived (v_cp ?w) # map batch_number (source ?w))"
    by (simp add: vdemo_fields checkpoint_default_def vdemo_batch_def)
  moreover have "list_all (\<lambda>b. v_decode vdemo_deps b \<noteq> None) (source ?w)"
    by (simp add: vdemo_fields vdemo_decode)
  moreover have "length (source ?w) \<le> 10 * 1" by (simp add: vdemo_fields)
  ultimately show ?thesis
    using validator_catches_up [of vdemo_deps ?w 1] by (simp add: vdemo_fields vdemo_decode)
qed

section \<open>Failures\<close>

text \<open>
  C23: a batch that cannot be decoded is lost. The tick that meets it returns an error, but the
  batch has been taken from the source and the mark is unchanged, so the next ticks go on with
  the batches behind it.
\<close>

theorem undecodable_batch_is_lost:
  assumes "v_next_batch d = queue_source" and "source w = b # q"
    and "v_decode d b = None" and "last_batch_derived (v_cp w) < batch_number b"
  shows "\<exists>e w'. validator_tick d w = (Inl e, w') \<and> source w' = q \<and> v_cp w' = v_cp w
     \<and> executions w' = executions w"
proof -
  let ?v = "(notify_l1_blocks d w)\<lparr>source := q\<rparr>"
  obtain r w' where r: "process_batch d b ?v = (r, w')" by force
  from r obtain e where "r = Inl e" and "w' = ?v"
    by (cases rule: process_batch_cases) (use assms in auto)
  then have "drain_batches d 0 (notify_l1_blocks d w) = (Inl e, ?v)"
    using r assms(1,2) by (simp add: drain_batches.simps [of d 0])
  then show ?thesis by (simp add: validator_tick_def)
qed

theorem undecodable_batch_is_lost_witness:
  "\<exists>e w'. validator_tick vdemo_deps (vdemo [vdemo_batch 1 [], vdemo_batch 2 [1]]) = (Inl e, w')
     \<and> source w' = [vdemo_batch 2 [1]]"
proof -
  let ?w = "vdemo [vdemo_batch 1 [], vdemo_batch 2 [1]]"
  note vdemo_deps_laws(1)
  moreover have "v_decode vdemo_deps (vdemo_batch 1 []) = None" by (simp add: vdemo_decode)
  moreover have "last_batch_derived (v_cp ?w) < batch_number (vdemo_batch 1 [])"
    by (simp add: vdemo_fields checkpoint_default_def vdemo_batch_def)
  ultimately show ?thesis
    using undecodable_batch_is_lost [of vdemo_deps ?w] by (fastforce simp: vdemo_fields)
qed

text \<open>The world with every execution noted as successful.\<close>

definition forget :: "('tx, 's) vworld \<Rightarrow> ('tx, 's) vworld" where
  "forget w = w\<lparr>executions := map (\<lambda>x. (fst x, Inr ())) (executions w)\<rparr>"

definition infallible :: "('tx, 's) vdeps \<Rightarrow> ('tx, 's) vdeps" where
  "infallible d = d\<lparr>v_execute := (\<lambda>_ _. Inr ())\<rparr>"

lemma infallible_simps [simp]:
  "v_decompress (infallible d) = v_decompress d" "v_from_bytes (infallible d) = v_from_bytes d"
  "v_next_batch (infallible d) = v_next_batch d" "v_l1_head (infallible d) = v_l1_head d"
  "v_cp_ser (infallible d) = v_cp_ser d" "v_cp_fault (infallible d) = v_cp_fault d"
  "v_touched_at (infallible d) = v_touched_at d" "execution_ms (infallible d) = execution_ms d"
  "v_execute (infallible d) l b = Inr ()"
  by (simp_all add: infallible_def)

lemma forget_simps [simp]:
  "v_cp (forget w) = v_cp w" "v_cp_path (forget w) = v_cp_path w" "source (forget w) = source w"
  "v_disk (forget w) = v_disk w" "saves (forget w) = saves w"
  "length (executions (forget w)) = length (executions w)"
  "forget (v_emit ev w) = v_emit ev (forget w)" "forget (v_call out w) = v_call out (forget w)"
  "forget (notify_l1_blocks d w) = notify_l1_blocks (infallible d) (forget w)"
  "forget (w\<lparr>v_cp := c, v_disk := fs, saves := n\<rparr>) = (forget w)\<lparr>v_cp := c, v_disk := fs, saves := n\<rparr>"
  "forget (w\<lparr>source := s\<rparr>) = (forget w)\<lparr>source := s\<rparr>"
  by (simp_all add: forget_def v_emit_def v_call_def notify_l1_blocks_def split: sum.splits)

lemma forget_execute [simp]:
  "forget (execute_blocks d bs w) = execute_blocks (infallible d) bs (forget w)"
proof (induction d bs w rule: execute_blocks.induct)
  case (2 d b bs w)
  have "forget (w\<lparr>executions := executions w @ [(b, x)]\<rparr>)
      = (forget w)\<lparr>executions := executions (forget w) @ [(b, Inr ())]\<rparr>" for x
    by (simp add: forget_def)
  with 2 show ?case by (simp add: Let_def)
qed simp

lemma forget_process:
  "process_batch (infallible d) b (forget w) = map_prod id forget (process_batch d b w)"
  by (simp add: process_batch_def Let_def case_prod_unfold split: sum.split)

lemma forget_drain:
  "drain_batches (infallible d) n (forget w) = map_prod id forget (drain_batches d n w)"
proof (induction d n w rule: drain_batches.induct)
  case (1 d n w)
  obtain a s where a: "v_next_batch d (source w) = (a, s)" by force
  show ?case
  proof (cases "\<exists>b. a = Inr (Some b)")
    case False
    with a show ?thesis
      by (auto simp: drain_batches.simps [of _ n] split: sum.splits option.splits)
  next
    case True
    then obtain b where b: "a = Inr (Some b)" by blast
    obtain q y where q: "process_batch d b (w\<lparr>source := s\<rparr>) = (q, y)" by force
    have q': "process_batch (infallible d) b ((forget w)\<lparr>source := s\<rparr>) = (q, forget y)"
      using forget_process [of d b "w\<lparr>source := s\<rparr>"] q by simp
    show ?thesis
    proof (cases "is_ok q \<and> \<not> MAX_BATCHES_PER_TICK \<le> n + 1")
      case False
      with a b q q' show ?thesis by (cases q) (auto simp: drain_batches.simps [of _ n])
    next
      case True
      then obtain u where u: "q = Inr u" by (cases q) auto
      with 1 [OF a [symmetric] b refl q [symmetric] u] True a b q q' show ?thesis
        by (simp add: drain_batches.simps [of _ n w] drain_batches.simps [of _ n "forget w"])
    qed
  qed
qed

text \<open>
  The outcome of executing blocks is ignored. A tick of the validator is the tick it would
  make with an executor that never fails, up to the outcomes in the executor's own log: the
  result, the checkpoint, the file system, the source and everything observers are told are
  the same. In particular a batch whose blocks fail is recorded and reported as validated.
\<close>

theorem execution_outcome_ignored:
  "validator_tick (infallible d) (forget w) = map_prod id forget (validator_tick d w)"
proof -
  obtain r y where r: "drain_batches d 0 (notify_l1_blocks d w) = (r, y)" by force
  then have "drain_batches (infallible d) 0 (notify_l1_blocks (infallible d) (forget w)) = (r, forget y)"
    using forget_drain [of d 0 "notify_l1_blocks d w"] by simp
  with r show ?thesis by (cases r) (simp_all add: validator_tick_def)
qed

end
