(* ===== verification/End_To_End.thy ===== *)
theory End_To_End
  imports Sequencer_Flush Validator
begin

text \<open>
  The two roles together: what the sequencer's sink accepted goes through the in-memory queue
  of the batch context to a validator, and the validator executes the blocks that were sent to
  the sequencer.
\<close>

text \<open>The batches the sink accepted, in order.\<close>

definition accepted_batches :: "'tx world \<Rightarrow> compressed_batch list" where
  "accepted_batches w = map fst (filter (\<lambda>c. is_ok (snd c)) (sink_log w))"

text \<open>The validator's codec undoes the sequencer's.\<close>

definition codecs_match :: "'tx deps \<Rightarrow> ('tx, 's) vdeps \<Rightarrow> bool" where
  "codecs_match d dv =
     (\<forall>blks data c. to_bytes d blks = Inr data \<longrightarrow> compress d data = Inr c \<longrightarrow>
        v_decompress dv c = Inr data \<and> v_from_bytes dv data = Inr blks)"

definition v_decoder :: "('tx, 's) vdeps \<Rightarrow> bytes \<Rightarrow> 'tx op_block list" where
  "v_decoder dv bs =
     (case v_decompress dv bs of
        Inl _ \<Rightarrow> []
      | Inr data \<Rightarrow> (case v_from_bytes dv data of Inl _ \<Rightarrow> [] | Inr blks \<Rightarrow> blks))"

lemma v_decoder_decodes: "codecs_match d dv \<Longrightarrow> decodes d (v_decoder dv)"
  by (simp add: codecs_match_def decodes_def v_decoder_def)

lemma v_decode_decoder: "v_decode dv b = Some blks \<Longrightarrow> v_decoder dv (batch_data b) = blks"
  by (auto simp: v_decode_def v_decoder_def split: sum.splits)

lemma prepared_decodable:
  "codecs_match d dv \<Longrightarrow> prepared_from d w p \<Longrightarrow> v_decode dv (prepared_batch p) \<noteq> None"
proof -
  assume match: "codecs_match d dv" and "prepared_from d w p"
  then obtain t where "prepare_batch_sync d t = Inr p" by (auto simp: prepared_from_def list_ex_iff)
  then obtain data c where "to_bytes d (worker_blocks t) = Inr data" and "compress d data = Inr c"
    and "batch_data (prepared_batch p) = c"
    by (auto simp: prepare_batch_sync_def split: sum.splits)
  moreover from this match
  have "v_decompress dv c = Inr data" and "v_from_bytes dv data = Inr (worker_blocks t)"
    by (auto simp: codecs_match_def)
  ultimately show ?thesis by (simp add: v_decode_def)
qed

lemma filter_butlast:
  assumes "list_all P (butlast xs)"
  shows "\<exists>n. filter P xs = take n xs"
proof (cases xs rule: rev_cases)
  case Nil
  then show ?thesis by simp
next
  case (snoc ys y)
  then have "filter P ys = ys" using assms by (simp add: filter_id_conv list_all_iff)
  then have "filter P xs = take (if P y then Suc (length ys) else length ys) xs" using snoc by simp
  then show ?thesis by blast
qed

lemma sorted_numbers:
  assumes "map (\<lambda>c. unat (batch_number (fst c))) xs = map (\<lambda>i. Suc (c + i)) [0..<length xs]"
  shows "sorted_wrt (<) (0 # map (\<lambda>x. batch_number (fst x)) (take n xs))"
proof -
  have num: "unat (batch_number (fst (xs ! i))) = Suc (c + i)" if "i < length xs" for i
    using arg_cong [OF assms, of "\<lambda>l. l ! i"] that by simp
  have "sorted_wrt (<) (map (\<lambda>x. batch_number (fst x)) (take n xs))"
    by (auto simp: sorted_wrt_iff_nth_less word_less_nat_alt num)
  moreover have "0 < batch_number (fst x)" if x: "x \<in> set (take n xs)" for x
  proof -
    obtain i where "i < length xs" and "x = xs ! i"
      using x by (auto simp: in_set_conv_nth)
    with num [of i] show ?thesis by (simp add: word_less_nat_alt)
  qed
  ultimately show ?thesis by auto
qed

text \<open>The log of the sink, and with it the batches accepted, only grow.\<close>

lemma sink_log_grows_atomic: "atomic d w w' \<Longrightarrow> \<exists>more. sink_log w' = sink_log w @ more"
proof (induction rule: atomic.induct)
  case (environment w a)
  then show ?case by (cases a) auto
next
  case (submit w p rest r w')
  from submit(3) show ?case by (cases rule: submit_prepared_cases) auto
qed auto

lemma sink_log_grows: "steps d w w' \<Longrightarrow> \<exists>more. sink_log w' = sink_log w @ more"
  by (induction rule: rtranclp_induct) (use sink_log_grows_atomic in fastforce)+

lemma accepted_grows_with_steps:
  assumes "steps d w w'"
  shows "accepted_batches w' = accepted_batches w @ drop (length (accepted_batches w)) (accepted_batches w')"
  using sink_log_grows [OF assms] by (auto simp: accepted_batches_def)

text \<open>The batches accepted so far: increasing numbers, all decodable, and a prefix of what was sent.\<close>

lemma accepted_stream:
  assumes "fresh w\<^sub>0" and "steps d w\<^sub>0 w" and "length (spawned w) < 2 ^ 64 - 1"
    and "last_batch_submitted (cp w\<^sub>0) = 0" and "codecs_match d dv"
  shows "sorted_wrt (<) (0 # map batch_number (accepted_batches w))"
    and "list_all (\<lambda>b. v_decode dv b \<noteq> None) (accepted_batches w)"
    and "\<exists>rest. decoded dv (accepted_batches w) @ rest = sent w"
proof -
  obtain m s where O: "order d (start_mark w\<^sub>0) m s w" and L: "ledger d w"
    using run_order [OF assms(1,2,3)] .
  obtain n where n: "filter (\<lambda>c. is_ok (snd c)) (sink_log w) = take n (sink_log w)"
    using filter_butlast [OF order_log_ok [OF O]] by blast
  have src: "accepted_batches w = map fst (take n (sink_log w))" by (simp add: accepted_batches_def n)
  show "sorted_wrt (<) (0 # map batch_number (accepted_batches w))"
    using sorted_numbers [OF order_log_numbers [OF O], of n] by (simp add: src comp_def)
  have dec: "v_decode dv (fst c) \<noteq> None" if c: "c \<in> set (sink_log w)" for c
  proof -
    obtain p where "prepared_batch p = fst c" and "prepared_from d w p"
      using L c unfolding ledger_def list_all_iff by blast
    with prepared_decodable [OF assms(5)] show ?thesis by metis
  qed
  then show "list_all (\<lambda>b. v_decode dv b \<noteq> None) (accepted_batches w)"
    by (auto simp: src list_all_iff dest: in_set_takeD)
  have "(case v_decode dv (fst c) of None \<Rightarrow> [] | Some blks \<Rightarrow> blks) = v_decoder dv (batch_data (fst c))"
    if c: "c \<in> set (take n (sink_log w))" for c
    using dec [OF in_set_takeD [OF c]] v_decode_decoder [of dv "fst c"] by auto
  then have "decoded dv (accepted_batches w) = concat (map (\<lambda>c. v_decoder dv (batch_data (fst c))) (take n (sink_log w)))"
    unfolding decoded_def src list.map_comp comp_def by (intro arg_cong [where f = concat] map_cong refl)
  moreover have "l1_blocks (v_decoder dv) w
      = concat (map (\<lambda>c. v_decoder dv (batch_data (fst c))) (take n (sink_log w) @ drop n (sink_log w)))"
    by (simp only: l1_blocks_def append_take_drop_id)
  ultimately obtain r where r: "decoded dv (accepted_batches w) @ r = l1_blocks (v_decoder dv) w"
    unfolding map_append concat_append by metis
  obtain rest where "cut_blocks (take (start_mark w\<^sub>0) (spawned w)) @ l1_blocks (v_decoder dv) w @ rest = sent w"
    using stream_split [OF assms(1-3) v_decoder_decodes [OF assms(5)]] by blast
  then have "decoded dv (accepted_batches w) @ (r @ rest) = sent w"
    using assms(4) by (simp add: start_mark_def cut_blocks_def flip: r)
  then show "\<exists>rest. decoded dv (accepted_batches w) @ rest = sent w" by blast
qed

text \<open>
  C4: what is sequenced is executed. A sequencer started without a checkpoint runs in any way;
  the batches its sink accepted go through the in-memory queue to a fresh validator whose codec
  matches. After enough ticks the queue is empty and the blocks the validator has executed are
  a prefix of the blocks sent to the sequencer: nothing is skipped, repeated or reordered from
  one end of the system to the other.
\<close>

theorem sequenced_blocks_are_executed:
  assumes "fresh w\<^sub>0" and "sequencer_run d w\<^sub>0 w" and "length (spawned w) < 2 ^ 64 - 1"
    and "last_batch_submitted (cp w\<^sub>0) = 0"
    and "v_next_batch dv = queue_source" and "v_accepting dv" and "codecs_match d dv"
    and "source v = fold queue_push (accepted_batches w) []"
    and "executions v = []" and "last_batch_derived (v_cp v) = 0"
    and "length (accepted_batches w) \<le> 10 * k"
  shows "source (validator_ticks dv k v) = []
     \<and> (\<exists>rest. map fst (executions (validator_ticks dv k v)) @ rest = sent w)"
proof -
  note stream = accepted_stream [OF assms(1) run_steps [OF assms(2)] assms(3,4,7)]
  have src: "source v = accepted_batches w"
    using assms(8) mem.submits [of "accepted_batches w" "[]"] by simp
  have "executed_between dv (take (10 * k) (source v)) v (validator_ticks dv k v)
      \<and> source (validator_ticks dv k v) = drop (10 * k) (source v)"
    by (rule ticks_queue [OF assms(5,6)]) (use stream(1,2) assms(10) src in simp_all)
  with stream(3) src assms(9,11) show ?thesis by (simp add: executed_between_def)
qed

definition demo_validator_deps :: "(unit, batch_queue) vdeps" where
  "demo_validator_deps = vdemo_deps
     \<lparr>v_from_bytes := (\<lambda>bs. if bs = [1, 2, 3] then Inr [demo_block] else Inl ''bad json'')\<rparr>"

theorem sequenced_blocks_are_executed_witness:
  "\<exists>rest. map fst (executions (validator_ticks demo_validator_deps 1
      (vdemo (fold queue_push (accepted_batches demo_end) [])))) @ rest = [demo_block]"
proof -
  let ?v = "vdemo (fold queue_push (accepted_batches demo_end) [])"
  have "length (spawned demo_end) < 2 ^ 64 - 1" by (simp add: demo_fields)
  moreover have "last_batch_submitted (cp demo_start) = 0" by (simp add: demo_eval)
  moreover have "v_next_batch demo_validator_deps = queue_source"
    by (simp add: demo_validator_deps_def vdemo_deps_def queue_source_def fun_eq_iff)
  moreover have "v_accepting demo_validator_deps"
    by (simp add: v_accepting_def demo_validator_deps_def vdemo_deps_def unary_ser_def)
  moreover have "codecs_match demo_deps demo_validator_deps"
    by (simp add: codecs_match_def demo_validator_deps_def vdemo_deps_def demo_deps_def
        noop_compress_def noop_decompress_def)
  moreover have "last_batch_derived (v_cp ?v) = 0" by (simp add: vdemo_fields checkpoint_default_def)
  moreover have "length (accepted_batches demo_end) \<le> 10 * 1"
    by (simp add: accepted_batches_def demo_end_def)
  ultimately show ?thesis
    using sequenced_blocks_are_executed [OF demo_fresh demo_run, of demo_validator_deps ?v 1]
    by (simp add: vdemo_fields demo_fields)
qed

end
