(* ===== verification/Node_Sync.thy ===== *)
theory Node_Sync
  imports Checkpoint
begin

text \<open>
  The sync stage of a node (\<^verbatim>\<open>crates/node/node/src/sync.rs\<close>, \<^verbatim>\<open>stage.rs\<close>): it fetches the
  blocks after the checkpoint one by one until it is within a threshold of the chain tip.

  The block producer is a parameter with a state of its own. The readings of the clock within a
  tick are \<open>clk 0\<close>, \<open>clk 1\<close> and so on. The rate \<^verbatim>\<open>blocks_per_second\<close> is an \<^verbatim>\<open>f64\<close> quotient of a
  block count and an elapsed time: the model keeps the two numbers, \<open>None\<close> standing for
  \<^verbatim>\<open>0.0\<close> when no time has passed.
\<close>

section \<open>Data\<close>

type_synonym rate = "(u64 \<times> duration) option"

record sync_progress =
  progress_start :: u64
  progress_current :: u64
  progress_target :: u64
  progress_rate :: rate
  progress_eta :: "(u64 \<times> rate) option"  \<comment> \<open>blocks remaining, over the rate\<close>

record sync_config =
  sync_threshold :: u64
  tip_refresh_interval :: duration
  blocks_per_tick :: usize

definition sync_config_default :: sync_config where
  "sync_config_default =
     \<lparr>sync_threshold = 10, tip_refresh_interval = 12000000000, blocks_per_tick = 100\<rparr>"

datatype sync_event =
    SyncStarted u64 u64  \<comment> \<open>start block, target block\<close>
  | SyncProgressed u64 u64 rate  \<comment> \<open>current block, target block\<close>
  | SyncCompleted u64 duration rate  \<comment> \<open>blocks synced\<close>

datatype sync_status = Syncing sync_progress | SyncComplete

record 'p sync_stage =
  producer :: 'p
  sync_config :: sync_config
  start_block :: u64
  current_block :: u64
  target_block :: u64
  last_tip_refresh :: instant
  blocks_synced :: u64
  sync_start_time :: "instant option"
  sync_has_event_tx :: bool
  sync_events :: "sync_event list"

text \<open>The \<^verbatim>\<open>BlockProducer\<close>: \<open>tip\<close> is \<^verbatim>\<open>get_chain_tip\<close>, \<open>fetch\<close> is \<^verbatim>\<open>get_block\<close>.\<close>

record ('p, 'b) producer_ops =
  tip :: "'p \<Rightarrow> (string + u64) \<times> 'p"
  fetch :: "u64 \<Rightarrow> 'p \<Rightarrow> (string + 'b option) \<times> 'p"

section \<open>Progress\<close>

text \<open>The fraction \<^verbatim>\<open>progress()\<close>, as numerator and denominator.\<close>

definition progress_fraction :: "sync_progress \<Rightarrow> nat \<times> nat" where
  "progress_fraction p =
     (if progress_target p \<le> progress_start p then (1, 1)
      else let total = unat (progress_target p - progress_start p);
               completed = unat (saturating_sub (progress_current p) (progress_start p))
           in (min completed total, total))"

definition progress_remaining :: "sync_progress \<Rightarrow> u64" where
  "progress_remaining p = saturating_sub (progress_target p) (progress_current p)"

definition progress_is_complete :: "sync_progress \<Rightarrow> bool" where
  "progress_is_complete p = (progress_target p \<le> progress_current p)"

lemma progress_fraction_le: "fst (progress_fraction p) \<le> snd (progress_fraction p) \<and> 0 < snd (progress_fraction p)"
  by (auto simp: progress_fraction_def Let_def unat_gt_0 linorder_not_le)

lemma complete_iff_none_remaining: "progress_is_complete p \<longleftrightarrow> progress_remaining p = 0"
  by (auto simp: progress_is_complete_def progress_remaining_def saturating_sub_def)

section \<open>Operations\<close>

definition sync_new :: "instant \<Rightarrow> 'p \<Rightarrow> sync_config \<Rightarrow> 'p sync_stage" where
  "sync_new now p cfg =
     \<lparr>producer = p, sync_config = cfg, start_block = 0, current_block = 0, target_block = 0,
      last_tip_refresh = now, blocks_synced = 0, sync_start_time = None,
      sync_has_event_tx = False, sync_events = []\<rparr>"

definition sync_with_event_sender :: "'p sync_stage \<Rightarrow> 'p sync_stage" where
  "sync_with_event_sender s = s\<lparr>sync_has_event_tx := True\<rparr>"

definition sync_emit :: "sync_event \<Rightarrow> 'p sync_stage \<Rightarrow> 'p sync_stage" where
  "sync_emit ev s = (if sync_has_event_tx s then s\<lparr>sync_events := sync_events s @ [ev]\<rparr> else s)"

definition blocks_remaining :: "'p sync_stage \<Rightarrow> u64" where
  "blocks_remaining s = saturating_sub (target_block s) (current_block s)"

definition refresh_tip :: "('p, 'b) producer_ops \<Rightarrow> instant \<Rightarrow> 'p sync_stage
    \<Rightarrow> (string + unit) \<times> 'p sync_stage" where
  "refresh_tip ops now s =
     (case tip ops (producer s) of
        (Inl e, p) \<Rightarrow> (Inl e, s\<lparr>producer := p\<rparr>)
      | (Inr t, p) \<Rightarrow> (Inr (), s\<lparr>producer := p, target_block := t, last_tip_refresh := now\<rparr>))"

definition initialize :: "('p, 'b) producer_ops \<Rightarrow> instant \<Rightarrow> u64 \<Rightarrow> 'p sync_stage
    \<Rightarrow> (string + unit) \<times> 'p sync_stage" where
  "initialize ops now start s =
     (case refresh_tip ops now (s\<lparr>start_block := start, current_block := start\<rparr>) of
        (Inl e, s') \<Rightarrow> (Inl e, s')
      | (Inr _, s') \<Rightarrow> (Inr (), sync_emit (SyncStarted (start_block s') (target_block s')) s'))"

definition should_refresh_tip :: "instant \<Rightarrow> 'p sync_stage \<Rightarrow> bool" where
  "should_refresh_tip now s = (tip_refresh_interval (sync_config s) \<le> now - last_tip_refresh s)"

definition is_synced :: "'p sync_stage \<Rightarrow> bool" where
  "is_synced s = (target_block s \<le> current_block s + sync_threshold (sync_config s))"

definition rate_of :: "u64 \<Rightarrow> duration \<Rightarrow> rate" where
  "rate_of n elapsed = (if 0 < elapsed then Some (n, elapsed) else None)"

definition sync_progress_of :: "instant \<Rightarrow> 'p sync_stage \<Rightarrow> sync_progress" where
  "sync_progress_of now s =
     (let r = (case sync_start_time s of None \<Rightarrow> None | Some t \<Rightarrow> rate_of (blocks_synced s) (now - t));
          positive = (case r of None \<Rightarrow> False | Some (n, _) \<Rightarrow> n \<noteq> 0)
      in \<lparr>progress_start = start_block s, progress_current = current_block s,
          progress_target = target_block s, progress_rate = r,
          progress_eta = (if positive then Some (blocks_remaining s, r) else None)\<rparr>)"

function fetch_loop :: "('p, 'b) producer_ops \<Rightarrow> usize \<Rightarrow> 'p sync_stage
    \<Rightarrow> (string + usize) \<times> 'p sync_stage" where
  "fetch_loop ops processed s =
     (if processed < blocks_per_tick (sync_config s) \<and> \<not> is_synced s
      then (let next_block = current_block s + 1 in
            case fetch ops next_block (producer s) of
              (Inl e, p) \<Rightarrow> (Inl e, s\<lparr>producer := p\<rparr>)
            | (Inr None, p) \<Rightarrow> (Inr processed, s\<lparr>producer := p\<rparr>)
            | (Inr (Some b), p) \<Rightarrow>
                fetch_loop ops (processed + 1)
                  (s\<lparr>producer := p, current_block := next_block, blocks_synced := blocks_synced s + 1\<rparr>))
      else (Inr processed, s))"
  by auto
termination
  by (relation "measure (\<lambda>(ops, n, s). blocks_per_tick (sync_config s) - n)") auto

declare fetch_loop.simps [simp del]

definition sync_tick :: "('p, 'b) producer_ops \<Rightarrow> (nat \<Rightarrow> instant) \<Rightarrow> 'p sync_stage
    \<Rightarrow> (string + sync_status) \<times> 'p sync_stage" where
  "sync_tick ops clk s =
     (let s = (if sync_start_time s = None then s\<lparr>sync_start_time := Some (clk 0)\<rparr> else s);
          (r, s) = (if should_refresh_tip (clk 1) s then refresh_tip ops (clk 2) s else (Inr (), s))
      in case r of
           Inl e \<Rightarrow> (Inl e, s)
         | Inr _ \<Rightarrow>
             (if is_synced s
              then (Inr SyncComplete,
                    case sync_start_time s of
                      None \<Rightarrow> s
                    | Some t \<Rightarrow> sync_emit (SyncCompleted (blocks_synced s) (clk 3 - t)
                                  (rate_of (blocks_synced s) (clk 3 - t))) s)
              else (case fetch_loop ops 0 s of
                      (Inl e, s) \<Rightarrow> (Inl e, s)
                    | (Inr _, s) \<Rightarrow>
                        (let p = sync_progress_of (clk 4) s
                         in (Inr (Syncing p),
                             sync_emit (SyncProgressed (progress_current p) (progress_target p)
                               (progress_rate p)) s)))))"

definition sync_checkpoint :: "'p sync_stage \<Rightarrow> checkpoint" where
  "sync_checkpoint s = checkpoint_default
     \<lparr>synced_to_block := current_block s, last_block_executed := current_block s\<rparr>"

section \<open>Invariants\<close>

lemma sync_emit_frames [simp]:
  "producer (sync_emit ev s) = producer s" "sync_config (sync_emit ev s) = sync_config s"
  "start_block (sync_emit ev s) = start_block s" "current_block (sync_emit ev s) = current_block s"
  "target_block (sync_emit ev s) = target_block s" "blocks_synced (sync_emit ev s) = blocks_synced s"
  "last_tip_refresh (sync_emit ev s) = last_tip_refresh s"
  "sync_start_time (sync_emit ev s) = sync_start_time s"
  by (simp_all add: sync_emit_def)

lemma is_synced_emit [simp]: "is_synced (sync_emit ev s) = is_synced s"
  by (simp add: is_synced_def)

text \<open>The counter of synced blocks is the distance from the start.\<close>

definition counted :: "'p sync_stage \<Rightarrow> bool" where
  "counted s = (current_block s = start_block s + blocks_synced s)"

lemma refresh_tip_frames:
  assumes "refresh_tip ops now s = (r, s')"
  shows "start_block s' = start_block s" "current_block s' = current_block s"
    "blocks_synced s' = blocks_synced s" "sync_config s' = sync_config s"
    "sync_start_time s' = sync_start_time s"
  using assms by (auto simp: refresh_tip_def split: prod.splits sum.splits)

lemma fetch_loop_stop:
  "\<not> (n < blocks_per_tick (sync_config s) \<and> \<not> is_synced s) \<Longrightarrow> fetch_loop ops n s = (Inr n, s)"
  by (subst fetch_loop.simps) (simp only: if_False)

lemma fetch_loop_step:
  assumes "n < blocks_per_tick (sync_config s)" and "\<not> is_synced s"
  shows "fetch ops (current_block s + 1) (producer s) = (Inl e, p) \<Longrightarrow>
      fetch_loop ops n s = (Inl e, s\<lparr>producer := p\<rparr>)"
    and "fetch ops (current_block s + 1) (producer s) = (Inr None, p) \<Longrightarrow>
      fetch_loop ops n s = (Inr n, s\<lparr>producer := p\<rparr>)"
    and "fetch ops (current_block s + 1) (producer s) = (Inr (Some b), p) \<Longrightarrow>
      fetch_loop ops n s = fetch_loop ops (n + 1)
        (s\<lparr>producer := p, current_block := current_block s + 1, blocks_synced := blocks_synced s + 1\<rparr>)"
  using assms by (subst fetch_loop.simps, simp add: Let_def)+

text \<open>
  One pass of the loop: it advances by the number of blocks it reports, at most up to the
  limit.
\<close>

definition advanced :: "usize \<Rightarrow> 'p sync_stage \<Rightarrow> string + usize \<Rightarrow> 'p sync_stage \<Rightarrow> bool" where
  "advanced n s r s' =
     (start_block s' = start_block s \<and> target_block s' = target_block s
      \<and> sync_config s' = sync_config s \<and> counted s' = counted s
      \<and> (case r of
           Inl _ \<Rightarrow> True
         | Inr k \<Rightarrow> n \<le> k \<and> k \<le> max n (blocks_per_tick (sync_config s))
             \<and> current_block s' = current_block s + of_nat (k - n)))"

lemma fetch_loop_advances: "fetch_loop ops n s = (r, s') \<Longrightarrow> advanced n s r s'"
proof (induction ops n s rule: fetch_loop.induct)
  case (1 ops n s)
  show ?case
  proof (cases "n < blocks_per_tick (sync_config s) \<and> \<not> is_synced s")
    case False
    from 1(2) show ?thesis unfolding fetch_loop_stop [OF False] by (auto simp: advanced_def)
  next
    case go: True
    obtain a p where a: "fetch ops (current_block s + 1) (producer s) = (a, p)" by force
    consider e where "a = Inl e" | "a = Inr None" | b where "a = Inr (Some b)"
      by (metis old.sum.exhaust option.exhaust)
    then show ?thesis
    proof cases
      case (1 e)
      with fetch_loop_step(1) [of n s ops e p] go a \<open>fetch_loop ops n s = (r, s')\<close> show ?thesis
        by (auto simp: advanced_def counted_def)
    next
      case 2
      with fetch_loop_step(2) [of n s ops p] go a \<open>fetch_loop ops n s = (r, s')\<close> show ?thesis
        by (auto simp: advanced_def counted_def)
    next
      case (3 b)
      let ?t = "s\<lparr>producer := p, current_block := current_block s + 1, blocks_synced := blocks_synced s + 1\<rparr>"
      have "fetch_loop ops (n + 1) ?t = (r, s')"
        using fetch_loop_step(3) [of n s ops b p] go a 3 \<open>fetch_loop ops n s = (r, s')\<close> by simp
      from "1.IH" [OF go refl a [symmetric] 3 refl this] have IH: "advanced (n + 1) ?t r s'" .
      have c: "counted ?t = counted s" by (simp add: counted_def add.assoc [symmetric])
      show ?thesis
      proof (cases r)
        case (Inl e)
        with IH c show ?thesis by (simp add: advanced_def)
      next
        case (Inr k)
        with IH have k: "n + 1 \<le> k" by (simp add: advanced_def)
        then have "k - n = Suc (k - (n + 1))" by simp
        then have "current_block s + of_nat (k - n) = current_block s + 1 + of_nat (k - (n + 1))"
          by (simp add: add.assoc)
        with IH c Inr k go show ?thesis by (simp add: advanced_def max_def split: if_splits)
      qed
    qed
  qed
qed

lemma sync_tick_advances:
  assumes "sync_tick ops clk s = (r, s')" and "counted s"
  shows "counted s' \<and> start_block s' = start_block s \<and> sync_config s' = sync_config s
     \<and> (is_ok r \<longrightarrow> (\<exists>k \<le> blocks_per_tick (sync_config s). current_block s' = current_block s + of_nat k))"
proof -
  define s1 where "s1 = (if sync_start_time s = None then s\<lparr>sync_start_time := Some (clk 0)\<rparr> else s)"
  define q where "q = (if should_refresh_tip (clk 1) s1 then refresh_tip ops (clk 2) s1 else (Inr (), s1))"
  obtain a s2 where q: "q = (a, s2)" by force
  have s2: "counted s2" "start_block s2 = start_block s" "sync_config s2 = sync_config s"
    "current_block s2 = current_block s"
    using assms(2) refresh_tip_frames [of ops "clk 2" s1 a s2] q
    by (auto simp: q_def s1_def counted_def split: if_splits)
  obtain b s3 where b: "fetch_loop ops 0 s2 = (b, s3)" by force
  have adv: "advanced 0 s2 b s3" by (rule fetch_loop_advances [OF b])
  have eq: "sync_tick ops clk s = (case a of Inl e \<Rightarrow> (Inl e, s2) | Inr _ \<Rightarrow>
      (if is_synced s2 then (Inr SyncComplete, case sync_start_time s2 of None \<Rightarrow> s2
          | Some t \<Rightarrow> sync_emit (SyncCompleted (blocks_synced s2) (clk 3 - t)
                        (rate_of (blocks_synced s2) (clk 3 - t))) s2)
       else (case b of Inl e \<Rightarrow> (Inl e, s3) | Inr _ \<Rightarrow>
          (let p = sync_progress_of (clk 4) s3 in (Inr (Syncing p),
             sync_emit (SyncProgressed (progress_current p) (progress_target p) (progress_rate p)) s3)))))"
    unfolding sync_tick_def Let_def s1_def [symmetric] q_def [symmetric] q
    by (cases a; cases b) (simp_all add: b Let_def)
  consider (err) e where "a = Inl e" | (synced) "is_ok a" "is_synced s2"
    | (fetched) "is_ok a" "\<not> is_synced s2" by (cases a) auto
  then show ?thesis
  proof cases
    case err
    with eq assms(1) s2 show ?thesis by simp
  next
    case synced
    then obtain u where "a = Inr u" by (cases a) auto
    with eq assms(1) synced have "r = Inr SyncComplete" and "counted s' = counted s2"
      and "start_block s' = start_block s2" and "sync_config s' = sync_config s2"
      and "current_block s' = current_block s2"
      by (auto simp: counted_def split: option.splits)
    with s2 show ?thesis by (auto intro: exI [of _ 0])
  next
    case fetched
    then obtain u where u: "a = Inr u" by (cases a) auto
    show ?thesis
    proof (cases b)
      case (Inl e)
      with eq assms(1) fetched u s2 adv show ?thesis by (simp add: advanced_def)
    next
      case (Inr k)
      with eq assms(1) fetched u have "counted s' = counted s3" and "start_block s' = start_block s3"
        and "sync_config s' = sync_config s3" and "current_block s' = current_block s3"
        by (auto simp: counted_def Let_def)
      with Inr s2 adv show ?thesis by (auto simp: advanced_def)
    qed
  qed
qed

fun sync_ticks :: "('p, 'b) producer_ops \<Rightarrow> (nat \<Rightarrow> instant) list \<Rightarrow> 'p sync_stage \<Rightarrow> 'p sync_stage" where
  "sync_ticks ops [] s = s"
| "sync_ticks ops (clk # clks) s = sync_ticks ops clks (snd (sync_tick ops clk s))"

lemma sync_ticks_counted:
  "counted s \<Longrightarrow> counted (sync_ticks ops clks s) \<and> start_block (sync_ticks ops clks s) = start_block s"
proof (induction ops clks s rule: sync_ticks.induct)
  case (2 ops clk clks s)
  then show ?case using sync_tick_advances [of ops clk s] by (cases "sync_tick ops clk s") simp
qed simp

text \<open>
  The sync stage counts what it syncs. After its initialisation, over any ticks and
  whatever the producer answers, the current block is the start block plus the number of
  blocks synced; this is what its checkpoint records.
\<close>

theorem sync_counts:
  assumes "initialize ops now start (sync_new t p cfg) = (r, s)"
  shows "start_block (sync_ticks ops clks s) = start
     \<and> current_block (sync_ticks ops clks s) = start + blocks_synced (sync_ticks ops clks s)
     \<and> synced_to_block (sync_checkpoint (sync_ticks ops clks s)) = current_block (sync_ticks ops clks s)"
proof -
  have "counted s" and "start_block s = start"
    using assms
    by (auto simp: initialize_def refresh_tip_def sync_new_def counted_def split: prod.splits sum.splits)
  with sync_ticks_counted [of s ops clks] show ?thesis
    by (simp add: counted_def sync_checkpoint_def)
qed

section \<open>Reaching the tip\<close>

text \<open>A producer with a fixed tip and every block up to it.\<close>

definition serves :: "('p, 'b) producer_ops \<Rightarrow> u64 \<Rightarrow> bool" where
  "serves ops t =
     (\<forall>p. tip ops p = (Inr t, p) \<and>
       (\<forall>n. n \<le> t \<longrightarrow> (\<exists>b. fetch ops n p = (Inr (Some b), p))))"

text \<open>Where the stage stops: within the threshold of the tip, or where it already is.\<close>

definition goal :: "'p sync_stage \<Rightarrow> nat" where
  "goal s = max (unat (current_block s)) (unat (target_block s) - unat (sync_threshold (sync_config s)))"

definition no_wrap :: "'p sync_stage \<Rightarrow> bool" where
  "no_wrap s = (unat (current_block s) \<le> unat (target_block s)
     \<and> unat (target_block s) + unat (sync_threshold (sync_config s)) < 2 ^ 64)"

lemma is_synced_iff:
  assumes "no_wrap s"
  shows "is_synced s \<longleftrightarrow> unat (current_block s) = goal s"
proof -
  have "unat (current_block s + sync_threshold (sync_config s))
      = unat (current_block s) + unat (sync_threshold (sync_config s))"
    using assms by (simp add: no_wrap_def unat_word_ariths)
  then show ?thesis by (auto simp: is_synced_def goal_def word_le_nat_alt max_def)
qed

lemma fetch_loop_goal:
  assumes "serves ops t"
  shows "target_block s = t \<Longrightarrow> no_wrap s \<Longrightarrow> n \<le> blocks_per_tick (sync_config s) \<Longrightarrow>
    \<exists>k s'. fetch_loop ops n s = (Inr k, s') \<and> target_block s' = t \<and> sync_config s' = sync_config s
      \<and> no_wrap s' \<and> goal s' = goal s
      \<and> unat (current_block s')
          = min (goal s) (unat (current_block s) + (blocks_per_tick (sync_config s) - n))"
proof (induction "blocks_per_tick (sync_config s) - n" arbitrary: n s)
  case 0
  then have "\<not> (n < blocks_per_tick (sync_config s) \<and> \<not> is_synced s)" by simp
  with 0 show ?case by (simp add: fetch_loop_stop goal_def)
next
  case (Suc j)
  show ?case
  proof (cases "is_synced s")
    case True
    then have "unat (current_block s) = goal s" using is_synced_iff Suc.prems by blast
    with True Suc.prems show ?thesis by (simp add: fetch_loop_stop)
  next
    case False
    let ?c = "unat (current_block s)"
    have lt: "?c < goal s"
      using False is_synced_iff [of s] Suc.prems by (simp add: goal_def max_def split: if_splits)
    then have below: "?c < unat t" using Suc.prems by (simp add: goal_def split: if_splits)
    have c1: "unat (current_block s + 1) = ?c + 1"
      using below Suc.prems by (simp add: no_wrap_def unat_word_ariths)
    then have "current_block s + 1 \<le> t" using below by (simp add: word_le_nat_alt)
    then obtain b where b: "fetch ops (current_block s + 1) (producer s) = (Inr (Some b), producer s)"
      using assms by (auto simp: serves_def)
    let ?s = "s\<lparr>producer := producer s, current_block := current_block s + 1,
      blocks_synced := blocks_synced s + 1\<rparr>"
    have nlt: "n < blocks_per_tick (sync_config s)" using Suc.hyps(2) by simp
    have nw: "no_wrap ?s" using Suc.prems below c1 by (simp add: no_wrap_def)
    have g: "goal ?s = goal s" using lt c1 by (simp add: goal_def max_def split: if_splits)
    obtain k s' where rec: "fetch_loop ops (n + 1) ?s = (Inr k, s')" "target_block s' = t"
      "sync_config s' = sync_config s" "no_wrap s'" "goal s' = goal s"
      "unat (current_block s') = min (goal s) (?c + 1 + (blocks_per_tick (sync_config s) - (n + 1)))"
    proof -
      have j: "j = blocks_per_tick (sync_config ?s) - (n + 1)" using Suc.hyps(2) by simp
      have "n + 1 \<le> blocks_per_tick (sync_config ?s)" using nlt by simp
      from Suc.hyps(1) [OF j _ nw this] Suc.prems(1) show thesis
        using that g c1 by auto
    qed
    have "?c + 1 + (blocks_per_tick (sync_config s) - (n + 1)) = ?c + (blocks_per_tick (sync_config s) - n)"
      using nlt by simp
    then show ?thesis using rec fetch_loop_step(3) [OF nlt False b] by auto
  qed
qed

lemma sync_tick_goal:
  assumes "serves ops t" and "target_block s = t" and "no_wrap s"
  shows "target_block (snd (sync_tick ops clk s)) = t"
    and "sync_config (snd (sync_tick ops clk s)) = sync_config s"
    and "no_wrap (snd (sync_tick ops clk s))" and "goal (snd (sync_tick ops clk s)) = goal s"
    and "unat (current_block (snd (sync_tick ops clk s)))
      = min (goal s) (unat (current_block s) + blocks_per_tick (sync_config s))"
    and "unat (current_block s) = goal s \<longleftrightarrow> fst (sync_tick ops clk s) = Inr SyncComplete"
proof -
  define s1 where "s1 = (if sync_start_time s = None then s\<lparr>sync_start_time := Some (clk 0)\<rparr> else s)"
  define s2 where "s2 = (if should_refresh_tip (clk 1) s1
    then s1\<lparr>producer := producer s1, target_block := t, last_tip_refresh := clk 2\<rparr> else s1)"
  have ref: "(if should_refresh_tip (clk 1) s1 then refresh_tip ops (clk 2) s1 else (Inr (), s1)) = (Inr (), s2)"
    using assms(1) by (simp add: s2_def refresh_tip_def serves_def)
  have s2: "target_block s2 = t" "sync_config s2 = sync_config s" "current_block s2 = current_block s"
    using assms(2) by (simp_all add: s2_def s1_def)
  have nw: "no_wrap s2" and g: "goal s2 = goal s"
    using assms(2,3) s2 by (simp_all add: no_wrap_def goal_def)
  obtain k s3 where f: "fetch_loop ops 0 s2 = (Inr k, s3)" "target_block s3 = t"
    "sync_config s3 = sync_config s" "no_wrap s3" "goal s3 = goal s"
    "unat (current_block s3) = min (goal s) (unat (current_block s) + blocks_per_tick (sync_config s))"
    using fetch_loop_goal [OF assms(1) s2(1) nw, of 0] s2 g by auto
  have tick: "sync_tick ops clk s = (if is_synced s2
      then (Inr SyncComplete, case sync_start_time s2 of None \<Rightarrow> s2
          | Some t \<Rightarrow> sync_emit (SyncCompleted (blocks_synced s2) (clk 3 - t)
                        (rate_of (blocks_synced s2) (clk 3 - t))) s2)
      else (let p = sync_progress_of (clk 4) s3 in (Inr (Syncing p),
             sync_emit (SyncProgressed (progress_current p) (progress_target p) (progress_rate p)) s3)))"
    unfolding sync_tick_def Let_def s1_def [symmetric] ref by (simp add: f Let_def)
  have le: "unat (current_block s) \<le> goal s" by (simp add: goal_def)
  have syn: "is_synced s2 \<longleftrightarrow> unat (current_block s) = goal s"
    using is_synced_iff [OF nw] s2 g by simp
  let ?r = "sync_tick ops clk s"
  have "target_block (snd ?r) = t \<and> sync_config (snd ?r) = sync_config s \<and> no_wrap (snd ?r)
      \<and> goal (snd ?r) = goal s
      \<and> unat (current_block (snd ?r)) = min (goal s) (unat (current_block s) + blocks_per_tick (sync_config s))
      \<and> (unat (current_block s) = goal s \<longleftrightarrow> fst ?r = Inr SyncComplete)"
  proof (cases "is_synced s2")
    case True
    then have "fst ?r = Inr SyncComplete" and "target_block (snd ?r) = target_block s2"
      and "sync_config (snd ?r) = sync_config s2" and "current_block (snd ?r) = current_block s2"
      by (simp_all add: tick split: option.split)
    moreover from this have "no_wrap (snd ?r) = no_wrap s2" and "goal (snd ?r) = goal s2"
      by (simp_all add: no_wrap_def goal_def)
    ultimately show ?thesis using s2 nw g syn True by simp
  next
    case False
    then have "fst ?r \<noteq> Inr SyncComplete" and "target_block (snd ?r) = target_block s3"
      and "sync_config (snd ?r) = sync_config s3" and "current_block (snd ?r) = current_block s3"
      by (simp_all add: tick Let_def)
    moreover from this have "no_wrap (snd ?r) = no_wrap s3" and "goal (snd ?r) = goal s3"
      by (simp_all add: no_wrap_def goal_def)
    ultimately show ?thesis using f s2 syn False by simp
  qed
  then show "target_block (snd ?r) = t" "sync_config (snd ?r) = sync_config s" "no_wrap (snd ?r)"
    "goal (snd ?r) = goal s"
    "unat (current_block (snd ?r)) = min (goal s) (unat (current_block s) + blocks_per_tick (sync_config s))"
    "unat (current_block s) = goal s \<longleftrightarrow> fst ?r = Inr SyncComplete"
    by blast+
qed

text \<open>
  C17: the sync stage reaches the tip. With a producer that serves every block up to a fixed
  tip, ticks advance by \<^verbatim>\<open>blocks_per_tick\<close> blocks until the stage is within the threshold of
  the tip, never beyond, and the next tick reports completion. The sum of tip and threshold
  must fit in 64 bits.
\<close>

theorem sync_reaches_tip:
  assumes "serves ops t" and "target_block s = t"
    and "unat (current_block s) \<le> unat t"
    and "unat t + unat (sync_threshold (sync_config s)) < 2 ^ 64"
    and "unat t \<le> unat (current_block s) + length clks * blocks_per_tick (sync_config s)"
  shows "fst (sync_tick ops clk (sync_ticks ops clks s)) = Inr SyncComplete
     \<and> unat (current_block (sync_ticks ops clks s))
         = max (unat (current_block s)) (unat t - unat (sync_threshold (sync_config s)))"
proof -
  have nw: "no_wrap s" using assms(2-4) by (simp add: no_wrap_def)
  have run: "target_block (sync_ticks ops clks s) = t \<and> no_wrap (sync_ticks ops clks s)
      \<and> goal (sync_ticks ops clks s) = goal s
      \<and> unat (current_block (sync_ticks ops clks s))
        = min (goal s) (unat (current_block s) + length clks * blocks_per_tick (sync_config s))"
    using assms(2) nw
  proof (induction clks arbitrary: s)
    case Nil
    then show ?case by (simp add: goal_def)
  next
    case (Cons c clks)
    note step = sync_tick_goal [OF assms(1) Cons.prems, of c]
    have "min (goal s) (min (goal s) (unat (current_block s) + blocks_per_tick (sync_config s))
        + length clks * blocks_per_tick (sync_config s))
        = min (goal s) (unat (current_block s) + length (c # clks) * blocks_per_tick (sync_config s))"
      by auto
    with Cons.IH [OF step(1,3)] step show ?case by simp
  qed
  have g: "goal s = max (unat (current_block s)) (unat t - unat (sync_threshold (sync_config s)))"
    using assms(2) by (simp add: goal_def)
  then have "goal s \<le> unat (current_block s) + length clks * blocks_per_tick (sync_config s)"
    using assms(5) by simp
  then have "unat (current_block (sync_ticks ops clks s)) = goal s" using run by simp
  then show ?thesis
    using sync_tick_goal(6) [OF assms(1), of "sync_ticks ops clks s" clk] run g by simp
qed

definition demo_producer :: "(unit, nat) producer_ops" where
  "demo_producer = \<lparr>tip = (\<lambda>p. (Inr 25, p)), fetch = (\<lambda>n p. (Inr (Some (unat n)), p))\<rparr>"

theorem sync_reaches_tip_witness:
  "fst (sync_tick demo_producer (\<lambda>_. 0) (sync_ticks demo_producer [\<lambda>_. 0]
     (snd (initialize demo_producer 0 5 (sync_new 0 () sync_config_default))))) = Inr SyncComplete"
proof -
  let ?s = "snd (initialize demo_producer 0 5 (sync_new 0 () sync_config_default))"
  have s: "target_block ?s = 25" "current_block ?s = 5" "sync_config ?s = sync_config_default"
    by (simp_all add: initialize_def refresh_tip_def demo_producer_def sync_new_def)
  have "serves demo_producer 25" by (simp add: serves_def demo_producer_def)
  moreover have "unat (current_block ?s) \<le> unat (25 :: u64)" unfolding s by simp
  moreover have "unat (25 :: u64) + unat (sync_threshold (sync_config ?s)) < 2 ^ 64"
    unfolding s by (simp add: sync_config_default_def)
  moreover have "unat (25 :: u64) \<le> unat (current_block ?s)
      + length [\<lambda>_ :: nat. 0 :: instant] * blocks_per_tick (sync_config ?s)"
    unfolding s by (simp add: sync_config_default_def)
  ultimately show ?thesis by (rule sync_reaches_tip [OF _ s(1), THEN conjunct1])
qed

theorem sync_counts_witness:
  "let s = snd (initialize demo_producer 0 5 (sync_new 0 () sync_config_default))
   in current_block (sync_ticks demo_producer [\<lambda>_. 0] s) = 5 + blocks_synced (sync_ticks demo_producer [\<lambda>_. 0] s)"
proof -
  obtain r s where i: "initialize demo_producer 0 5 (sync_new 0 () sync_config_default) = (r, s)" by force
  from sync_counts [OF i, of "[\<lambda>_. 0]"] show ?thesis by (simp add: i)
qed

text \<open>The sum wraps: with the largest threshold, meant as always synced, the stage syncs on.\<close>

lemma is_synced_wraps:
  "\<not> is_synced ((sync_new 0 p (sync_config_default\<lparr>sync_threshold := - 1\<rparr>))\<lparr>current_block := 1, target_block := 5\<rparr>)"
  by (simp add: is_synced_def sync_new_def)

end
