(* ===== verification/Node_Main.thy ===== *)
theory Node_Main
  imports Node_Sync Role
begin

text \<open>
  The node (\<^verbatim>\<open>crates/node/node/src/builder.rs\<close>, \<^verbatim>\<open>role.rs\<close>, \<^verbatim>\<open>state.rs\<close>, \<^verbatim>\<open>config.rs\<close>,
  \<^verbatim>\<open>events.rs\<close>): its builder, its life cycle (sync stage, active stage, shutdown) and its
  checkpoint file.

  A role is an object with the three operations of the \<^verbatim>\<open>Role\<close> trait; a tick that never
  returns is \<open>None\<close>. Every iteration of the two loops consumes one \<open>node_input\<close>: whether a
  shutdown message or Ctrl+C has arrived, the time, and whether writing the checkpoint fails.
  When the inputs are used up the loop is still running, which is the value \<open>None\<close>.
\<close>

section \<open>Data\<close>

datatype node_role = SequencerRole | ValidatorRole | DualRole

datatype montana_mode = ExecutorMode | SequencerMode | ValidatorMode | DualMode

definition runs_sequencer :: "node_role \<Rightarrow> bool" where
  "runs_sequencer r = (r = SequencerRole \<or> r = DualRole)"

definition runs_validator :: "node_role \<Rightarrow> bool" where
  "runs_validator r = (r = ValidatorRole \<or> r = DualRole)"

fun role_of_mode :: "montana_mode \<Rightarrow> string + node_role" where
  "role_of_mode ExecutorMode = Inl ''Executor mode is not supported''"
| "role_of_mode SequencerMode = Inr SequencerRole"
| "role_of_mode ValidatorMode = Inr ValidatorRole"
| "role_of_mode DualMode = Inr DualRole"

datatype node_state = Starting | NodeSyncing sync_progress | Active | Stopping | Stopped

definition is_syncing :: "node_state \<Rightarrow> bool" where
  "is_syncing s = (case s of NodeSyncing _ \<Rightarrow> True | _ \<Rightarrow> False)"

definition node_is_active :: "node_state \<Rightarrow> bool" where
  "node_is_active s = (s = Active)"

record node_config =
  role :: node_role
  checkpoint_path :: path
  checkpoint_interval_secs :: u64
  skip_sync :: bool

definition node_config_default :: node_config where
  "node_config_default =
     \<lparr>role = DualRole, checkpoint_path = \<lparr>parent_dir = ''./data'', file_name = ''checkpoint.json''\<rparr>,
      checkpoint_interval_secs = 10, skip_sync = False\<rparr>"

datatype node_event =
    StateChanged node_state
  | CheckpointSaved checkpoint
  | NodeSyncStarted u64 u64
  | NodeSyncProgress sync_progress
  | NodeSyncCompleted u64 rate
  | NodeBlockExecuted u64 u64 u64
  | NodeBatchBuilt u64 usize
  | NodeBatchSubmitted u64 bytes
  | NodeBatchDerived u64 usize
  | NodeBatchValidated u64
  | NodeError string string

datatype node_error = NodeRoleError role_error | NodeCheckpointError checkpoint_error | NodeReport string

record 'q role_ops =
  r_resume :: "checkpoint \<Rightarrow> 'q \<Rightarrow> (role_error + unit) \<times> 'q"
  r_tick :: "'q \<Rightarrow> ((role_error + tick_result) \<times> 'q) option"
  r_checkpoint :: "'q \<Rightarrow> role_checkpoint"

section \<open>The builder\<close>

record ('p, 'q, 'v) node_builder =
  nb_config :: node_config
  nb_sync_stage :: "'p sync_stage option"
  nb_sequencer :: "'q option"
  nb_validator :: "'v option"
  nb_observers :: nat

definition node_builder_new :: "('p, 'q, 'v) node_builder" where
  "node_builder_new =
     \<lparr>nb_config = node_config_default, nb_sync_stage = None, nb_sequencer = None,
      nb_validator = None, nb_observers = 0\<rparr>"

definition with_config :: "node_config \<Rightarrow> ('p, 'q, 'v) node_builder \<Rightarrow> ('p, 'q, 'v) node_builder" where
  "with_config c b = b\<lparr>nb_config := c\<rparr>"

definition with_role :: "node_role \<Rightarrow> ('p, 'q, 'v) node_builder \<Rightarrow> ('p, 'q, 'v) node_builder" where
  "with_role r b = b\<lparr>nb_config := (nb_config b)\<lparr>role := r\<rparr>\<rparr>"

definition with_checkpoint_path :: "path \<Rightarrow> ('p, 'q, 'v) node_builder \<Rightarrow> ('p, 'q, 'v) node_builder" where
  "with_checkpoint_path p b = b\<lparr>nb_config := (nb_config b)\<lparr>checkpoint_path := p\<rparr>\<rparr>"

definition with_sync_stage :: "'p sync_stage \<Rightarrow> ('p, 'q, 'v) node_builder \<Rightarrow> ('p, 'q, 'v) node_builder" where
  "with_sync_stage s b = b\<lparr>nb_sync_stage := Some s\<rparr>"

definition builder_skip_sync :: "('p, 'q, 'v) node_builder \<Rightarrow> ('p, 'q, 'v) node_builder" where
  "builder_skip_sync b = b\<lparr>nb_config := (nb_config b)\<lparr>skip_sync := True\<rparr>\<rparr>"

definition with_sequencer :: "'q \<Rightarrow> ('p, 'q, 'v) node_builder \<Rightarrow> ('p, 'q, 'v) node_builder" where
  "with_sequencer q b = b\<lparr>nb_sequencer := Some q\<rparr>"

definition with_validator :: "'v \<Rightarrow> ('p, 'q, 'v) node_builder \<Rightarrow> ('p, 'q, 'v) node_builder" where
  "with_validator v b = b\<lparr>nb_validator := Some v\<rparr>"

definition with_observer :: "('p, 'q, 'v) node_builder \<Rightarrow> ('p, 'q, 'v) node_builder" where
  "with_observer b = b\<lparr>nb_observers := nb_observers b + 1\<rparr>"

text \<open>
  The node. \<open>n_events\<close> is what every observer and subscriber is told, \<open>n_signals\<close> the messages
  in the shutdown channel (its capacity is 1), \<open>n_ctrl_c\<close> the process-wide flag.
\<close>

record ('p, 'q, 'v) node =
  n_config :: node_config
  n_state :: node_state
  n_checkpoint :: checkpoint
  n_sync :: "'p sync_stage option"
  n_sequencer :: "'q option"
  n_validator :: "'v option"
  n_observers :: nat
  n_signals :: nat
  n_last_save :: instant
  n_events :: "node_event list"
  n_ctrl_c :: bool
  n_disk :: file_system

fun show_role :: "node_role \<Rightarrow> string" where
  "show_role SequencerRole = ''Sequencer''"
| "show_role ValidatorRole = ''Validator''"
| "show_role DualRole = ''Dual''"

definition build_node :: "(string \<Rightarrow> checkpoint option) \<Rightarrow> bool \<Rightarrow> file_system \<Rightarrow> instant
    \<Rightarrow> ('p, 'q, 'v) node_builder \<Rightarrow> node_error + ('p, 'q, 'v) node" where
  "build_node de readable fs now b =
     (if runs_sequencer (role (nb_config b)) \<and> nb_sequencer b = None
      then Inl (NodeReport (''Node role '' @ show_role (role (nb_config b)) @
        '' requires a sequencer, but none was provided. Use with_sequencer() to provide one.''))
      else if runs_validator (role (nb_config b)) \<and> nb_validator b = None
      then Inl (NodeReport (''Node role '' @ show_role (role (nb_config b)) @
        '' requires a validator, but none was provided. Use with_validator() to provide one.''))
      else if \<not> skip_sync (nb_config b) \<and> nb_sync_stage b = None
      then Inl (NodeReport (''Sync is not skipped but no sync stage was provided. '' @
        ''Use with_sync_stage() to provide one or skip_sync() to skip syncing.''))
      else Inr
        \<lparr>n_config = nb_config b, n_state = Starting,
         n_checkpoint = (case load de readable fs (checkpoint_path (nb_config b)) of
             Inr (Some c) \<Rightarrow> c | _ \<Rightarrow> checkpoint_default),
         n_sync = nb_sync_stage b, n_sequencer = nb_sequencer b, n_validator = nb_validator b,
         n_observers = nb_observers b, n_signals = 0, n_last_save = now, n_events = [],
         n_ctrl_c = False, n_disk = fs\<rparr>)"

section \<open>Helpers\<close>

record node_input =
  signal :: bool
  ctrl_c :: bool
  at :: instant
  seconds :: u64
  write_fault :: "io_fault option"
  clock :: "nat \<Rightarrow> instant"

definition node_emit :: "node_event \<Rightarrow> ('p, 'q, 'v) node \<Rightarrow> ('p, 'q, 'v) node" where
  "node_emit ev n = n\<lparr>n_events := n_events n @ [ev]\<rparr>"

definition set_state :: "node_state \<Rightarrow> ('p, 'q, 'v) node \<Rightarrow> ('p, 'q, 'v) node" where
  "set_state s n = node_emit (StateChanged s) (n\<lparr>n_state := s\<rparr>)"

definition save_checkpoint :: "(checkpoint \<Rightarrow> string option) \<Rightarrow> node_input \<Rightarrow> ('p, 'q, 'v) node
    \<Rightarrow> (node_error + unit) \<times> ('p, 'q, 'v) node" where
  "save_checkpoint ser i n =
     (let c = touch (seconds i) (n_checkpoint n); n = n\<lparr>n_checkpoint := c\<rparr> in
      case save ser (write_fault i) c (checkpoint_path (n_config n)) (n_disk n) of
        (Inl e, fs) \<Rightarrow> (Inl (NodeCheckpointError e), n\<lparr>n_disk := fs\<rparr>)
      | (Inr _, fs) \<Rightarrow>
          (Inr (), node_emit (CheckpointSaved c) (n\<lparr>n_disk := fs, n_last_save := at i\<rparr>)))"

definition maybe_save_checkpoint :: "(checkpoint \<Rightarrow> string option) \<Rightarrow> node_input \<Rightarrow> ('p, 'q, 'v) node
    \<Rightarrow> (node_error + unit) \<times> ('p, 'q, 'v) node" where
  "maybe_save_checkpoint ser i n =
     (if unat (checkpoint_interval_secs (n_config n)) * 1000000000 \<le> at i - n_last_save n
      then save_checkpoint ser i n else (Inr (), n))"

text \<open>What arrives before an iteration, and \<^verbatim>\<open>shutdown_rx.try_recv().is_ok() || is_shutdown_requested()\<close>.\<close>

definition receive :: "node_input \<Rightarrow> ('p, 'q, 'v) node \<Rightarrow> ('p, 'q, 'v) node" where
  "receive i n =
     n\<lparr>n_signals := (if signal i then 1 else n_signals n), n_ctrl_c := (n_ctrl_c n \<or> ctrl_c i)\<rparr>"

definition shutdown_requested :: "('p, 'q, 'v) node \<Rightarrow> bool \<times> ('p, 'q, 'v) node" where
  "shutdown_requested n =
     (if 0 < n_signals n then (True, n\<lparr>n_signals := n_signals n - 1\<rparr>) else (n_ctrl_c n, n))"

section \<open>The sync stage\<close>

fun node_sync_loop :: "(checkpoint \<Rightarrow> string option) \<Rightarrow> ('p, 'b) producer_ops \<Rightarrow> node_input list
    \<Rightarrow> ('p, 'q, 'v) node \<Rightarrow> ((node_error + unit) \<times> node_input list \<times> ('p, 'q, 'v) node) option" where
  "node_sync_loop ser ops [] n = None"
| "node_sync_loop ser ops (i # inputs) n =
     (case shutdown_requested (receive i n) of
        (True, n) \<Rightarrow> Some (Inr (), inputs, n)
      | (False, n) \<Rightarrow>
          (case n_sync n of
             None \<Rightarrow> Some (Inr (), inputs, n)
           | Some stage \<Rightarrow>
               (case sync_tick ops (clock i) stage of
                  (Inl e, stage) \<Rightarrow> Some (Inl (NodeReport e), inputs, n\<lparr>n_sync := Some stage\<rparr>)
                | (Inr (Syncing p), stage) \<Rightarrow>
                    (let n = node_emit (NodeSyncProgress p)
                               (set_state (NodeSyncing p) (n\<lparr>n_sync := Some stage\<rparr>)) in
                     case maybe_save_checkpoint ser i n of
                       (Inl e, n) \<Rightarrow> Some (Inl e, inputs, n)
                     | (Inr _, n) \<Rightarrow> node_sync_loop ser ops inputs
                         (n\<lparr>n_checkpoint := record_sync_progress (progress_current p) (n_checkpoint n)\<rparr>))
                | (Inr SyncComplete, stage) \<Rightarrow>
                    (let p = sync_progress_of (clock i 5) stage;
                         n = node_emit (NodeSyncCompleted
                               (saturating_sub (progress_current p) (progress_start p)) None)
                               (n\<lparr>n_sync := Some stage\<rparr>)
                     in case save_checkpoint ser i (n\<lparr>n_checkpoint := sync_checkpoint stage\<rparr>) of
                          (r, n) \<Rightarrow> Some (r, inputs, n)))))"

definition run_sync_stage :: "(checkpoint \<Rightarrow> string option) \<Rightarrow> ('p, 'b) producer_ops \<Rightarrow> node_input
    \<Rightarrow> node_input list \<Rightarrow> ('p, 'q, 'v) node
    \<Rightarrow> ((node_error + unit) \<times> node_input list \<times> ('p, 'q, 'v) node) option" where
  "run_sync_stage ser ops i inputs n =
     (case n_sync n of
        None \<Rightarrow> Some (Inr (), inputs, n)
      | Some stage \<Rightarrow>
          (case initialize ops (at i) (synced_to_block (n_checkpoint n)) stage of
             (Inl e, stage) \<Rightarrow> Some (Inl (NodeReport e), inputs, n\<lparr>n_sync := Some stage\<rparr>)
           | (Inr _, stage) \<Rightarrow>
               (let p = sync_progress_of (clock i 5) stage;
                    n = node_emit (NodeSyncStarted (progress_start p) (progress_target p))
                          (n\<lparr>n_sync := Some stage\<rparr>)
                in node_sync_loop ser ops inputs (set_state (NodeSyncing p) n))))"

section \<open>The active stage\<close>

definition note_sequencer :: "role_checkpoint \<Rightarrow> checkpoint \<Rightarrow> checkpoint" where
  "note_sequencer rc c =
     (let c = (case rc_last_batch_submitted rc of None \<Rightarrow> c | Some b \<Rightarrow> record_batch_submitted b c)
      in case rc_last_block_processed rc of None \<Rightarrow> c | Some b \<Rightarrow> record_block_executed b c)"

definition note_validator :: "role_checkpoint \<Rightarrow> checkpoint \<Rightarrow> checkpoint" where
  "note_validator rc c =
     (let c = (case rc_last_batch_derived rc of None \<Rightarrow> c | Some b \<Rightarrow> record_batch_derived b c)
      in case rc_last_block_processed rc of None \<Rightarrow> c | Some b \<Rightarrow> record_block_executed b c)"

text \<open>One tick of a role that may be absent: whether it made progress, its state, and its marks.\<close>

definition tick_role :: "'q role_ops \<Rightarrow> (role_checkpoint \<Rightarrow> checkpoint \<Rightarrow> checkpoint) \<Rightarrow> 'q option
    \<Rightarrow> checkpoint \<Rightarrow> ((node_error + bool) \<times> 'q option \<times> checkpoint) option" where
  "tick_role ops note q c =
     (case q of
        None \<Rightarrow> Some (Inr False, None, c)
      | Some q \<Rightarrow>
          (case r_tick ops q of
             None \<Rightarrow> None
           | Some (Inl e, q) \<Rightarrow> Some (Inl (NodeRoleError e), Some q, c)
           | Some (Inr t, q) \<Rightarrow> Some (Inr (t = Progress), Some q, note (r_checkpoint ops q) c)))"

fun run_active_stage :: "(checkpoint \<Rightarrow> string option) \<Rightarrow> 'q role_ops \<Rightarrow> 'v role_ops \<Rightarrow> node_input list
    \<Rightarrow> ('p, 'q, 'v) node \<Rightarrow> ((node_error + unit) \<times> ('p, 'q, 'v) node) option" where
  "run_active_stage ser qo vo [] n = None"
| "run_active_stage ser qo vo (i # inputs) n =
     (case shutdown_requested (receive i n) of
        (True, n) \<Rightarrow> Some (Inr (), n)
      | (False, n) \<Rightarrow>
          (case tick_role qo note_sequencer (n_sequencer n) (n_checkpoint n) of
             None \<Rightarrow> None
           | Some (r, q, c) \<Rightarrow>
               (let n = n\<lparr>n_sequencer := q, n_checkpoint := c\<rparr> in
                case r of
                  Inl e \<Rightarrow> Some (Inl e, n)
                | Inr _ \<Rightarrow>
                    (case tick_role vo note_validator (n_validator n) (n_checkpoint n) of
                       None \<Rightarrow> None
                     | Some (r, v, c) \<Rightarrow>
                         (let n = n\<lparr>n_validator := v, n_checkpoint := c\<rparr> in
                          case r of
                            Inl e \<Rightarrow> Some (Inl e, n)
                          | Inr _ \<Rightarrow>
                              (case maybe_save_checkpoint ser i n of
                                 (Inl e, n) \<Rightarrow> Some (Inl e, n)
                               | (Inr _, n) \<Rightarrow> run_active_stage ser qo vo inputs n))))))"

section \<open>Running the node\<close>

definition resume_role :: "'q role_ops \<Rightarrow> checkpoint \<Rightarrow> 'q option \<Rightarrow> (node_error + unit) \<times> 'q option" where
  "resume_role ops c q =
     (case q of
        None \<Rightarrow> (Inr (), None)
      | Some q \<Rightarrow> (case r_resume ops c q of (r, q) \<Rightarrow> (map_err NodeRoleError r, Some q)))"

definition stop_node :: "(checkpoint \<Rightarrow> string option) \<Rightarrow> node_input \<Rightarrow> ('p, 'q, 'v) node
    \<Rightarrow> (node_error + unit) \<times> ('p, 'q, 'v) node" where
  "stop_node ser i n =
     (case save_checkpoint ser i (set_state Stopping n) of
        (Inl e, n) \<Rightarrow> (Inl e, n)
      | (Inr _, n) \<Rightarrow> (Inr (), set_state Stopped n))"

text \<open>From the transition to the active stage to the end.\<close>

definition run_active :: "(checkpoint \<Rightarrow> string option) \<Rightarrow> 'q role_ops \<Rightarrow> 'v role_ops \<Rightarrow> node_input list
    \<Rightarrow> node_input \<Rightarrow> ('p, 'q, 'v) node \<Rightarrow> ((node_error + unit) \<times> ('p, 'q, 'v) node) option" where
  "run_active ser qo vo inputs final n =
     (let n = set_state Active n in
      case resume_role qo (n_checkpoint n) (n_sequencer n) of
        (Inl e, q) \<Rightarrow> Some (Inl e, n\<lparr>n_sequencer := q\<rparr>)
      | (Inr _, q) \<Rightarrow>
          (case resume_role vo (n_checkpoint n) (n_validator n) of
             (Inl e, v) \<Rightarrow> Some (Inl e, n\<lparr>n_sequencer := q, n_validator := v\<rparr>)
           | (Inr _, v) \<Rightarrow>
               (case run_active_stage ser qo vo inputs (n\<lparr>n_sequencer := q, n_validator := v\<rparr>) of
                  None \<Rightarrow> None
                | Some (Inl e, n) \<Rightarrow> Some (Inl e, n)
                | Some (Inr _, n) \<Rightarrow> Some (stop_node ser final n))))"

definition run_node :: "(checkpoint \<Rightarrow> string option) \<Rightarrow> ('p, 'b) producer_ops \<Rightarrow> 'q role_ops \<Rightarrow> 'v role_ops
    \<Rightarrow> node_input \<Rightarrow> node_input list \<Rightarrow> node_input \<Rightarrow> ('p, 'q, 'v) node
    \<Rightarrow> ((node_error + unit) \<times> ('p, 'q, 'v) node) option" where
  "run_node ser ops qo vo start inputs final n =
     (if skip_sync (n_config n) then run_active ser qo vo inputs final n
      else (case run_sync_stage ser ops start inputs n of
              None \<Rightarrow> None
            | Some (Inl e, _, n) \<Rightarrow> Some (Inl e, n)
            | Some (Inr _, inputs, n) \<Rightarrow> run_active ser qo vo inputs final n))"

section \<open>Building\<close>

text \<open>
  The builder validates the configuration: it fails exactly when a component that the role
  needs, or the sync stage unless syncing is skipped, is missing. An unreadable or damaged
  checkpoint file is no error: the node starts from the default checkpoint.
\<close>

definition complete_builder :: "('p, 'q, 'v) node_builder \<Rightarrow> bool" where
  "complete_builder b =
     ((runs_sequencer (role (nb_config b)) \<longrightarrow> nb_sequencer b \<noteq> None)
      \<and> (runs_validator (role (nb_config b)) \<longrightarrow> nb_validator b \<noteq> None)
      \<and> (\<not> skip_sync (nb_config b) \<longrightarrow> nb_sync_stage b \<noteq> None))"

lemma build_node_ok_iff: "is_ok (build_node de readable fs now b) = complete_builder b"
  by (auto simp: build_node_def complete_builder_def)

lemma build_node_checkpoint:
  "build_node de readable fs now b = Inr n \<Longrightarrow>
     load de readable fs (checkpoint_path (nb_config b)) = Inr (Some c) \<Longrightarrow> n_checkpoint n = c"
  by (auto simp: build_node_def split: if_splits)

section \<open>Shutdown\<close>

lemma node_emit_frames [simp]:
  "n_config (node_emit ev n) = n_config n" "n_state (node_emit ev n) = n_state n"
  "n_checkpoint (node_emit ev n) = n_checkpoint n" "n_signals (node_emit ev n) = n_signals n"
  "n_ctrl_c (node_emit ev n) = n_ctrl_c n" "n_disk (node_emit ev n) = n_disk n"
  "n_sequencer (node_emit ev n) = n_sequencer n" "n_validator (node_emit ev n) = n_validator n"
  "n_sync (node_emit ev n) = n_sync n" "n_last_save (node_emit ev n) = n_last_save n"
  "n_events (node_emit ev n) = n_events n @ [ev]"
  by (simp_all add: node_emit_def)

lemma set_state_frames [simp]:
  "n_config (set_state s n) = n_config n" "n_state (set_state s n) = s"
  "n_checkpoint (set_state s n) = n_checkpoint n" "n_signals (set_state s n) = n_signals n"
  "n_ctrl_c (set_state s n) = n_ctrl_c n" "n_disk (set_state s n) = n_disk n"
  "n_sequencer (set_state s n) = n_sequencer n" "n_validator (set_state s n) = n_validator n"
  "n_sync (set_state s n) = n_sync n" "n_last_save (set_state s n) = n_last_save n"
  "n_events (set_state s n) = n_events n @ [StateChanged s]"
  by (simp_all add: set_state_def)

lemma save_checkpoint_frames:
  assumes "save_checkpoint ser i n = (r, n')"
  shows "n_config n' = n_config n \<and> n_state n' = n_state n \<and> n_signals n' = n_signals n
     \<and> n_ctrl_c n' = n_ctrl_c n \<and> n_checkpoint n' = touch (seconds i) (n_checkpoint n)
     \<and> n_sequencer n' = n_sequencer n \<and> n_validator n' = n_validator n \<and> n_sync n' = n_sync n"
  using assms by (auto simp: save_checkpoint_def Let_def split: prod.splits sum.splits)

lemma maybe_save_frames:
  assumes "maybe_save_checkpoint ser i n = (r, n')"
  shows "n_config n' = n_config n \<and> n_state n' = n_state n \<and> n_signals n' = n_signals n
     \<and> n_ctrl_c n' = n_ctrl_c n
     \<and> (n_checkpoint n' = n_checkpoint n \<or> n_checkpoint n' = touch (seconds i) (n_checkpoint n))"
  using assms save_checkpoint_frames [of ser i n r n']
  by (auto simp: maybe_save_checkpoint_def split: if_splits)

lemma save_checkpoint_loads:
  assumes "\<And>c json. ser c = Some json \<Longrightarrow> de json = Some c"
    and "save_checkpoint ser i n = (Inr (), n')"
  shows "load de True (n_disk n') (checkpoint_path (n_config n')) = Inr (Some (n_checkpoint n'))"
proof -
  let ?c = "touch (seconds i) (n_checkpoint n)"
  obtain fs where s: "save ser (write_fault i) ?c (checkpoint_path (n_config n)) (n_disk n) = (Inr (), fs)"
    and "n_disk n' = fs" and "n_checkpoint n' = ?c" and "n_config n' = n_config n"
    using assms(2) by (auto simp: save_checkpoint_def Let_def split: prod.splits sum.splits)
  moreover obtain json where json: "ser ?c = Some json"
    using s save_Ok_iff [of ser "write_fault i" ?c] by blast
  ultimately show ?thesis
    using save_Ok_files [OF s json] assms(1) [OF json] by (simp add: load_def)
qed

lemma run_node_stops:
  assumes "run_node ser ops qo vo start inputs final n = Some (Inr (), n')"
  obtains m k where "save_checkpoint ser final (set_state Stopping m) = (Inr (), k)" and "n' = set_state Stopped k"
proof -
  have active: "\<exists>m. stop_node ser final m = (Inr (), n')"
    if "run_active ser qo vo inputs' final n\<^sub>1 = Some (Inr (), n')" for inputs' n\<^sub>1
    using that by (auto simp: run_active_def Let_def split: prod.splits sum.splits option.splits)
  obtain m where "stop_node ser final m = (Inr (), n')"
    using assms active by (auto simp: run_node_def split: if_splits option.splits prod.splits sum.splits)
  then show thesis using that by (auto simp: stop_node_def split: prod.splits sum.splits)
qed

lemma stopped_node_loads:
  assumes "\<And>c json. ser c = Some json \<Longrightarrow> de json = Some c"
    and "run_node ser ops qo vo start inputs final n = Some (Inr (), n')"
  shows "load de True (n_disk n') (checkpoint_path (n_config n')) = Inr (Some (n_checkpoint n'))"
proof -
  obtain m k where k: "save_checkpoint ser final (set_state Stopping m) = (Inr (), k)" "n' = set_state Stopped k"
    using assms(2) by (rule run_node_stops)
  show ?thesis using save_checkpoint_loads [OF assms(1) k(1)] k(2) by simp
qed

text \<open>
  C8: a node that stops has saved its state. If \<^verbatim>\<open>run\<close> returns Ok, the node is in the state
  Stopped, the last things observers were told are the state change to Stopping, the saving of
  the checkpoint and the state change to Stopped, and the checkpoint file holds the node's
  checkpoint.
\<close>

theorem stopped_node_has_saved:
  assumes "\<And>c json. ser c = Some json \<Longrightarrow> de json = Some c"
    and "run_node ser ops qo vo start inputs final n = Some (Inr (), n')"
  shows "n_state n' = Stopped
     \<and> (\<exists>evs. n_events n' = evs @ [StateChanged Stopping, CheckpointSaved (n_checkpoint n'), StateChanged Stopped])
     \<and> load de True (n_disk n') (checkpoint_path (n_config n')) = Inr (Some (n_checkpoint n'))"
proof -
  obtain m k where k: "save_checkpoint ser final (set_state Stopping m) = (Inr (), k)"
    and n': "n' = set_state Stopped k"
    using assms(2) by (rule run_node_stops)
  have "n_events k = n_events m @ [StateChanged Stopping, CheckpointSaved (n_checkpoint k)]"
    using k by (auto simp: save_checkpoint_def Let_def split: prod.splits sum.splits)
  then show ?thesis using stopped_node_loads [OF assms] by (simp add: n')
qed

text \<open>Roles that never have anything to do, and a node built from them, for the witnesses.\<close>

definition idle_role :: "unit role_ops" where
  "idle_role =
     \<lparr>r_resume = (\<lambda>c q. (Inr (), q)), r_tick = (\<lambda>q. Some (Inr Idle, q)),
      r_checkpoint = (\<lambda>q. role_checkpoint_default)\<rparr>"

definition demo_input :: node_input where
  "demo_input = \<lparr>signal = False, ctrl_c = False, at = 0, seconds = 9, write_fault = None, clock = (\<lambda>_. 0)\<rparr>"

definition demo_node :: "(unit, unit, unit) node" where
  "demo_node =
     \<lparr>n_config = node_config_default, n_state = Starting,
      n_checkpoint = checkpoint_default\<lparr>last_batch_submitted := 4, last_batch_derived := 3, synced_to_block := 5\<rparr>,
      n_sync = Some (sync_new 0 () sync_config_default), n_sequencer = Some (), n_validator = Some (),
      n_observers = 0, n_signals = 0, n_last_save = 0, n_events = [], n_ctrl_c = False,
      n_disk = \<lparr>files = Map.empty, dirs = {}\<rparr>\<rparr>"

definition demo_builder :: "(unit, unit, unit) node_builder" where
  "demo_builder = with_validator () (with_sequencer () (builder_skip_sync node_builder_new))"

lemmas demo_node_eval = demo_node_def demo_input_def idle_role_def node_config_default_def
  run_active_def resume_role_def stop_node_def shutdown_requested_def receive_def tick_role_def
  maybe_save_checkpoint_def save_checkpoint_def set_state_def node_emit_def note_sequencer_def
  note_validator_def role_checkpoint_default_def Let_def

theorem stopped_node_has_saved_witness:
  "\<exists>n'. run_node unary_ser demo_producer idle_role idle_role demo_input [demo_input, demo_input\<lparr>signal := True\<rparr>]
     demo_input (demo_node\<lparr>n_config := node_config_default\<lparr>skip_sync := True\<rparr>\<rparr>) = Some (Inr (), n')
   \<and> n_state n' = Stopped"
proof -
  have "\<exists>n'. run_node unary_ser demo_producer idle_role idle_role demo_input
      [demo_input, demo_input\<lparr>signal := True\<rparr>] demo_input
      (demo_node\<lparr>n_config := node_config_default\<lparr>skip_sync := True\<rparr>\<rparr>) = Some (Inr (), n')"
    by (simp add: run_node_def demo_node_eval save_def unary_ser_def)
  then obtain n' where "run_node unary_ser demo_producer idle_role idle_role demo_input
      [demo_input, demo_input\<lparr>signal := True\<rparr>] demo_input
      (demo_node\<lparr>n_config := node_config_default\<lparr>skip_sync := True\<rparr>\<rparr>) = Some (Inr (), n')" by blast
  with stopped_node_has_saved [where ser = unary_ser and de = unary_de, OF unary_roundtrip this]
  show ?thesis by blast
qed



text \<open>Without a request the active stage does not stop by itself.\<close>

definition undisturbed :: "node_input list \<Rightarrow> bool" where
  "undisturbed is = list_all (\<lambda>i. \<not> signal i \<and> \<not> ctrl_c i) is"

lemma active_stage_runs_on:
  "undisturbed inputs \<Longrightarrow> n_signals n = 0 \<Longrightarrow> \<not> n_ctrl_c n \<Longrightarrow>
     run_active_stage ser qo vo inputs n \<noteq> Some (Inr (), n')"
proof (induction inputs arbitrary: n)
  case Nil
  then show ?case by simp
next
  case (Cons i inputs)
  have und: "undisturbed inputs" and i: "\<not> signal i" "\<not> ctrl_c i"
    using Cons.prems(1) by (simp_all add: undisturbed_def)
  have req: "shutdown_requested (receive i n) = (False, receive i n)"
    using Cons.prems i by (simp add: shutdown_requested_def receive_def)
  have rec: "run_active_stage ser qo vo inputs m \<noteq> Some (Inr (), n')"
    if "maybe_save_checkpoint ser i k = (Inr u, m)" and "n_signals k = 0" and "\<not> n_ctrl_c k" for u k m
    using Cons.IH [OF und] maybe_save_frames [OF that(1)] that by simp
  have recv: "n_signals (receive i n) = 0" "\<not> n_ctrl_c (receive i n)"
    using Cons.prems i by (simp_all add: receive_def)
  show ?case
    using rec recv
    by (auto simp: req Let_def split: option.splits prod.splits sum.splits)
qed

text \<open>
  C9: a shutdown request during the sync stage is lost. The sync stage takes the message from
  the channel and returns Ok, and \<^verbatim>\<open>run\<close> goes on to the active stage; unless another request
  arrives, the node never stops: no number of further iterations makes \<^verbatim>\<open>run\<close> return Ok.
\<close>

theorem shutdown_during_sync_is_lost:
  assumes "\<not> skip_sync (n_config n)" and "n_sync n = Some stage"
    and "fst (initialize ops (at start) (synced_to_block (n_checkpoint n)) stage) = Inr ()"
    and "n_signals n = 0" and "\<not> n_ctrl_c n"
    and "signal i" and "\<not> ctrl_c i" and "undisturbed inputs"
  shows "run_node ser ops qo vo start (i # inputs) final n \<noteq> Some (Inr (), n')"
proof -
  obtain stage' where init: "initialize ops (at start) (synced_to_block (n_checkpoint n)) stage = (Inr (), stage')"
    using assms(3) by (cases "initialize ops (at start) (synced_to_block (n_checkpoint n)) stage") simp
  have "\<exists>m. run_sync_stage ser ops start (i # inputs) n = Some (Inr (), inputs, m)
      \<and> n_signals m = 0 \<and> \<not> n_ctrl_c m"
    using assms(2,4-7) init
    by (simp add: run_sync_stage_def Let_def shutdown_requested_def receive_def)
  then obtain m where m: "run_sync_stage ser ops start (i # inputs) n = Some (Inr (), inputs, m)"
    and clear: "n_signals m = 0" "\<not> n_ctrl_c m" by blast
  have no: "run_active_stage ser qo vo inputs ((set_state Active m)\<lparr>n_sequencer := q, n_validator := v\<rparr>)
      \<noteq> Some (Inr (), k)" for q v k
    by (rule active_stage_runs_on [OF assms(8)]) (simp_all add: clear)
  have "run_active ser qo vo inputs final m \<noteq> Some (Inr (), n')"
    using no by (auto simp: run_active_def Let_def split: prod.splits sum.splits option.splits)
  then show ?thesis using assms(1) m by (simp add: run_node_def)
qed

theorem shutdown_during_sync_is_lost_witness:
  "\<forall>n'. run_node unary_ser demo_producer idle_role idle_role demo_input
     [demo_input\<lparr>signal := True\<rparr>, demo_input, demo_input] demo_input demo_node \<noteq> Some (Inr (), n')"
proof
  fix n' :: "(unit, unit, unit) node"
  show "run_node unary_ser demo_producer idle_role idle_role demo_input
     [demo_input\<lparr>signal := True\<rparr>, demo_input, demo_input] demo_input demo_node \<noteq> Some (Inr (), n')"
    by (rule shutdown_during_sync_is_lost [where stage = "sync_new 0 () sync_config_default"])
      (simp_all add: demo_node_def demo_input_def node_config_default_def undisturbed_def
        initialize_def refresh_tip_def demo_producer_def)
qed

section \<open>The marks\<close>

definition marks_le :: "checkpoint \<Rightarrow> checkpoint \<Rightarrow> bool" where
  "marks_le c c' =
     (last_batch_submitted c \<le> last_batch_submitted c' \<and> last_batch_derived c \<le> last_batch_derived c'
      \<and> last_block_executed c \<le> last_block_executed c' \<and> synced_to_block c \<le> synced_to_block c')"

lemma marks_le_refl [simp]: "marks_le c c"
  by (simp add: marks_le_def)

lemma marks_le_trans: "marks_le a b \<Longrightarrow> marks_le b c \<Longrightarrow> marks_le a c"
  by (auto simp: marks_le_def intro: order_trans)

lemma marks_le_note: "marks_le c (note_sequencer rc c)" "marks_le c (note_validator rc c)"
  by (auto simp: marks_le_def note_sequencer_def note_validator_def Let_def split: option.splits)

lemma marks_le_touch [simp]: "marks_le c (touch now c)"
  by (simp add: marks_le_def)

lemma tick_role_marks:
  assumes "tick_role ops note q c = Some (r, q', c')" and "\<And>rc c. marks_le c (note rc c)"
  shows "marks_le c c'"
  using assms by (auto simp: tick_role_def split: option.splits prod.splits sum.splits)

lemma shutdown_requested_checkpoint:
  "shutdown_requested n = (b, n') \<Longrightarrow> n_checkpoint n' = n_checkpoint n"
  by (auto simp: shutdown_requested_def split: if_splits)

text \<open>One iteration of the active stage: it ends, or the stage goes on from a later node.\<close>

lemma active_iteration:
  assumes "run_active_stage ser qo vo (i # inputs) n = Some (r, n')"
  shows "marks_le (n_checkpoint n) (n_checkpoint n')
    \<or> (\<exists>k. marks_le (n_checkpoint n) (n_checkpoint k) \<and> run_active_stage ser qo vo inputs k = Some (r, n'))"
proof -
  obtain b m where b: "shutdown_requested (receive i n) = (b, m)" by force
  have cm: "n_checkpoint m = n_checkpoint n"
    using shutdown_requested_checkpoint [OF b] by (simp add: receive_def)
  show ?thesis
  proof (cases b)
    case True
    with assms b cm show ?thesis by simp
  next
    case False
    obtain r\<^sub>1 q c\<^sub>1 where s: "tick_role qo note_sequencer (n_sequencer m) (n_checkpoint m) = Some (r\<^sub>1, q, c\<^sub>1)"
      using assms b False by (auto split: option.splits)
    note le\<^sub>1 = tick_role_marks [OF s marks_le_note(1), unfolded cm]
    let ?m = "m\<lparr>n_sequencer := q, n_checkpoint := c\<^sub>1\<rparr>"
    from assms b False s consider (first) e where "r\<^sub>1 = Inl e" "n' = ?m"
      | (second) u r\<^sub>2 v c\<^sub>2 where "r\<^sub>1 = Inr u" "tick_role vo note_validator (n_validator m) c\<^sub>1 = Some (r\<^sub>2, v, c\<^sub>2)"
      by (cases r\<^sub>1) (auto simp: Let_def split: option.splits)
    then show ?thesis
    proof cases
      case first
      with le\<^sub>1 show ?thesis by simp
    next
      case second
      have le\<^sub>2: "marks_le (n_checkpoint n) c\<^sub>2"
        using marks_le_trans [OF le\<^sub>1 tick_role_marks [OF second(2) marks_le_note(2)]] .
      obtain r\<^sub>3 k where k: "maybe_save_checkpoint ser i (?m\<lparr>n_validator := v, n_checkpoint := c\<^sub>2\<rparr>) = (r\<^sub>3, k)"
        by force
      have le\<^sub>3: "marks_le (n_checkpoint n) (n_checkpoint k)"
        using maybe_save_frames [OF k] marks_le_trans [OF le\<^sub>2] le\<^sub>2 by auto
      show ?thesis
        using assms b False s second k le\<^sub>2 le\<^sub>3 by (cases r\<^sub>2; cases r\<^sub>3) (auto simp: Let_def)
    qed
  qed
qed

text \<open>
  C21: in the active stage the node's marks only grow. Over any number of iterations, whatever
  the roles report and however the stage ends, no mark of the node's checkpoint decreases.
\<close>

theorem active_stage_marks_grow:
  assumes "run_active_stage ser qo vo inputs n = Some (r, n')"
  shows "marks_le (n_checkpoint n) (n_checkpoint n')"
  using assms
proof (induction inputs arbitrary: n)
  case Nil
  then show ?case by simp
next
  case (Cons i inputs)
  then show ?case using active_iteration [OF Cons.prems] marks_le_trans by blast
qed

theorem active_stage_marks_grow_witness:
  "\<exists>r n'. run_active_stage unary_ser idle_role idle_role [demo_input\<lparr>signal := True\<rparr>] demo_node = Some (r, n')
     \<and> 4 \<le> last_batch_submitted (n_checkpoint n')"
proof -
  obtain r n' where run: "run_active_stage unary_ser idle_role idle_role [demo_input\<lparr>signal := True\<rparr>] demo_node
      = Some (r, n')"
    by (simp add: shutdown_requested_def receive_def)
  have "last_batch_submitted (n_checkpoint demo_node) = 4" by (simp add: demo_node_def)
  with active_stage_marks_grow [OF run] run show ?thesis by (auto simp: marks_le_def)
qed

text \<open>
  C22: completing the sync stage forgets the batch marks. The iteration in which the sync
  stage reports completion replaces the node's checkpoint by the sync stage's, whose marks of
  batches submitted and derived are zero, and saves it: if the save succeeds, the marks are
  gone from the file as well.
\<close>

theorem sync_completion_resets_marks:
  assumes "sync_tick ops (clock i) stage = (Inr SyncComplete, stage')" and "n_sync n = Some stage"
    and "n_signals n = 0" and "\<not> n_ctrl_c n" and "\<not> signal i" and "\<not> ctrl_c i"
    and "\<And>c json. ser c = Some json \<Longrightarrow> de json = Some c"
  shows "\<exists>r n'. node_sync_loop ser ops (i # inputs) n = Some (r, inputs, n')
     \<and> last_batch_submitted (n_checkpoint n') = 0 \<and> last_batch_derived (n_checkpoint n') = 0
     \<and> (is_ok r \<longrightarrow> load de True (n_disk n') (checkpoint_path (n_config n')) = Inr (Some (n_checkpoint n')))"
proof -
  have req: "shutdown_requested (receive i n) = (False, receive i n)"
    using assms(3-6) by (simp add: shutdown_requested_def receive_def)
  have st: "n_sync (receive i n) = Some stage" using assms(2) by (simp add: receive_def)
  let ?p = "sync_progress_of (clock i 5) stage'"
  let ?m = "node_emit (NodeSyncCompleted (saturating_sub (progress_current ?p) (progress_start ?p)) None)
      ((receive i n)\<lparr>n_sync := Some stage'\<rparr>)"
  obtain r n' where s: "save_checkpoint ser i (?m\<lparr>n_checkpoint := sync_checkpoint stage'\<rparr>) = (r, n')" by force
  have loop: "node_sync_loop ser ops (i # inputs) n = Some (r, inputs, n')"
    using req st assms(1) s by (simp add: Let_def)
  have "n_checkpoint n' = touch (seconds i) (sync_checkpoint stage')"
    using save_checkpoint_frames [OF s] by simp
  then have zero: "last_batch_submitted (n_checkpoint n') = 0" "last_batch_derived (n_checkpoint n') = 0"
    by (simp_all add: sync_checkpoint_def checkpoint_default_def)
  have "is_ok r \<longrightarrow> load de True (n_disk n') (checkpoint_path (n_config n')) = Inr (Some (n_checkpoint n'))"
    using save_checkpoint_loads [of ser de, OF assms(7)] s by (cases r) auto
  with loop zero show ?thesis by blast
qed

text \<open>The stage of the witness is within the threshold of the tip.\<close>

definition near_tip :: "unit sync_stage" where
  "near_tip = (sync_new 0 () sync_config_default)\<lparr>current_block := 20, target_block := 25\<rparr>"

theorem sync_completion_resets_marks_witness:
  "\<exists>r n'. node_sync_loop unary_ser demo_producer [demo_input] (demo_node\<lparr>n_sync := Some near_tip\<rparr>)
       = Some (r, [], n') \<and> last_batch_submitted (n_checkpoint n') = 0"
proof -
  let ?n = "demo_node\<lparr>n_sync := Some near_tip\<rparr>"
  obtain stage' where "sync_tick demo_producer (clock demo_input) near_tip = (Inr SyncComplete, stage')"
    by (simp add: sync_tick_def near_tip_def demo_input_def should_refresh_tip_def sync_new_def
        sync_config_default_def is_synced_def Let_def)
  from sync_completion_resets_marks [OF this, of ?n, where ser = unary_ser and de = unary_de] show ?thesis
    by (fastforce simp: demo_node_def demo_input_def dest: unary_roundtrip)
qed

end
