(* ===== verification/Seq_Buffer.thy ===== *)
theory Seq_Buffer
  imports Pipeline "HOL-Library.Multiset"
begin

text \<open>
  The buffer of executed blocks between execution and batching
  (\<^verbatim>\<open>crates/common/sequencer\<close>): the conversion of a block to the batcher's form and the
  \<^verbatim>\<open>ExecutedBlockBuffer\<close>, a queue behind a lock whose capacity is kept by a semaphore.

  Any number of tasks push and drain at once. The operations are cut where a task can be
  interrupted: taking a slot, appending under the lock, draining under the lock, giving the
  slots back. \<open>buffer_step\<close> lets the tasks take these steps in any order. Lock poisoning does
  not exist for tokio's locks, and the semaphore is never closed, so \<^verbatim>\<open>push\<close> itself cannot fail.
\<close>

section \<open>Conversion\<close>

text \<open>The RLP encoding of a transaction (\<^verbatim>\<open>alloy_rlp\<close>) is a parameter.\<close>

definition tx_to_raw :: "('tx \<Rightarrow> bytes) \<Rightarrow> 'tx \<Rightarrow> bytes" where
  "tx_to_raw encode tx = encode tx"

definition op_block_to_l2_data :: "('tx \<Rightarrow> bytes) \<Rightarrow> 'tx op_block \<Rightarrow> l2_block_data" where
  "op_block_to_l2_data encode b =
     \<lparr>l2_block_number = header_number b, l2_timestamp = header_timestamp b,
      l2_transactions = map encode (transactions b)\<rparr>"

section \<open>The buffer\<close>

datatype buffer_error = BufferFull usize | LockFailed | ConversionFailed string

text \<open>\<open>buf_slots\<close> is \<^verbatim>\<open>slots.available_permits()\<close>.\<close>

record block_buffer =
  buf_pending :: "l2_block_data list"
  buf_capacity :: usize
  buf_slots :: usize

text \<open>The constructor panics for capacity zero.\<close>

definition buffer_new :: "usize \<Rightarrow> block_buffer option" where
  "buffer_new c = (if 0 < c then Some \<lparr>buf_pending = [], buf_capacity = c, buf_slots = c\<rparr> else None)"

definition buffer_len :: "block_buffer \<Rightarrow> usize" where
  "buffer_len b = length (buf_pending b)"

definition buffer_is_empty :: "block_buffer \<Rightarrow> bool" where
  "buffer_is_empty b = (buf_pending b = [])"

definition is_full :: "block_buffer \<Rightarrow> bool" where
  "is_full b = (buf_slots b = 0)"

definition available :: "block_buffer \<Rightarrow> usize" where
  "available b = buf_slots b"

text \<open>The steps of the operations.\<close>

definition acquire_slot :: "block_buffer \<Rightarrow> block_buffer option" where
  "acquire_slot b = (if 0 < buf_slots b then Some (b\<lparr>buf_slots := buf_slots b - 1\<rparr>) else None)"

definition add_permits :: "usize \<Rightarrow> block_buffer \<Rightarrow> block_buffer" where
  "add_permits n b = b\<lparr>buf_slots := buf_slots b + n\<rparr>"

definition enqueue :: "l2_block_data \<Rightarrow> block_buffer \<Rightarrow> block_buffer" where
  "enqueue x b = b\<lparr>buf_pending := buf_pending b @ [x]\<rparr>"

definition drain :: "block_buffer \<Rightarrow> l2_block_data list \<times> block_buffer" where
  "drain b = (buf_pending b, b\<lparr>buf_pending := []\<rparr>)"

text \<open>
  The operations without interruption. \<open>push\<close> is \<open>None\<close> while it waits for a slot; in
  \<open>try_push\<close>, \<open>unlocked\<close> says whether \<^verbatim>\<open>try_write\<close> gets the lock, and the permit it already
  took is given back when it does not.
\<close>

definition push :: "('tx \<Rightarrow> bytes) \<Rightarrow> 'tx op_block \<Rightarrow> block_buffer \<Rightarrow> ((buffer_error + unit) \<times> block_buffer) option" where
  "push encode blk b =
     (case acquire_slot b of
        None \<Rightarrow> None
      | Some b' \<Rightarrow> Some (Inr (), enqueue (op_block_to_l2_data encode blk) b'))"

definition try_push :: "('tx \<Rightarrow> bytes) \<Rightarrow> bool \<Rightarrow> 'tx op_block \<Rightarrow> block_buffer
    \<Rightarrow> (buffer_error + unit) \<times> block_buffer" where
  "try_push encode unlocked blk b =
     (case acquire_slot b of
        None \<Rightarrow> (Inl (BufferFull (buf_capacity b)), b)
      | Some b' \<Rightarrow>
          let l2_data = op_block_to_l2_data encode blk in
          if unlocked then (Inr (), enqueue l2_data b')
          else (Inl LockFailed, add_permits 1 b'))"

definition take_pending :: "block_buffer \<Rightarrow> (source_error + l2_block_data list) \<times> block_buffer" where
  "take_pending b = (case drain b of (blks, b') \<Rightarrow> (Inr blks, add_permits (length blks) b'))"

section \<open>Tasks\<close>

text \<open>
  A pushing task waits for a slot, or holds one and waits for the lock; once its block is in
  the queue it forgets the permit, which changes nothing. A draining task that has taken blocks
  still owes their slots. A pushing task may be dropped at either wait (and a \<open>try_push\<close> gives
  up at either): its permit, if it has one, returns to the semaphore.
\<close>

datatype buffer_task = Waiting l2_block_data | Holding l2_block_data | Releasing usize

record buffer_system =
  buf :: block_buffer
  tasks :: "buffer_task multiset"
  accepted :: "l2_block_data list"
  delivered :: "l2_block_data list"

inductive buffer_step :: "buffer_system \<Rightarrow> buffer_system \<Rightarrow> bool" where
  start: "buffer_step s (s\<lparr>tasks := add_mset (Waiting x) (tasks s)\<rparr>)"
| acquire: "Waiting x \<in># tasks s \<Longrightarrow> acquire_slot (buf s) = Some b \<Longrightarrow>
    buffer_step s (s\<lparr>buf := b, tasks := add_mset (Holding x) (tasks s - {#Waiting x#})\<rparr>)"
| append: "Holding x \<in># tasks s \<Longrightarrow>
    buffer_step s (s\<lparr>buf := enqueue x (buf s), tasks := tasks s - {#Holding x#},
      accepted := accepted s @ [x]\<rparr>)"
| give_up: "Waiting x \<in># tasks s \<Longrightarrow> buffer_step s (s\<lparr>tasks := tasks s - {#Waiting x#}\<rparr>)"
| drop_permit: "Holding x \<in># tasks s \<Longrightarrow>
    buffer_step s (s\<lparr>buf := add_permits 1 (buf s), tasks := tasks s - {#Holding x#}\<rparr>)"
| take_all: "drain (buf s) = (xs, b) \<Longrightarrow>
    buffer_step s (s\<lparr>buf := b, tasks := add_mset (Releasing (length xs)) (tasks s),
      delivered := delivered s @ xs\<rparr>)"
| release: "Releasing n \<in># tasks s \<Longrightarrow>
    buffer_step s (s\<lparr>buf := add_permits n (buf s), tasks := tasks s - {#Releasing n#}\<rparr>)"

inductive buffer_run :: "buffer_system \<Rightarrow> buffer_system \<Rightarrow> bool" for s where
  refl: "buffer_run s s"
| step: "buffer_run s t \<Longrightarrow> buffer_step t u \<Longrightarrow> buffer_run s u"

inductive_cases buffer_step_cases: "buffer_step s t"

definition idle_system :: "block_buffer \<Rightarrow> buffer_system" where
  "idle_system b = \<lparr>buf = b, tasks = {#}, accepted = [], delivered = []\<rparr>"

text \<open>The slots a task accounts for.\<close>

fun owed :: "buffer_task \<Rightarrow> nat" where
  "owed (Waiting x) = 0"
| "owed (Holding x) = 1"
| "owed (Releasing n) = n"

definition total_owed :: "buffer_task multiset \<Rightarrow> nat" where
  "total_owed T = (\<Sum>t\<in>#T. owed t)"

definition buffer_inv :: "usize \<Rightarrow> buffer_system \<Rightarrow> bool" where
  "buffer_inv c s =
     (buf_slots (buf s) + length (buf_pending (buf s)) + total_owed (tasks s) = c
      \<and> buf_capacity (buf s) = c
      \<and> delivered s @ buf_pending (buf s) = accepted s)"

lemmas buffer_op_defs = acquire_slot_def add_permits_def enqueue_def drain_def

lemma total_owed_add [simp]: "total_owed (add_mset t T) = owed t + total_owed T"
  by (simp add: total_owed_def)

lemma total_owed_remove: "t \<in># T \<Longrightarrow> total_owed T = owed t + total_owed (T - {#t#})"
  by (metis insert_DiffM total_owed_add)

lemma buffer_inv_step: "buffer_step s t \<Longrightarrow> buffer_inv c s \<Longrightarrow> buffer_inv c t"
  by (erule buffer_step_cases)
    (auto simp: buffer_inv_def buffer_op_defs dest!: total_owed_remove split: if_splits)

lemma buffer_inv_run:
  assumes "buffer_run s t" and "buffer_inv c s"
  shows "buffer_inv c t"
  using assms by (induction rule: buffer_run.induct) (auto intro: buffer_inv_step)

lemma buffer_inv_new: "buffer_new c = Some b \<Longrightarrow> buffer_inv c (idle_system b)"
  by (auto simp: buffer_new_def buffer_inv_def idle_system_def total_owed_def split: if_splits)

lemma accepted_grows: "buffer_run s t \<Longrightarrow> length (accepted s) \<le> length (accepted t)"
  by (induction rule: buffer_run.induct) (auto elim!: buffer_step_cases)

text \<open>The uninterrupted operations are runs of the steps.\<close>

lemma push_refines:
  assumes "push encode blk (buf s) = Some (r, b)" and "x = op_block_to_l2_data encode blk"
  shows "r = Inr () \<and> buffer_run s (s\<lparr>buf := b, accepted := accepted s @ [x]\<rparr>)"
proof -
  let ?s = "s\<lparr>tasks := add_mset (Waiting x) (tasks s)\<rparr>"
  obtain b' where b': "acquire_slot (buf s) = Some b'" "r = Inr ()" "b = enqueue x b'"
    using assms by (auto simp: push_def split: option.splits)
  have "buffer_run s ?s" by (blast intro: buffer_run.intros buffer_step.start)
  moreover have "buffer_step ?s (?s\<lparr>buf := b', tasks := add_mset (Holding x) (tasks ?s - {#Waiting x#})\<rparr>)"
    by (rule buffer_step.acquire) (simp_all add: b')
  ultimately have r: "buffer_run s (s\<lparr>buf := b', tasks := add_mset (Holding x) (tasks s)\<rparr>)"
    using buffer_run.step by fastforce
  let ?t = "s\<lparr>buf := b', tasks := add_mset (Holding x) (tasks s)\<rparr>"
  have "buffer_step ?t (?t\<lparr>buf := enqueue x (buf ?t), tasks := tasks ?t - {#Holding x#},
      accepted := accepted ?t @ [x]\<rparr>)"
    by (rule buffer_step.append) simp
  from buffer_run.step [OF r this] show ?thesis by (simp add: b')
qed

lemma take_pending_refines:
  assumes "take_pending (buf s) = (r, b)"
  shows "\<exists>xs. r = Inr xs \<and> buffer_run s (s\<lparr>delivered := delivered s @ xs, buf := b\<rparr>)"
proof -
  obtain xs b' where d: "drain (buf s) = (xs, b')" by force
  with assms have b: "r = Inr xs" "b = add_permits (length xs) b'" by (simp_all add: take_pending_def)
  let ?s = "s\<lparr>buf := b', tasks := add_mset (Releasing (length xs)) (tasks s), delivered := delivered s @ xs\<rparr>"
  have r: "buffer_run s ?s" by (blast intro: buffer_run.intros buffer_step.take_all [OF d])
  have "buffer_step ?s (?s\<lparr>buf := add_permits (length xs) (buf ?s),
      tasks := tasks ?s - {#Releasing (length xs)#}\<rparr>)"
    by (rule buffer_step.release) simp
  from buffer_run.step [OF r this] show ?thesis by (simp add: b)
qed

section \<open>Correctness\<close>

text \<open>
  C39: the buffer never holds more blocks than its capacity, and loses, repeats or reorders
  none, however the tasks interleave and wherever they are dropped: the blocks delivered to the
  batcher followed by the queued ones are the blocks accepted, in order. When no operation is
  under way, the free slots are exactly the capacity less the queued blocks.
\<close>

theorem buffer_bounded_fifo:
  assumes "buffer_new c = Some b" and "buffer_run (idle_system b) s"
  shows "delivered s @ buf_pending (buf s) = accepted s
     \<and> buffer_len (buf s) \<le> c
     \<and> (tasks s = {#} \<longrightarrow> available (buf s) = c - buffer_len (buf s)
          \<and> is_full (buf s) = (buffer_len (buf s) = c))"
  using buffer_inv_run [OF assms(2) buffer_inv_new [OF assms(1)]]
  by (auto simp: buffer_inv_def buffer_len_def available_def is_full_def total_owed_def)

definition demo_blocks :: "nat op_block \<times> nat op_block" where
  "demo_blocks =
     (\<lparr>header_number = 1, header_timestamp = 10, header_gas_used = 0, transactions = [7]\<rparr>,
      \<lparr>header_number = 2, header_timestamp = 12, header_gas_used = 0, transactions = []\<rparr>)"

definition demo_raw :: "nat \<Rightarrow> bytes" where
  "demo_raw n = [of_nat n]"

definition demo_buffer :: block_buffer where
  "demo_buffer = \<lparr>buf_pending = [], buf_capacity = 2, buf_slots = 2\<rparr>"

lemma demo_buffer_run:
  "buffer_run (idle_system demo_buffer)
     (idle_system demo_buffer
        \<lparr>buf := \<lparr>buf_pending = [op_block_to_l2_data demo_raw (fst demo_blocks)], buf_capacity = 2, buf_slots = 1\<rparr>,
         accepted := [op_block_to_l2_data demo_raw (fst demo_blocks)]\<rparr>)"
  using push_refines [of demo_raw "fst demo_blocks" "idle_system demo_buffer"]
  by (simp add: push_def idle_system_def demo_buffer_def acquire_slot_def enqueue_def)

theorem buffer_bounded_fifo_witness:
  "\<exists>s. buffer_run (idle_system demo_buffer) s \<and> buffer_len (buf s) = 1 \<and> available (buf s) = 1"
proof -
  have "buffer_new 2 = Some demo_buffer" by (simp add: buffer_new_def demo_buffer_def)
  from buffer_bounded_fifo [OF this demo_buffer_run] demo_buffer_run show ?thesis
    by (auto simp: buffer_len_def idle_system_def)
qed

text \<open>A task that holds a permit can append at once.\<close>

lemma holding_appends:
  assumes "Holding x \<in># tasks s"
  shows "\<exists>t. buffer_run s t \<and> accepted t = accepted s @ [x]"
  using buffer_run.step [OF buffer_run.refl buffer_step.append [OF assms]] by fastforce

lemma buffer_run_trans: "buffer_run s t \<Longrightarrow> buffer_run t u \<Longrightarrow> buffer_run s u"
  by (rotate_tac) (induction rule: buffer_run.induct, auto intro: buffer_run.intros)

lemma free_slot_pushes:
  assumes "Waiting x \<in># tasks s" and "0 < buf_slots (buf s)"
  shows "\<exists>t. buffer_run s t \<and> last (accepted t) = x"
proof -
  obtain b where b: "acquire_slot (buf s) = Some b" using assms(2) by (simp add: acquire_slot_def)
  let ?s = "s\<lparr>buf := b, tasks := add_mset (Holding x) (tasks s - {#Waiting x#})\<rparr>"
  have "buffer_run s ?s" by (blast intro: buffer_run.intros buffer_step.acquire [OF assms(1) b])
  moreover obtain t where "buffer_run ?s t" "accepted t = accepted ?s @ [x]"
    using holding_appends [of x ?s] by auto
  ultimately show ?thesis using buffer_run_trans by force
qed

text \<open>Slots come back: once the queue is drained and its slots are released, one is free.\<close>

lemma slot_comes_back:
  assumes "Waiting x \<in># tasks s" and "buf_pending (buf s) \<noteq> [] \<or> Releasing n \<in># tasks s \<and> 0 < n"
  shows "\<exists>t. buffer_run s t \<and> Waiting x \<in># tasks t \<and> 0 < buf_slots (buf t)"
  using assms(2)
proof
  assume "buf_pending (buf s) \<noteq> []"
  obtain xs b where d: "drain (buf s) = (xs, b)" by force
  let ?s = "s\<lparr>buf := b, tasks := add_mset (Releasing (length xs)) (tasks s), delivered := delivered s @ xs\<rparr>"
  let ?t = "?s\<lparr>buf := add_permits (length xs) (buf ?s), tasks := tasks ?s - {#Releasing (length xs)#}\<rparr>"
  have "buffer_run s ?s" by (blast intro: buffer_run.intros buffer_step.take_all [OF d])
  moreover have "buffer_step ?s ?t" by (rule buffer_step.release) simp
  ultimately have "buffer_run s ?t" by (rule buffer_run.step)
  moreover have "0 < buf_slots (buf ?t)" "Waiting x \<in># tasks ?t"
    using d \<open>buf_pending (buf s) \<noteq> []\<close> assms(1) by (auto simp: drain_def add_permits_def)
  ultimately show ?thesis by blast
next
  assume n: "Releasing n \<in># tasks s \<and> 0 < n"
  let ?t = "s\<lparr>buf := add_permits n (buf s), tasks := tasks s - {#Releasing n#}\<rparr>"
  have "buffer_run s ?t" using n by (blast intro: buffer_run.intros buffer_step.release)
  moreover have "0 < buf_slots (buf ?t)" "Waiting x \<in># tasks ?t"
    using n assms(1) by (auto simp: add_permits_def in_diff_count)
  ultimately show ?thesis by blast
qed

lemma owed_task: "total_owed T \<noteq> 0 \<Longrightarrow> (\<exists>x. Holding x \<in># T) \<or> (\<exists>n. Releasing n \<in># T \<and> 0 < n)"
proof (induction T)
  case empty
  then show ?case by (simp add: total_owed_def)
next
  case (add t T)
  then show ?case by (cases t) auto
qed

text \<open>
  A push is never stuck for good. From every reachable state, whatever the other tasks
  have done, a waiting push can still get its slot and append its block; no sequence of pushes,
  drains and dropped tasks leaks a slot.
\<close>

theorem push_never_stuck:
  assumes "buffer_new c = Some b" and "buffer_run (idle_system b) s" and "Waiting x \<in># tasks s"
  shows "\<exists>t. buffer_run s t \<and> last (accepted t) = x"
proof -
  have "0 < c" using assms(1) by (simp add: buffer_new_def split: if_splits)
  moreover have "buf_slots (buf s) + length (buf_pending (buf s)) + total_owed (tasks s) = c"
    using buffer_inv_run [OF assms(2) buffer_inv_new [OF assms(1)]] by (simp add: buffer_inv_def)
  ultimately consider (slot) "0 < buf_slots (buf s)"
    | (come_back) n where "buf_pending (buf s) \<noteq> [] \<or> Releasing n \<in># tasks s \<and> 0 < n"
    | (held) y where "Holding y \<in># tasks s"
    using owed_task [of "tasks s"] by auto
  then show ?thesis
  proof cases
    case slot
    then show ?thesis by (rule free_slot_pushes [OF assms(3)])
  next
    case come_back
    then obtain t where "buffer_run s t" "Waiting x \<in># tasks t" "0 < buf_slots (buf t)"
      using slot_comes_back [OF assms(3)] by blast
    with free_slot_pushes buffer_run_trans show ?thesis by blast
  next
    case held
    let ?t = "s\<lparr>buf := enqueue y (buf s), tasks := tasks s - {#Holding y#}, accepted := accepted s @ [y]\<rparr>"
    have r: "buffer_run s ?t" using held by (blast intro: buffer_run.intros buffer_step.append)
    have "Waiting x \<in># tasks ?t" "buf_pending (buf ?t) \<noteq> []"
      using assms(3) by (auto simp: enqueue_def in_diff_count)
    then obtain u where "buffer_run ?t u" "Waiting x \<in># tasks u" "0 < buf_slots (buf u)"
      using slot_comes_back by blast
    with free_slot_pushes [of x u] buffer_run_trans [OF r] buffer_run_trans show ?thesis by blast
  qed
qed

theorem push_never_stuck_witness:
  "\<exists>t. buffer_run (idle_system demo_buffer) t
     \<and> last (accepted t) = op_block_to_l2_data demo_raw (snd demo_blocks) \<and> accepted t \<noteq> []"
proof -
  let ?x = "op_block_to_l2_data demo_raw (snd demo_blocks)"
  have new: "buffer_new 2 = Some demo_buffer" by (simp add: buffer_new_def demo_buffer_def)
  let ?m = "idle_system demo_buffer
        \<lparr>buf := \<lparr>buf_pending = [op_block_to_l2_data demo_raw (fst demo_blocks)], buf_capacity = 2, buf_slots = 1\<rparr>,
         accepted := [op_block_to_l2_data demo_raw (fst demo_blocks)]\<rparr>"
  let ?s = "?m\<lparr>tasks := add_mset (Waiting ?x) (tasks ?m)\<rparr>"
  have s: "buffer_run (idle_system demo_buffer) ?s" by (rule buffer_run.step [OF demo_buffer_run buffer_step.start])
  obtain t where t: "buffer_run ?s t" "last (accepted t) = ?x"
    using push_never_stuck [OF new s, of ?x] by auto
  moreover have "accepted t \<noteq> []" using accepted_grows [OF t(1)] by auto
  ultimately show ?thesis using buffer_run_trans [OF s t(1)] by blast
qed

end
