(* ===== verification/Tx_Config.thy ===== *)
theory Tx_Config
  imports Montana_Prelude Complex_Main
begin

text \<open>
  The configuration of the transaction manager (\<^verbatim>\<open>crates/consensus/txmgr/src/config.rs\<close>)
  with its builder.

  The two \<^verbatim>\<open>f64\<close> fields hold finite values, which are rationals; arithmetic on them rounds
  and is given where it is used. Durations are nanoseconds.
\<close>

type_synonym f64 = rat

definition TX_SECS :: duration where "TX_SECS = 1000000000"

record tx_manager_config =
  tx_num_confirmations :: u64
  tx_receipt_query_interval :: duration
  tx_network_timeout :: duration
  tx_resubmission_timeout :: duration
  tx_not_in_mempool_timeout :: duration
  tx_safe_abort_nonce_too_low_count :: u32
  tx_fee_limit_multiplier :: u64
  tx_min_base_fee_gwei :: f64
  tx_min_tip_cap_gwei :: f64
  tx_max_blob_fee_per_gas :: "u256 option"
  tx_price_bump_percent :: u64
  tx_blob_price_bump_percent :: u64

definition tx_config_default :: tx_manager_config where
  "tx_config_default =
     \<lparr>tx_num_confirmations = 10,
      tx_receipt_query_interval = 12 * TX_SECS,
      tx_network_timeout = 10 * TX_SECS,
      tx_resubmission_timeout = 48 * TX_SECS,
      tx_not_in_mempool_timeout = 120 * TX_SECS,
      tx_safe_abort_nonce_too_low_count = 3,
      tx_fee_limit_multiplier = 5,
      tx_min_base_fee_gwei = 1,
      tx_min_tip_cap_gwei = 1,
      tx_max_blob_fee_per_gas = None,
      tx_price_bump_percent = 10,
      tx_blob_price_bump_percent = 100\<rparr>"

record tx_config_builder =
  tb_num_confirmations :: u64
  tb_receipt_query_interval :: duration
  tb_network_timeout :: duration
  tb_resubmission_timeout :: duration
  tb_not_in_mempool_timeout :: duration
  tb_safe_abort_nonce_too_low_count :: u32
  tb_fee_limit_multiplier :: u64
  tb_min_base_fee_gwei :: f64
  tb_min_tip_cap_gwei :: f64
  tb_max_blob_fee_per_gas :: "u256 option"
  tb_price_bump_percent :: u64
  tb_blob_price_bump_percent :: u64

definition tx_builder_default :: tx_config_builder where
  "tx_builder_default =
     (let defaults = tx_config_default in
      \<lparr>tb_num_confirmations = tx_num_confirmations defaults,
       tb_receipt_query_interval = tx_receipt_query_interval defaults,
       tb_network_timeout = tx_network_timeout defaults,
       tb_resubmission_timeout = tx_resubmission_timeout defaults,
       tb_not_in_mempool_timeout = tx_not_in_mempool_timeout defaults,
       tb_safe_abort_nonce_too_low_count = tx_safe_abort_nonce_too_low_count defaults,
       tb_fee_limit_multiplier = tx_fee_limit_multiplier defaults,
       tb_min_base_fee_gwei = tx_min_base_fee_gwei defaults,
       tb_min_tip_cap_gwei = tx_min_tip_cap_gwei defaults,
       tb_max_blob_fee_per_gas = tx_max_blob_fee_per_gas defaults,
       tb_price_bump_percent = tx_price_bump_percent defaults,
       tb_blob_price_bump_percent = tx_blob_price_bump_percent defaults\<rparr>)"

definition tx_config_builder_of :: tx_config_builder where
  "tx_config_builder_of = tx_builder_default"

text \<open>The setters.\<close>

definition set_tx_num_confirmations :: "u64 \<Rightarrow> tx_config_builder \<Rightarrow> tx_config_builder" where
  "set_tx_num_confirmations v b = b\<lparr>tb_num_confirmations := v\<rparr>"

definition set_tx_receipt_query_interval :: "duration \<Rightarrow> tx_config_builder \<Rightarrow> tx_config_builder" where
  "set_tx_receipt_query_interval v b = b\<lparr>tb_receipt_query_interval := v\<rparr>"

definition set_tx_network_timeout :: "duration \<Rightarrow> tx_config_builder \<Rightarrow> tx_config_builder" where
  "set_tx_network_timeout v b = b\<lparr>tb_network_timeout := v\<rparr>"

definition set_tx_resubmission_timeout :: "duration \<Rightarrow> tx_config_builder \<Rightarrow> tx_config_builder" where
  "set_tx_resubmission_timeout v b = b\<lparr>tb_resubmission_timeout := v\<rparr>"

definition set_tx_not_in_mempool_timeout :: "duration \<Rightarrow> tx_config_builder \<Rightarrow> tx_config_builder" where
  "set_tx_not_in_mempool_timeout v b = b\<lparr>tb_not_in_mempool_timeout := v\<rparr>"

definition set_tx_safe_abort_nonce_too_low_count :: "u32 \<Rightarrow> tx_config_builder \<Rightarrow> tx_config_builder" where
  "set_tx_safe_abort_nonce_too_low_count v b = b\<lparr>tb_safe_abort_nonce_too_low_count := v\<rparr>"

definition set_tx_fee_limit_multiplier :: "u64 \<Rightarrow> tx_config_builder \<Rightarrow> tx_config_builder" where
  "set_tx_fee_limit_multiplier v b = b\<lparr>tb_fee_limit_multiplier := v\<rparr>"

definition set_tx_min_base_fee_gwei :: "f64 \<Rightarrow> tx_config_builder \<Rightarrow> tx_config_builder" where
  "set_tx_min_base_fee_gwei v b = b\<lparr>tb_min_base_fee_gwei := v\<rparr>"

definition set_tx_min_tip_cap_gwei :: "f64 \<Rightarrow> tx_config_builder \<Rightarrow> tx_config_builder" where
  "set_tx_min_tip_cap_gwei v b = b\<lparr>tb_min_tip_cap_gwei := v\<rparr>"

definition set_tx_max_blob_fee_per_gas :: "u256 option \<Rightarrow> tx_config_builder \<Rightarrow> tx_config_builder" where
  "set_tx_max_blob_fee_per_gas v b = b\<lparr>tb_max_blob_fee_per_gas := v\<rparr>"

definition set_tx_price_bump_percent :: "u64 \<Rightarrow> tx_config_builder \<Rightarrow> tx_config_builder" where
  "set_tx_price_bump_percent v b = b\<lparr>tb_price_bump_percent := v\<rparr>"

definition set_tx_blob_price_bump_percent :: "u64 \<Rightarrow> tx_config_builder \<Rightarrow> tx_config_builder" where
  "set_tx_blob_price_bump_percent v b = b\<lparr>tb_blob_price_bump_percent := v\<rparr>"

definition tx_config_build :: "tx_config_builder \<Rightarrow> tx_manager_config" where
  "tx_config_build b =
     \<lparr>tx_num_confirmations = tb_num_confirmations b,
      tx_receipt_query_interval = tb_receipt_query_interval b,
      tx_network_timeout = tb_network_timeout b,
      tx_resubmission_timeout = tb_resubmission_timeout b,
      tx_not_in_mempool_timeout = tb_not_in_mempool_timeout b,
      tx_safe_abort_nonce_too_low_count = tb_safe_abort_nonce_too_low_count b,
      tx_fee_limit_multiplier = tb_fee_limit_multiplier b,
      tx_min_base_fee_gwei = tb_min_base_fee_gwei b,
      tx_min_tip_cap_gwei = tb_min_tip_cap_gwei b,
      tx_max_blob_fee_per_gas = tb_max_blob_fee_per_gas b,
      tx_price_bump_percent = tb_price_bump_percent b,
      tx_blob_price_bump_percent = tb_blob_price_bump_percent b\<rparr>"

lemmas tx_setter_defs = set_tx_num_confirmations_def set_tx_receipt_query_interval_def
  set_tx_network_timeout_def set_tx_resubmission_timeout_def set_tx_not_in_mempool_timeout_def
  set_tx_safe_abort_nonce_too_low_count_def set_tx_fee_limit_multiplier_def
  set_tx_min_base_fee_gwei_def set_tx_min_tip_cap_gwei_def set_tx_max_blob_fee_per_gas_def
  set_tx_price_bump_percent_def set_tx_blob_price_bump_percent_def

text \<open>Building without setting anything gives the default, and building loses no field.\<close>

lemma build_default: "tx_config_build tx_config_builder_of = tx_config_default"
  by (simp add: tx_config_build_def tx_config_builder_of_def tx_builder_default_def tx_config_default_def)

lemma tx_config_build_inj: "tx_config_build b = tx_config_build b' \<Longrightarrow> b = b'"
  for b b' :: tx_config_builder
  by (simp add: tx_config_build_def)

end
