(* ===== verification/Tx_Errors.thy ===== *)
theory Tx_Errors
  imports Montana_Prelude
begin

text \<open>
  The errors of the transaction manager (\<^verbatim>\<open>crates/consensus/txmgr/src/error.rs\<close>) and their
  classification from the text of an RPC error. Messages are ASCII strings, on which
  \<^verbatim>\<open>to_lowercase\<close> maps the 26 capital letters.
\<close>

section \<open>Strings\<close>

definition lower_char :: "char \<Rightarrow> char" where
  "lower_char c = (let n = of_char c in if 65 \<le> n \<and> n \<le> (90 :: nat) then char_of (n + 32) else c)"

definition to_lowercase :: "string \<Rightarrow> string" where
  "to_lowercase s = map lower_char s"

text \<open>\<^verbatim>\<open>str::contains\<close>: the needle starts at some position.\<close>

fun str_contains :: "string \<Rightarrow> string \<Rightarrow> bool" where
  "str_contains [] needle = (needle = [])"
| "str_contains (c # cs) needle =
     (take (length needle) (c # cs) = needle \<or> str_contains cs needle)"

lemma str_contains_iff: "str_contains s needle \<longleftrightarrow> (\<exists>us vs. s = us @ needle @ vs)"
proof (induction s)
  case Nil
  then show ?case by simp
next
  case (Cons c cs)
  show ?case
  proof
    assume "str_contains (c # cs) needle"
    then consider "take (length needle) (c # cs) = needle" | "str_contains cs needle" by auto
    then show "\<exists>us vs. c # cs = us @ needle @ vs"
    proof cases
      case 1
      then have "c # cs = [] @ needle @ drop (length needle) (c # cs)"
        by (metis append_Nil append_take_drop_id)
      then show ?thesis by blast
    next
      case 2
      with Cons obtain us vs where "c # cs = (c # us) @ needle @ vs" by auto
      then show ?thesis by blast
    qed
  next
    assume "\<exists>us vs. c # cs = us @ needle @ vs"
    then obtain us vs where eq: "c # cs = us @ needle @ vs" by blast
    show "str_contains (c # cs) needle"
    proof (cases us)
      case Nil
      with eq have "take (length needle) (c # cs) = needle" by simp
      then show ?thesis by simp
    next
      case (Cons u us')
      with eq have "cs = us' @ needle @ vs" by simp
      with Cons.IH show ?thesis by auto
    qed
  qed
qed

section \<open>Errors\<close>

datatype tx_error =
    Rpc string
  | Underpriced
  | NonceTooLow
  | NonceTooLowAbort
  | NotInMempool
  | AlreadyReserved
  | BlobGasTooExpensive u128 u128  \<comment> \<open>current, max\<close>
  | InsufficientFunds
  | ConfirmationTimeout
  | Reverted
  | Signing string
  | GasEstimation string

fun show_tx_error :: "tx_error \<Rightarrow> string" where
  "show_tx_error (Rpc m) = ''RPC error: '' @ m"
| "show_tx_error Underpriced = ''Transaction underpriced''"
| "show_tx_error NonceTooLow = ''Nonce too low''"
| "show_tx_error NonceTooLowAbort = ''Nonce too low count exceeded threshold''"
| "show_tx_error NotInMempool = ''Transaction not in mempool after timeout''"
| "show_tx_error AlreadyReserved = ''Transaction type conflict: already reserved''"
| "show_tx_error (BlobGasTooExpensive c m) =
     ''Blob gas too expensive: '' @ dec (unat c) @ '' > '' @ dec (unat m)"
| "show_tx_error InsufficientFunds = ''Insufficient funds''"
| "show_tx_error ConfirmationTimeout = ''Timeout waiting for confirmation''"
| "show_tx_error Reverted = ''Transaction reverted''"
| "show_tx_error (Signing m) = ''Signing error: '' @ m"
| "show_tx_error (GasEstimation m) = ''Gas estimation failed: '' @ m"

definition from_rpc_error :: "string \<Rightarrow> tx_error" where
  "from_rpc_error msg =
     (let lower = to_lowercase msg in
      if str_contains lower ''underpriced'' \<or> str_contains lower ''replacement transaction underpriced''
      then Underpriced
      else if str_contains lower ''nonce too low'' then NonceTooLow
      else if str_contains lower ''insufficient funds'' \<or> str_contains lower ''insufficient balance''
      then InsufficientFunds
      else if str_contains lower ''transaction reverted'' \<or> str_contains lower ''execution reverted''
        \<or> str_contains lower ''revert''
      then Reverted
      else if str_contains lower ''already known'' \<or> str_contains lower ''already reserved''
      then AlreadyReserved
      else Rpc msg)"

fun tx_is_retryable :: "tx_error \<Rightarrow> bool" where
  "tx_is_retryable (Rpc _) = True"
| "tx_is_retryable Underpriced = True"
| "tx_is_retryable NonceTooLow = True"
| "tx_is_retryable _ = False"

text \<open>
  The classification does not depend on the case of the letters, and the needles that contain
  another one are redundant: three tests decide the first and the fourth class.
\<close>

lemma lower_char_idem: "lower_char (lower_char c) = lower_char c"
  by (auto simp: lower_char_def Let_def)

lemma to_lowercase_idem: "to_lowercase (to_lowercase s) = to_lowercase s"
  by (simp add: to_lowercase_def lower_char_idem o_def)

lemma from_rpc_error_lowercase:
  "from_rpc_error (to_lowercase msg) =
     (case from_rpc_error msg of Rpc _ \<Rightarrow> Rpc (to_lowercase msg) | e \<Rightarrow> e)"
  by (simp add: from_rpc_error_def to_lowercase_idem Let_def)

lemma str_contains_trans: "str_contains s u \<Longrightarrow> str_contains u v \<Longrightarrow> str_contains s v"
  unfolding str_contains_iff by (metis append.assoc)

lemma from_rpc_error_iff:
  "from_rpc_error msg = Underpriced \<longleftrightarrow> str_contains (to_lowercase msg) ''underpriced''"
  "from_rpc_error msg = Reverted \<longleftrightarrow> str_contains (to_lowercase msg) ''revert''
     \<and> from_rpc_error msg \<notin> {Underpriced, NonceTooLow, InsufficientFunds}"
proof -
  have "str_contains ''replacement transaction underpriced'' ''underpriced''"
    "str_contains ''transaction reverted'' ''revert''" "str_contains ''execution reverted'' ''revert''"
    by simp_all
  note sub = this [THEN str_contains_trans [rotated]]
  show "from_rpc_error msg = Underpriced \<longleftrightarrow> str_contains (to_lowercase msg) ''underpriced''"
    using sub(1) by (auto simp: from_rpc_error_def Let_def)
  show "from_rpc_error msg = Reverted \<longleftrightarrow> str_contains (to_lowercase msg) ''revert''
     \<and> from_rpc_error msg \<notin> {Underpriced, NonceTooLow, InsufficientFunds}"
    using sub(2,3) by (auto simp: from_rpc_error_def Let_def)
qed

end
