(* ===== verification/Tx_Gas.thy ===== *)
theory Tx_Gas
  imports Tx_Config Tx_Errors
begin

text \<open>
  Gas prices (\<^verbatim>\<open>crates/consensus/txmgr/src/gas.rs\<close>): the caps of a transaction, the oracle
  that suggests and bumps them, and the blob base fee by a truncated Taylor series.

  \<^verbatim>\<open>U256\<close> is \<open>256 word\<close> (its operators wrap), \<^verbatim>\<open>u128\<close> is \<open>128 word\<close>. The L1 provider is a
  parameter: the answer to \<^verbatim>\<open>get_block_by_number(Latest)\<close>.
\<close>

section \<open>Caps\<close>

record gas_caps =
  gas_tip_cap :: u256
  gas_fee_cap :: u256
  blob_fee_cap :: "u256 option"

definition gas_caps_default :: gas_caps where
  "gas_caps_default = \<lparr>gas_tip_cap = 0, gas_fee_cap = 0, blob_fee_cap = None\<rparr>"

text \<open>The constructor keeps the low 64 bits of each fee: \<^verbatim>\<open>as u64\<close>.\<close>

definition low_limb :: "u128 \<Rightarrow> u256" where
  "low_limb fee = ucast (ucast fee :: u64)"

definition gas_caps_new :: "u128 \<Rightarrow> u128 \<Rightarrow> u128 option \<Rightarrow> gas_caps" where
  "gas_caps_new max_fee max_priority_fee blob_fee =
     \<lparr>gas_tip_cap = low_limb max_priority_fee, gas_fee_cap = low_limb max_fee,
      blob_fee_cap = (case blob_fee of Some fee \<Rightarrow> Some (low_limb fee) | None \<Rightarrow> None)\<rparr>"

text \<open>\<^verbatim>\<open>U256::to::<u128>()\<close> panics when the value does not fit: \<open>None\<close>.\<close>

definition to_u128 :: "u256 \<Rightarrow> u128 option" where
  "to_u128 v = (if unat v < 2 ^ 128 then Some (ucast v) else None)"

definition max_fee_per_gas :: "gas_caps \<Rightarrow> u128 option" where
  "max_fee_per_gas c = to_u128 (gas_fee_cap c)"

definition max_priority_fee_per_gas :: "gas_caps \<Rightarrow> u128 option" where
  "max_priority_fee_per_gas c = to_u128 (gas_tip_cap c)"

text \<open>Fees of up to 64 bits pass through the caps unchanged; larger ones lose their high bits.\<close>

lemma unat_ucast_mod: "unat (ucast w :: 'b::len word) = unat w mod 2 ^ LENGTH('b)"
  for w :: "'a::len word"
  using unsigned_ucast_eq [of w, where ?'a = nat and ?'c = 'b] by (simp only: take_bit_eq_mod)

lemma unat_low_limb: "unat (low_limb fee) = unat fee mod 2 ^ 64"
  by (simp add: low_limb_def unat_ucast_mod)

lemma caps_roundtrip:
  assumes "unat max_fee < 2 ^ 64" and "unat tip < 2 ^ 64"
  shows "max_fee_per_gas (gas_caps_new max_fee tip b) = Some max_fee"
    and "max_priority_fee_per_gas (gas_caps_new max_fee tip b) = Some tip"
proof -
  have fit: "to_u128 (low_limb f) = Some f" if "unat f < 2 ^ 64" for f
  proof -
    have u: "unat (low_limb f) = unat f" using that by (simp add: unat_low_limb)
    then have "unat (ucast (low_limb f) :: u128) = unat f"
      using that by (simp add: unat_ucast_mod)
    then show ?thesis using u that by (simp add: to_u128_def word_unat_eq_iff)
  qed
  show "max_fee_per_gas (gas_caps_new max_fee tip b) = Some max_fee"
    using fit [OF assms(1)] by (simp add: max_fee_per_gas_def gas_caps_new_def)
  show "max_priority_fee_per_gas (gas_caps_new max_fee tip b) = Some tip"
    using fit [OF assms(2)] by (simp add: max_priority_fee_per_gas_def gas_caps_new_def)
qed

section \<open>The blob fee\<close>

text \<open>
  One iteration of \<^verbatim>\<open>fake_exponential\<close>: \<open>output\<close>, \<open>accum\<close> and \<open>i\<close> are the loop's
  variables. The loop ends when the next term is zero or after 100 terms.
\<close>

function taylor_loop :: "u64 \<Rightarrow> u64 \<Rightarrow> u128 \<Rightarrow> u128 \<Rightarrow> u128 \<Rightarrow> u128" where
  "taylor_loop numerator denominator output accum i =
     (let output = saturating_add output accum;
          next_accum = checked_div (saturating_mul accum (ucast numerator)) (ucast denominator * i)
      in case next_accum of
           Some val \<Rightarrow>
             if 0 < val then
               (let i = i + 1 in if 100 < i then output else taylor_loop numerator denominator output val i)
             else output
         | None \<Rightarrow> output)"
  by auto
termination
proof (relation "measure (\<lambda>(n, d, out, accum, i). if unat i = 2 ^ 128 - 1 then 200 else 101 - unat i)")
  fix n d :: u64 and out accum i out2 v j :: u128 and next_accum
  assume nx: "next_accum = checked_div (saturating_mul accum (ucast n)) (ucast d * i)"
    and "next_accum = Some v" and "j = i + 1" and "\<not> 100 < j"
  then have "i \<noteq> 0" and "unat (i + 1) \<le> 100"
    by (auto simp: checked_div_def word_less_nat_alt split: if_splits)
  moreover have "unat i < 2 ^ 128" using unsigned_less [of i, where ?'a = nat] by simp
  ultimately show "((n, d, out2, v, j), (n, d, out, accum, i))
      \<in> measure (\<lambda>(n, d, out, accum, i). if unat i = 2 ^ 128 - 1 then 200 else 101 - unat i)"
    using \<open>j = i + 1\<close> by (auto simp: unat_word_ariths unat_eq_zero mod_Suc split: if_splits)
qed simp

definition fake_exponential :: "u128 \<Rightarrow> u64 \<Rightarrow> u64 \<Rightarrow> u128" where
  "fake_exponential factor numerator denominator =
     taylor_loop numerator denominator 0 (saturating_mul factor (ucast denominator)) 1 div ucast denominator"

definition MIN_BLOB_GASPRICE :: u128 where "MIN_BLOB_GASPRICE = 1"
definition BLOB_GASPRICE_UPDATE_FRACTION :: u64 where "BLOB_GASPRICE_UPDATE_FRACTION = 3338477"

definition calc_blob_fee :: "u64 \<Rightarrow> u128" where
  "calc_blob_fee excess_blob_gas =
     fake_exponential MIN_BLOB_GASPRICE excess_blob_gas BLOB_GASPRICE_UPDATE_FRACTION"

declare taylor_loop.simps [simp del]

section \<open>The oracle\<close>

text \<open>What the oracle reads of the latest block's header.\<close>

record l1_header =
  base_fee_per_gas :: "u64 option"
  excess_blob_gas :: "u64 option"

text \<open>
  \<^verbatim>\<open>(gwei * 1e9) as u128\<close>: the product of two floats is the rounded product of the
  rationals (\<open>round64\<close>, rounding to nearest, is a parameter), and the cast truncates and
  saturates.
\<close>

definition f64_to_u128 :: "f64 \<Rightarrow> u128" where
  "f64_to_u128 x = (if x \<le> 0 then 0 else if 2 ^ 128 \<le> x then - 1 else word_of_nat (nat \<lfloor>x\<rfloor>))"

definition suggest_gas_caps :: "(f64 \<Rightarrow> f64) \<Rightarrow> tx_manager_config \<Rightarrow> string + l1_header option
    \<Rightarrow> tx_error + gas_caps" where
  "suggest_gas_caps round64 cfg latest =
     rbind (map_err (\<lambda>e. GasEstimation (''Failed to fetch latest block: '' @ e)) latest) (\<lambda>block.
     rbind (ok_or block (GasEstimation ''Latest block not found'')) (\<lambda>header.
     rbind (ok_or (base_fee_per_gas header) (GasEstimation ''Base fee not available'')) (\<lambda>base_fee.
       let tip = ucast (f64_to_u128 (round64 (tx_min_tip_cap_gwei cfg * 1000000000)));
           fee = ucast base_fee + tip;
           blob = map_option (\<lambda>e. ucast (calc_blob_fee e)) (excess_blob_gas header)
       in Inr \<lparr>gas_tip_cap = tip, gas_fee_cap = fee, blob_fee_cap = blob\<rparr>)))"

definition bump_gas_caps :: "tx_manager_config \<Rightarrow> gas_caps \<Rightarrow> bool \<Rightarrow> gas_caps" where
  "bump_gas_caps cfg caps is_blob =
     (let bump_percent = (if is_blob then tx_blob_price_bump_percent cfg else tx_price_bump_percent cfg);
          multiplier = ucast (100 + bump_percent);
          divisor = 100
      in \<lparr>gas_tip_cap = (gas_tip_cap caps * multiplier) div divisor,
          gas_fee_cap = (gas_fee_cap caps * multiplier) div divisor,
          blob_fee_cap = map_option (\<lambda>fee. (fee * multiplier) div divisor) (blob_fee_cap caps)\<rparr>)"

section \<open>Bumping\<close>

text \<open>
  \<open>bumped p k f f'\<close>: what \<open>k\<close> bumps by \<open>p\<close> percent make of a fee. Each bump is the exact
  percentage rounded down, so a fee with \<open>f * p < 100\<close> never moves.
\<close>

definition bumped :: "nat \<Rightarrow> nat \<Rightarrow> nat \<Rightarrow> nat \<Rightarrow> bool" where
  "bumped p k f f' =
     (f' * 100 ^ k \<le> f * (100 + p) ^ k \<and> (100 \<le> f * p \<longrightarrow> f + k \<le> f') \<and> (f * p < 100 \<longrightarrow> f' = f))"

definition bump_nat :: "nat \<Rightarrow> nat \<Rightarrow> nat" where
  "bump_nat p f = f * (100 + p) div 100"

lemma bump_nat_eq: "bump_nat p f = f + f * p div 100"
proof -
  have "f * (100 + p) = f * p + f * 100" by (simp add: algebra_simps)
  then show ?thesis by (simp add: bump_nat_def)
qed

lemma bumped_step: "bumped p k f f' \<Longrightarrow> bumped p (Suc k) f (bump_nat p f')"
proof -
  assume b: "bumped p k f f'"
  have "bump_nat p f' * 100 \<le> f' * (100 + p)" by (simp add: bump_nat_def)
  then have "bump_nat p f' * 100 * 100 ^ k \<le> f' * (100 + p) * 100 ^ k" by (rule mult_le_mono1)
  also have "\<dots> = (f' * 100 ^ k) * (100 + p)" by (simp only: mult.assoc mult.commute mult.left_commute)
  also have "\<dots> \<le> f * (100 + p) ^ k * (100 + p)"
    using b unfolding bumped_def by (intro mult_le_mono1) blast
  finally have "bump_nat p f' * 100 ^ Suc k \<le> f * (100 + p) ^ Suc k"
    by (simp only: power_Suc mult.assoc mult.commute mult.left_commute)
  moreover have "f + Suc k \<le> bump_nat p f'" if big: "100 \<le> f * p"
  proof -
    have le: "f + k \<le> f'" using b big by (simp add: bumped_def)
    then have "f * p \<le> f' * p" by (intro mult_le_mono1) linarith
    with big have "100 \<le> f' * p" by (rule order_trans)
    from div_le_mono [OF this, of 100] have "1 \<le> f' * p div 100" by simp
    with le show ?thesis by (simp add: bump_nat_eq)
  qed
  moreover have "bump_nat p f' = f" if "f * p < 100"
    using b that by (simp add: bumped_def bump_nat_eq)
  ultimately show ?thesis by (simp add: bumped_def)
qed

text \<open>The word arithmetic of one bump, where it does not wrap.\<close>

lemma unat_bump:
  fixes fee :: u256 and percent :: u64
  assumes "unat percent < 2 ^ 64 - 100" and "unat fee * (100 + unat percent) < 2 ^ 256"
  shows "unat (fee * ucast (100 + percent) div 100) = bump_nat (unat percent) (unat fee)"
proof -
  have "unat (100 + percent) = 100 + unat percent" using assms(1) by (simp add: unat_word_ariths)
  then have "unat (ucast (100 + percent) :: u256) = 100 + unat percent"
    using assms(1) by (simp add: unat_ucast_mod)
  then show ?thesis using assms(2) by (simp add: unat_div unat_word_ariths bump_nat_def)
qed

text \<open>\<open>k\<close> bumps of a fee that stay below \<open>2 ^ 256\<close>.\<close>

lemma bump_iterate:
  fixes fee :: u256 and percent :: u64
  assumes "unat percent < 2 ^ 64 - 100" and "unat fee * (100 + unat percent) ^ k < 2 ^ 256"
  shows "bumped (unat percent) k (unat fee) (unat (((\<lambda>f. f * ucast (100 + percent) div 100) ^^ k) fee))"
  using assms(2)
proof (induction k)
  case 0
  then show ?case by (simp add: bumped_def)
next
  case (Suc k)
  let ?p = "unat percent" and ?f = "((\<lambda>f. f * ucast (100 + percent) div 100) ^^ k) fee"
  have "unat fee * (100 + ?p) ^ k \<le> unat fee * (100 + ?p) ^ Suc k" by simp
  from Suc.IH [OF le_less_trans [OF this Suc.prems]] have IH: "bumped ?p k (unat fee) (unat ?f)" .
  have "unat ?f \<le> unat ?f * 100 ^ k" by simp
  also have "\<dots> \<le> unat fee * (100 + ?p) ^ k" using IH by (simp add: bumped_def)
  finally have "unat ?f * (100 + ?p) \<le> unat fee * (100 + ?p) ^ k * (100 + ?p)" by (rule mult_le_mono1)
  then have "unat ?f * (100 + ?p) \<le> unat fee * (100 + ?p) ^ Suc k" by (simp only: power_Suc2 mult.assoc)
  from le_less_trans [OF this Suc.prems] have "unat ?f * (100 + ?p) < 2 ^ 256" .
  with unat_bump [OF assms(1)] bumped_step [OF IH] show ?case by simp
qed

text \<open>The caps after \<open>k\<close> bumps.\<close>

definition bumps :: "tx_manager_config \<Rightarrow> bool \<Rightarrow> nat \<Rightarrow> gas_caps \<Rightarrow> gas_caps" where
  "bumps cfg is_blob k caps = ((\<lambda>c. bump_gas_caps cfg c is_blob) ^^ k) caps"

definition bump_percent :: "tx_manager_config \<Rightarrow> bool \<Rightarrow> u64" where
  "bump_percent cfg is_blob = (if is_blob then tx_blob_price_bump_percent cfg else tx_price_bump_percent cfg)"

lemma bumps_fields:
  fixes cfg is_blob
  defines "g \<equiv> \<lambda>f :: u256. f * ucast (100 + bump_percent cfg is_blob) div 100"
  shows "gas_tip_cap (bumps cfg is_blob k caps) = (g ^^ k) (gas_tip_cap caps)"
    and "gas_fee_cap (bumps cfg is_blob k caps) = (g ^^ k) (gas_fee_cap caps)"
    and "blob_fee_cap (bumps cfg is_blob k caps) = map_option (g ^^ k) (blob_fee_cap caps)"
  by (induction k) (simp_all add: bumps_def bump_gas_caps_def Let_def g_def bump_percent_def
      option.map_comp o_def option.map_id)

text \<open>
  C38: bumping raises a fee at every step, or never. Where no product exceeds 256 bits, \<open>k\<close>
  bumps raise a cap by at least \<open>k\<close> wei and at most by \<open>k\<close> times the exact percentage, if the
  percentage of the cap is at least one wei; a cap whose percentage is less than one wei is
  left unchanged by any number of bumps.
\<close>

theorem bumps_raise_fees:
  assumes "unat (bump_percent cfg is_blob) < 2 ^ 64 - 100"
    and "unat (gas_fee_cap caps) * (100 + unat (bump_percent cfg is_blob)) ^ k < 2 ^ 256"
    and "unat (gas_tip_cap caps) \<le> unat (gas_fee_cap caps)"
    and "\<And>b. blob_fee_cap caps = Some b \<Longrightarrow> unat b \<le> unat (gas_fee_cap caps)"
  shows "bumped (unat (bump_percent cfg is_blob)) k (unat (gas_fee_cap caps))
       (unat (gas_fee_cap (bumps cfg is_blob k caps)))
     \<and> bumped (unat (bump_percent cfg is_blob)) k (unat (gas_tip_cap caps))
       (unat (gas_tip_cap (bumps cfg is_blob k caps)))
     \<and> rel_option (\<lambda>b b'. bumped (unat (bump_percent cfg is_blob)) k (unat b) (unat b'))
       (blob_fee_cap caps) (blob_fee_cap (bumps cfg is_blob k caps))"
proof -
  let ?p = "unat (bump_percent cfg is_blob)"
  have below: "unat f * (100 + ?p) ^ k < 2 ^ 256" if "unat f \<le> unat (gas_fee_cap caps)" for f :: u256
    by (rule le_less_trans [OF mult_le_mono1 [OF that] assms(2)])
  note bump = bump_iterate [OF assms(1) below]
  show ?thesis
    using bump [OF order_refl] bump [OF assms(3)] bump [OF assms(4)]
    by (cases "blob_fee_cap caps") (simp_all add: bumps_fields)
qed

theorem bumps_raise_fees_witness:
  "30 \<le> unat (gas_fee_cap (bumps tx_config_default False 20 \<lparr>gas_tip_cap = 9, gas_fee_cap = 10, blob_fee_cap = Some 10\<rparr>))
     \<and> gas_tip_cap (bumps tx_config_default False 20 \<lparr>gas_tip_cap = 9, gas_fee_cap = 10, blob_fee_cap = Some 10\<rparr>) = 9"
proof -
  let ?caps = "\<lparr>gas_tip_cap = 9, gas_fee_cap = 10, blob_fee_cap = Some 10\<rparr>"
  have p: "bump_percent tx_config_default False = 10" by (simp add: bump_percent_def tx_config_default_def)
  have "bumped 10 20 10 (unat (gas_fee_cap (bumps tx_config_default False 20 ?caps)))"
    and "bumped 10 20 9 (unat (gas_tip_cap (bumps tx_config_default False 20 ?caps)))"
    using bumps_raise_fees [of tx_config_default False ?caps 20] by (simp_all add: p)
  then show ?thesis by (simp add: bumped_def word_unat_eq_iff)
qed

section \<open>The blob fee grows with the excess\<close>

lemma saturating_mono:
  fixes a b a' b' :: "'a::len word"
  assumes "a \<le> a'" and "b \<le> b'"
  shows "saturating_add a b \<le> saturating_add a' b'" and "saturating_mul a b \<le> saturating_mul a' b'"
  using assms by (simp_all add: word_le_nat_alt unat_saturating_add unat_saturating_mul
      min_le_iff_disj add_mono mult_le_mono le_diff_conv)

lemma saturating_add_ge: "a \<le> saturating_add a b"
  for a b :: "'a::len word"
proof -
  have "unat a \<le> unat (- 1 :: 'a word)" unfolding word_le_nat_alt [symmetric] by simp
  then show ?thesis by (simp add: word_le_nat_alt unat_saturating_add unat_minus_one_word_pow)
qed

lemma ucast_u64_mono: "(ucast a :: u128) \<le> ucast b" if "a \<le> b" for a b :: u64
  using that unsigned_less [of a, where ?'a = nat] unsigned_less [of b, where ?'a = nat]
  by (simp add: word_le_nat_alt unat_ucast_mod)

lemma word_div_mono: "a \<le> b \<Longrightarrow> a div c \<le> b div c" for a b c :: "'a::len word"
  by (simp add: word_le_nat_alt unat_div div_le_mono)

lemma taylor_ge: "saturating_add out accum \<le> taylor_loop n d out accum i"
proof (induction n d out accum i rule: taylor_loop.induct)
  case (1 n d out accum i)
  let ?out = "saturating_add out accum"
  let ?next = "checked_div (saturating_mul accum (ucast n)) (ucast d * i)"
  show ?case
  proof (cases "\<exists>v. ?next = Some v \<and> 0 < v \<and> \<not> 100 < i + 1")
    case True
    then obtain v where v: "?next = Some v" "0 < v" "\<not> 100 < i + 1" by blast
    from 1 [OF refl refl v(1,2) refl v(3)] have "saturating_add ?out v \<le> taylor_loop n d out accum i"
      using v by (subst taylor_loop.simps) (simp add: Let_def)
    with saturating_add_ge show ?thesis by (rule order_trans)
  next
    case False
    then show ?thesis by (subst taylor_loop.simps) (auto simp: Let_def split: option.splits)
  qed
qed

lemma taylor_mono:
  "n \<le> n' \<Longrightarrow> out \<le> out' \<Longrightarrow> accum \<le> accum' \<Longrightarrow>
     taylor_loop n d out accum i \<le> taylor_loop n' d out' accum' i"
proof (induction n d out accum i arbitrary: out' accum' rule: taylor_loop.induct)
  case (1 n d out accum i)
  let ?out = "saturating_add out accum" and ?out' = "saturating_add out' accum'"
  let ?next = "checked_div (saturating_mul accum (ucast n)) (ucast d * i)"
  let ?next' = "checked_div (saturating_mul accum' (ucast n')) (ucast d * i)"
  have out: "?out \<le> ?out'" using 1(3,4) by (rule saturating_mono)
  show ?case
  proof (cases "\<exists>v. ?next = Some v \<and> 0 < v \<and> \<not> 100 < i + 1")
    case True
    then obtain v where v: "?next = Some v" "0 < v" "\<not> 100 < i + 1" by blast
    then have d: "ucast d * i \<noteq> 0" and "v = saturating_mul accum (ucast n) div (ucast d * i)"
      by (auto simp: checked_div_def split: if_splits)
    then obtain v' where v': "?next' = Some v'" "v \<le> v'"
      using saturating_mono(2) [OF 1(4) ucast_u64_mono [OF 1(2)]]
      by (auto simp: checked_div_def intro: word_div_mono)
    have "0 < v'" using v(2) v'(2) by (rule less_le_trans)
    with 1(1) [OF refl refl v(1,2) refl v(3) 1(2) out v'(2)] v v' show ?thesis
      by (subst (1 2) taylor_loop.simps) (simp add: Let_def)
  next
    case False
    then have "taylor_loop n d out accum i = ?out"
      by (subst taylor_loop.simps) (auto simp: Let_def split: option.splits)
    with out taylor_ge show ?thesis by (metis order_trans)
  qed
qed

text \<open>
  The blob fee never falls when the excess blob gas rises, and is at least the minimum of
  1 wei. This holds for every \<^verbatim>\<open>u64\<close> excess, also where the series saturates or is cut off
  after 100 terms.
\<close>

theorem blob_fee_monotone:
  assumes "excess \<le> excess'"
  shows "calc_blob_fee excess \<le> calc_blob_fee excess' \<and> MIN_BLOB_GASPRICE \<le> calc_blob_fee excess"
proof
  have mono: "calc_blob_fee a \<le> calc_blob_fee b" if "a \<le> b" for a b
    unfolding calc_blob_fee_def fake_exponential_def
    by (intro word_div_mono taylor_mono that order_refl)
  then show "calc_blob_fee excess \<le> calc_blob_fee excess'" using assms by blast
  have "calc_blob_fee 0 = 1"
    by (simp add: calc_blob_fee_def fake_exponential_def MIN_BLOB_GASPRICE_def
        BLOB_GASPRICE_UPDATE_FRACTION_def taylor_loop.simps saturating_mul_def saturating_add_def checked_div_def)
  with mono [of 0 excess] show "MIN_BLOB_GASPRICE \<le> calc_blob_fee excess"
    by (simp add: MIN_BLOB_GASPRICE_def)
qed

theorem blob_fee_monotone_witness: "calc_blob_fee 0 \<le> calc_blob_fee 3338477"
  using blob_fee_monotone [of 0 3338477] by simp

end
