(* ===== verification/Blob_Fee.thy ===== *)
theory Blob_Fee
  imports Tx_Gas
begin

text \<open>
  The blob fee against its specification. EIP-4844 defines \<open>fake_exponential\<close> on unbounded
  integers, with a loop that runs until a term is zero. The code works in \<^verbatim>\<open>u128\<close> with
  saturating operations and stops after 100 terms. Up to an excess of 32 update fractions the
  two agree: the terms stay below \<open>2 ^ 65\<close>, so nothing saturates, and the 100th is zero, so the
  cut-off changes nothing.
\<close>

section \<open>The specification\<close>

partial_function (option) eip_loop :: "nat \<Rightarrow> nat \<Rightarrow> nat \<Rightarrow> nat \<Rightarrow> nat \<Rightarrow> nat option" where
  "eip_loop numerator denominator output accum i =
     (if 0 < accum
      then eip_loop numerator denominator (output + accum)
             (accum * numerator div (denominator * i)) (i + 1)
      else Some output)"

declare eip_loop.simps [simp del]

definition eip_fake_exponential :: "nat \<Rightarrow> nat \<Rightarrow> nat \<Rightarrow> nat option" where
  "eip_fake_exponential factor numerator denominator =
     map_option (\<lambda>output. output div denominator)
       (eip_loop numerator denominator 0 (factor * denominator) 1)"

section \<open>The terms\<close>

primrec taylor_term :: "nat \<Rightarrow> nat \<Rightarrow> nat \<Rightarrow> nat" where
  "taylor_term n d 0 = d"
| "taylor_term n d (Suc j) = taylor_term n d j * n div (d * Suc j)"

lemma taylor_term_bound:
  assumes "0 < d" and "n \<le> x * d"
  shows "taylor_term n d j * fact j \<le> d * x ^ j"
proof (induction j)
  case 0
  then show ?case by simp
next
  case (Suc j)
  let ?t = "taylor_term n d j"
  have "(?t * n div (d * Suc j)) * (d * Suc j) \<le> ?t * (x * d)"
    using div_times_less_eq_dividend [of "?t * n" "d * Suc j"] assms(2)
    by (meson mult_le_mono2 order_trans)
  then have "(?t * n div (d * Suc j)) * Suc j * d \<le> ?t * x * d"
    by (simp only: mult.assoc mult.commute mult.left_commute)
  then have "(?t * n div (d * Suc j)) * Suc j \<le> ?t * x" using assms(1) by (simp only: mult_le_cancel2)
  then have "(?t * n div (d * Suc j)) * Suc j * fact j \<le> ?t * x * fact j" by (rule mult_le_mono1)
  also have "\<dots> = (?t * fact j) * x" by simp
  also have "\<dots> \<le> (d * x ^ j) * x" using Suc by (rule mult_le_mono1)
  finally show ?case by (simp only: taylor_term.simps fact_Suc of_nat_id power_Suc2 mult.assoc)
qed

text \<open>The largest value of \<open>32 ^ j / j!\<close>, at \<open>j = 32\<close>, is below \<open>6 * 10 ^ 12\<close>.\<close>

lemma pow_32_bound: "32 ^ j \<le> (6000000000000 * fact j :: nat)"
proof (cases "j \<le> 32")
  case True
  then show ?thesis
  proof (induction j rule: inc_induct)
    case base
    then show ?case by (simp add: fact_numeral)
  next
    case (step j)
    have "32 * 32 ^ j \<le> (Suc j * (6000000000000 * fact j) :: nat)" using step.IH by (simp add: algebra_simps)
    also have "\<dots> \<le> 32 * (6000000000000 * fact j)" using step.hyps by (intro mult_le_mono1) simp
    finally show ?case by simp
  qed
next
  case False
  then have "32 \<le> j" by simp
  then show ?thesis
  proof (induction j rule: dec_induct)
    case base
    then show ?case by (simp add: fact_numeral)
  next
    case (step j)
    have "32 ^ Suc j \<le> (32 * (6000000000000 * fact j) :: nat)" using step.IH by simp
    also have "\<dots> \<le> Suc j * (6000000000000 * fact j)" using step.hyps by (intro mult_le_mono1) simp
    finally show ?case by simp
  qed
qed

text \<open>The terms of an excess of at most 32 fractions.\<close>

abbreviation fraction :: nat where "fraction \<equiv> 3338477"

lemma terms_small: "n \<le> 32 * fraction \<Longrightarrow> taylor_term n fraction j \<le> 6000000000000 * fraction"
proof -
  assume "n \<le> 32 * fraction"
  then have "taylor_term n fraction j * fact j \<le> fraction * 32 ^ j" by (intro taylor_term_bound) simp_all
  also have "\<dots> \<le> (6000000000000 * fraction) * fact j" using pow_32_bound [of j] by simp
  finally show ?thesis by simp
qed

lemma fact_99: "fraction * 32 ^ 99 < (fact 99 :: nat)"
  by (simp add: fact_numeral)

lemma term_99: "n \<le> 32 * fraction \<Longrightarrow> taylor_term n fraction 99 = 0"
proof -
  assume "n \<le> 32 * fraction"
  then have "taylor_term n fraction 99 * fact 99 \<le> fraction * 32 ^ 99" by (intro taylor_term_bound) simp_all
  from le_less_trans [OF this fact_99] have "taylor_term n fraction 99 * fact 99 < fact 99" .
  then show ?thesis by simp
qed

lemma terms_stop: "taylor_term n d j = 0 \<Longrightarrow> j \<le> k \<Longrightarrow> taylor_term n d k = 0"
  by (rule dec_induct [of j k "\<lambda>k. taylor_term n d k = 0"]) simp_all

section \<open>The code follows the specification\<close>

text \<open>One iteration where nothing saturates.\<close>

lemma taylor_loop_step:
  assumes "unat out + unat accum < 2 ^ 128" and "unat accum * unat n < 2 ^ 128"
    and "unat d * unat i < 2 ^ 128" and "0 < unat d" and "0 < unat i" and "unat i \<le> 100"
  shows "\<exists>out' accum' i'. unat out' = unat out + unat accum
    \<and> unat accum' = unat accum * unat n div (unat d * unat i) \<and> unat i' = unat i + 1
    \<and> taylor_loop n d out accum i
        = (if 0 < unat accum' \<and> unat i < 100 then taylor_loop n d out' accum' i' else out')"
proof -
  let ?out = "saturating_add out accum" and ?i = "i + 1"
  let ?accum = "saturating_mul accum (ucast n) div (ucast d * i)"
  have u: "unat (ucast n :: u128) = unat n" "unat (ucast d :: u128) = unat d"
    using unsigned_less [of n, where ?'a = nat] unsigned_less [of d, where ?'a = nat]
    by (simp_all add: unat_ucast_mod)
  have out: "unat ?out = unat out + unat accum" using assms(1) by (simp add: unat_saturating_add)
  have den: "unat (ucast d * i) = unat d * unat i" using assms(3) by (simp add: unat_word_ariths u)
  have accum: "unat ?accum = unat accum * unat n div (unat d * unat i)"
    using assms(2) by (simp add: unat_div unat_saturating_mul den u)
  have i: "unat ?i = unat i + 1" using assms(6) by (simp add: unat_word_ariths)
  have nz: "ucast d * i \<noteq> 0" using den assms(4,5) by (metis mult_is_0 not_less_zero unat_0)
  have "taylor_loop n d out accum i
      = (if 0 < unat ?accum \<and> unat i < 100 then taylor_loop n d ?out ?accum ?i else ?out)"
    using i by (subst taylor_loop.simps) (simp add: Let_def checked_div_Some [OF nz] word_less_nat_alt)
  with out accum i show ?thesis by blast
qed

lemma taylor_loop_follows:
  assumes "n \<le> 32 * fraction"
    and "unat (num :: u64) = n" and "unat (den :: u64) = fraction"
  shows "\<lbrakk>unat i = Suc j; j < 100; unat accum = taylor_term n fraction j;
      unat out \<le> j * (6000000000000 * fraction); 0 < unat accum\<rbrakk>
    \<Longrightarrow> eip_loop n fraction (unat out) (unat accum) (Suc j) = Some (unat (taylor_loop num den out accum i))"
proof (induction "100 - j" arbitrary: j i accum out)
  case 0
  then show ?case by simp
next
  case (Suc m)
  let ?B = "6000000000000 * fraction"
  have acc: "unat accum \<le> ?B" using terms_small [OF assms(1)] Suc.prems(3) by simp
  have "unat out + unat accum \<le> Suc j * ?B" using acc Suc.prems(4) by simp
  moreover have "\<dots> \<le> 100 * ?B" using Suc.prems(2) by (intro mult_le_mono1) simp
  moreover have "unat accum * n \<le> ?B * (32 * fraction)" using acc assms(1) by (rule mult_le_mono)
  ultimately obtain out' accum' i' where
    step: "unat out' = unat out + unat accum" "unat accum' = unat accum * n div (fraction * Suc j)"
      "unat i' = Suc (Suc j)"
    and loop: "taylor_loop num den out accum i
        = (if 0 < unat accum' \<and> Suc j < 100 then taylor_loop num den out' accum' i' else out')"
    using taylor_loop_step [of out accum num den i] assms(2,3) Suc.prems(1,2) by auto
  have accum': "unat accum' = taylor_term n fraction (Suc j)" using step(2) Suc.prems(3) by simp
  have unfold: "eip_loop n fraction (unat out) (unat accum) (Suc j)
      = eip_loop n fraction (unat out') (unat accum') (Suc (Suc j))"
    using Suc.prems(5) step by (subst eip_loop.simps) simp
  show ?case
  proof (cases "0 < unat accum'")
    case True
    have "Suc j < 100"
    proof (rule ccontr)
      assume "\<not> Suc j < 100"
      then have "unat accum' = 0" using accum' terms_stop [OF term_99 [OF assms(1)], of "Suc j"] by simp
      with True show False by simp
    qed
    moreover have "unat out' \<le> Suc j * ?B" using step(1) acc Suc.prems(4) by simp
    ultimately show ?thesis
      using Suc.hyps(1) [of "Suc j" i' accum' out'] Suc.hyps(2) step(3) accum' True loop unfold by simp
  next
    case False
    then show ?thesis using loop unfold by (simp add: eip_loop.simps)
  qed
qed

text \<open>
  C37: the blob fee is EIP-4844's. For every excess of up to 32 update fractions the function
  of the code, with its 128-bit saturating arithmetic and its limit of 100 terms, returns
  exactly what the specification's unbounded loop returns; in particular that loop ends.
\<close>

theorem blob_fee_is_eip4844:
  assumes "unat excess \<le> 32 * 3338477"
  shows "eip_fake_exponential 1 (unat excess) 3338477 = Some (unat (calc_blob_fee excess))"
proof -
  have den: "unat BLOB_GASPRICE_UPDATE_FRACTION = fraction"
    by (simp add: BLOB_GASPRICE_UPDATE_FRACTION_def)
  have start: "saturating_mul MIN_BLOB_GASPRICE (ucast BLOB_GASPRICE_UPDATE_FRACTION) = 3338477"
    by (simp add: MIN_BLOB_GASPRICE_def BLOB_GASPRICE_UPDATE_FRACTION_def saturating_mul_def)
  have "eip_loop (unat excess) fraction 0 fraction 1
      = Some (unat (taylor_loop excess BLOB_GASPRICE_UPDATE_FRACTION 0 3338477 1))"
    using taylor_loop_follows [OF assms refl den, of 1 0 3338477 0] by simp
  then show ?thesis
    unfolding eip_fake_exponential_def calc_blob_fee_def fake_exponential_def start
    by (simp add: unat_div BLOB_GASPRICE_UPDATE_FRACTION_def)
qed


text \<open>Evaluating the loop, one term at a time.\<close>

lemma taylor_loop_more:
  "\<lbrakk>ucast d * i \<noteq> 0; saturating_mul accum (ucast n) div (ucast d * i) \<noteq> 0; i + 1 \<le> 100\<rbrakk> \<Longrightarrow>
     taylor_loop n d out accum i
       = taylor_loop n d (saturating_add out accum) (saturating_mul accum (ucast n) div (ucast d * i)) (i + 1)"
  by (subst taylor_loop.simps) (simp add: checked_div_Some word_neq_0_conv leD)

lemma taylor_loop_end:
  "\<lbrakk>ucast d * i \<noteq> 0; saturating_mul accum (ucast n) div (ucast d * i) = 0\<rbrakk> \<Longrightarrow>
     taylor_loop n d out accum i = saturating_add out accum"
  by (subst taylor_loop.simps) (simp add: checked_div_Some)

text \<open>At an excess of ten fractions the fee is \<open>e ^ 10\<close> wei, not the \<open>1 + 10\<close> of the comment.\<close>

lemma blob_fee_of_ten: "calc_blob_fee 33384770 = 22026"
  by (simp add: calc_blob_fee_def fake_exponential_def MIN_BLOB_GASPRICE_def
      BLOB_GASPRICE_UPDATE_FRACTION_def taylor_loop_more taylor_loop_end saturating_mul_def saturating_add_def)

theorem blob_fee_is_eip4844_witness:
  "eip_fake_exponential 1 33384770 3338477 = Some 22026"
  using blob_fee_is_eip4844 [of 33384770] by (simp add: blob_fee_of_ten)

end
