(* ===== verification/Tx_Manager.thy ===== *)
theory Tx_Manager
  imports Tx_Gas
begin

text \<open>
  The rest of the transaction manager (\<^verbatim>\<open>crates/consensus/txmgr\<close>): transaction candidates
  and receipts, the request builder, the nonce tracker, the state of a send, the submitter and
  the receipt monitor. The L1 provider is a parameter: each of its calls is a function or the
  sequence of its answers.
\<close>

section \<open>Candidates and receipts\<close>

text \<open>A blob sidecar is opaque: \<open>'sc\<close>.\<close>

record 'sc tx_candidate =
  cand_to :: bytes
  cand_value :: u256
  cand_data :: bytes
  cand_sidecar :: "'sc option"
  cand_gas_limit :: "u64 option"

definition calldata :: "bytes \<Rightarrow> bytes \<Rightarrow> 'sc tx_candidate" where
  "calldata to data =
     \<lparr>cand_to = to, cand_value = 0, cand_data = data, cand_sidecar = None, cand_gas_limit = None\<rparr>"

definition blob :: "bytes \<Rightarrow> 'sc \<Rightarrow> 'sc tx_candidate" where
  "blob to sidecar =
     \<lparr>cand_to = to, cand_value = 0, cand_data = [], cand_sidecar = Some sidecar, cand_gas_limit = None\<rparr>"

definition is_blob :: "'sc tx_candidate \<Rightarrow> bool" where
  "is_blob c = (cand_sidecar c \<noteq> None)"

definition with_value :: "u256 \<Rightarrow> 'sc tx_candidate \<Rightarrow> 'sc tx_candidate" where
  "with_value v c = c\<lparr>cand_value := v\<rparr>"

definition with_gas_limit :: "u64 \<Rightarrow> 'sc tx_candidate \<Rightarrow> 'sc tx_candidate" where
  "with_gas_limit g c = c\<lparr>cand_gas_limit := Some g\<rparr>"

record tx_receipt =
  rcpt_tx_hash :: bytes
  rcpt_block_number :: u64
  rcpt_block_hash :: bytes
  rcpt_gas_used :: u64
  rcpt_effective_gas_price :: u128
  rcpt_blob_gas_used :: "u64 option"
  rcpt_blob_gas_price :: "u128 option"

definition total_cost :: "tx_receipt \<Rightarrow> u128" where
  "total_cost r =
     (let base_cost = ucast (rcpt_gas_used r) * rcpt_effective_gas_price r;
          blob_cost = (case (rcpt_blob_gas_used r, rcpt_blob_gas_price r) of
              (Some used, Some price) \<Rightarrow> ucast used * price
            | _ \<Rightarrow> 0)
      in base_cost + blob_cost)"

lemma total_cost_exact:
  assumes "unat (rcpt_gas_used r) * unat (rcpt_effective_gas_price r) < 2 ^ 127"
    and "rcpt_blob_gas_used r = Some used" and "rcpt_blob_gas_price r = Some price"
    and "unat used * unat price < 2 ^ 127"
  shows "unat (total_cost r)
    = unat (rcpt_gas_used r) * unat (rcpt_effective_gas_price r) + unat used * unat price"
proof -
  have "unat (ucast g :: u128) = unat g" for g :: u64
    using unsigned_less [of g, where ?'a = nat] by (simp add: unat_ucast_mod)
  with assms show ?thesis by (simp add: total_cost_def unat_word_ariths)
qed

section \<open>The request builder\<close>

text \<open>
  A request is alloy's; what the source does to it is the list of settings it applies, in
  order. \<open>None\<close>: a fee cap that does not fit \<^verbatim>\<open>u128\<close> panics.
\<close>

datatype 'sc request_setting =
    With_To bytes | With_Value u256 | With_Input bytes | With_Nonce u64 | With_Chain_Id u64
  | With_From bytes | With_Max_Fee_Per_Gas u128 | With_Max_Priority_Fee_Per_Gas u128
  | With_Gas_Limit u64 | With_Blob_Sidecar 'sc | With_Max_Fee_Per_Blob_Gas u128

definition build_request :: "u64 \<Rightarrow> 'sc tx_candidate \<Rightarrow> u64 \<Rightarrow> gas_caps \<Rightarrow> bytes
    \<Rightarrow> (tx_error + 'sc request_setting list) option" where
  "build_request chain_id c nonce caps from =
     (case (max_fee_per_gas caps, max_priority_fee_per_gas caps) of
        (Some max_fee, Some tip) \<Rightarrow>
          (let request = [With_To (cand_to c), With_Value (cand_value c), With_Input (cand_data c),
                 With_Nonce nonce, With_Chain_Id chain_id, With_From from,
                 With_Max_Fee_Per_Gas max_fee, With_Max_Priority_Fee_Per_Gas tip];
               request = (case cand_gas_limit c of
                   Some g \<Rightarrow> request @ [With_Gas_Limit g] | None \<Rightarrow> request)
           in case cand_sidecar c of
                None \<Rightarrow> Some (Inr request)
              | Some sidecar \<Rightarrow>
                  (let request = request @ [With_Blob_Sidecar sidecar] in
                   case blob_fee_cap caps of
                     None \<Rightarrow> Some (Inr request)
                   | Some cap \<Rightarrow>
                       map_option (\<lambda>fee. Inr (request @ [With_Max_Fee_Per_Blob_Gas fee])) (to_u128 cap)))
      | _ \<Rightarrow> None)"

definition estimate_gas :: "('r \<Rightarrow> string + u64) \<Rightarrow> 'r \<Rightarrow> tx_error + u64" where
  "estimate_gas provider request = map_err GasEstimation (provider request)"

text \<open>Requests built from caps that were made by the constructor never panic.\<close>

lemma build_request_total:
  assumes "unat max_fee < 2 ^ 64" and "unat tip < 2 ^ 64"
    and "build_request chain_id c nonce (gas_caps_new max_fee tip blob_fee) from = Some r"
  shows "\<exists>request. r = Inr request \<and> With_Nonce nonce \<in> set request
    \<and> With_Max_Fee_Per_Gas max_fee \<in> set request
    \<and> (is_blob c \<longleftrightarrow> (\<exists>s. With_Blob_Sidecar s \<in> set request))"
  using assms(3) caps_roundtrip [OF assms(1,2)]
  by (auto simp: build_request_def is_blob_def Let_def split: option.splits)

section \<open>The nonce tracker\<close>

type_synonym nonce_tracker = "u64 option"

definition tracker_new :: nonce_tracker where "tracker_new = None"

text \<open>
  \<^verbatim>\<open>next_nonce\<close> holds the write lock from beginning to end; \<open>chain\<close> is the provider's answer,
  read only when nothing is cached.
\<close>

definition next_nonce :: "string + u64 \<Rightarrow> nonce_tracker \<Rightarrow> (tx_error + u64) \<times> nonce_tracker" where
  "next_nonce chain t =
     (case (case t of
              Some n \<Rightarrow> Inr n
            | None \<Rightarrow> map_err (\<lambda>e. Rpc (''Failed to fetch nonce: '' @ e)) chain) of
        Inl e \<Rightarrow> (Inl e, t)
      | Inr current \<Rightarrow> (Inr current, Some (current + 1)))"

text \<open>\<^verbatim>\<open>reset\<close> asks the provider first and takes the lock afterwards: two steps.\<close>

definition reset_fetch :: "string + u64 \<Rightarrow> tx_error + u64" where
  "reset_fetch chain = map_err (\<lambda>e. Rpc (''Failed to reset nonce: '' @ e)) chain"

definition reset_store :: "u64 \<Rightarrow> nonce_tracker \<Rightarrow> nonce_tracker" where
  "reset_store chain_nonce t = Some chain_nonce"

definition reset :: "string + u64 \<Rightarrow> nonce_tracker \<Rightarrow> (tx_error + unit) \<times> nonce_tracker" where
  "reset chain t =
     (case reset_fetch chain of
        Inl e \<Rightarrow> (Inl e, t)
      | Inr n \<Rightarrow> (Inr (), reset_store n t))"

definition current_nonce :: "nonce_tracker \<Rightarrow> u64 option" where
  "current_nonce t = t"

text \<open>A sequence of calls, with what the provider would answer to each.\<close>

fun next_nonces :: "(string + u64) list \<Rightarrow> nonce_tracker \<Rightarrow> (tx_error + u64) list \<times> nonce_tracker" where
  "next_nonces [] t = ([], t)"
| "next_nonces (c # cs) t =
     (case next_nonce c t of (r, t) \<Rightarrow> (case next_nonces cs t of (rs, t) \<Rightarrow> (r # rs, t)))"

lemma next_nonces_cached:
  "next_nonces cs (Some n)
     = (map (\<lambda>i. Inr (n + of_nat i)) [0..<length cs], Some (n + of_nat (length cs)))"
proof (induction cs arbitrary: n)
  case Nil
  then show ?case by simp
next
  case (Cons c cs)
  have "map (\<lambda>i. Inr (n + of_nat i)) [0..<length (c # cs)]
      = (Inr n :: tx_error + u64) # map (\<lambda>i. Inr (n + 1 + of_nat i)) [0..<length cs]"
    by (simp add: upt_conv_Cons map_Suc_upt [symmetric] add.assoc del: upt_Suc)
  with Cons show ?case by (simp add: next_nonce_def add.assoc)
qed

lemma next_nonces_append:
  "next_nonces (as @ bs) t =
     (case next_nonces as t of (rs, u) \<Rightarrow> (case next_nonces bs u of (qs, v) \<Rightarrow> (rs @ qs, v)))"
  by (induction as arbitrary: t) (auto split: prod.splits)

lemma next_nonces_errors:
  "list_all (\<lambda>c. \<not> is_ok c) cs \<Longrightarrow>
     \<exists>es. next_nonces cs None = (map Inl es, None) \<and> length es = length cs"
proof (induction cs)
  case Nil
  then show ?case by simp
next
  case (Cons c cs)
  then obtain es e where "next_nonces cs None = (map Inl es, None)" "length es = length cs" "c = Inl e"
    by (cases c) auto
  then have "next_nonces (c # cs) None = (map Inl (Rpc (''Failed to fetch nonce: '' @ e) # es), None)"
    by (simp add: next_nonce_def)
  then show ?case using \<open>length es = length cs\<close> by (metis length_Cons)
qed

text \<open>
  Nonces are handed out without gaps and without repetition. Of any sequence of
  \<^verbatim>\<open>next_nonce\<close> calls on a new tracker, those before the provider first answers fail and change
  nothing; that answer is the first nonce, and every later call gives the next number, whatever
  the provider would say. Fewer than \<open>2 ^ 64\<close> calls never give the same nonce twice.
\<close>

theorem nonces_consecutive:
  assumes "list_all (\<lambda>c. \<not> is_ok c) failing" and "length answers < 2 ^ 64"
  shows "\<exists>es. fst (next_nonces (failing @ Inr n # answers) tracker_new)
        = map Inl es @ map (\<lambda>i. Inr (n + of_nat i)) [0..<Suc (length answers)]
      \<and> length es = length failing
      \<and> distinct (map (\<lambda>i. n + of_nat i) [0..<Suc (length answers)])"
proof -
  obtain es where es: "next_nonces failing None = (map Inl es, None)" "length es = length failing"
    using next_nonces_errors [OF assms(1)] by blast
  have first: "next_nonces (Inr n # answers) None = next_nonces (Inr n # answers) (Some n)"
    by (simp add: next_nonce_def)
  have "inj_on (\<lambda>i. n + of_nat i) {0..<Suc (length answers)}"
  proof (rule inj_onI)
    fix i j
    assume ij: "i \<in> {0..<Suc (length answers)}" "j \<in> {0..<Suc (length answers)}"
      and "n + word_of_nat i = n + word_of_nat j"
    then have "unat (word_of_nat i :: u64) = unat (word_of_nat j :: u64)" by simp
    with ij assms(2) show "i = j" by (simp add: unat_of_nat take_bit_eq_mod)
  qed
  then have "distinct (map (\<lambda>i. n + of_nat i) [0..<Suc (length answers)])"
    by (simp add: distinct_map del: upt_Suc)
  moreover have "fst (next_nonces (failing @ Inr n # answers) tracker_new)
      = map Inl es @ map (\<lambda>i. Inr (n + of_nat i)) [0..<Suc (length answers)]"
    unfolding next_nonces_append tracker_new_def es(1) prod.case first
    by (simp only: next_nonces_cached prod.case fst_conv length_Cons)
  ultimately show ?thesis using es(2) by blast
qed

theorem nonces_consecutive_witness:
  "\<exists>es. fst (next_nonces [Inl ''timeout'', Inr 7, Inr 0] tracker_new) = map Inl es @ [Inr 7, Inr 8]"
proof -
  obtain es where "fst (next_nonces ([Inl ''timeout''] @ Inr 7 # [Inr 0]) tracker_new)
      = map Inl es @ map (\<lambda>i. Inr (7 + of_nat i)) [0..<Suc (length [Inr 0 :: string + u64])]"
    using nonces_consecutive [of "[Inl ''timeout'']" "[Inr 0]" 7] by auto
  then show ?thesis by auto
qed

text \<open>
  A reset that overlaps with \<^verbatim>\<open>next_nonce\<close> gives out a nonce twice. If the call falls
  between the reset's question to the provider and its lock, and the tracker was in step with
  the chain, the next call returns the same nonce again.
\<close>

theorem overlapping_reset_repeats:
  "reset_fetch (Inr n) = Inr n
   \<and> (case next_nonce c (Some n) of (first, t) \<Rightarrow>
        (case next_nonce c' (reset_store n t) of (second, _) \<Rightarrow> first = Inr n \<and> second = first))"
  by (simp add: reset_fetch_def next_nonce_def reset_store_def)

section \<open>The state of a send\<close>

record send_state =
  mined_txs :: "bytes set"
  successful_publish_count :: u32
  nonce_too_low_count :: u32
  already_reserved :: bool
  bump_fees :: bool
  bump_count :: u32

definition send_state_new :: send_state where
  "send_state_new =
     \<lparr>mined_txs = {}, successful_publish_count = 0, nonce_too_low_count = 0,
      already_reserved = False, bump_fees = False, bump_count = 0\<rparr>"

definition tx_published :: "send_state \<Rightarrow> send_state" where
  "tx_published s = s\<lparr>successful_publish_count := successful_publish_count s + 1\<rparr>"

definition tx_mined :: "bytes \<Rightarrow> send_state \<Rightarrow> send_state" where
  "tx_mined h s = s\<lparr>mined_txs := insert h (mined_txs s)\<rparr>"

definition tx_not_mined :: "bytes \<Rightarrow> send_state \<Rightarrow> send_state" where
  "tx_not_mined h s =
     (let s = s\<lparr>mined_txs := mined_txs s - {h}\<rparr>
      in if mined_txs s = {} then s\<lparr>nonce_too_low_count := 0\<rparr> else s)"

definition nonce_too_low :: "send_state \<Rightarrow> send_state" where
  "nonce_too_low s = s\<lparr>nonce_too_low_count := nonce_too_low_count s + 1\<rparr>"

definition should_abort_nonce :: "u32 \<Rightarrow> send_state \<Rightarrow> bool" where
  "should_abort_nonce threshold s = (0 < threshold \<and> threshold \<le> nonce_too_low_count s)"

definition was_published :: "send_state \<Rightarrow> bool" where
  "was_published s = (0 < successful_publish_count s)"

definition set_bump_fees :: "send_state \<Rightarrow> send_state" where
  "set_bump_fees s = s\<lparr>bump_fees := True, bump_count := bump_count s + 1\<rparr>"

definition take_bump_fees :: "send_state \<Rightarrow> bool \<times> send_state" where
  "take_bump_fees s = (bump_fees s, s\<lparr>bump_fees := False\<rparr>)"

definition mined_count :: "send_state \<Rightarrow> usize" where
  "mined_count s = card (mined_txs s)"

lemmas send_state_defs = send_state_new_def tx_published_def tx_mined_def tx_not_mined_def
  nonce_too_low_def set_bump_fees_def take_bump_fees_def

section \<open>The submitter\<close>

definition classify_error :: "string \<Rightarrow> tx_error" where
  "classify_error msg = from_rpc_error msg"

definition should_abort :: "tx_manager_config \<Rightarrow> tx_error \<Rightarrow> send_state \<Rightarrow> bool" where
  "should_abort cfg e s =
     (case e of
        AlreadyReserved \<Rightarrow> True
      | InsufficientFunds \<Rightarrow> True
      | NonceTooLowAbort \<Rightarrow> True
      | NonceTooLow \<Rightarrow> should_abort_nonce (tx_safe_abort_nonce_too_low_count cfg) s
      | _ \<Rightarrow> False)"

definition publish :: "(bytes \<Rightarrow> string + bytes) \<Rightarrow> bytes \<Rightarrow> tx_error + bytes" where
  "publish send_raw raw_tx =
     map_err (\<lambda>msg. if str_contains (to_lowercase msg) ''already known'' then AlreadyReserved
                    else from_rpc_error msg) (send_raw raw_tx)"

text \<open>Runs of the events of a send, as the record of what the provider reported.\<close>

datatype send_event = Published | Mined bytes | NotMined bytes | TooLow | Bump

fun send_step :: "send_event \<Rightarrow> send_state \<Rightarrow> send_state" where
  "send_step Published s = tx_published s"
| "send_step (Mined h) s = tx_mined h s"
| "send_step (NotMined h) s = tx_not_mined h s"
| "send_step TooLow s = nonce_too_low s"
| "send_step Bump s = set_bump_fees s"

text \<open>
  The abstract count: how often the nonce was too low since a reorganisation last left no
  transaction mined.
\<close>

fun mined_after :: "send_event list \<Rightarrow> bytes set" where
  "mined_after [] = {}"
| "mined_after (Mined h # es) = insert h (mined_after es)"
| "mined_after (NotMined h # es) = mined_after es - {h}"
| "mined_after (_ # es) = mined_after es"

fun too_low_after :: "send_event list \<Rightarrow> nat" where
  "too_low_after [] = 0"
| "too_low_after (TooLow # es) = Suc (too_low_after es)"
| "too_low_after (NotMined h # es) = (if mined_after es - {h} = {} then 0 else too_low_after es)"
| "too_low_after (_ # es) = too_low_after es"

lemma too_low_after_le: "too_low_after es \<le> length es"
  by (induction es rule: too_low_after.induct) (auto intro: le_SucI)

text \<open>\<open>es\<close> lists the events latest first; \<open>foldr\<close> runs them from the earliest.\<close>

lemma send_state_refines:
  assumes "length es < 2 ^ 32"
  shows "mined_txs (foldr send_step es send_state_new) = mined_after es
    \<and> unat (nonce_too_low_count (foldr send_step es send_state_new)) = too_low_after es"
  using assms
proof (induction es)
  case Nil
  then show ?case by (simp add: send_state_new_def)
next
  case (Cons e es)
  then have IH: "mined_txs (foldr send_step es send_state_new) = mined_after es"
    "unat (nonce_too_low_count (foldr send_step es send_state_new)) = too_low_after es" by simp_all
  have "Suc (too_low_after es) < 2 ^ 32" using too_low_after_le [of es] Cons.prems by simp
  with IH show ?case by (cases e) (simp_all add: send_state_defs Let_def unat_word_ariths)
qed

text \<open>
  When a failed publication ends the send. The submitter gives up exactly on these messages
  of the provider: a transaction it already knows or has reserved, missing funds, and a nonce
  that is too low once the count of such answers since the last reorganisation that left
  nothing mined has reached the configured threshold. A message is classified by the first of
  the tests of the code that it passes.
\<close>

theorem failed_publish_aborts_iff:
  assumes "send_raw raw_tx = Inl msg" and "length es < 2 ^ 32"
  shows "\<exists>e. publish send_raw raw_tx = Inl e
    \<and> (should_abort cfg e (foldr send_step es send_state_new) \<longleftrightarrow>
        str_contains (to_lowercase msg) ''already known''
        \<or> from_rpc_error msg \<in> {AlreadyReserved, InsufficientFunds}
        \<or> from_rpc_error msg = NonceTooLow \<and> 0 < tx_safe_abort_nonce_too_low_count cfg
            \<and> unat (tx_safe_abort_nonce_too_low_count cfg) \<le> too_low_after es)"
proof -
  have "from_rpc_error msg \<noteq> NonceTooLowAbort" by (simp add: from_rpc_error_def Let_def)
  moreover have "should_abort_nonce threshold (foldr send_step es send_state_new)
      \<longleftrightarrow> 0 < threshold \<and> unat threshold \<le> too_low_after es" for threshold
    using send_state_refines [OF assms(2)] by (simp add: should_abort_nonce_def word_le_nat_alt)
  ultimately show ?thesis
    using assms(1) by (cases "from_rpc_error msg") (simp_all add: publish_def should_abort_def)
qed

theorem failed_publish_aborts_iff_witness:
  "\<exists>e. publish (\<lambda>_. Inl ''Nonce too low'') [1] = Inl e
     \<and> should_abort tx_config_default e (foldr send_step [TooLow, TooLow, TooLow] send_state_new)"
proof -
  have "from_rpc_error ''Nonce too low'' = NonceTooLow"
    by code_simp
  moreover have "tx_safe_abort_nonce_too_low_count tx_config_default = 3"
    by (simp add: tx_config_default_def)
  ultimately show ?thesis
    using failed_publish_aborts_iff [of "\<lambda>_. Inl ''Nonce too low''" "[1]" "''Nonce too low''"
        "[TooLow, TooLow, TooLow]" tx_config_default] by auto
qed

text \<open>A transaction the pool already knows is an error that aborts, and no success.\<close>

lemma already_known_aborts:
  "send_raw raw_tx = Inl ''already known'' \<Longrightarrow> publish send_raw raw_tx = Inl AlreadyReserved"
  "should_abort cfg AlreadyReserved s"
  by (simp_all add: publish_def should_abort_def to_lowercase_def lower_char_def Let_def)

section \<open>The monitor\<close>

text \<open>What the monitor reads of the provider's receipt.\<close>

record l1_receipt =
  r_status :: bool
  r_transaction_hash :: bytes
  r_block_number :: "u64 option"
  r_block_hash :: "bytes option"
  r_gas_used :: u64
  r_effective_gas_price :: u128
  r_blob_gas_used :: "u64 option"
  r_blob_gas_price :: "u128 option"

definition get_receipt :: "string + l1_receipt option \<Rightarrow> tx_error + tx_receipt option" where
  "get_receipt answer =
     rbind (map_err Rpc answer) (\<lambda>found.
       case found of
         None \<Rightarrow> Inr None
       | Some r \<Rightarrow>
           if \<not> r_status r then Inl Reverted
           else
             rbind (ok_or (r_block_number r) (Rpc ''Receipt missing block number'')) (\<lambda>number.
             rbind (ok_or (r_block_hash r) (Rpc ''Receipt missing block hash'')) (\<lambda>hash.
               Inr (Some \<lparr>rcpt_tx_hash = r_transaction_hash r, rcpt_block_number = number,
                 rcpt_block_hash = hash, rcpt_gas_used = r_gas_used r,
                 rcpt_effective_gas_price = r_effective_gas_price r,
                 rcpt_blob_gas_used = r_blob_gas_used r, rcpt_blob_gas_price = r_blob_gas_price r\<rparr>))))"

text \<open>The waiting loops, over the provider's successive answers; \<open>None\<close> while still waiting.\<close>

fun wait_for_receipt :: "(string + l1_receipt option) list \<Rightarrow> (tx_error + tx_receipt) option" where
  "wait_for_receipt [] = None"
| "wait_for_receipt (a # answers) =
     (case get_receipt a of
        Inl e \<Rightarrow> Some (Inl e)
      | Inr (Some r) \<Rightarrow> Some (Inr r)
      | Inr None \<Rightarrow> wait_for_receipt answers)"

definition is_confirmed :: "tx_manager_config \<Rightarrow> string + u64 \<Rightarrow> tx_receipt \<Rightarrow> tx_error + bool" where
  "is_confirmed cfg answer r =
     rbind (map_err Rpc answer) (\<lambda>current_block.
       if current_block < rcpt_block_number r then Inr False
       else Inr (tx_num_confirmations cfg \<le> current_block - rcpt_block_number r))"

fun wait_for_confirmations :: "tx_manager_config \<Rightarrow> tx_receipt \<Rightarrow> (string + u64) list
    \<Rightarrow> (tx_error + unit) option" where
  "wait_for_confirmations cfg r [] = None"
| "wait_for_confirmations cfg r (a # answers) =
     (case is_confirmed cfg a r of
        Inl e \<Rightarrow> Some (Inl e)
      | Inr True \<Rightarrow> Some (Inr ())
      | Inr False \<Rightarrow> wait_for_confirmations cfg r answers)"

lemma is_confirmed_iff:
  "is_confirmed cfg (Inr head) r
     = Inr (unat (rcpt_block_number r) + unat (tx_num_confirmations cfg) \<le> unat head)"
  by (auto simp: is_confirmed_def word_less_nat_alt word_le_nat_alt unat_sub)

text \<open>
  Waiting for confirmations returns at the first answer that settles it: an error of the
  provider, or a head at least the configured number of blocks above the receipt's block.
  While every head is lower it keeps waiting; heights are compared without wrap-around.
\<close>

theorem confirmations_settle:
  "wait_for_confirmations cfg r answers =
     map_option (\<lambda>a. case a of Inl e \<Rightarrow> Inl (Rpc e) | Inr _ \<Rightarrow> Inr ())
       (find (\<lambda>a. case a of Inl _ \<Rightarrow> True
          | Inr head \<Rightarrow> unat (rcpt_block_number r) + unat (tx_num_confirmations cfg) \<le> unat head) answers)"
proof (induction answers)
  case Nil
  then show ?case by simp
next
  case (Cons a answers)
  then show ?case
    by (cases a) (simp_all add: is_confirmed_iff, simp add: is_confirmed_def)
qed

end
