(* ===== verification/Batch_Runner.thy ===== *)
theory Batch_Runner
  imports Role
begin

text \<open>
  The stand-alone batch submitter (\<^verbatim>\<open>crates/consensus/batch-runner\<close>): configuration, errors,
  metrics and the \<^verbatim>\<open>BatchSubmissionRunner\<close>, whose loop reads blocks from a source, groups them
  and hands compressed batches to a sink.

  An iteration of the loop sees its surroundings through a \<open>runner_input\<close>: the answers of the
  block source and of the sink during the iteration. Serialisation and compression are
  parameters. The runner's record also keeps, as ghost fields, what the callback was told and
  every batch that the loop tried to submit.
\<close>

section \<open>Configuration and errors\<close>

record submission_config =
  sc_max_blocks_per_batch :: usize
  sc_target_batch_size :: usize
  sc_poll_interval_ms :: u64

definition submission_config_default :: submission_config where
  "submission_config_default =
     \<lparr>sc_max_blocks_per_batch = 10, sc_target_batch_size = 131072, sc_poll_interval_ms = 100\<rparr>"

record submission_config_builder =
  sb_max_blocks_per_batch :: usize
  sb_target_batch_size :: usize
  sb_poll_interval_ms :: u64

definition submission_builder :: submission_config_builder where
  "submission_builder =
     (let defaults = submission_config_default in
      \<lparr>sb_max_blocks_per_batch = sc_max_blocks_per_batch defaults,
       sb_target_batch_size = sc_target_batch_size defaults,
       sb_poll_interval_ms = sc_poll_interval_ms defaults\<rparr>)"

definition set_sb_max_blocks_per_batch :: "usize \<Rightarrow> submission_config_builder \<Rightarrow> submission_config_builder" where
  "set_sb_max_blocks_per_batch v b = b\<lparr>sb_max_blocks_per_batch := v\<rparr>"

definition set_sb_target_batch_size :: "usize \<Rightarrow> submission_config_builder \<Rightarrow> submission_config_builder" where
  "set_sb_target_batch_size v b = b\<lparr>sb_target_batch_size := v\<rparr>"

definition set_sb_poll_interval_ms :: "u64 \<Rightarrow> submission_config_builder \<Rightarrow> submission_config_builder" where
  "set_sb_poll_interval_ms v b = b\<lparr>sb_poll_interval_ms := v\<rparr>"

definition submission_config_build :: "submission_config_builder \<Rightarrow> submission_config" where
  "submission_config_build b =
     \<lparr>sc_max_blocks_per_batch = sb_max_blocks_per_batch b,
      sc_target_batch_size = sb_target_batch_size b,
      sc_poll_interval_ms = sb_poll_interval_ms b\<rparr>"

lemma submission_build_default: "submission_config_build submission_builder = submission_config_default"
  by (simp add: submission_config_build_def submission_builder_def submission_config_default_def)

datatype block_source_error = SrcBlockNotFound u64 | SrcConnectionError string | SrcRpcError string

text \<open>\<^verbatim>\<open>RpcBlockSource\<close>, over the answers of the provider.\<close>

definition rpc_source_block :: "(u64 \<Rightarrow> string + 'b option) \<Rightarrow> u64 \<Rightarrow> block_source_error + 'b" where
  "rpc_source_block provider n =
     (case provider n of
        Inl e \<Rightarrow> Inl (SrcRpcError (''Failed to fetch block: '' @ e))
      | Inr None \<Rightarrow> Inl (SrcBlockNotFound n)
      | Inr (Some b) \<Rightarrow> Inr b)"

definition rpc_source_head :: "string + u64 \<Rightarrow> block_source_error + u64" where
  "rpc_source_head answer = map_err (\<lambda>e. SrcRpcError (''Failed to get block number: '' @ e)) answer"

datatype submission_error =
    SubSourceError string
  | SubBlockNotFound u64
  | EncodingFailed string
  | SubCompressionFailed string
  | SinkError string

fun show_submission_error :: "submission_error \<Rightarrow> string" where
  "show_submission_error (SubSourceError m) = ''Block source error: '' @ m"
| "show_submission_error (SubBlockNotFound n) = ''Block not found: '' @ dec (unat n)"
| "show_submission_error (EncodingFailed m) = ''Encoding failed: '' @ m"
| "show_submission_error (SubCompressionFailed m) = ''Compression failed: '' @ m"
| "show_submission_error (SinkError m) = ''Batch sink error: '' @ m"

fun sub_is_retryable :: "submission_error \<Rightarrow> bool" where
  "sub_is_retryable (SubSourceError _) = True"
| "sub_is_retryable (SubBlockNotFound _) = True"
| "sub_is_retryable _ = False"

fun sub_is_fatal :: "submission_error \<Rightarrow> bool" where
  "sub_is_fatal (EncodingFailed _) = True"
| "sub_is_fatal _ = False"

fun is_block_not_found :: "block_source_error \<Rightarrow> bool" where
  "is_block_not_found (SrcBlockNotFound _) = True"
| "is_block_not_found _ = False"

fun show_sink_error :: "sink_error \<Rightarrow> string" where
  "show_sink_error (SinkConnection s) = ''L1 connection failed: '' @ s"
| "show_sink_error (TxFailed s) = ''Transaction failed: '' @ s"
| "show_sink_error SinkInsufficientFunds = ''Insufficient funds''"
| "show_sink_error (SinkBlobGasTooExpensive c m) =
     ''Blob gas too expensive: '' @ dec (unat c) @ '' > '' @ dec (unat m)"
| "show_sink_error SinkTimeout = ''Timeout waiting for confirmation''"

section \<open>Metrics\<close>

record submission_metrics =
  sm_batches_submitted :: u64
  sm_blocks_processed :: u64
  sm_bytes_original :: u64
  sm_bytes_compressed :: u64
  sm_latest_block :: u64
  sm_latencies_ms :: "u64 list"
  sm_submission_times :: "u64 \<rightharpoonup> instant"

definition metrics_new :: submission_metrics where
  "metrics_new =
     \<lparr>sm_batches_submitted = 0, sm_blocks_processed = 0, sm_bytes_original = 0,
      sm_bytes_compressed = 0, sm_latest_block = 0, sm_latencies_ms = [],
      sm_submission_times = Map.empty\<rparr>"

definition record_latency :: "u64 \<Rightarrow> submission_metrics \<Rightarrow> submission_metrics" where
  "record_latency ms s = s\<lparr>sm_latencies_ms := push_bounded 100 (sm_latencies_ms s) ms\<rparr>"

text \<open>The averages are \<^verbatim>\<open>f64\<close> quotients; they are given as numerator and denominator.\<close>

definition avg_latency_ms :: "submission_metrics \<Rightarrow> u64 \<times> usize" where
  "avg_latency_ms s =
     (if sm_latencies_ms s = [] then (0, 1)
      else (sum_list (sm_latencies_ms s), length (sm_latencies_ms s)))"

definition sub_compression_ratio :: "submission_metrics \<Rightarrow> u64 \<times> u64" where
  "sub_compression_ratio s =
     (if sm_bytes_original s = 0 then (1, 1) else (sm_bytes_compressed s, sm_bytes_original s))"

definition record_submission_time :: "u64 \<Rightarrow> instant \<Rightarrow> submission_metrics \<Rightarrow> submission_metrics" where
  "record_submission_time n t s = s\<lparr>sm_submission_times := (sm_submission_times s)(n \<mapsto> t)\<rparr>"

definition take_submission_time :: "u64 \<Rightarrow> submission_metrics \<Rightarrow> instant option \<times> submission_metrics" where
  "take_submission_time n s =
     (sm_submission_times s n, s\<lparr>sm_submission_times := (sm_submission_times s)(n := None)\<rparr>)"

section \<open>The runner\<close>

datatype submission_callback =
    OnBatchSubmitted u64 usize usize usize bytes
  | OnBatchFailed u64 submission_error
  | OnBlockProcessed u64 usize usize
  | OnChainHeadUpdated u64

text \<open>
  The runner and the local variables of \<^verbatim>\<open>run\<close>. \<open>br_callbacks\<close> is what the callback was told
  (nothing if there is none), \<open>br_attempts\<close> the batches that \<^verbatim>\<open>submit_batch\<close> was called with
  and whether it succeeded.
\<close>

record 'tx runner =
  br_config :: submission_config
  br_metrics :: submission_metrics
  br_has_callback :: bool
  br_paused :: bool
  br_current_block :: u64
  br_batch_number :: u64
  br_pending_blocks :: "'tx op_block list"
  br_pending_size :: usize
  br_callbacks :: "submission_callback list"
  br_attempts :: "(u64 \<times> 'tx op_block list \<times> bool) list"

definition runner_new :: "submission_config \<Rightarrow> 'tx runner" where
  "runner_new cfg =
     \<lparr>br_config = cfg, br_metrics = metrics_new, br_has_callback = False, br_paused = False,
      br_current_block = 0, br_batch_number = 0, br_pending_blocks = [], br_pending_size = 0,
      br_callbacks = [], br_attempts = []\<rparr>"

definition runner_with_callback :: "'tx runner \<Rightarrow> 'tx runner" where
  "runner_with_callback r = r\<lparr>br_has_callback := True\<rparr>"

definition pause :: "'tx runner \<Rightarrow> 'tx runner" where "pause r = r\<lparr>br_paused := True\<rparr>"
definition resume :: "'tx runner \<Rightarrow> 'tx runner" where "resume r = r\<lparr>br_paused := False\<rparr>"
definition toggle_pause :: "'tx runner \<Rightarrow> 'tx runner" where "toggle_pause r = r\<lparr>br_paused := \<not> br_paused r\<rparr>"

definition call_back :: "submission_callback \<Rightarrow> 'tx runner \<Rightarrow> 'tx runner" where
  "call_back c r = (if br_has_callback r then r\<lparr>br_callbacks := br_callbacks r @ [c]\<rparr> else r)"

record 'tx runner_input =
  in_head :: "block_source_error + u64"
  in_block :: "u64 \<Rightarrow> block_source_error + 'tx op_block"
  in_submit :: "compressed_batch \<Rightarrow> sink_error + submission_receipt"
  in_start :: instant
  in_elapsed_ms :: u64

record 'tx runner_codec =
  rc_to_bytes :: "'tx op_block list \<Rightarrow> string + bytes"
  rc_compress :: "bytes \<Rightarrow> compression_error + bytes"

text \<open>\<^verbatim>\<open>submit_batch\<close>, on the metrics; \<open>None\<close> for the header numbers of an empty batch is 0.\<close>

definition submit_batch :: "'tx runner_codec \<Rightarrow> 'tx runner_input \<Rightarrow> u64 \<Rightarrow> 'tx op_block list
    \<Rightarrow> submission_metrics \<Rightarrow> (submission_error + bytes) \<times> submission_metrics" where
  "submit_batch cd i n blks ms =
     (case rc_to_bytes cd blks of
        Inl e \<Rightarrow> (Inl (SubCompressionFailed (''Serialization failed: '' @ e)), ms)
      | Inr raw_data \<Rightarrow>
          (case rc_compress cd raw_data of
             Inl e \<Rightarrow> (Inl (SubCompressionFailed (show_compression_error e)), ms)
           | Inr compressed \<Rightarrow>
               (let batch = \<lparr>batch_number = n, batch_data = compressed,
                      block_count = of_nat (length blks),
                      first_block = (case first_block_number \<lparr>blocks = blks\<rparr> of Some k \<Rightarrow> k | None \<Rightarrow> 0),
                      last_block = (case last_block_number \<lparr>blocks = blks\<rparr> of Some k \<Rightarrow> k | None \<Rightarrow> 0)\<rparr>;
                    ms = record_submission_time n (in_start i) ms
                in case in_submit i batch of
                     Inl e \<Rightarrow> (Inl (SinkError (show_sink_error e)), ms)
                   | Inr receipt \<Rightarrow>
                       (Inr (tx_hash receipt),
                        record_latency (in_elapsed_ms i)
                          (ms\<lparr>sm_batches_submitted := sm_batches_submitted ms + 1,
                             sm_blocks_processed := sm_blocks_processed ms + of_nat (length blks),
                             sm_bytes_original := sm_bytes_original ms + of_nat (length raw_data),
                             sm_bytes_compressed := sm_bytes_compressed ms + of_nat (length compressed)\<rparr>)))))"

definition estimated_size :: "'tx op_block \<Rightarrow> usize" where
  "estimated_size b = length (transactions b) * 256"

text \<open>
  The fetch loop: \<open>k\<close> offsets are left, \<open>offset\<close> blocks were fetched. The result is the number
  of blocks fetched and whether a fetch failed.
\<close>

fun fetch_blocks :: "'tx runner_input \<Rightarrow> nat \<Rightarrow> nat \<Rightarrow> 'tx runner \<Rightarrow> (nat \<times> bool) \<times> 'tx runner" where
  "fetch_blocks i 0 offset r = ((offset, False), r)"
| "fetch_blocks i (Suc k) offset r =
     (let block_num = br_current_block r + of_nat offset in
      case in_block i block_num of
        Inl e \<Rightarrow> ((offset, True), r)
      | Inr block \<Rightarrow>
          (let tx_count = length (transactions block);
               r = call_back (OnBlockProcessed block_num tx_count (estimated_size block)) r;
               r = r\<lparr>br_pending_blocks := br_pending_blocks r @ [block],
                     br_pending_size := br_pending_size r + estimated_size block\<rparr>
           in if sc_target_batch_size (br_config r) \<le> br_pending_size r then ((offset + 1, False), r)
              else fetch_blocks i k (offset + 1) r))"

text \<open>The submission at the end of an iteration: \<open>Inl\<close> leaves the loop.\<close>

definition submit_pending :: "'tx runner_codec \<Rightarrow> 'tx runner_input \<Rightarrow> 'tx runner
    \<Rightarrow> (submission_error + unit) \<times> 'tx runner" where
  "submit_pending cd i r =
     (let n = br_batch_number r; blks = br_pending_blocks r in
      case submit_batch cd i n blks (br_metrics r) of
        (result, ms) \<Rightarrow>
          (let r = r\<lparr>br_metrics := ms, br_attempts := br_attempts r @ [(n, blks, is_ok result)]\<rparr>;
               r = (case result of
                   Inr h \<Rightarrow> call_back (OnBatchSubmitted n (length blks) (br_pending_size r)
                                (unat (sm_bytes_compressed ms)) h) r
                 | Inl e \<Rightarrow> call_back (OnBatchFailed n e) r)
           in case result of
                Inl e \<Rightarrow>
                  (if sub_is_fatal e then (Inl e, r)
                   else (Inr (), r\<lparr>br_batch_number := n + 1, br_pending_blocks := [], br_pending_size := 0\<rparr>))
              | Inr h \<Rightarrow>
                  (Inr (), r\<lparr>br_batch_number := n + 1, br_pending_blocks := [], br_pending_size := 0\<rparr>)))"

definition blocks_to_fetch :: "submission_config \<Rightarrow> u64 \<Rightarrow> nat \<Rightarrow> nat" where
  "blocks_to_fetch cfg blocks_behind pending =
     (if 0 < blocks_behind
      then min (sc_max_blocks_per_batch cfg - pending) ((unat blocks_behind + 1) mod 2 ^ 64)
      else 1)"

text \<open>The position after fetching.\<close>

definition advance :: "nat \<Rightarrow> 'tx runner \<Rightarrow> 'tx runner" where
  "advance fetched r =
     (if 0 < fetched
      then (let c = br_current_block r + of_nat fetched
            in r\<lparr>br_current_block := c, br_metrics := (br_metrics r)\<lparr>sm_latest_block := c\<rparr>\<rparr>)
      else r)"

definition runner_iteration :: "'tx runner_codec \<Rightarrow> 'tx runner_input \<Rightarrow> 'tx runner
    \<Rightarrow> (submission_error + unit) \<times> 'tx runner" where
  "runner_iteration cd i r =
     (if br_paused r then (Inr (), r)
      else
        (let chain_head = (case in_head i of Inr h \<Rightarrow> h | Inl _ \<Rightarrow> br_current_block r);
             r = call_back (OnChainHeadUpdated chain_head) r;
             blocks_behind = saturating_sub chain_head (br_current_block r);
             is_backlogged = (0 < blocks_behind);
             k = blocks_to_fetch (br_config r) blocks_behind (length (br_pending_blocks r))
         in case fetch_blocks i k 0 r of
              ((fetched, fetch_failed), r) \<Rightarrow>
                (let r = advance fetched r;
                     should_submit =
                       (sc_max_blocks_per_batch (br_config r) \<le> length (br_pending_blocks r)
                        \<or> sc_target_batch_size (br_config r) \<le> br_pending_size r
                        \<or> (\<not> is_backlogged \<and> br_pending_blocks r \<noteq> [] \<and> fetch_failed))
                 in if should_submit \<and> br_pending_blocks r \<noteq> [] then submit_pending cd i r
                    else (Inr (), r))))"

text \<open>\<^verbatim>\<open>run\<close> over a list of iterations; \<open>None\<close> while it has not returned.\<close>

fun run_loop :: "'tx runner_codec \<Rightarrow> 'tx runner_input list \<Rightarrow> 'tx runner
    \<Rightarrow> (submission_error + unit) option \<times> 'tx runner" where
  "run_loop cd [] r = (None, r)"
| "run_loop cd (i # is) r =
     (case runner_iteration cd i r of
        (Inl e, r) \<Rightarrow> (Some (Inl e), r)
      | (Inr _, r) \<Rightarrow> run_loop cd is r)"

definition run :: "'tx runner_codec \<Rightarrow> 'tx runner_input list \<Rightarrow> u64 \<Rightarrow> 'tx runner
    \<Rightarrow> (submission_error + unit) option \<times> 'tx runner" where
  "run cd is start_block r =
     run_loop cd is (r\<lparr>br_current_block := start_block, br_batch_number := 0,
       br_pending_blocks := [], br_pending_size := 0\<rparr>)"

section \<open>The ledger\<close>

text \<open>The blocks of every batch tried so far, and the pending ones.\<close>

definition attempted :: "'tx runner \<Rightarrow> 'tx op_block list" where
  "attempted r = concat (map (fst \<circ> snd) (br_attempts r))"

definition seen :: "'tx runner \<Rightarrow> 'tx op_block list" where
  "seen r = attempted r @ br_pending_blocks r"

definition counting :: "u64 \<Rightarrow> nat \<Rightarrow> u64 list" where
  "counting start k = map (\<lambda>j. start + of_nat j) [0..<k]"

lemma counting_append: "counting start k @ counting (start + of_nat k) m = counting start (k + m)"
proof -
  have "[0..<k + m] = [0..<k] @ map (\<lambda>j. k + j) [0..<m]"
    by (rule nth_equalityI) (auto simp: nth_append)
  then show ?thesis by (simp add: counting_def add.assoc)
qed

lemma counting_Suc: "start # counting (start + 1) k = counting start (Suc k)"
  using counting_append [of start 1 k] by (simp add: counting_def)

definition runner_inv :: "u64 \<Rightarrow> 'tx runner \<Rightarrow> bool" where
  "runner_inv start r =
     (map header_number (seen r) = counting start (length (seen r))
      \<and> br_current_block r = start + of_nat (length (seen r))
      \<and> map fst (br_attempts r) = counting 0 (length (br_attempts r))
      \<and> br_batch_number r = of_nat (length (br_attempts r))
      \<and> br_pending_size r = sum_list (map estimated_size (br_pending_blocks r))
      \<and> (br_pending_blocks r = [] \<or> length (br_pending_blocks r) < sc_max_blocks_per_batch (br_config r))
      \<and> list_all (\<lambda>a. fst (snd a) \<noteq> []
            \<and> length (fst (snd a)) \<le> max 1 (sc_max_blocks_per_batch (br_config r))) (br_attempts r))"

text \<open>A source that answers with the block it was asked for.\<close>

definition honest :: "'tx runner_input \<Rightarrow> bool" where
  "honest i = (\<forall>n b. in_block i n = Inr b \<longrightarrow> header_number b = n)"

lemma call_back_frames [simp]:
  "br_config (call_back c r) = br_config r" "br_metrics (call_back c r) = br_metrics r"
  "br_paused (call_back c r) = br_paused r" "br_current_block (call_back c r) = br_current_block r"
  "br_batch_number (call_back c r) = br_batch_number r"
  "br_pending_blocks (call_back c r) = br_pending_blocks r"
  "br_pending_size (call_back c r) = br_pending_size r" "br_attempts (call_back c r) = br_attempts r"
  by (simp_all add: call_back_def)

text \<open>What the fetch loop does: it appends consecutive blocks.\<close>

definition appends :: "nat \<Rightarrow> 'tx runner \<Rightarrow> 'tx op_block list \<Rightarrow> 'tx runner \<Rightarrow> bool" where
  "appends off r bs r' =
     (br_pending_blocks r' = br_pending_blocks r @ bs
      \<and> map header_number bs = counting (br_current_block r + of_nat off) (length bs)
      \<and> br_pending_size r' = br_pending_size r + sum_list (map estimated_size bs)
      \<and> br_current_block r' = br_current_block r \<and> br_batch_number r' = br_batch_number r
      \<and> br_attempts r' = br_attempts r \<and> br_config r' = br_config r \<and> br_paused r' = br_paused r)"

lemma appends_Nil [simp]: "appends off r [] r"
  by (simp add: appends_def counting_def)

lemma appends_Cons:
  assumes "appends (off + 1) r1 bs r'" and "appends off r [b] r1"
  shows "appends off r (b # bs) r'"
  using assms counting_Suc [of "br_current_block r + of_nat off" "length bs"]
  by (simp add: appends_def counting_def algebra_simps)

lemma fetch_blocks_appends:
  assumes "honest i"
  shows "fetch_blocks i k off r = ((f, failed), r') \<Longrightarrow>
    \<exists>bs. f = off + length bs \<and> length bs \<le> k \<and> appends off r bs r'"
proof (induction k arbitrary: off r)
  case 0
  then show ?case by auto
next
  case (Suc k)
  let ?n = "br_current_block r + of_nat off"
  show ?case
  proof (cases "in_block i ?n")
    case (Inl e)
    with Suc.prems show ?thesis by (auto simp: Let_def)
  next
    case (Inr b)
    then have hb: "header_number b = ?n" using assms by (simp add: honest_def)
    define r1 where "r1 = (call_back (OnBlockProcessed ?n (length (transactions b)) (estimated_size b)) r)
        \<lparr>br_pending_blocks := br_pending_blocks r @ [b], br_pending_size := br_pending_size r + estimated_size b\<rparr>"
    have first: "appends off r [b] r1" by (simp add: appends_def r1_def hb counting_def)
    have eq: "fetch_blocks i (Suc k) off r = (if sc_target_batch_size (br_config r) \<le> br_pending_size r1
        then ((off + 1, False), r1) else fetch_blocks i k (off + 1) r1)"
      using Inr by (simp add: Let_def r1_def)
    show ?thesis
    proof (cases "sc_target_batch_size (br_config r) \<le> br_pending_size r1")
      case True
      with eq Suc.prems first show ?thesis by (intro exI [of _ "[b]"]) simp
    next
      case False
      then obtain bs where "f = off + 1 + length bs" "length bs \<le> k" "appends (off + 1) r1 bs r'"
        using Suc.IH [of "off + 1" r1] eq Suc.prems by auto
      with appends_Cons [OF _ first] show ?thesis by (intro exI [of _ "b # bs"]) simp
    qed
  qed
qed

text \<open>Fetching keeps the numbering; the pending blocks may now fill a batch.\<close>

lemma advance_frames [simp]:
  "br_current_block (advance k r) = br_current_block r + of_nat k" "br_attempts (advance k r) = br_attempts r"
  "br_pending_blocks (advance k r) = br_pending_blocks r" "br_pending_size (advance k r) = br_pending_size r"
  "br_batch_number (advance k r) = br_batch_number r" "br_config (advance k r) = br_config r"
  "seen (advance k r) = seen r" "attempted (advance k r) = attempted r"
  by (simp_all add: advance_def Let_def seen_def attempted_def)

lemma blocks_to_fetch_room:
  "pending = 0 \<or> pending < m \<Longrightarrow> m = sc_max_blocks_per_batch cfg \<Longrightarrow>
     pending + blocks_to_fetch cfg behind pending \<le> max 1 m"
  by (auto simp: blocks_to_fetch_def)

text \<open>
  The invariant without the bound on the pending blocks, which holds again once a full batch
  has been submitted.
\<close>

definition numbered :: "u64 \<Rightarrow> 'tx runner \<Rightarrow> bool" where
  "numbered start r =
     (map header_number (seen r) = counting start (length (seen r))
      \<and> br_current_block r = start + of_nat (length (seen r))
      \<and> map fst (br_attempts r) = counting 0 (length (br_attempts r))
      \<and> br_batch_number r = of_nat (length (br_attempts r))
      \<and> br_pending_size r = sum_list (map estimated_size (br_pending_blocks r))
      \<and> list_all (\<lambda>a. fst (snd a) \<noteq> []
            \<and> length (fst (snd a)) \<le> max 1 (sc_max_blocks_per_batch (br_config r))) (br_attempts r))"

lemma runner_inv_iff:
  "runner_inv start r \<longleftrightarrow> numbered start r
     \<and> (br_pending_blocks r = [] \<or> length (br_pending_blocks r) < sc_max_blocks_per_batch (br_config r))"
  by (auto simp: runner_inv_def numbered_def)

lemma numbered_call_back [simp]: "numbered start (call_back c r) = numbered start r"
  by (simp add: numbered_def seen_def attempted_def)

lemma numbered_fetched:
  assumes N: "numbered start r" and A: "appends 0 r bs r'"
  shows "numbered start (advance (length bs) r')"
proof -
  have "seen r' = seen r @ bs" using A by (simp add: seen_def attempted_def appends_def)
  moreover have "map header_number bs = counting (start + of_nat (length (seen r))) (length bs)"
    using N A by (simp add: numbered_def appends_def)
  ultimately show ?thesis
    using N A counting_append [of start "length (seen r)" "length bs"]
    by (simp add: numbered_def appends_def add.assoc)
qed

lemma submit_batch_not_fatal: "submit_batch cd i n blks ms = (Inl e, ms') \<Longrightarrow> \<not> sub_is_fatal e"
  by (auto simp: submit_batch_def Let_def split: sum.splits)

lemma submit_pending_inv:
  assumes N: "numbered start r" and ne: "br_pending_blocks r \<noteq> []"
    and len: "length (br_pending_blocks r) \<le> max 1 (sc_max_blocks_per_batch (br_config r))"
  shows "\<exists>r'. submit_pending cd i r = (Inr (), r') \<and> runner_inv start r'"
proof -
  obtain result ms where sb: "submit_batch cd i (br_batch_number r) (br_pending_blocks r) (br_metrics r) = (result, ms)"
    by force
  let ?r1 = "r\<lparr>br_metrics := ms,
      br_attempts := br_attempts r @ [(br_batch_number r, br_pending_blocks r, is_ok result)]\<rparr>"
  have inv: "runner_inv start (k\<lparr>br_batch_number := br_batch_number r + 1, br_pending_blocks := [], br_pending_size := 0\<rparr>)"
    if "k = call_back c ?r1" for k c
    using N ne len that counting_append [of 0 "length (br_attempts r)" 1]
    by (simp add: runner_inv_def numbered_def seen_def attempted_def counting_def)
  show ?thesis
  proof (cases result)
    case (Inl e)
    then have "\<not> sub_is_fatal e" using sb submit_batch_not_fatal by blast
    then show ?thesis using sb Inl inv [OF refl] by (simp add: submit_pending_def Let_def)
  next
    case (Inr h)
    then show ?thesis using sb inv [OF refl] by (simp add: submit_pending_def Let_def)
  qed
qed

lemma runner_iteration_inv:
  assumes I: "runner_inv start r" and h: "honest i"
  shows "\<exists>r'. runner_iteration cd i r = (Inr (), r') \<and> runner_inv start r'"
proof (cases "br_paused r")
  case True
  with I show ?thesis by (simp add: runner_iteration_def)
next
  case False
  define head where "head = (case in_head i of Inr h \<Rightarrow> h | Inl _ \<Rightarrow> br_current_block r)"
  define behind where "behind = saturating_sub head (br_current_block r)"
  let ?r0 = "call_back (OnChainHeadUpdated head) r"
  let ?k = "blocks_to_fetch (br_config r) behind (length (br_pending_blocks r))"
  obtain f failed r1 where fb: "fetch_blocks i ?k 0 ?r0 = ((f, failed), r1)" by (metis surj_pair)
  obtain bs where bs: "f = length bs" "length bs \<le> ?k" "appends 0 ?r0 bs r1"
    using fetch_blocks_appends [OF h fb] by auto
  define r2 where "r2 = advance f r1"
  have N: "numbered start r2"
    using numbered_fetched [OF _ bs(3)] I bs(1) by (simp add: runner_inv_iff r2_def)
  have conf: "br_config r2 = br_config r" and pend: "br_pending_blocks r2 = br_pending_blocks r @ bs"
    using bs(3) by (simp_all add: appends_def r2_def)
  have len: "length (br_pending_blocks r2) \<le> max 1 (sc_max_blocks_per_batch (br_config r2))"
    using blocks_to_fetch_room [of "length (br_pending_blocks r)" _ "br_config r" behind] I bs(2)
    unfolding conf pend runner_inv_iff by fastforce
  define due where "due = (sc_max_blocks_per_batch (br_config r2) \<le> length (br_pending_blocks r2)
      \<or> sc_target_batch_size (br_config r2) \<le> br_pending_size r2
      \<or> (\<not> 0 < behind \<and> br_pending_blocks r2 \<noteq> [] \<and> failed))"
  have eq: "runner_iteration cd i r
      = (if due \<and> br_pending_blocks r2 \<noteq> [] then submit_pending cd i r2 else (Inr (), r2))"
    using False fb unfolding runner_iteration_def head_def behind_def r2_def due_def
    by (simp add: Let_def)
  show ?thesis
  proof (cases "due \<and> br_pending_blocks r2 \<noteq> []")
    case True
    with submit_pending_inv [OF N _ len, of cd i] eq show ?thesis by simp
  next
    case no: False
    have "runner_inv start r2" using N no by (auto simp: runner_inv_iff due_def)
    with eq no show ?thesis by simp
  qed
qed

lemma run_loop_inv:
  "runner_inv start r \<Longrightarrow> list_all honest is \<Longrightarrow> \<exists>r'. run_loop cd is r = (None, r') \<and> runner_inv start r'"
proof (induction "is" arbitrary: r)
  case Nil
  then show ?case by simp
next
  case (Cons i "is")
  then obtain r1 where "runner_iteration cd i r = (Inr (), r1)" "runner_inv start r1"
    using runner_iteration_inv by fastforce
  with Cons show ?case by simp
qed

text \<open>
  C18: the batch runner takes every block once and never returns. Over any iterations of a new
  runner, with a source that answers with the block it was asked for, the blocks of all batches
  tried, in order, followed by the pending ones, are the blocks from the start block on,
  without gap or repetition; batches are numbered from 0 without gaps and hold between one and
  the configured number of blocks. This counts the batches whose submission failed: a failed
  batch consumes its number, and its blocks are in no other batch. \<^verbatim>\<open>run\<close> never returns, as
  no error that arises is fatal.
\<close>

theorem runner_takes_every_block_once:
  assumes "list_all honest is"
  shows "case run cd is start_block (runner_new cfg) of (result, r) \<Rightarrow>
     result = None
     \<and> map header_number (concat (map (fst \<circ> snd) (br_attempts r)) @ br_pending_blocks r)
         = counting start_block (length (concat (map (fst \<circ> snd) (br_attempts r)) @ br_pending_blocks r))
     \<and> map fst (br_attempts r) = counting 0 (length (br_attempts r))
     \<and> list_all (\<lambda>(n, blks, ok). blks \<noteq> []
           \<and> length blks \<le> max 1 (sc_max_blocks_per_batch (br_config r))) (br_attempts r)"
proof -
  have "runner_inv start_block ((runner_new cfg)\<lparr>br_current_block := start_block, br_batch_number := 0,
      br_pending_blocks := [], br_pending_size := 0\<rparr>)"
    by (simp add: runner_inv_def runner_new_def seen_def attempted_def counting_def)
  from run_loop_inv [OF this assms, of cd] obtain r where
    "run cd is start_block (runner_new cfg) = (None, r)" "runner_inv start_block r"
    by (auto simp: run_def)
  then show ?thesis
    by (auto simp: runner_inv_def seen_def attempted_def list_all_iff)
qed

text \<open>A run over two blocks: the first batch is refused by the sink, the second accepted.\<close>

definition runner_block :: "u64 \<Rightarrow> nat op_block" where
  "runner_block n = \<lparr>header_number = n, header_timestamp = 0, header_gas_used = 0, transactions = [0]\<rparr>"

definition runner_codec_plain :: "nat runner_codec" where
  "runner_codec_plain = \<lparr>rc_to_bytes = (\<lambda>blks. Inr []), rc_compress = (\<lambda>d. Inr d)\<rparr>"

definition runner_demo_input :: "bool \<Rightarrow> nat runner_input" where
  "runner_demo_input ok =
     \<lparr>in_head = Inr 9, in_block = (\<lambda>n. Inr (runner_block n)),
      in_submit = (\<lambda>b. if ok then Inr \<lparr>receipt_batch_number = 0, tx_hash = [], l1_block = 0, blob_hash = None\<rparr>
                       else Inl SinkTimeout),
      in_start = 0, in_elapsed_ms = 1\<rparr>"

definition one_per_batch :: submission_config where
  "one_per_batch = \<lparr>sc_max_blocks_per_batch = 1, sc_target_batch_size = 1000, sc_poll_interval_ms = 100\<rparr>"

lemmas runner_eval = run_def runner_new_def runner_iteration_def runner_demo_input_def runner_codec_plain_def
  one_per_batch_def runner_block_def submit_pending_def submit_batch_def blocks_to_fetch_def
  saturating_sub_def call_back_def advance_def estimated_size_def record_submission_time_def
  record_latency_def metrics_new_def push_bounded_def Let_def

theorem runner_takes_every_block_once_witness:
  "\<exists>r. run runner_codec_plain [runner_demo_input False, runner_demo_input True] 5 (runner_new one_per_batch) = (None, r)
     \<and> map (\<lambda>(n, blks, ok). (n, map header_number blks, ok)) (br_attempts r) = [(0, [5], False), (1, [6], True)]"
proof -
  let ?is = "[runner_demo_input False, runner_demo_input True]"
  have honest: "list_all honest ?is"
    by (simp add: honest_def runner_demo_input_def runner_block_def)
  obtain result r where r: "run runner_codec_plain ?is 5 (runner_new one_per_batch) = (result, r)"
    by force
  have none: "result = None"
    using runner_takes_every_block_once [OF honest, where cd = runner_codec_plain and start_block = 5 and cfg = one_per_batch] by (simp add: r)
  have "br_attempts (snd (run runner_codec_plain ?is 5 (runner_new one_per_batch)))
      = [(0, [runner_block 5], False), (1, [runner_block 6], True)]"
    by (simp add: runner_eval)
  with r none show ?thesis by (simp add: runner_block_def)
qed

end
