(* ===== verification/Derivation_Runner.thy ===== *)
theory Derivation_Runner
  imports Role
begin

text \<open>
  The stand-alone derivation runner (\<^verbatim>\<open>crates/consensus/derivation-runner\<close>): configuration,
  errors, metrics, and the \<^verbatim>\<open>DerivationRunner\<close>, which polls a source of batches, decompresses
  and decodes each, executes its blocks, records it in the checkpoint and keeps a finalized
  head and metrics.

  The source, the executor, the compressor, \<^verbatim>\<open>serde_json\<close> and the clock are parameters; the
  states of the source and of the executor are part of the runner's record, as they are fields
  of the struct. \<open>dr_executed\<close> is a ghost field: the blocks the executor
  accepted.
\<close>

section \<open>Configuration, errors, metrics\<close>

record derivation_config =
  dc_poll_interval_ms :: u64

definition derivation_config_default :: derivation_config where
  "derivation_config_default = \<lparr>dc_poll_interval_ms = 100\<rparr>"

record derivation_config_builder =
  db_poll_interval_ms :: u64

definition derivation_builder :: derivation_config_builder where
  "derivation_builder = \<lparr>db_poll_interval_ms = dc_poll_interval_ms derivation_config_default\<rparr>"

definition set_db_poll_interval_ms :: "u64 \<Rightarrow> derivation_config_builder \<Rightarrow> derivation_config_builder" where
  "set_db_poll_interval_ms v b = b\<lparr>db_poll_interval_ms := v\<rparr>"

definition derivation_config_build :: "derivation_config_builder \<Rightarrow> derivation_config" where
  "derivation_config_build b = \<lparr>dc_poll_interval_ms = db_poll_interval_ms b\<rparr>"

datatype derivation_error =
    DerSourceError string
  | DecompressionFailed string
  | EmptyBatch
  | DerPipeline string
  | InternalError string
  | ExecutionFailed string

fun show_derivation_error :: "derivation_error \<Rightarrow> string" where
  "show_derivation_error (DerSourceError m) = ''Batch source error: '' @ m"
| "show_derivation_error (DecompressionFailed m) = ''Decompression failed: '' @ m"
| "show_derivation_error EmptyBatch = ''No batch available''"
| "show_derivation_error (DerPipeline m) = ''Pipeline error: '' @ m"
| "show_derivation_error (InternalError m) = ''Internal error: '' @ m"
| "show_derivation_error (ExecutionFailed m) = ''Execution failed: '' @ m"

fun der_is_retryable :: "derivation_error \<Rightarrow> bool" where
  "der_is_retryable (DerSourceError _) = True"
| "der_is_retryable EmptyBatch = True"
| "der_is_retryable _ = False"

fun der_is_fatal :: "derivation_error \<Rightarrow> bool" where
  "der_is_fatal (DecompressionFailed _) = True"
| "der_is_fatal (ExecutionFailed _) = True"
| "der_is_fatal _ = False"

lemma not_retryable_and_fatal: "\<not> (der_is_retryable e \<and> der_is_fatal e)"
  by (cases e) simp_all

record derivation_metrics =
  dm_batches_derived :: u64
  dm_blocks_derived :: u64
  dm_bytes_decompressed :: u64
  dm_current_batch_number :: u64
  dm_blocks_in_current_batch :: u64
  dm_first_block_in_batch :: u64
  dm_last_block_in_batch :: u64
  dm_latencies_ms :: "u64 list"

definition derivation_metrics_default :: derivation_metrics where
  "derivation_metrics_default =
     \<lparr>dm_batches_derived = 0, dm_blocks_derived = 0, dm_bytes_decompressed = 0,
      dm_current_batch_number = 0, dm_blocks_in_current_batch = 0, dm_first_block_in_batch = 0,
      dm_last_block_in_batch = 0, dm_latencies_ms = []\<rparr>"

definition dm_record_latency :: "u64 \<Rightarrow> derivation_metrics \<Rightarrow> derivation_metrics" where
  "dm_record_latency ms s = s\<lparr>dm_latencies_ms := push_bounded 100 (dm_latencies_ms s) ms\<rparr>"

definition dm_avg_latency_ms :: "derivation_metrics \<Rightarrow> u64 \<times> usize" where
  "dm_avg_latency_ms s =
     (if dm_latencies_ms s = [] then (0, 1)
      else (sum_list (dm_latencies_ms s), length (dm_latencies_ms s)))"

definition dm_latency_samples :: "derivation_metrics \<Rightarrow> usize" where
  "dm_latency_samples s = length (dm_latencies_ms s)"

section \<open>The runner\<close>

record ('tx, 's, 'x) derivation_runner =
  dr_source :: 's
  dr_executor :: 'x
  dr_config :: derivation_config
  dr_metrics :: derivation_metrics
  dr_submission_times :: "u64 \<rightharpoonup> instant"
  dr_batch_block_counts :: "u64 \<rightharpoonup> u64"
  dr_last_finalized_block :: u64
  dr_paused :: bool
  dr_checkpoint :: checkpoint
  dr_checkpoint_path :: "path option"
  dr_disk :: file_system
  dr_saves :: nat
  dr_executed :: "'tx op_block list"

record ('tx, 's, 'x) derivation_deps =
  d_next_batch :: "'s \<Rightarrow> (string + compressed_batch option) \<times> 's"
  d_decompress :: "bytes \<Rightarrow> compression_error + bytes"
  d_from_bytes :: "bytes \<Rightarrow> string + 'tx op_block list"
  d_execute :: "'tx op_block \<Rightarrow> 'x \<Rightarrow> (string + unit) \<times> 'x"
  d_cp_ser :: "checkpoint \<Rightarrow> string option"
  d_cp_fault :: "nat \<Rightarrow> io_fault option"
  d_touched_at :: "nat \<Rightarrow> u64"
  d_show_error :: "role_error \<Rightarrow> string"

definition derivation_with_start_block :: "'s \<Rightarrow> derivation_config \<Rightarrow> 'x \<Rightarrow> u64 \<Rightarrow> file_system
    \<Rightarrow> ('tx, 's, 'x) derivation_runner" where
  "derivation_with_start_block src cfg executor start_block fs =
     \<lparr>dr_source = src, dr_executor = executor, dr_config = cfg,
      dr_metrics = derivation_metrics_default, dr_submission_times = Map.empty,
      dr_batch_block_counts = Map.empty, dr_last_finalized_block = start_block, dr_paused = False,
      dr_checkpoint = checkpoint_default, dr_checkpoint_path = None, dr_disk = fs, dr_saves = 0,
      dr_executed = []\<rparr>"

definition derivation_new :: "'s \<Rightarrow> derivation_config \<Rightarrow> 'x \<Rightarrow> file_system
    \<Rightarrow> ('tx, 's, 'x) derivation_runner" where
  "derivation_new src cfg executor fs = derivation_with_start_block src cfg executor 0 fs"

definition dr_pause :: "('tx, 's, 'x) derivation_runner \<Rightarrow> ('tx, 's, 'x) derivation_runner" where
  "dr_pause r = r\<lparr>dr_paused := True\<rparr>"

definition dr_resume :: "('tx, 's, 'x) derivation_runner \<Rightarrow> ('tx, 's, 'x) derivation_runner" where
  "dr_resume r = r\<lparr>dr_paused := False\<rparr>"

definition dr_toggle_pause :: "('tx, 's, 'x) derivation_runner \<Rightarrow> ('tx, 's, 'x) derivation_runner" where
  "dr_toggle_pause r = r\<lparr>dr_paused := \<not> dr_paused r\<rparr>"

definition dr_with_checkpoint :: "(string \<Rightarrow> checkpoint option) \<Rightarrow> bool \<Rightarrow> path
    \<Rightarrow> ('tx, 's, 'x) derivation_runner \<Rightarrow> checkpoint_error + ('tx, 's, 'x) derivation_runner" where
  "dr_with_checkpoint de readable p r =
     rbind (load de readable (dr_disk r) p) (\<lambda>c.
       Inr (r\<lparr>dr_checkpoint := (case c of None \<Rightarrow> checkpoint_default | Some c \<Rightarrow> c),
              dr_checkpoint_path := Some p\<rparr>))"

definition dr_should_skip :: "('tx, 's, 'x) derivation_runner \<Rightarrow> u64 \<Rightarrow> bool" where
  "dr_should_skip r n =
     (if last_batch_derived (dr_checkpoint r) = 0 then False
      else n \<le> last_batch_derived (dr_checkpoint r))"

definition dr_record_batch_derived :: "('tx, 's, 'x) derivation_deps \<Rightarrow> u64
    \<Rightarrow> ('tx, 's, 'x) derivation_runner \<Rightarrow> (role_error + unit) \<times> ('tx, 's, 'x) derivation_runner" where
  "dr_record_batch_derived d n r =
     (let c = touch (d_touched_at d (dr_saves r)) (record_batch_derived n (dr_checkpoint r));
          (saved, fs) = save_if_path (d_cp_ser d) (d_cp_fault d (dr_saves r)) c
            (dr_checkpoint_path r) (dr_disk r)
      in (saved, r\<lparr>dr_checkpoint := c, dr_disk := fs, dr_saves := dr_saves r + 1\<rparr>))"

definition dr_record_submission :: "u64 \<Rightarrow> instant \<Rightarrow> ('tx, 's, 'x) derivation_runner
    \<Rightarrow> ('tx, 's, 'x) derivation_runner" where
  "dr_record_submission n t r = r\<lparr>dr_submission_times := (dr_submission_times r)(n \<mapsto> t)\<rparr>"

definition record_batch_block_count :: "u64 \<Rightarrow> u64 \<Rightarrow> ('tx, 's, 'x) derivation_runner
    \<Rightarrow> ('tx, 's, 'x) derivation_runner" where
  "record_batch_block_count n k r = r\<lparr>dr_batch_block_counts := (dr_batch_block_counts r)(n \<mapsto> k)\<rparr>"

text \<open>The loop over the blocks of a batch, which stops at the first error.\<close>

fun dr_execute_blocks :: "('tx, 's, 'x) derivation_deps \<Rightarrow> u64 \<Rightarrow> 'tx op_block list
    \<Rightarrow> ('tx, 's, 'x) derivation_runner \<Rightarrow> (derivation_error + unit) \<times> ('tx, 's, 'x) derivation_runner" where
  "dr_execute_blocks d n [] r = (Inr (), r)"
| "dr_execute_blocks d n (b # bs) r =
     (case d_execute d b (dr_executor r) of
        (Inl e, x) \<Rightarrow>
          (Inl (ExecutionFailed (''Failed to execute block #'' @ dec (unat (header_number b)) @
             '' in batch #'' @ dec (unat n) @ '': '' @ e)), r\<lparr>dr_executor := x\<rparr>)
      | (Inr _, x) \<Rightarrow>
          dr_execute_blocks d n bs (r\<lparr>dr_executor := x, dr_executed := dr_executed r @ [b]\<rparr>))"

text \<open>After the batch was recorded: the finalized head and the metrics.\<close>

definition dr_finalize :: "u64 \<Rightarrow> usize \<Rightarrow> instant
    \<Rightarrow> ('tx, 's, 'x) derivation_runner \<Rightarrow> ('tx, 's, 'x) derivation_runner" where
  "dr_finalize n decompressed_size derive_time r =
     (let k = (case dr_batch_block_counts r n of None \<Rightarrow> 1 | Some k \<Rightarrow> k);
          first = dr_last_finalized_block r + 1;
          last = dr_last_finalized_block r + k;
          ms = (dr_metrics r)
            \<lparr>dm_batches_derived := dm_batches_derived (dr_metrics r) + 1,
             dm_blocks_derived := dm_blocks_derived (dr_metrics r) + k,
             dm_bytes_decompressed := dm_bytes_decompressed (dr_metrics r) + of_nat decompressed_size,
             dm_current_batch_number := n, dm_blocks_in_current_batch := k,
             dm_first_block_in_batch := first, dm_last_block_in_batch := last\<rparr>;
          ms = (case dr_submission_times r n of
              None \<Rightarrow> ms
            | Some t \<Rightarrow> dm_record_latency (of_nat ((derive_time - t) div 1000000)) ms)
      in r\<lparr>dr_batch_block_counts := (dr_batch_block_counts r)(n := None),
           dr_submission_times := (dr_submission_times r)(n := None),
           dr_last_finalized_block := last, dr_metrics := ms\<rparr>)"

definition derive_batch :: "('tx, 's, 'x) derivation_deps \<Rightarrow> instant \<Rightarrow> compressed_batch
    \<Rightarrow> ('tx, 's, 'x) derivation_runner
    \<Rightarrow> (derivation_error + derivation_metrics option) \<times> ('tx, 's, 'x) derivation_runner" where
  "derive_batch d derive_time b r =
     (let n = batch_number b in
      if dr_should_skip r n then (Inr None, r)
      else case d_decompress d (batch_data b) of
        Inl e \<Rightarrow> (Inl (DecompressionFailed (''Failed to decompress batch #'' @ dec (unat n) @
                   '': '' @ show_compression_error e)), r)
      | Inr decompressed \<Rightarrow>
          (case d_from_bytes d decompressed of
             Inl e \<Rightarrow> (Inl (DecompressionFailed (''Failed to deserialize OpBlockBatch from batch #'' @
                        dec (unat n) @ '': '' @ e)), r)
           | Inr blks \<Rightarrow>
               (case dr_execute_blocks d n blks r of
                  (Inl e, r) \<Rightarrow> (Inl e, r)
                | (Inr _, r) \<Rightarrow>
                    (case dr_record_batch_derived d n r of
                       (Inl e, r) \<Rightarrow> (Inl (InternalError (''Checkpoint error: '' @ d_show_error d e)), r)
                     | (Inr _, r) \<Rightarrow>
                         (let r = dr_finalize n (length decompressed) derive_time r
                          in (Inr (Some (dr_metrics r)), r))))))"

definition derivation_tick :: "('tx, 's, 'x) derivation_deps \<Rightarrow> instant \<Rightarrow> ('tx, 's, 'x) derivation_runner
    \<Rightarrow> (derivation_error + derivation_metrics option) \<times> ('tx, 's, 'x) derivation_runner" where
  "derivation_tick d now r =
     (if dr_paused r then (Inr None, r)
      else case d_next_batch d (dr_source r) of
        (Inr (Some b), s) \<Rightarrow> derive_batch d now b (r\<lparr>dr_source := s\<rparr>)
      | (Inr None, s) \<Rightarrow> (Inr None, r\<lparr>dr_source := s\<rparr>)
      | (Inl e, s) \<Rightarrow> (Inl (DerSourceError e), r\<lparr>dr_source := s\<rparr>))"

text \<open>\<^verbatim>\<open>run\<close> over the times of its ticks; it returns with the first error.\<close>

fun derivation_run :: "('tx, 's, 'x) derivation_deps \<Rightarrow> instant list \<Rightarrow> ('tx, 's, 'x) derivation_runner
    \<Rightarrow> derivation_error option \<times> ('tx, 's, 'x) derivation_runner" where
  "derivation_run d [] r = (None, r)"
| "derivation_run d (t # ts) r =
     (case derivation_tick d t r of
        (Inl e, r) \<Rightarrow> (Some e, r)
      | (Inr _, r) \<Rightarrow> derivation_run d ts r)"

section \<open>The batches to derive\<close>

definition der_decode :: "('tx, 's, 'x) derivation_deps \<Rightarrow> compressed_batch \<Rightarrow> 'tx op_block list option" where
  "der_decode d b =
     (case d_decompress d (batch_data b) of
        Inl _ \<Rightarrow> None
      | Inr data \<Rightarrow> (case d_from_bytes d data of Inl _ \<Rightarrow> None | Inr blks \<Rightarrow> Some blks))"

definition der_blocks :: "('tx, 's, 'x) derivation_deps \<Rightarrow> compressed_batch \<Rightarrow> 'tx op_block list" where
  "der_blocks d b = (case der_decode d b of None \<Rightarrow> [] | Some blks \<Rightarrow> blks)"

text \<open>
  Of the batches a source delivers, those a runner with mark \<open>m\<close> has to derive: the ones above
  the mark, and any one under a mark of 0, which means that nothing was derived.
\<close>

fun to_derive :: "u64 \<Rightarrow> compressed_batch list \<Rightarrow> compressed_batch list" where
  "to_derive m [] = []"
| "to_derive m (b # bs) =
     (if m = 0 \<or> m < batch_number b then b # to_derive (batch_number b) bs else to_derive m bs)"

text \<open>
  The block counts of batches with the numbers \<open>ns\<close>: the count recorded for the number, which
  is good for one batch, and 1 where there is none.
\<close>

fun recorded_counts :: "(u64 \<rightharpoonup> u64) \<Rightarrow> u64 list \<Rightarrow> u64 list" where
  "recorded_counts c [] = []"
| "recorded_counts c (n # ns) = (case c n of None \<Rightarrow> 1 | Some k \<Rightarrow> k) # recorded_counts (c(n := None)) ns"

text \<open>
  Batch numbers increase; only number 0 may come again.
\<close>

definition later :: "u64 \<Rightarrow> u64 \<Rightarrow> bool" where
  "later m n = (m < n \<or> m = 0 \<and> n = 0)"

lemma later_trans: "later a b \<Longrightarrow> later b c \<Longrightarrow> later a c"
  unfolding later_def by (metis less_trans word_gt_0)

lemma to_derive_append:
  "to_derive m (bs @ cs) = to_derive m bs @ to_derive (last (m # map batch_number (to_derive m bs))) cs"
proof (induction m bs rule: to_derive.induct)
  case (2 m b bs)
  then show ?case by (cases "m = 0 \<or> m < batch_number b") auto
qed simp

lemma to_derive_later: "sorted_wrt later (m # map batch_number (to_derive m bs))"
proof (induction m bs rule: to_derive.induct)
  case (2 m b bs)
  show ?case
  proof (cases "m = 0 \<or> m < batch_number b")
    case True
    then have "later m (batch_number b)" by (auto simp: later_def word_gt_0)
    with True 2(1) [OF True] show ?thesis by (auto intro: later_trans)
  next
    case False
    with 2(2) [OF False] show ?thesis by simp
  qed
qed simp

lemma recorded_counts_append:
  "recorded_counts c (ns @ ms) = recorded_counts c ns @ recorded_counts (fold (\<lambda>n c. c(n := None)) ns c) ms"
  by (induction ns arbitrary: c) simp_all

section \<open>The ledger of derived batches\<close>

text \<open>
  The runner that has taken the batches \<open>ds\<close> from a source in the state \<open>src\<close>, from the mark \<open>m\<close>,
  the finalized head \<open>start\<close> and the counts \<open>rc\<close> on, and has derived each that it had to.
\<close>

definition derived_up_to :: "('tx, 's, 'x) derivation_deps \<Rightarrow> 's \<Rightarrow> u64 \<Rightarrow> u64 \<Rightarrow> (u64 \<rightharpoonup> u64)
    \<Rightarrow> compressed_batch list \<Rightarrow> ('tx, 's, 'x) derivation_runner \<Rightarrow> bool" where
  "derived_up_to d src m start rc ds r =
     (let bs = to_derive m ds; ns = map batch_number bs
      in pulled (d_next_batch d) src ds (dr_source r)
         \<and> list_all (\<lambda>b. der_decode d b \<noteq> None) bs
         \<and> dr_executed r = concat (map (der_blocks d) bs)
         \<and> last_batch_derived (dr_checkpoint r) = last (m # ns)
         \<and> dr_batch_block_counts r = fold (\<lambda>n c. c(n := None)) ns rc
         \<and> dr_last_finalized_block r = start + sum_list (recorded_counts rc ns)
         \<and> dm_batches_derived (dr_metrics r) = of_nat (length bs)
         \<and> dm_blocks_derived (dr_metrics r) = sum_list (recorded_counts rc ns))"

text \<open>
  What a step that fails has done: it has taken the batches \<open>bs\<close>, at most one, and executed some
  first blocks of it; the finalized head and the metrics stay.
\<close>

definition gave_up :: "('tx, 's, 'x) derivation_deps \<Rightarrow> compressed_batch list
    \<Rightarrow> ('tx, 's, 'x) derivation_runner \<Rightarrow> ('tx, 's, 'x) derivation_runner \<Rightarrow> bool" where
  "gave_up d bs r r' =
     (length bs \<le> 1
      \<and> (\<exists>run rest. dr_executed r' = dr_executed r @ run \<and> run @ rest = concat (map (der_blocks d) bs))
      \<and> dr_last_finalized_block r' = dr_last_finalized_block r \<and> dr_metrics r' = dr_metrics r)"

lemma execute_frames:
  "dr_execute_blocks d n blks r = (res, r') \<Longrightarrow>
     dr_source r' = dr_source r \<and> dr_last_finalized_block r' = dr_last_finalized_block r
     \<and> dr_metrics r' = dr_metrics r \<and> dr_checkpoint r' = dr_checkpoint r
     \<and> dr_batch_block_counts r' = dr_batch_block_counts r
     \<and> (\<exists>run rest. dr_executed r' = dr_executed r @ run \<and> run @ rest = blks \<and> (is_ok res \<longrightarrow> rest = []))"
proof (induction blks arbitrary: r)
  case Nil
  then show ?case by auto
next
  case (Cons b blks)
  obtain e x where ex: "d_execute d b (dr_executor r) = (e, x)" by force
  show ?case
  proof (cases e)
    case (Inl m)
    with Cons.prems ex show ?thesis by auto
  next
    case (Inr u)
    with Cons.IH [of "r\<lparr>dr_executor := x, dr_executed := dr_executed r @ [b]\<rparr>"] Cons.prems ex
    show ?thesis by fastforce
  qed
qed

lemma derived_record_frames:
  "dr_record_batch_derived d n r = (res, r') \<Longrightarrow>
     dr_source r' = dr_source r \<and> dr_last_finalized_block r' = dr_last_finalized_block r
     \<and> dr_metrics r' = dr_metrics r \<and> dr_executed r' = dr_executed r
     \<and> dr_batch_block_counts r' = dr_batch_block_counts r
     \<and> last_batch_derived (dr_checkpoint r') = max (last_batch_derived (dr_checkpoint r)) n"
  by (auto simp: dr_record_batch_derived_def Let_def touch_def record_batch_derived_def max_def
      split: prod.splits if_splits)

lemma finalize_effect:
  fixes r :: "('tx, 's, 'x) derivation_runner" and n :: u64
  defines "k \<equiv> (case dr_batch_block_counts r n of None \<Rightarrow> 1 | Some k \<Rightarrow> k)"
  shows "dr_last_finalized_block (dr_finalize n sz t r) = dr_last_finalized_block r + k"
    and "dm_batches_derived (dr_metrics (dr_finalize n sz t r)) = dm_batches_derived (dr_metrics r) + 1"
    and "dm_blocks_derived (dr_metrics (dr_finalize n sz t r)) = dm_blocks_derived (dr_metrics r) + k"
    and "dr_executed (dr_finalize n sz t r) = dr_executed r" "dr_source (dr_finalize n sz t r) = dr_source r"
    and "dr_checkpoint (dr_finalize n sz t r) = dr_checkpoint r"
    and "dr_batch_block_counts (dr_finalize n sz t r) = (dr_batch_block_counts r)(n := None)"
  by (simp_all add: k_def dr_finalize_def Let_def dm_record_latency_def split: option.split)

lemma skipped_iff: "dr_should_skip r (batch_number b) \<longleftrightarrow> to_derive (last_batch_derived (dr_checkpoint r)) [b] = []"
  by (auto simp: dr_should_skip_def not_less)

lemma derive_batch_cases:
  assumes "derive_batch d t b r = (res, r')"
  obtains
    (skipped) "dr_should_skip r (batch_number b)" "r' = r" "is_ok res"
  | (failed) "\<not> is_ok res" "gave_up d [b] r r'" "dr_source r' = dr_source r"
  | (derived) blks r1 r2 u v data where "\<not> dr_should_skip r (batch_number b)" "der_decode d b = Some blks"
      "dr_execute_blocks d (batch_number b) blks r = (Inr u, r1)"
      "dr_record_batch_derived d (batch_number b) r1 = (Inr v, r2)"
      "r' = dr_finalize (batch_number b) (length (data :: bytes)) t r2" "is_ok res"
proof (cases "dr_should_skip r (batch_number b)")
  case True
  then have "res = Inr None" and "r' = r" using assms by (auto simp: derive_batch_def Let_def)
  with skipped True show thesis by simp
next
  case skip: False
  show thesis
  proof (cases "der_decode d b")
    case None
    then have "\<not> is_ok res \<and> r' = r"
      using assms skip by (auto simp: der_decode_def derive_batch_def Let_def split: sum.splits)
    with failed show thesis by (simp add: gave_up_def der_blocks_def None)
  next
    case (Some blks)
    then obtain data where data: "d_decompress d (batch_data b) = Inr data" "d_from_bytes d data = Inr blks"
      by (auto simp: der_decode_def split: sum.splits)
    obtain e1 r1 where ex: "dr_execute_blocks d (batch_number b) blks r = (e1, r1)" by force
    obtain e2 r2 where rec: "dr_record_batch_derived d (batch_number b) r1 = (e2, r2)" by force
    note frames = execute_frames [OF ex] derived_record_frames [OF rec]
    have blks: "der_blocks d b = blks" by (simp add: der_blocks_def Some)
    consider (exec) e where "e1 = Inl e" | (unsaved) u e where "e1 = Inr u" "e2 = Inl e"
      | (finished) u v where "e1 = Inr u" "e2 = Inr v"
      by (cases e1; cases e2) auto
    then show thesis
    proof cases
      case exec
      then have "\<not> is_ok res" and "r' = r1"
        using assms skip data ex by (auto simp: derive_batch_def Let_def)
      with failed frames blks show thesis by (fastforce simp: gave_up_def)
    next
      case unsaved
      then have "\<not> is_ok res" and "r' = r2"
        using assms skip data ex rec by (auto simp: derive_batch_def Let_def)
      with failed frames blks show thesis by (fastforce simp: gave_up_def)
    next
      case finished
      then have "is_ok res" and "r' = dr_finalize (batch_number b) (length data) t r2"
        using assms skip data ex rec by (auto simp: derive_batch_def Let_def)
      with derived [OF skip Some ex [unfolded finished] rec [unfolded finished]] show thesis by blast
    qed
  qed
qed

lemma derived_step:
  assumes D: "derived_up_to d src m start rc ds r" and pull: "pulled (d_next_batch d) src (ds @ [b]) s"
    and step: "derive_batch d t b (r\<lparr>dr_source := s\<rparr>) = (res, r')" and ok: "is_ok res"
  shows "derived_up_to d src m start rc (ds @ [b]) r'"
  using step
proof (cases rule: derive_batch_cases)
  case skipped
  have "to_derive (last_batch_derived (dr_checkpoint r)) [b] = []"
    using skipped(1) skipped_iff [of "r\<lparr>dr_source := s\<rparr>" b] by simp
  then have "to_derive m (ds @ [b]) = to_derive m ds"
    using D by (simp only: derived_up_to_def Let_def to_derive_append) simp
  with D pull skipped(2) show ?thesis by (simp add: derived_up_to_def Let_def)
next
  case (derived blks r1 r2 u v data)
  let ?n = "batch_number b" and ?m = "last_batch_derived (dr_checkpoint r)"
  have "to_derive ?m [b] \<noteq> []" using derived(1) skipped_iff [of "r\<lparr>dr_source := s\<rparr>" b] by simp
  then have new: "to_derive ?m [b] = [b]" and mark: "max ?m ?n = ?n" by (auto split: if_splits simp: max_def)
  have bs: "to_derive m (ds @ [b]) = to_derive m ds @ [b]"
    using D new by (simp only: derived_up_to_def Let_def to_derive_append)
  note frames = execute_frames [OF derived(3)] derived_record_frames [OF derived(4)]
  show ?thesis
    unfolding derived_up_to_def Let_def bs derived(5) finalize_effect
    using D pull frames mark derived(2)
    by (auto simp: derived_up_to_def Let_def recorded_counts_append der_blocks_def add.assoc)
qed (use ok in simp)

lemma tick_derives:
  assumes D: "derived_up_to d src m start rc ds r" and tick: "derivation_tick d t r = (res, r')"
  shows "if is_ok res then \<exists>ds'. derived_up_to d src m start rc ds' r'
    else \<exists>bs. pulled (d_next_batch d) src (ds @ bs) (dr_source r') \<and> gave_up d bs r r'"
proof (cases "dr_paused r")
  case True
  with assms show ?thesis by (auto simp: derivation_tick_def)
next
  case False
  obtain a s where nb: "d_next_batch d (dr_source r) = (a, s)" by force
  have P: "pulled (d_next_batch d) src ds (dr_source r)" using D by (simp add: derived_up_to_def Let_def)
  have same: "gave_up d bs (r\<lparr>dr_source := s\<rparr>) q = gave_up d bs r q" for bs q by (simp add: gave_up_def)
  consider (err) e where "a = Inl e" | (none) "a = Inr None" | (some) b where "a = Inr (Some b)"
    by (cases a) auto
  then show ?thesis
  proof cases
    case err
    then have "res = Inl (DerSourceError e)" and "r' = r\<lparr>dr_source := s\<rparr>"
      using tick False nb by (simp_all add: derivation_tick_def)
    with pulled_error [OF P] nb err show ?thesis by (auto simp: gave_up_def intro!: exI [of _ "[]"])
  next
    case none
    then have "res = Inr None" and "r' = r\<lparr>dr_source := s\<rparr>"
      using tick False nb by (simp_all add: derivation_tick_def)
    with pulled_empty [OF P] nb none D show ?thesis by (auto simp: derived_up_to_def Let_def)
  next
    case some
    have step: "derive_batch d t b (r\<lparr>dr_source := s\<rparr>) = (res, r')"
      using tick False nb some by (simp add: derivation_tick_def)
    have pull: "pulled (d_next_batch d) src (ds @ [b]) s" using pulled_batch [OF P] nb some by simp
    show ?thesis
    proof (cases "is_ok res")
      case True
      with derived_step [OF D pull step] show ?thesis by auto
    next
      case failed: False
      from step have "gave_up d [b] r r' \<and> dr_source r' = s"
        by (cases rule: derive_batch_cases) (use failed same in auto)
      with failed pull show ?thesis by auto
    qed
  qed
qed

lemma run_derives:
  "derived_up_to d src m start rc ds r \<Longrightarrow> derivation_run d ts r = (res, r') \<Longrightarrow>
     \<exists>ds k bs. derived_up_to d src m start rc ds k \<and> pulled (d_next_batch d) src (ds @ bs) (dr_source r')
       \<and> (if res = None then bs = [] \<and> r' = k else gave_up d bs k r')"
proof (induction ts arbitrary: ds r)
  case Nil
  then have "res = None" and "r' = r" by simp_all
  with Nil(1) show ?case by (auto simp: derived_up_to_def Let_def intro!: exI [of _ ds])
next
  case (Cons t ts)
  obtain a k where t: "derivation_tick d t r = (a, k)" by force
  show ?case
  proof (cases a)
    case (Inl e)
    then have "res = Some e" and "r' = k" using Cons.prems(2) t by simp_all
    with tick_derives [OF Cons.prems(1) t] Cons.prems(1) Inl show ?thesis by auto
  next
    case (Inr x)
    with t Cons.prems(2) have "derivation_run d ts k = (res, r')" by simp
    moreover obtain ds' where "derived_up_to d src m start rc ds' k"
      using tick_derives [OF Cons.prems(1) t] Inr by auto
    ultimately show ?thesis using Cons.IH by blast
  qed
qed

text \<open>
  C19: the derivation runner derives every batch it is given, completely and in order. Over any
  ticks of a runner started from a checkpoint with mark \<open>m\<close>, the source has handed out batches
  \<open>ds\<close> and, if the run ended with an error, at most one more. The blocks executed are exactly those
  of the batches of \<open>ds\<close> that had to be derived, all of which decode, followed by some first
  blocks of the one more. The numbers of the derived batches increase strictly from the mark on,
  except that number 0, which is not told from "nothing derived", may come and be executed again.
  The finalized head and the metrics add up the block counts of exactly these batches: what was
  recorded for the number, once, and else 1.
\<close>

theorem derivation_executes_once:
  assumes "r = (derivation_with_start_block src cfg x start_block fs)
      \<lparr>dr_checkpoint := cp, dr_checkpoint_path := p, dr_batch_block_counts := recorded,
        dr_submission_times := submitted_at\<rparr>"
    and "derivation_run d ts r = (result, r')" and "m = last_batch_derived cp"
  shows "\<exists>ds more partial rest. pulled (d_next_batch d) src (ds @ more) (dr_source r')
     \<and> length more \<le> 1 \<and> (result = None \<longrightarrow> more = [] \<and> last_batch_derived (dr_checkpoint r')
          = last (m # map batch_number (to_derive m ds)))
     \<and> list_all (\<lambda>b. der_decode d b \<noteq> None) (to_derive m ds)
     \<and> dr_executed r' = concat (map (der_blocks d) (to_derive m ds)) @ partial
     \<and> partial @ rest = concat (map (der_blocks d) more)
     \<and> sorted_wrt later (m # map batch_number (to_derive m ds))
     \<and> dr_last_finalized_block r'
         = start_block + sum_list (recorded_counts recorded (map batch_number (to_derive m ds)))
     \<and> dm_batches_derived (dr_metrics r') = of_nat (length (to_derive m ds))
     \<and> dm_blocks_derived (dr_metrics r') = sum_list (recorded_counts recorded (map batch_number (to_derive m ds)))"
proof -
  have "derived_up_to d src m start_block recorded [] r"
    by (simp add: assms(1,3) derived_up_to_def derivation_with_start_block_def derivation_metrics_default_def
        pulled_start)
  from run_derives [OF this assms(2)] obtain ds k more where run: "derived_up_to d src m start_block recorded ds k"
    "pulled (d_next_batch d) src (ds @ more) (dr_source r')"
    "if result = None then more = [] \<and> r' = k else gave_up d more k r'" by blast
  obtain partial rest where "dr_executed r' = dr_executed k @ partial" "partial @ rest = concat (map (der_blocks d) more)"
    using run(3) by (cases "result = None") (auto simp: gave_up_def)
  with run to_derive_later [of m ds] show ?thesis
    by - (rule exI [of _ ds], rule exI [of _ more], rule exI [of _ partial], rule exI [of _ rest],
        cases result; simp add: derived_up_to_def Let_def gave_up_def)
qed

text \<open>A source of two batches; the executor rejects block 3.\<close>

definition der_block :: "u64 \<Rightarrow> unit op_block" where
  "der_block n = \<lparr>header_number = n, header_timestamp = 0, header_gas_used = 0, transactions = []\<rparr>"

definition der_deps :: "(unit, compressed_batch list, unit) derivation_deps" where
  "der_deps =
     \<lparr>d_next_batch = (\<lambda>q. if q = [] then (Inr None, q) else (Inr (Some (hd q)), tl q)),
      d_decompress = Inr, d_from_bytes = (\<lambda>bs. Inr (map (\<lambda>w. der_block (ucast w)) bs)),
      d_execute = (\<lambda>b x. (if header_number b = 3 then Inl ''bad'' else Inr (), x)),
      d_cp_ser = (\<lambda>c. None), d_cp_fault = (\<lambda>_. None), d_touched_at = (\<lambda>_. 0),
      d_show_error = (\<lambda>_. [])\<rparr>"

definition der_batch :: "u64 \<Rightarrow> bytes \<Rightarrow> compressed_batch" where
  "der_batch n data = \<lparr>batch_number = n, batch_data = data, block_count = 0, first_block = 0, last_block = 0\<rparr>"

definition der_start :: "(unit, compressed_batch list, unit) derivation_runner" where
  "der_start = (derivation_with_start_block [der_batch 1 [1, 2], der_batch 2 [3]]
     derivation_config_default () 0 \<lparr>files = Map.empty, dirs = {}\<rparr>)
     \<lparr>dr_checkpoint := checkpoint_default, dr_checkpoint_path := None, dr_batch_block_counts := [1 \<mapsto> 2],
      dr_submission_times := Map.empty\<rparr>"

lemmas der_eval = der_start_def der_deps_def der_batch_def der_block_def derivation_with_start_block_def
  derivation_tick_def derive_batch_def dr_should_skip_def dr_record_batch_derived_def save_if_path_def
  dr_finalize_def touch_def record_batch_derived_def checkpoint_default_def derivation_metrics_default_def
  Let_def word_le_nat_alt

theorem derivation_executes_once_witness:
  "\<exists>result r. derivation_run der_deps [5, 6] der_start = (result, r) \<and> result \<noteq> None
     \<and> dr_executed r = [der_block 1, der_block 2] \<and> dr_last_finalized_block r = 2"
proof -
  obtain result r where r: "derivation_run der_deps [5, 6] der_start = (result, r)" by force
  have run: "result \<noteq> None" "dr_executed r = [der_block 1, der_block 2]" "dr_source r = []"
    using r by (auto simp: der_eval)
  let ?q = "[der_batch 1 [1, 2], der_batch 2 [3]]"
  obtain ds more partial rest where ds: "pulled (d_next_batch der_deps) ?q (ds @ more) []" "length more \<le> 1"
    "dr_executed r = concat (map (der_blocks der_deps) (to_derive 0 ds)) @ partial"
    "partial @ rest = concat (map (der_blocks der_deps) more)"
    "dr_last_finalized_block r = 0 + sum_list (recorded_counts [1 \<mapsto> 2] (map batch_number (to_derive 0 ds)))"
    using derivation_executes_once [OF der_start_def r refl] run(3) by (auto simp: checkpoint_default_def)
  have "?q = (ds @ more) @ []" by (rule pulled_queue [OF ds(1)]) (simp_all add: der_deps_def)
  then have "ds = ?q \<or> ds = [der_batch 1 [1, 2]]"
    using ds(2) by (cases more rule: rev_cases) (auto simp: append_eq_Cons_conv)
  moreover have blks: "der_blocks der_deps (der_batch n data) = map (\<lambda>w. der_block (ucast w)) data" for n data
    by (simp add: der_blocks_def der_decode_def der_deps_def der_batch_def)
  moreover have nums: "batch_number (der_batch n data) = n" for n data by (simp add: der_batch_def)
  ultimately have "ds = [der_batch 1 [1, 2]]"
    using ds(3) run(2) by auto
  with ds(5) r run show ?thesis by (simp add: nums del: derivation_run.simps)
qed

text \<open>
  The batch runner numbers its batches from 0, and to the derivation runner a mark of 0 means
  that nothing was derived: batch 0, once derived and recorded, is not skipped.
\<close>

lemma batch_zero_is_not_skipped:
  "dr_record_batch_derived d 0 (derivation_new src cfg x fs) = (Inr (), r) \<Longrightarrow> \<not> dr_should_skip r 0"
  by (auto simp: dr_record_batch_derived_def derivation_new_def derivation_with_start_block_def
      dr_should_skip_def touch_def record_batch_derived_def checkpoint_default_def Let_def
      split: prod.splits)

end
