(* ===== verification/Kv_Database.thy ===== *)
theory Kv_Database
  imports Montana_Prelude
begin

text \<open>
  The key-value database (\<^verbatim>\<open>crates/execution/database/src/kvdb.rs\<close>): contract code, block
  headers and the safe and unsafe marks, in three column families of RocksDB.

  RocksDB is a parameter: reading and writing one key of one family. \<open>rocks_laws\<close> states what
  the code relies on: there is a map from families and keys to values that successful reads
  read and successful writes update.
\<close>

section \<open>Column families and headers\<close>

definition CF_CODE :: string where "CF_CODE = ''code''"
definition CF_HEADERS :: string where "CF_HEADERS = ''headers''"
definition CF_CHAIN_STATE :: string where "CF_CHAIN_STATE = ''chain_state''"

text \<open>The byte strings \<^verbatim>\<open>b"safe"\<close> and \<^verbatim>\<open>b"unsafe"\<close>.\<close>

definition ascii :: "string \<Rightarrow> bytes" where
  "ascii s = map (\<lambda>c. of_nat (of_char c)) s"

definition KEY_SAFE :: bytes where "KEY_SAFE = ascii ''safe''"
definition KEY_UNSAFE :: bytes where "KEY_UNSAFE = ascii ''unsafe''"

type_synonym db_error = string

record header =
  state_root :: bytes

definition header_to_bytes :: "header \<Rightarrow> bytes" where
  "header_to_bytes h = state_root h"

definition header_from_bytes :: "bytes \<Rightarrow> db_error + header" where
  "header_from_bytes bs =
     (if length bs \<noteq> 32
      then Inl (''Invalid header bytes length: expected 32, got '' @ dec (length bs))
      else Inr \<lparr>state_root = bs\<rparr>)"

text \<open>A \<^verbatim>\<open>B256\<close> has 32 bytes.\<close>

lemma header_roundtrip: "length (state_root h) = 32 \<Longrightarrow> header_from_bytes (header_to_bytes h) = Inr h"
  for h :: header
  by (simp add: header_from_bytes_def header_to_bytes_def)

section \<open>The database\<close>

record 'r rocks =
  get_cf :: "string \<Rightarrow> bytes \<Rightarrow> 'r \<Rightarrow> string + bytes option"
  put_cf :: "string \<Rightarrow> bytes \<Rightarrow> bytes \<Rightarrow> 'r \<Rightarrow> string + 'r"

definition get_code :: "'r rocks \<Rightarrow> bytes \<Rightarrow> 'r \<Rightarrow> db_error + bytes option" where
  "get_code R code_hash db = map_err (\<lambda>e. ''Failed to get code: '' @ e) (get_cf R CF_CODE code_hash db)"

definition set_code :: "'r rocks \<Rightarrow> bytes \<Rightarrow> bytes \<Rightarrow> 'r \<Rightarrow> db_error + 'r" where
  "set_code R code_hash code db =
     map_err (\<lambda>e. ''Failed to set code: '' @ e) (put_cf R CF_CODE code_hash code db)"

definition get_header :: "'r rocks \<Rightarrow> u64 \<Rightarrow> 'r \<Rightarrow> db_error + header option" where
  "get_header R n db =
     (case get_cf R CF_HEADERS (to_be_bytes n) db of
        Inr (Some bs) \<Rightarrow> rbind (header_from_bytes bs) (\<lambda>h. Inr (Some h))
      | Inr None \<Rightarrow> Inr None
      | Inl e \<Rightarrow> Inl (''Failed to get header: '' @ e))"

definition set_header :: "'r rocks \<Rightarrow> u64 \<Rightarrow> header \<Rightarrow> 'r \<Rightarrow> db_error + 'r" where
  "set_header R n h db =
     map_err (\<lambda>e. ''Failed to set header: '' @ e)
       (put_cf R CF_HEADERS (to_be_bytes n) (header_to_bytes h) db)"

text \<open>Both marks are read and written the same way; \<open>name\<close> is the word in the messages.\<close>

definition get_mark :: "string \<Rightarrow> bytes \<Rightarrow> 'r rocks \<Rightarrow> 'r \<Rightarrow> db_error + u64 option" where
  "get_mark name key R db =
     (case get_cf R CF_CHAIN_STATE key db of
        Inr (Some bs) \<Rightarrow>
          (if length bs \<noteq> 8
           then Inl (''Invalid '' @ name @ '' block number bytes length: expected 8, got '' @ dec (length bs))
           else Inr (Some (from_be_bytes bs)))
      | Inr None \<Rightarrow> Inr None
      | Inl e \<Rightarrow> Inl (''Failed to get '' @ name @ '' block: '' @ e))"

definition set_mark :: "string \<Rightarrow> bytes \<Rightarrow> 'r rocks \<Rightarrow> u64 \<Rightarrow> 'r \<Rightarrow> db_error + 'r" where
  "set_mark name key R n db =
     map_err (\<lambda>e. ''Failed to set '' @ name @ '' block: '' @ e)
       (put_cf R CF_CHAIN_STATE key (to_be_bytes n) db)"

definition get_safe :: "'r rocks \<Rightarrow> 'r \<Rightarrow> db_error + u64 option" where
  "get_safe R db = get_mark ''safe'' KEY_SAFE R db"

definition set_safe :: "'r rocks \<Rightarrow> u64 \<Rightarrow> 'r \<Rightarrow> db_error + 'r" where
  "set_safe R n db = set_mark ''safe'' KEY_SAFE R n db"

definition get_unsafe :: "'r rocks \<Rightarrow> 'r \<Rightarrow> db_error + u64 option" where
  "get_unsafe R db = get_mark ''unsafe'' KEY_UNSAFE R db"

definition set_unsafe :: "'r rocks \<Rightarrow> u64 \<Rightarrow> 'r \<Rightarrow> db_error + 'r" where
  "set_unsafe R n db = set_mark ''unsafe'' KEY_UNSAFE R n db"

text \<open>
  Creation. \<open>codes\<close> are the codes of the genesis accounts, \<open>hash_slow\<close> is revm's code hash;
  \<open>exists\<close> says whether the path was there before, \<open>opened\<close> is RocksDB's answer.
\<close>

fun set_codes :: "'r rocks \<Rightarrow> (bytes \<Rightarrow> bytes) \<Rightarrow> bytes option list \<Rightarrow> 'r \<Rightarrow> db_error + 'r" where
  "set_codes R hash_slow [] db = Inr db"
| "set_codes R hash_slow (c # cs) db =
     (case c of
        None \<Rightarrow> set_codes R hash_slow cs db
      | Some code \<Rightarrow> rbind (set_code R (hash_slow code) code db) (set_codes R hash_slow cs))"

definition ZERO_HASH :: bytes where "ZERO_HASH = replicate 32 0"

definition kv_apply_genesis :: "'r rocks \<Rightarrow> (bytes \<Rightarrow> bytes) \<Rightarrow> bytes option list \<Rightarrow> 'r \<Rightarrow> db_error + 'r" where
  "kv_apply_genesis R hash_slow codes db =
     rbind (set_codes R hash_slow codes db) (\<lambda>db.
     rbind (set_safe R 0 db) (\<lambda>db.
     rbind (set_unsafe R 0 db) (\<lambda>db.
       set_header R 0 \<lparr>state_root = ZERO_HASH\<rparr> db)))"

definition kv_open_or_create :: "'r rocks \<Rightarrow> (bytes \<Rightarrow> bytes) \<Rightarrow> bool \<Rightarrow> string + 'r \<Rightarrow> bytes option list
    \<Rightarrow> db_error + 'r" where
  "kv_open_or_create R hash_slow exists opened codes =
     rbind (map_err (\<lambda>e. ''Failed to open RocksDB: '' @ e) opened) (\<lambda>db.
       if \<not> exists then kv_apply_genesis R hash_slow codes db else Inr db)"

section \<open>Reading what was written\<close>

definition rocks_laws :: "'r rocks \<Rightarrow> ('r \<Rightarrow> string \<times> bytes \<Rightarrow> bytes option) \<Rightarrow> bool" where
  "rocks_laws R contents =
     ((\<forall>cf k db x. get_cf R cf k db = Inr x \<longrightarrow> x = contents db (cf, k))
      \<and> (\<forall>cf k v db db'. put_cf R cf k v db = Inr db' \<longrightarrow> contents db' = (contents db)((cf, k) \<mapsto> v)))"

lemma rocks_get: "rocks_laws R contents \<Longrightarrow> get_cf R cf k db = Inr x \<Longrightarrow> x = contents db (cf, k)"
  by (simp add: rocks_laws_def)

lemma rocks_put:
  "rocks_laws R contents \<Longrightarrow> put_cf R cf k v db = Inr db' \<Longrightarrow> contents db' = (contents db)((cf, k) \<mapsto> v)"
  by (simp add: rocks_laws_def)

lemma families [simp]:
  "CF_CODE \<noteq> CF_HEADERS" "CF_CODE \<noteq> CF_CHAIN_STATE" "CF_HEADERS \<noteq> CF_CHAIN_STATE"
  "CF_HEADERS \<noteq> CF_CODE" "CF_CHAIN_STATE \<noteq> CF_CODE" "CF_CHAIN_STATE \<noteq> CF_HEADERS"
  "KEY_SAFE \<noteq> KEY_UNSAFE" "KEY_UNSAFE \<noteq> KEY_SAFE"
  by (simp_all add: CF_CODE_def CF_HEADERS_def CF_CHAIN_STATE_def KEY_SAFE_def KEY_UNSAFE_def ascii_def)

section \<open>The abstract store\<close>

text \<open>
  What the database promises: two maps and two marks, with writes that update one of them. The
  abstraction \<open>store_of\<close> reads them off the contents.
\<close>

record store =
  st_code :: "bytes \<Rightarrow> bytes option"
  st_header :: "u64 \<Rightarrow> header option"
  st_safe :: "u64 option"
  st_unsafe :: "u64 option"

definition store_of :: "(string \<times> bytes \<Rightarrow> bytes option) \<Rightarrow> store" where
  "store_of m =
     \<lparr>st_code = (\<lambda>h. m (CF_CODE, h)),
      st_header = (\<lambda>n. map_option (\<lambda>bs. \<lparr>state_root = bs\<rparr>) (m (CF_HEADERS, to_be_bytes n))),
      st_safe = map_option from_be_bytes (m (CF_CHAIN_STATE, KEY_SAFE)),
      st_unsafe = map_option from_be_bytes (m (CF_CHAIN_STATE, KEY_UNSAFE))\<rparr>"

lemma kv_writes:
  assumes "rocks_laws R contents"
  shows "set_code R ch c db = Inr db' \<Longrightarrow> store_of (contents db')
      = (store_of (contents db))\<lparr>st_code := (st_code (store_of (contents db)))(ch \<mapsto> c)\<rparr>"
    and "set_header R n h db = Inr db' \<Longrightarrow> store_of (contents db')
      = (store_of (contents db))\<lparr>st_header := (st_header (store_of (contents db)))(n \<mapsto> h)\<rparr>"
    and "set_safe R n db = Inr db' \<Longrightarrow> store_of (contents db') = (store_of (contents db))\<lparr>st_safe := Some n\<rparr>"
    and "set_unsafe R n db = Inr db' \<Longrightarrow> store_of (contents db') = (store_of (contents db))\<lparr>st_unsafe := Some n\<rparr>"
  using rocks_put [OF assms]
  by (auto simp: set_code_def set_header_def set_safe_def set_unsafe_def set_mark_def store_of_def
      header_to_bytes_def to_be_bytes_inj fun_eq_iff)

lemma kv_reads:
  assumes "rocks_laws R contents"
  shows "get_code R ch db = Inr x \<Longrightarrow> x = st_code (store_of (contents db)) ch"
    and "get_header R n db = Inr y \<Longrightarrow> y = st_header (store_of (contents db)) n"
    and "get_safe R db = Inr z \<Longrightarrow> z = st_safe (store_of (contents db))"
    and "get_unsafe R db = Inr z \<Longrightarrow> z = st_unsafe (store_of (contents db))"
  using rocks_get [OF assms, symmetric]
  by (auto simp: get_code_def get_header_def get_safe_def get_unsafe_def get_mark_def store_of_def
      header_from_bytes_def rbind_Inr_iff split: sum.splits option.splits if_splits)

datatype kv_write = Set_Code bytes bytes | Set_Header u64 header | Set_Safe u64 | Set_Unsafe u64

fun kv_perform :: "'r rocks \<Rightarrow> kv_write \<Rightarrow> 'r \<Rightarrow> db_error + 'r" where
  "kv_perform R (Set_Code ch c) db = set_code R ch c db"
| "kv_perform R (Set_Header n h) db = set_header R n h db"
| "kv_perform R (Set_Safe n) db = set_safe R n db"
| "kv_perform R (Set_Unsafe n) db = set_unsafe R n db"

fun store_write :: "kv_write \<Rightarrow> store \<Rightarrow> store" where
  "store_write (Set_Code ch c) s = s\<lparr>st_code := (st_code s)(ch \<mapsto> c)\<rparr>"
| "store_write (Set_Header n h) s = s\<lparr>st_header := (st_header s)(n \<mapsto> h)\<rparr>"
| "store_write (Set_Safe n) s = s\<lparr>st_safe := Some n\<rparr>"
| "store_write (Set_Unsafe n) s = s\<lparr>st_unsafe := Some n\<rparr>"

fun kv_writes_seq :: "'r rocks \<Rightarrow> kv_write list \<Rightarrow> 'r \<Rightarrow> db_error + 'r" where
  "kv_writes_seq R [] db = Inr db"
| "kv_writes_seq R (w # ws) db = rbind (kv_perform R w db) (kv_writes_seq R ws)"

lemma kv_writes_seq_store:
  assumes "rocks_laws R contents"
  shows "kv_writes_seq R ws db = Inr db' \<Longrightarrow> store_of (contents db') = fold store_write ws (store_of (contents db))"
proof (induction ws arbitrary: db)
  case Nil
  then show ?case by simp
next
  case (Cons w ws)
  then obtain d where w: "kv_perform R w db = Inr d" and rest: "kv_writes_seq R ws d = Inr db'"
    by (auto simp: rbind_Inr_iff)
  have "store_of (contents d) = store_write w (store_of (contents db))"
    using w kv_writes [OF assms] by (cases w) simp_all
  with Cons.IH [OF rest] show ?case by simp
qed

text \<open>The writes of the creation of a database.\<close>

definition genesis_writes :: "(bytes \<Rightarrow> bytes) \<Rightarrow> bytes option list \<Rightarrow> kv_write list" where
  "genesis_writes hash_slow codes =
     map (\<lambda>c. Set_Code (hash_slow c) c) (List.map_filter (\<lambda>c. c) codes)
     @ [Set_Safe 0, Set_Unsafe 0, Set_Header 0 \<lparr>state_root = ZERO_HASH\<rparr>]"

lemma kv_writes_seq_append: "kv_writes_seq R (vs @ ws) db = rbind (kv_writes_seq R vs db) (kv_writes_seq R ws)"
proof (induction vs arbitrary: db)
  case (Cons v vs)
  then show ?case by (cases "kv_perform R v db") simp_all
qed simp

lemma rbind_Inr_right [simp]: "rbind r Inr = r"
  by (cases r) simp_all

lemma set_codes_eq:
  "set_codes R hash_slow codes db
     = kv_writes_seq R (map (\<lambda>c. Set_Code (hash_slow c) c) (List.map_filter (\<lambda>c. c) codes)) db"
proof (induction codes arbitrary: db)
  case Nil
  then show ?case by (simp add: map_filter_simps)
next
  case (Cons c codes)
  have "set_codes R hash_slow codes
      = kv_writes_seq R (map (\<lambda>c. Set_Code (hash_slow c) c) (List.map_filter (\<lambda>c. c) codes))"
    using Cons.IH by (simp add: fun_eq_iff)
  then show ?case by (cases c) (simp_all add: map_filter_simps)
qed

lemma kv_writes_seq_fun:
  "kv_writes_seq R [] = Inr"
  "kv_writes_seq R (w # ws) = (\<lambda>db. rbind (kv_perform R w db) (kv_writes_seq R ws))"
  by (simp_all add: fun_eq_iff)

lemma kv_genesis_eq: "kv_apply_genesis R hash_slow codes db = kv_writes_seq R (genesis_writes hash_slow codes) db"
  by (cases "set_codes R hash_slow codes db")
    (simp_all add: kv_apply_genesis_def genesis_writes_def kv_writes_seq_append kv_writes_seq_fun
      set_codes_eq [symmetric] del: kv_writes_seq.simps)

text \<open>
  C30: the key-value database is a store of two maps and two marks. Whatever is written after
  its creation, every successful read of a code, a header or a mark returns what the abstract
  store holds after the same writes, starting from the genesis codes, both marks 0 and a zero
  root for block 0; no write disturbs another family, block or mark, and every number and root
  is read back as it was written.
\<close>

theorem kv_refines_store:
  assumes "rocks_laws R contents" and "contents fresh = Map.empty"
    and "kv_open_or_create R hash_slow False (Inr fresh) codes = Inr db"
    and "kv_writes_seq R ws db = Inr db'"
  shows "case fold store_write (genesis_writes hash_slow codes @ ws)
            \<lparr>st_code = Map.empty, st_header = Map.empty, st_safe = None, st_unsafe = None\<rparr> of s \<Rightarrow>
     (is_ok (get_code R ch db') \<longrightarrow> get_code R ch db' = Inr (st_code s ch))
     \<and> (is_ok (get_header R n db') \<longrightarrow> get_header R n db' = Inr (st_header s n))
     \<and> (is_ok (get_safe R db') \<longrightarrow> get_safe R db' = Inr (st_safe s))
     \<and> (is_ok (get_unsafe R db') \<longrightarrow> get_unsafe R db' = Inr (st_unsafe s))"
proof -
  have "kv_writes_seq R (genesis_writes hash_slow codes @ ws) fresh = Inr db'"
    using assms(3,4) by (simp add: kv_open_or_create_def kv_genesis_eq kv_writes_seq_append)
  from kv_writes_seq_store [OF assms(1) this]
  have s: "store_of (contents db') = fold store_write (genesis_writes hash_slow codes @ ws)
      \<lparr>st_code = Map.empty, st_header = Map.empty, st_safe = None, st_unsafe = None\<rparr>"
    by (simp add: assms(2) store_of_def)
  show ?thesis
    unfolding s [symmetric]
    by (auto simp: is_ok_def split: sum.splits dest: kv_reads [OF assms(1)])
qed

text \<open>A store of which every call succeeds.\<close>

definition map_rocks :: "(string \<times> bytes \<Rightarrow> bytes option) rocks" where
  "map_rocks = \<lparr>get_cf = (\<lambda>cf k db. Inr (db (cf, k))), put_cf = (\<lambda>cf k v db. Inr (db((cf, k) \<mapsto> v)))\<rparr>"

theorem kv_refines_store_witness:
  "\<exists>db db'. kv_open_or_create map_rocks (\<lambda>c. c) False (Inr Map.empty) [Some [1]] = Inr db
     \<and> kv_writes_seq map_rocks [Set_Safe 5, Set_Unsafe 9] db = Inr db'
     \<and> get_safe map_rocks db' = Inr (Some 5) \<and> get_unsafe map_rocks db' = Inr (Some 9)
     \<and> get_code map_rocks [1] db' = Inr (Some [1])"
proof -
  have laws: "rocks_laws map_rocks (\<lambda>db. db)" by (simp add: rocks_laws_def map_rocks_def)
  obtain db where db: "kv_open_or_create map_rocks (\<lambda>c. c) False (Inr Map.empty) [Some [1]] = Inr db"
    by (simp add: kv_open_or_create_def kv_apply_genesis_def set_code_def set_safe_def set_unsafe_def
        set_mark_def set_header_def map_rocks_def)
  obtain db' where db': "kv_writes_seq map_rocks [Set_Safe 5, Set_Unsafe 9] db = Inr db'"
    by (simp add: set_safe_def set_unsafe_def set_mark_def map_rocks_def)
  have "is_ok (get_safe map_rocks db')" "is_ok (get_unsafe map_rocks db')" "is_ok (get_code map_rocks [1] db')"
    using db' by (auto simp: set_safe_def set_unsafe_def set_mark_def get_safe_def get_unsafe_def
        get_mark_def get_code_def map_rocks_def)
  with kv_refines_store [OF laws refl db db', of "[1]"] db db' show ?thesis
    by (simp add: genesis_writes_def map_filter_simps)
qed

end
