(* ===== verification/Trie_Database.thy ===== *)
theory Trie_Database
  imports Kv_Database
begin

text \<open>
  The state database (\<^verbatim>\<open>crates/execution/database/src/triedb.rs\<close> and the trait of
  \<^verbatim>\<open>traits.rs\<close>): accounts and storage in a TrieDB, code and headers in a key-value database.

  TrieDB is a parameter: its read and write transactions as functions that may fail.
  \<open>trie_laws\<close> states what the code relies on: a transaction is a copy of the accounts and
  slots that writes update and a commit makes current. The storage root kept in an account is
  TrieDB's own. revm's bytecode type \<open>'c\<close> comes with the functions the source calls on it. An
  \<^verbatim>\<open>EvmState\<close> is the list of its entries in iteration order.
\<close>

section \<open>Accounts and states\<close>

record 'c account_info =
  ai_nonce :: u64
  ai_balance :: u256
  ai_code_hash :: bytes
  ai_code :: "'c option"

record trie_account =
  ta_nonce :: u64
  ta_balance :: u256
  ta_storage_root :: bytes
  ta_code_hash :: bytes

record 'c evm_account =
  ea_info :: "'c account_info"
  ea_storage :: "(u256 \<times> u256) list"
  ea_selfdestructed :: bool

type_synonym 'c evm_state = "(bytes \<times> 'c evm_account) list"

record 'c bytecode_ops =
  bc_new_raw :: "bytes \<Rightarrow> 'c"
  bc_original :: "'c \<Rightarrow> bytes"
  bc_is_empty :: "'c \<Rightarrow> bool"
  bc_default :: 'c
  bc_hash_slow :: "'c \<Rightarrow> bytes"
  keccak_empty :: bytes

section \<open>The trait\<close>

text \<open>A database with state \<open>'i\<close>: the reads of \<^verbatim>\<open>DatabaseRef\<close> and the two commits.\<close>

record ('c, 'i) database_ops =
  db_basic :: "bytes \<Rightarrow> 'i \<Rightarrow> db_error + 'c account_info option"
  db_code_by_hash :: "bytes \<Rightarrow> 'i \<Rightarrow> db_error + 'c"
  db_storage :: "bytes \<Rightarrow> u256 \<Rightarrow> 'i \<Rightarrow> db_error + u256"
  db_block_hash :: "u64 \<Rightarrow> 'i \<Rightarrow> db_error + bytes"
  db_commit :: "'c evm_state \<Rightarrow> 'i \<Rightarrow> 'i"
  db_commit_block :: "u64 \<Rightarrow> 'c evm_state list \<Rightarrow> 'i \<Rightarrow> (db_error + bytes) \<times> 'i"

record 'k kv_ops =
  kv_get_code :: "bytes \<Rightarrow> 'k \<Rightarrow> db_error + bytes option"
  kv_set_code :: "bytes \<Rightarrow> bytes \<Rightarrow> 'k \<Rightarrow> db_error + 'k"
  kv_set_header :: "u64 \<Rightarrow> header \<Rightarrow> 'k \<Rightarrow> db_error + 'k"

definition rocks_kv :: "'r rocks \<Rightarrow> 'r kv_ops" where
  "rocks_kv R = \<lparr>kv_get_code = get_code R, kv_set_code = set_code R, kv_set_header = set_header R\<rparr>"

record ('t, 'x) trie_ops =
  begin_ro :: "'t \<Rightarrow> string + unit"
  commit_ro :: "'t \<Rightarrow> string + unit"
  read_account :: "bytes \<Rightarrow> 't \<Rightarrow> string + trie_account option"
  read_slot :: "bytes \<times> u256 \<Rightarrow> 't \<Rightarrow> string + u256 option"
  begin_rw :: "'t \<Rightarrow> string + 'x"
  write_account :: "bytes \<Rightarrow> trie_account option \<Rightarrow> 'x \<Rightarrow> string + 'x"
  write_slot :: "bytes \<times> u256 \<Rightarrow> u256 option \<Rightarrow> 'x \<Rightarrow> string + 'x"
  commit_rw :: "'x \<Rightarrow> string + 't"
  root :: "'t \<Rightarrow> bytes"
  show_address :: "bytes \<Rightarrow> string"

type_synonym ('t, 'k) trie_database = "'t \<times> 'k"

section \<open>Reading\<close>

text \<open>A read in its own transaction; \<open>what\<close> describes it in the error message.\<close>

definition read_tx :: "('t, 'x) trie_ops \<Rightarrow> string \<Rightarrow> ('t \<Rightarrow> string + 'v) \<Rightarrow> 't \<Rightarrow> db_error + 'v" where
  "read_tx D what f t =
     rbind (map_err (\<lambda>e. ''Failed to begin read transaction: '' @ e) (begin_ro D t)) (\<lambda>_.
     rbind (map_err (\<lambda>e. ''Failed to get '' @ what @ '': '' @ e) (f t)) (\<lambda>v.
     rbind (map_err (\<lambda>e. ''Failed to commit read transaction: '' @ e) (commit_ro D t)) (\<lambda>_. Inr v)))"

text \<open>The code of an account, read from the key-value database.\<close>

definition account_code :: "'k kv_ops \<Rightarrow> 'c bytecode_ops \<Rightarrow> trie_account \<Rightarrow> 'k \<Rightarrow> db_error + 'c option" where
  "account_code K B acc k =
     (if ta_code_hash acc \<noteq> keccak_empty B
      then rbind (kv_get_code K (ta_code_hash acc) k) (\<lambda>bs. Inr (map_option (bc_new_raw B) bs))
      else Inr None)"

definition info_of :: "trie_account \<Rightarrow> 'c option \<Rightarrow> 'c account_info" where
  "info_of acc code =
     \<lparr>ai_nonce = ta_nonce acc, ai_balance = ta_balance acc, ai_code_hash = ta_code_hash acc, ai_code = code\<rparr>"

definition trie_basic :: "('t, 'x) trie_ops \<Rightarrow> 'k kv_ops \<Rightarrow> 'c bytecode_ops \<Rightarrow> bytes
    \<Rightarrow> ('t, 'k) trie_database \<Rightarrow> db_error + 'c account_info option" where
  "trie_basic D K B a db =
     rbind (read_tx D (''account '' @ show_address D a) (read_account D a) (fst db)) (\<lambda>account.
       case account of
         None \<Rightarrow> Inr None
       | Some acc \<Rightarrow> rbind (account_code K B acc (snd db)) (\<lambda>code. Inr (Some (info_of acc code))))"

definition trie_code_by_hash :: "'k kv_ops \<Rightarrow> 'c bytecode_ops \<Rightarrow> bytes \<Rightarrow> ('t, 'k) trie_database
    \<Rightarrow> db_error + 'c" where
  "trie_code_by_hash K B h db =
     rbind (kv_get_code K h (snd db)) (\<lambda>bs.
       Inr (case bs of Some bs \<Rightarrow> bc_new_raw B bs | None \<Rightarrow> bc_default B))"

definition trie_storage :: "('t, 'x) trie_ops \<Rightarrow> bytes \<Rightarrow> u256 \<Rightarrow> ('t, 'k) trie_database
    \<Rightarrow> db_error + u256" where
  "trie_storage D a slot db =
     rbind (read_tx D (''storage '' @ show_address D a @ '':'' @ dec (unat slot)) (read_slot D (a, slot)) (fst db))
       (\<lambda>v. Inr (case v of Some v \<Rightarrow> v | None \<Rightarrow> 0))"

definition trie_block_hash :: "u64 \<Rightarrow> ('t, 'k) trie_database \<Rightarrow> db_error + bytes" where
  "trie_block_hash n db = Inr ZERO_HASH"

section \<open>Writing\<close>

text \<open>
  The writes of \<^verbatim>\<open>commit_block\<close> on the open transaction \<open>x\<close> and the key-value database \<open>k\<close>,
  whose writes take effect at once. On an error the transaction is dropped.
\<close>

fun write_slots :: "('t, 'x) trie_ops \<Rightarrow> bytes \<Rightarrow> (u256 \<times> u256) list \<Rightarrow> 'x \<Rightarrow> db_error + 'x" where
  "write_slots D a [] x = Inr x"
| "write_slots D a ((slot, v) # slots) x =
     rbind (map_err (\<lambda>e. ''Failed to set storage '' @ show_address D a @ '':'' @ dec (unat slot) @ '': '' @ e)
              (write_slot D (a, slot) (if v = 0 then None else Some v) x))
       (write_slots D a slots)"

definition trie_account_of :: "'c account_info \<Rightarrow> trie_account" where
  "trie_account_of info =
     \<lparr>ta_nonce = ai_nonce info, ta_balance = ai_balance info, ta_storage_root = ZERO_HASH,
      ta_code_hash = ai_code_hash info\<rparr>"

definition store_code :: "'k kv_ops \<Rightarrow> 'c bytecode_ops \<Rightarrow> 'c account_info \<Rightarrow> 'k \<Rightarrow> (db_error + unit) \<times> 'k" where
  "store_code K B info k =
     (case ai_code info of
        None \<Rightarrow> (Inr (), k)
      | Some code \<Rightarrow>
          if \<not> bc_is_empty B code \<and> ai_code_hash info \<noteq> keccak_empty B
          then (case kv_set_code K (ai_code_hash info) (bc_original B code) k of
                  Inl e \<Rightarrow> (Inl e, k)
                | Inr k' \<Rightarrow> (Inr (), k'))
          else (Inr (), k))"

definition write_change :: "('t, 'x) trie_ops \<Rightarrow> 'k kv_ops \<Rightarrow> 'c bytecode_ops \<Rightarrow> bytes \<times> 'c evm_account
    \<Rightarrow> 'x \<times> 'k \<Rightarrow> (db_error + 'x) \<times> 'k" where
  "write_change D K B c s =
     (case c of (a, acc) \<Rightarrow> case s of (x, k) \<Rightarrow>
        (if ea_selfdestructed acc
         then (case write_account D a None x of
                 Inl e \<Rightarrow> (Inl (''Failed to delete account '' @ show_address D a @ '': '' @ e), k)
               | Inr x \<Rightarrow> (write_slots D a (ea_storage acc) x, k))
         else (case write_account D a (Some (trie_account_of (ea_info acc))) x of
                 Inl e \<Rightarrow> (Inl (''Failed to set account '' @ show_address D a @ '': '' @ e), k)
               | Inr x \<Rightarrow>
                   (case store_code K B (ea_info acc) k of
                      (Inl e, k) \<Rightarrow> (Inl e, k)
                    | (Inr _, k) \<Rightarrow> (write_slots D a (ea_storage acc) x, k)))))"

fun write_changes :: "('t, 'x) trie_ops \<Rightarrow> 'k kv_ops \<Rightarrow> 'c bytecode_ops \<Rightarrow> 'c evm_state
    \<Rightarrow> 'x \<times> 'k \<Rightarrow> (db_error + 'x) \<times> 'k" where
  "write_changes D K B [] s = (Inr (fst s), snd s)"
| "write_changes D K B (c # cs) s =
     (case write_change D K B c s of
        (Inl e, k) \<Rightarrow> (Inl e, k)
      | (Inr x, k) \<Rightarrow> write_changes D K B cs (x, k))"

definition trie_commit_block :: "('t, 'x) trie_ops \<Rightarrow> 'k kv_ops \<Rightarrow> 'c bytecode_ops \<Rightarrow> u64
    \<Rightarrow> 'c evm_state list \<Rightarrow> ('t, 'k) trie_database \<Rightarrow> (db_error + bytes) \<times> ('t, 'k) trie_database" where
  "trie_commit_block D K B n changes db =
     (case db of (t, k) \<Rightarrow>
        (case begin_rw D t of
           Inl e \<Rightarrow> (Inl (''Failed to begin write transaction: '' @ e), (t, k))
         | Inr x \<Rightarrow>
             (case write_changes D K B (concat changes) (x, k) of
                (Inl e, k) \<Rightarrow> (Inl e, (t, k))
              | (Inr x, k) \<Rightarrow>
                  (case commit_rw D x of
                     Inl e \<Rightarrow> (Inl (''Failed to commit transaction: '' @ e), (t, k))
                   | Inr t \<Rightarrow>
                       (case kv_set_header K n \<lparr>state_root = root D t\<rparr> k of
                          Inl e \<Rightarrow> (Inl e, (t, k))
                        | Inr k \<Rightarrow> (Inr (root D t), (t, k)))))))"

definition trie_commit :: "'c evm_state \<Rightarrow> ('t, 'k) trie_database \<Rightarrow> ('t, 'k) trie_database" where
  "trie_commit changes db = db"

definition insert_code :: "'k kv_ops \<Rightarrow> 'c bytecode_ops \<Rightarrow> bytes \<Rightarrow> 'c \<Rightarrow> ('t, 'k) trie_database
    \<Rightarrow> db_error + ('t, 'k) trie_database" where
  "insert_code K B h code db =
     rbind (kv_set_code K h (bc_original B code) (snd db)) (\<lambda>k. Inr (fst db, k))"

definition trie_ops_of :: "('t, 'x) trie_ops \<Rightarrow> 'k kv_ops \<Rightarrow> 'c bytecode_ops
    \<Rightarrow> ('c, ('t, 'k) trie_database) database_ops" where
  "trie_ops_of D K B =
     \<lparr>db_basic = trie_basic D K B, db_code_by_hash = trie_code_by_hash K B, db_storage = trie_storage D,
      db_block_hash = trie_block_hash, db_commit = trie_commit,
      db_commit_block = trie_commit_block D K B\<rparr>"

section \<open>Creation\<close>

text \<open>
  Slots and values of the genesis file are 32-byte strings, read as big-endian numbers.
\<close>

definition u256_of_be :: "bytes \<Rightarrow> u256" where
  "u256_of_be bs = of_nat (le_val (rev bs))"

record genesis_account =
  g_nonce :: "u64 option"
  g_balance :: u256
  g_code :: "bytes option"
  g_storage :: "(bytes \<times> bytes) list option"

text \<open>\<open>OpenError::IO\<close> with its message; \<open>Not_Found\<close> is the error kind that creates the database.\<close>

datatype 't open_result = Opened 't | Not_Found | Open_Error string

fun genesis_slots :: "('t, 'x) trie_ops \<Rightarrow> bytes \<Rightarrow> (bytes \<times> bytes) list \<Rightarrow> 'x \<Rightarrow> string + 'x" where
  "genesis_slots D a [] x = Inr x"
| "genesis_slots D a ((slot, v) # slots) x =
     rbind (map_err (\<lambda>e. ''Failed to set genesis storage '' @ show_address D a @ '': '' @ e)
              (write_slot D (a, u256_of_be slot) (if v = ZERO_HASH then None else Some (u256_of_be v)) x))
       (genesis_slots D a slots)"

fun genesis_accounts :: "('t, 'x) trie_ops \<Rightarrow> 'k kv_ops \<Rightarrow> 'c bytecode_ops \<Rightarrow> (bytes \<times> genesis_account) list
    \<Rightarrow> 'x \<times> 'k \<Rightarrow> (string + 'x) \<times> 'k" where
  "genesis_accounts D K B [] s = (Inr (fst s), snd s)"
| "genesis_accounts D K B ((a, g) # gs) s =
     (case s of (x, k) \<Rightarrow>
        (case (case g_code g of
                 None \<Rightarrow> Inr (keccak_empty B, k)
               | Some code \<Rightarrow>
                   rbind (map_err (\<lambda>e. ''Failed to store genesis code: '' @ e)
                            (kv_set_code K (bc_hash_slow B (bc_new_raw B code)) code k))
                     (\<lambda>k. Inr (bc_hash_slow B (bc_new_raw B code), k))) of
           Inl e \<Rightarrow> (Inl e, k)
         | Inr (code_hash, k) \<Rightarrow>
             (case rbind (map_err (\<lambda>e. ''Failed to set genesis account '' @ show_address D a @ '': '' @ e)
                      (write_account D a (Some \<lparr>ta_nonce = (case g_nonce g of Some n \<Rightarrow> n | None \<Rightarrow> 0),
                         ta_balance = g_balance g, ta_storage_root = ZERO_HASH, ta_code_hash = code_hash\<rparr>) x))
                      (\<lambda>x. case g_storage g of None \<Rightarrow> Inr x | Some slots \<Rightarrow> genesis_slots D a slots x) of
                Inl e \<Rightarrow> (Inl e, k)
              | Inr x \<Rightarrow> genesis_accounts D K B gs (x, k))))"

definition trie_apply_genesis :: "('t, 'x) trie_ops \<Rightarrow> 'k kv_ops \<Rightarrow> 'c bytecode_ops
    \<Rightarrow> (bytes \<times> genesis_account) list \<Rightarrow> ('t, 'k) trie_database \<Rightarrow> (string + unit) \<times> ('t, 'k) trie_database" where
  "trie_apply_genesis D K B alloc db =
     (case db of (t, k) \<Rightarrow>
        (case begin_rw D t of
           Inl e \<Rightarrow> (Inl (''Failed to begin write transaction: '' @ e), (t, k))
         | Inr x \<Rightarrow>
             (case genesis_accounts D K B alloc (x, k) of
                (Inl e, k) \<Rightarrow> (Inl e, (t, k))
              | (Inr x, k) \<Rightarrow>
                  (case commit_rw D x of
                     Inl e \<Rightarrow> (Inl (''Failed to commit genesis state: '' @ e), (t, k))
                   | Inr t \<Rightarrow>
                       (case kv_set_header K 0 \<lparr>state_root = root D t\<rparr> k of
                          Inl e \<Rightarrow> (Inl (''Failed to store genesis header: '' @ e), (t, k))
                        | Inr k \<Rightarrow> (Inr (), (t, k)))))))"

definition trie_open_or_create :: "('t, 'x) trie_ops \<Rightarrow> 'k kv_ops \<Rightarrow> 'c bytecode_ops \<Rightarrow> 't open_result
    \<Rightarrow> string + 't \<Rightarrow> (bytes \<times> genesis_account) list \<Rightarrow> 'k \<Rightarrow> string + ('t, 'k) trie_database" where
  "trie_open_or_create D K B opened created alloc k =
     (case opened of
        Opened t \<Rightarrow> Inr (t, k)
      | Open_Error e \<Rightarrow> Inl e
      | Not_Found \<Rightarrow>
          rbind created (\<lambda>t.
            case trie_apply_genesis D K B alloc (t, k) of
              (Inl e, _) \<Rightarrow> Inl e
            | (Inr _, db) \<Rightarrow> Inr db))"

section \<open>What the code relies on\<close>

text \<open>The part of an account that is the source's: nonce, balance and code hash.\<close>

type_synonym core = "u64 \<times> u256 \<times> bytes"

definition core_of :: "trie_account \<Rightarrow> core" where
  "core_of a = (ta_nonce a, ta_balance a, ta_code_hash a)"

definition info_core :: "'c account_info \<Rightarrow> core" where
  "info_core i = (ai_nonce i, ai_balance i, ai_code_hash i)"

lemma core_of_info [simp]: "core_of (trie_account_of i) = info_core i"
  by (simp add: core_of_def trie_account_of_def info_core_def)

text \<open>\<open>acc\<close> and \<open>slot\<close> are the committed contents, \<open>xacc\<close> and \<open>xslot\<close> those of a transaction.\<close>

definition trie_laws :: "('t, 'x) trie_ops \<Rightarrow> ('t \<Rightarrow> bytes \<Rightarrow> core option) \<Rightarrow> ('t \<Rightarrow> bytes \<times> u256 \<Rightarrow> u256 option)
    \<Rightarrow> ('x \<Rightarrow> bytes \<Rightarrow> core option) \<Rightarrow> ('x \<Rightarrow> bytes \<times> u256 \<Rightarrow> u256 option) \<Rightarrow> bool" where
  "trie_laws D acc slot xacc xslot =
     ((\<forall>a t v. read_account D a t = Inr v \<longrightarrow> map_option core_of v = acc t a)
      \<and> (\<forall>p t v. read_slot D p t = Inr v \<longrightarrow> v = slot t p)
      \<and> (\<forall>t x. begin_rw D t = Inr x \<longrightarrow> xacc x = acc t \<and> xslot x = slot t)
      \<and> (\<forall>a v x y. write_account D a v x = Inr y \<longrightarrow> xacc y = (xacc x)(a := map_option core_of v)
           \<and> (v \<noteq> None \<longrightarrow> xslot y = xslot x))
      \<and> (\<forall>p v x y. write_slot D p v x = Inr y \<longrightarrow> xslot y = (xslot x)(p := v) \<and> xacc y = xacc x)
      \<and> (\<forall>x t. commit_rw D x = Inr t \<longrightarrow> acc t = xacc x \<and> slot t = xslot x))"

text \<open>The value of a slot: an absent one is zero.\<close>

definition value_of :: "u256 option \<Rightarrow> u256" where
  "value_of v = (case v of Some v \<Rightarrow> v | None \<Rightarrow> 0)"

definition slot_values :: "('p \<Rightarrow> u256 option) \<Rightarrow> 'p \<Rightarrow> u256" where
  "slot_values f p = value_of (f p)"

lemma slot_values_upd:
  "slot_values (f(p := (if v = 0 then None else Some v))) = (slot_values f)(p := v)"
  by (auto simp: slot_values_def value_of_def fun_eq_iff)

section \<open>The effect of a block\<close>

text \<open>What a list of changes does to the accounts and to the values of the slots.\<close>

fun account_effect :: "'c evm_state \<Rightarrow> (bytes \<Rightarrow> core option) \<Rightarrow> bytes \<Rightarrow> core option" where
  "account_effect [] f = f"
| "account_effect ((a, acc) # cs) f =
     account_effect cs (f(a := (if ea_selfdestructed acc then None else Some (info_core (ea_info acc)))))"

fun slots_effect :: "bytes \<Rightarrow> (u256 \<times> u256) list \<Rightarrow> (bytes \<times> u256 \<Rightarrow> u256) \<Rightarrow> bytes \<times> u256 \<Rightarrow> u256" where
  "slots_effect a [] f = f"
| "slots_effect a ((slot, v) # slots) f = slots_effect a slots (f((a, slot) := v))"

fun storage_effect :: "'c evm_state \<Rightarrow> (bytes \<times> u256 \<Rightarrow> u256) \<Rightarrow> bytes \<times> u256 \<Rightarrow> u256" where
  "storage_effect [] f = f"
| "storage_effect ((a, acc) # cs) f = storage_effect cs (slots_effect a (ea_storage acc) f)"

definition no_selfdestruct :: "'c evm_state \<Rightarrow> bool" where
  "no_selfdestruct cs = list_all (\<lambda>(a, acc). \<not> ea_selfdestructed acc) cs"

lemma write_slots_effect:
  assumes "trie_laws D acc slot xacc xslot"
  shows "write_slots D a slots x = Inr y \<Longrightarrow>
    xacc y = xacc x \<and> slot_values (xslot y) = slots_effect a slots (slot_values (xslot x))"
proof (induction slots arbitrary: x)
  case Nil
  then show ?case by simp
next
  case (Cons c slots)
  obtain s v where c: "c = (s, v)" by force
  then obtain z where z: "write_slot D (a, s) (if v = 0 then None else Some v) x = Inr z"
    and rest: "write_slots D a slots z = Inr y"
    using Cons.prems by (auto simp: rbind_Inr_iff)
  have "xslot z = (xslot x)((a, s) := (if v = 0 then None else Some v))" "xacc z = xacc x"
    using z assms by (auto simp: trie_laws_def)
  then show ?case using Cons.IH [OF rest] by (simp only: c slots_effect.simps slot_values_upd simp_thms)
qed

lemma write_change_effect:
  assumes L: "trie_laws D acc slot xacc xslot" and w: "write_change D K B (a, c) (x, k) = (Inr y, k')"
  shows "xacc y = account_effect [(a, c)] (xacc x)"
    and "\<not> ea_selfdestructed c \<Longrightarrow> slot_values (xslot y) = storage_effect [(a, c)] (slot_values (xslot x))"
proof -
  let ?v = "if ea_selfdestructed c then None else Some (trie_account_of (ea_info c))"
  obtain z where z: "write_account D a ?v x = Inr z" and s: "write_slots D a (ea_storage c) z = Inr y"
    using w by (auto simp: write_change_def split: if_splits sum.splits prod.splits)
  have e: "xacc z = (xacc x)(a := map_option core_of ?v)" "?v \<noteq> None \<longrightarrow> xslot z = xslot x"
    using z L by (auto simp: trie_laws_def)
  note effect = write_slots_effect [OF L s]
  show "xacc y = account_effect [(a, c)] (xacc x)" using effect e by (simp split: if_splits)
  show "slot_values (xslot y) = storage_effect [(a, c)] (slot_values (xslot x))" if "\<not> ea_selfdestructed c"
    using effect e that by simp
qed

lemma write_changes_effect:
  assumes "trie_laws D acc slot xacc xslot"
  shows "write_changes D K B cs (x, k) = (Inr y, k') \<Longrightarrow>
    xacc y = account_effect cs (xacc x)
    \<and> (no_selfdestruct cs \<longrightarrow> slot_values (xslot y) = storage_effect cs (slot_values (xslot x)))"
proof (induction cs arbitrary: x k)
  case Nil
  then show ?case by simp
next
  case (Cons c cs)
  obtain a ac where c: "c = (a, ac)" by force
  obtain z k1 where z: "write_change D K B (a, ac) (x, k) = (Inr z, k1)"
    and rest: "write_changes D K B cs (z, k1) = (Inr y, k')"
    using Cons.prems c by (auto split: prod.splits sum.splits)
  note first = write_change_effect [OF assms z]
  have "xacc y = account_effect cs (account_effect [(a, ac)] (xacc x))"
    using Cons.IH [OF rest] first(1) by metis
  moreover have "slot_values (xslot y) = storage_effect cs (storage_effect [(a, ac)] (slot_values (xslot x)))"
    if "no_selfdestruct (c # cs)"
    using Cons.IH [OF rest] first(2) that c by (simp add: no_selfdestruct_def)
  ultimately show ?case by (simp add: c)
qed

lemma commit_block_effect:
  assumes L: "trie_laws D acc slot xacc xslot"
    and "trie_commit_block D K B n changes (t, k) = (Inr r, (t', k'))"
  shows "acc t' = account_effect (concat changes) (acc t)"
    and "no_selfdestruct (concat changes) \<Longrightarrow>
      slot_values (slot t') = storage_effect (concat changes) (slot_values (slot t))"
proof -
  obtain x y k1 where b: "begin_rw D t = Inr x"
    and w: "write_changes D K B (concat changes) (x, k) = (Inr y, k1)" and c: "commit_rw D y = Inr t'"
    using assms(2) by (auto simp: trie_commit_block_def split: sum.splits prod.splits)
  have "xacc x = acc t" "xslot x = slot t" "acc t' = xacc y" "slot t' = xslot y"
    using L b c by (auto simp: trie_laws_def)
  with write_changes_effect [OF L w] show "acc t' = account_effect (concat changes) (acc t)"
    and "no_selfdestruct (concat changes) \<Longrightarrow>
      slot_values (slot t') = storage_effect (concat changes) (slot_values (slot t))"
    by simp_all
qed

text \<open>A failed commit leaves the trie as it was; codes already stored stay.\<close>

lemma failed_commit_keeps_trie:
  assumes "trie_commit_block D K B n changes (t, k) = (Inl e, (t', k'))"
    and "\<And>n h k. is_ok (kv_set_header K n h k)"
  shows "t' = t"
proof -
  have "kv_set_header K n h k \<noteq> Inl e" for n h k e using assms(2) [of n h k] by auto
  with assms(1) show ?thesis by (auto simp: trie_commit_block_def split: sum.splits prod.splits)
qed

lemma trie_reads:
  assumes "trie_laws D acc slot xacc xslot"
  shows "trie_basic D K B a (t, k) = Inr i \<Longrightarrow> map_option info_core i = acc t a"
    and "trie_storage D a s (t, k) = Inr v \<Longrightarrow> v = value_of (slot t (a, s))"
proof -
  assume "trie_basic D K B a (t, k) = Inr i"
  then obtain v where v: "read_account D a t = Inr v"
    and i: "i = None \<and> v = None \<or> (\<exists>ac c. v = Some ac \<and> i = Some (info_of ac c))"
    by (auto simp: trie_basic_def read_tx_def rbind_Inr_iff split: option.splits) blast
  have "map_option core_of v = acc t a" using v assms by (simp add: trie_laws_def)
  with i show "map_option info_core i = acc t a" by (auto simp: info_core_def core_of_def info_of_def)
next
  assume "trie_storage D a s (t, k) = Inr v"
  then obtain w where "read_slot D (a, s) t = Inr w" "v = value_of w"
    by (auto simp: trie_storage_def read_tx_def value_of_def rbind_Inr_iff)
  moreover from this have "w = slot t (a, s)" using assms by (simp add: trie_laws_def)
  ultimately show "v = value_of (slot t (a, s))" by simp
qed

text \<open>The code of an account is the code by its hash.\<close>

lemma trie_code_consistent:
  assumes "trie_basic D K B a db = Inr (Some i)" and "ai_code i = Some c"
  shows "trie_code_by_hash K B (ai_code_hash i) db = Inr c"
proof -
  obtain acc where acc: "account_code K B acc (snd db) = Inr (Some c)" and "ai_code_hash i = ta_code_hash acc"
    using assms by (auto simp: trie_basic_def rbind_Inr_iff info_of_def split: option.splits)
  then show ?thesis
    by (auto simp: account_code_def trie_code_by_hash_def rbind_Inr_iff split: if_splits)
qed

section \<open>A concrete trie\<close>

text \<open>For witnesses: code that is its bytes, a key-value database without codes, and a trie that is a pair of functions and never fails.\<close>

definition raw_code :: "bytes bytecode_ops" where
  "raw_code =
     \<lparr>bc_new_raw = \<lambda>bs. bs, bc_original = \<lambda>bs. bs, bc_is_empty = \<lambda>bs. bs = [], bc_default = [],
      bc_hash_slow = \<lambda>bs. bs, keccak_empty = ZERO_HASH\<rparr>"

definition no_code_kv :: "unit kv_ops" where
  "no_code_kv = \<lparr>kv_get_code = \<lambda>_ _. Inr None, kv_set_code = \<lambda>_ _ k. Inr k, kv_set_header = \<lambda>_ _ k. Inr k\<rparr>"

type_synonym map_trie = "(bytes \<Rightarrow> trie_account option) \<times> (bytes \<times> u256 \<Rightarrow> u256 option)"

definition map_trie_ops :: "(map_trie, map_trie) trie_ops" where
  "map_trie_ops =
     \<lparr>begin_ro = \<lambda>_. Inr (), commit_ro = \<lambda>_. Inr (), read_account = \<lambda>a t. Inr (fst t a),
      read_slot = \<lambda>p t. Inr (snd t p), begin_rw = Inr,
      write_account = \<lambda>a v t. Inr ((fst t)(a := v), snd t), write_slot = \<lambda>p v t. Inr (fst t, (snd t)(p := v)),
      commit_rw = Inr, root = \<lambda>_. ZERO_HASH, show_address = \<lambda>_. []\<rparr>"

definition map_accounts :: "map_trie \<Rightarrow> bytes \<Rightarrow> core option" where
  "map_accounts t a = map_option core_of (fst t a)"

lemma map_trie_laws: "trie_laws map_trie_ops map_accounts snd map_accounts snd"
  by (auto simp: trie_laws_def map_trie_ops_def map_accounts_def fun_eq_iff)

end
