(* ===== verification/Cached_Database.thy ===== *)
theory Cached_Database
  imports Trie_Database
begin

text \<open>
  The cache in front of a database (\<^verbatim>\<open>crates/execution/database/src/cached.rs\<close>). Reads look in
  the cache, then ask the inner database and remember the answer; \<^verbatim>\<open>commit\<close> writes into the
  cache only; \<^verbatim>\<open>commit_block\<close> goes to the inner database only.

  The clones of a \<^verbatim>\<open>CachedDatabase\<close> share their maps, so the state is one record that every
  operation returns updated. Its locks are never held across a panic, so they are not poisoned.
\<close>

section \<open>The cache\<close>

record ('c, 'i) cached =
  c_accounts :: "bytes \<Rightarrow> 'c account_info option"
  c_storage :: "bytes \<times> u256 \<Rightarrow> u256 option"
  c_code :: "bytes \<Rightarrow> 'c option"
  c_block_hashes :: "u64 \<Rightarrow> bytes option"
  c_inner :: 'i

definition cached_new :: "'i \<Rightarrow> ('c, 'i) cached" where
  "cached_new i =
     \<lparr>c_accounts = Map.empty, c_storage = Map.empty, c_code = Map.empty, c_block_hashes = Map.empty,
      c_inner = i\<rparr>"

definition cached_accounts_count :: "('c, 'i) cached \<Rightarrow> usize" where
  "cached_accounts_count c = card (dom (c_accounts c))"

definition cached_storage_count :: "('c, 'i) cached \<Rightarrow> usize" where
  "cached_storage_count c = card (dom (c_storage c))"

definition cached_block_hashes_count :: "('c, 'i) cached \<Rightarrow> usize" where
  "cached_block_hashes_count c = card (dom (c_block_hashes c))"

definition remember_code :: "'c bytecode_ops \<Rightarrow> 'c account_info \<Rightarrow> ('c, 'i) cached \<Rightarrow> ('c, 'i) cached" where
  "remember_code B info c =
     (case ai_code info of
        Some code \<Rightarrow>
          if \<not> bc_is_empty B code then c\<lparr>c_code := (c_code c)(ai_code_hash info \<mapsto> code)\<rparr> else c
      | None \<Rightarrow> c)"

definition cached_basic :: "('c, 'i) database_ops \<Rightarrow> 'c bytecode_ops \<Rightarrow> bytes \<Rightarrow> ('c, 'i) cached
    \<Rightarrow> (db_error + 'c account_info option) \<times> ('c, 'i) cached" where
  "cached_basic I B a c =
     (case c_accounts c a of
        Some info \<Rightarrow> (Inr (Some info), c)
      | None \<Rightarrow>
          (case db_basic I a (c_inner c) of
             Inl e \<Rightarrow> (Inl e, c)
           | Inr None \<Rightarrow> (Inr None, c)
           | Inr (Some info) \<Rightarrow>
               (Inr (Some info), remember_code B info (c\<lparr>c_accounts := (c_accounts c)(a \<mapsto> info)\<rparr>))))"

definition cached_code_by_hash :: "('c, 'i) database_ops \<Rightarrow> 'c bytecode_ops \<Rightarrow> bytes \<Rightarrow> ('c, 'i) cached
    \<Rightarrow> (db_error + 'c) \<times> ('c, 'i) cached" where
  "cached_code_by_hash I B h c =
     (case c_code c h of
        Some code \<Rightarrow> (Inr code, c)
      | None \<Rightarrow>
          (case db_code_by_hash I h (c_inner c) of
             Inl e \<Rightarrow> (Inl e, c)
           | Inr code \<Rightarrow>
               (Inr code, if \<not> bc_is_empty B code then c\<lparr>c_code := (c_code c)(h \<mapsto> code)\<rparr> else c)))"

definition cached_read_storage :: "('c, 'i) database_ops \<Rightarrow> bytes \<Rightarrow> u256 \<Rightarrow> ('c, 'i) cached
    \<Rightarrow> (db_error + u256) \<times> ('c, 'i) cached" where
  "cached_read_storage I a slot c =
     (case c_storage c (a, slot) of
        Some v \<Rightarrow> (Inr v, c)
      | None \<Rightarrow>
          (case db_storage I a slot (c_inner c) of
             Inl e \<Rightarrow> (Inl e, c)
           | Inr v \<Rightarrow> (Inr v, c\<lparr>c_storage := (c_storage c)((a, slot) \<mapsto> v)\<rparr>)))"

definition cached_block_hash :: "('c, 'i) database_ops \<Rightarrow> u64 \<Rightarrow> ('c, 'i) cached
    \<Rightarrow> (db_error + bytes) \<times> ('c, 'i) cached" where
  "cached_block_hash I n c =
     (case c_block_hashes c n of
        Some h \<Rightarrow> (Inr h, c)
      | None \<Rightarrow>
          (case db_block_hash I n (c_inner c) of
             Inl e \<Rightarrow> (Inl e, c)
           | Inr h \<Rightarrow> (Inr h, c\<lparr>c_block_hashes := (c_block_hashes c)(n \<mapsto> h)\<rparr>)))"

text \<open>\<^verbatim>\<open>commit\<close>: accounts, then storage, then code, each over all changes.\<close>

fun commit_accounts :: "'c evm_state \<Rightarrow> (bytes \<Rightarrow> 'c account_info option) \<Rightarrow> bytes \<Rightarrow> 'c account_info option" where
  "commit_accounts [] m = m"
| "commit_accounts ((a, acc) # cs) m = commit_accounts cs (m(a \<mapsto> ea_info acc))"

fun commit_slots :: "bytes \<Rightarrow> (u256 \<times> u256) list \<Rightarrow> (bytes \<times> u256 \<Rightarrow> u256 option) \<Rightarrow> bytes \<times> u256 \<Rightarrow> u256 option" where
  "commit_slots a [] m = m"
| "commit_slots a ((slot, v) # slots) m = commit_slots a slots (m((a, slot) \<mapsto> v))"

fun commit_storage :: "'c evm_state \<Rightarrow> (bytes \<times> u256 \<Rightarrow> u256 option) \<Rightarrow> bytes \<times> u256 \<Rightarrow> u256 option" where
  "commit_storage [] m = m"
| "commit_storage ((a, acc) # cs) m = commit_storage cs (commit_slots a (ea_storage acc) m)"

definition cached_commit :: "'c bytecode_ops \<Rightarrow> 'c evm_state \<Rightarrow> ('c, 'i) cached \<Rightarrow> ('c, 'i) cached" where
  "cached_commit B changes c =
     fold (\<lambda>(a, acc). remember_code B (ea_info acc)) changes
       (c\<lparr>c_accounts := commit_accounts changes (c_accounts c),
          c_storage := commit_storage changes (c_storage c)\<rparr>)"

definition cached_commit_block :: "('c, 'i) database_ops \<Rightarrow> u64 \<Rightarrow> 'c evm_state list \<Rightarrow> ('c, 'i) cached
    \<Rightarrow> (db_error + bytes) \<times> ('c, 'i) cached" where
  "cached_commit_block I n changes c =
     (case db_commit_block I n changes (c_inner c) of
        (r, i) \<Rightarrow> (r, c\<lparr>c_inner := i\<rparr>))"

section \<open>Reads are transparent\<close>

text \<open>
  The contract of a database that a cache needs: the code in an account is the code that the
  database has under the account's code hash.
\<close>

locale code_database =
  fixes I :: "('c, 'i) database_ops"
  assumes code_by_hash: "db_basic I a i = Inr (Some info) \<Longrightarrow> ai_code info = Some code \<Longrightarrow>
      db_code_by_hash I (ai_code_hash info) i = Inr code"
begin

text \<open>A cache is coherent when everything in it is what the inner database would answer.\<close>

definition coherent :: "('c, 'i) cached \<Rightarrow> bool" where
  "coherent c =
     ((\<forall>a info. c_accounts c a = Some info \<longrightarrow> db_basic I a (c_inner c) = Inr (Some info))
      \<and> (\<forall>a s v. c_storage c (a, s) = Some v \<longrightarrow> db_storage I a s (c_inner c) = Inr v)
      \<and> (\<forall>h code. c_code c h = Some code \<longrightarrow> db_code_by_hash I h (c_inner c) = Inr code)
      \<and> (\<forall>n h. c_block_hashes c n = Some h \<longrightarrow> db_block_hash I n (c_inner c) = Inr h))"

lemma coherent_new: "coherent (cached_new i)"
  by (simp add: coherent_def cached_new_def)

lemma basic_transparent:
  assumes "coherent c"
  shows "fst (cached_basic I B a c) = db_basic I a (c_inner c)
    \<and> coherent (snd (cached_basic I B a c)) \<and> c_inner (snd (cached_basic I B a c)) = c_inner c"
proof (cases "c_accounts c a")
  case (Some info)
  with assms show ?thesis by (auto simp: cached_basic_def coherent_def)
next
  case None
  show ?thesis
  proof (cases "\<exists>info. db_basic I a (c_inner c) = Inr (Some info)")
    case True
    then obtain info where "db_basic I a (c_inner c) = Inr (Some info)" by blast
    with None assms code_by_hash [OF this] show ?thesis
      by (auto simp: cached_basic_def coherent_def remember_code_def split: option.splits)
  next
    case False
    with None assms show ?thesis by (auto simp: cached_basic_def split: sum.splits option.splits)
  qed
qed

lemma other_reads_transparent:
  assumes "coherent c"
  shows "fst (cached_code_by_hash I B h c) = db_code_by_hash I h (c_inner c)
      \<and> coherent (snd (cached_code_by_hash I B h c)) \<and> c_inner (snd (cached_code_by_hash I B h c)) = c_inner c"
    and "fst (cached_read_storage I a s c) = db_storage I a s (c_inner c)
      \<and> coherent (snd (cached_read_storage I a s c)) \<and> c_inner (snd (cached_read_storage I a s c)) = c_inner c"
    and "fst (cached_block_hash I n c) = db_block_hash I n (c_inner c)
      \<and> coherent (snd (cached_block_hash I n c)) \<and> c_inner (snd (cached_block_hash I n c)) = c_inner c"
  using assms
  by (auto simp: cached_code_by_hash_def cached_read_storage_def cached_block_hash_def coherent_def
      split: option.splits sum.splits)

end

text \<open>The state database keeps the contract, whatever TrieDB and the key-value database do.\<close>

interpretation trie: code_database "trie_ops_of D K B" for D K B
  by unfold_locales (simp add: trie_ops_of_def trie_code_consistent)

section \<open>Programs that read\<close>

text \<open>
  A computation that uses a database through revm's \<^verbatim>\<open>Database\<close> trait only: it asks and goes
  on with the answer. revm's interpreter is one of these.
\<close>

datatype ('c, 'r) reading =
    Done_With 'r
  | Ask_Basic bytes "db_error + 'c account_info option \<Rightarrow> ('c, 'r) reading"
  | Ask_Code bytes "db_error + 'c \<Rightarrow> ('c, 'r) reading"
  | Ask_Storage bytes u256 "db_error + u256 \<Rightarrow> ('c, 'r) reading"
  | Ask_Block_Hash u64 "db_error + bytes \<Rightarrow> ('c, 'r) reading"

text \<open>A database as revm sees it: each read may change its state.\<close>

record ('c, 's) evm_database =
  vm_basic :: "bytes \<Rightarrow> 's \<Rightarrow> (db_error + 'c account_info option) \<times> 's"
  vm_code :: "bytes \<Rightarrow> 's \<Rightarrow> (db_error + 'c) \<times> 's"
  vm_storage :: "bytes \<Rightarrow> u256 \<Rightarrow> 's \<Rightarrow> (db_error + u256) \<times> 's"
  vm_block_hash :: "u64 \<Rightarrow> 's \<Rightarrow> (db_error + bytes) \<times> 's"
  vm_commit :: "'c evm_state \<Rightarrow> 's \<Rightarrow> 's"
  vm_commit_block :: "u64 \<Rightarrow> 'c evm_state list \<Rightarrow> 's \<Rightarrow> (db_error + bytes) \<times> 's"

definition plain_database :: "('c, 'i) database_ops \<Rightarrow> ('c, 'i) evm_database" where
  "plain_database I =
     \<lparr>vm_basic = \<lambda>a s. (db_basic I a s, s), vm_code = \<lambda>h s. (db_code_by_hash I h s, s),
      vm_storage = \<lambda>a k s. (db_storage I a k s, s), vm_block_hash = \<lambda>n s. (db_block_hash I n s, s),
      vm_commit = db_commit I, vm_commit_block = db_commit_block I\<rparr>"

definition cached_database :: "('c, 'i) database_ops \<Rightarrow> 'c bytecode_ops \<Rightarrow> ('c, ('c, 'i) cached) evm_database" where
  "cached_database I B =
     \<lparr>vm_basic = cached_basic I B, vm_code = cached_code_by_hash I B, vm_storage = cached_read_storage I,
      vm_block_hash = cached_block_hash I, vm_commit = cached_commit B,
      vm_commit_block = cached_commit_block I\<rparr>"

primrec perform :: "('c, 's) evm_database \<Rightarrow> ('c, 'r) reading \<Rightarrow> 's \<Rightarrow> 'r \<times> 's" where
  "perform V (Done_With r) s = (r, s)"
| "perform V (Ask_Basic a f) s = (case vm_basic V a s of (x, s) \<Rightarrow> perform V (f x) s)"
| "perform V (Ask_Code h f) s = (case vm_code V h s of (x, s) \<Rightarrow> perform V (f x) s)"
| "perform V (Ask_Storage a k f) s = (case vm_storage V a k s of (x, s) \<Rightarrow> perform V (f x) s)"
| "perform V (Ask_Block_Hash n f) s = (case vm_block_hash V n s of (x, s) \<Rightarrow> perform V (f x) s)"

lemma vm_simps [simp]:
  "vm_basic (plain_database I) a s = (db_basic I a s, s)"
  "vm_code (plain_database I) h s = (db_code_by_hash I h s, s)"
  "vm_storage (plain_database I) a k s = (db_storage I a k s, s)"
  "vm_block_hash (plain_database I) n s = (db_block_hash I n s, s)"
  "vm_commit (plain_database I) = db_commit I"
  "vm_commit_block (plain_database I) = db_commit_block I"
  "vm_basic (cached_database I B) = cached_basic I B"
  "vm_code (cached_database I B) = cached_code_by_hash I B"
  "vm_storage (cached_database I B) = cached_read_storage I"
  "vm_block_hash (cached_database I B) = cached_block_hash I"
  "vm_commit (cached_database I B) = cached_commit B"
  "vm_commit_block (cached_database I B) = cached_commit_block I"
  by (simp_all add: plain_database_def cached_database_def)

text \<open>What every read of a database keeps, every reading computation keeps.\<close>

lemma perform_keeps:
  assumes "\<And>a s. P s \<Longrightarrow> P (snd (vm_basic V a s))" and "\<And>h s. P s \<Longrightarrow> P (snd (vm_code V h s))"
    and "\<And>a k s. P s \<Longrightarrow> P (snd (vm_storage V a k s))" and "\<And>n s. P s \<Longrightarrow> P (snd (vm_block_hash V n s))"
  shows "P s \<Longrightarrow> P (snd (perform V p s))"
  by (induction p arbitrary: s) (simp_all add: assms split_beta)

text \<open>
  The contract of a database that reads through to another: in good states every read answers
  what the other one answers, stays in a good state, and leaves the other one as it was. Then
  every computation that only reads does.
\<close>

locale read_through =
  fixes V :: "('c, 's) evm_database" and I :: "('c, 'i) database_ops"
    and good :: "'s \<Rightarrow> bool" and behind :: "'s \<Rightarrow> 'i"
  assumes basic: "good s \<Longrightarrow> fst (vm_basic V a s) = db_basic I a (behind s)
      \<and> good (snd (vm_basic V a s)) \<and> behind (snd (vm_basic V a s)) = behind s"
    and code: "good s \<Longrightarrow> fst (vm_code V h s) = db_code_by_hash I h (behind s)
      \<and> good (snd (vm_code V h s)) \<and> behind (snd (vm_code V h s)) = behind s"
    and storage: "good s \<Longrightarrow> fst (vm_storage V a k s) = db_storage I a k (behind s)
      \<and> good (snd (vm_storage V a k s)) \<and> behind (snd (vm_storage V a k s)) = behind s"
    and block_hash: "good s \<Longrightarrow> fst (vm_block_hash V n s) = db_block_hash I n (behind s)
      \<and> good (snd (vm_block_hash V n s)) \<and> behind (snd (vm_block_hash V n s)) = behind s"
begin

lemma transparent:
  assumes "good s"
  shows "fst (perform V p s) = fst (perform (plain_database I) p (behind s))
    \<and> good (snd (perform V p s)) \<and> behind (snd (perform V p s)) = behind s"
  using assms
  by (induction p arbitrary: s) (simp_all add: split_beta basic code storage block_hash)

end

text \<open>A coherent cache reads through to its inner database.\<close>

sublocale code_database < cache: read_through "cached_database I B" I coherent c_inner for B
  by unfold_locales (simp_all add: basic_transparent other_reads_transparent)

text \<open>
  C33: A fresh cache in front of the state database is invisible to whatever only reads: any
  reading computation returns through the cache exactly what it returns on the state database
  itself, however often it repeats its questions, and the state database is left as it was. The
  TrieDB, the key-value database and the bytecode functions are arbitrary.
\<close>

theorem cache_is_transparent:
  "fst (perform (cached_database (trie_ops_of D K B) B) p (cached_new db))
     = fst (perform (plain_database (trie_ops_of D K B)) p db)
   \<and> c_inner (snd (perform (cached_database (trie_ops_of D K B) B) p (cached_new db))) = db"
  using trie.cache.transparent [OF trie.coherent_new, of D K B B p db] by (simp add: cached_new_def)

end
