(* ===== verification/Chainspec.thy ===== *)
theory Chainspec
  imports Montana_Prelude
begin

text \<open>
  The chain specification (\<^verbatim>\<open>crates/common/chainspec/src\<close>): the hardforks in their
  derived order, the activation times of a chain, the active hardfork at a timestamp and the
  EVM specification it selects. \<open>OpSpecId\<close> is an enum of the \<^verbatim>\<open>op_revm\<close> package, of which
  the source only names the constructors below.

  The locale \<open>fork_schedule\<close> is the contract of a chain's table of activation times, that
  later hardforks activate no earlier; the two chains of the source are its interpretations.
\<close>

section \<open>Hardforks\<close>

datatype hardfork =
    Bedrock | Canyon | Delta | Ecotone | Fjord | Granite | Holocene | Isthmus | Jovian

datatype op_spec_id =
    BEDROCK | CANYON | ECOTONE | FJORD | GRANITE | HOLOCENE | ISTHMUS | JOVIAN

fun to_spec_id :: "hardfork \<Rightarrow> op_spec_id" where
  "to_spec_id Bedrock = BEDROCK"
| "to_spec_id Canyon = CANYON"
| "to_spec_id Delta = CANYON"
| "to_spec_id Ecotone = ECOTONE"
| "to_spec_id Fjord = FJORD"
| "to_spec_id Granite = GRANITE"
| "to_spec_id Holocene = HOLOCENE"
| "to_spec_id Isthmus = ISTHMUS"
| "to_spec_id Jovian = JOVIAN"

text \<open>The derived \<^verbatim>\<open>Ord\<close> compares the positions of the constructors.\<close>

fun hardfork_rank :: "hardfork \<Rightarrow> nat" where
  "hardfork_rank Bedrock = 0"
| "hardfork_rank Canyon = 1"
| "hardfork_rank Delta = 2"
| "hardfork_rank Ecotone = 3"
| "hardfork_rank Fjord = 4"
| "hardfork_rank Granite = 5"
| "hardfork_rank Holocene = 6"
| "hardfork_rank Isthmus = 7"
| "hardfork_rank Jovian = 8"

lemma hardfork_rank_inj: "hardfork_rank a = hardfork_rank b \<Longrightarrow> a = b"
  by (cases a; cases b) auto

instantiation hardfork :: linorder
begin

definition less_eq_hardfork :: "hardfork \<Rightarrow> hardfork \<Rightarrow> bool" where
  "less_eq_hardfork a b \<longleftrightarrow> hardfork_rank a \<le> hardfork_rank b"

definition less_hardfork :: "hardfork \<Rightarrow> hardfork \<Rightarrow> bool" where
  "less_hardfork a b \<longleftrightarrow> hardfork_rank a < hardfork_rank b"

instance
  by standard (auto simp: less_eq_hardfork_def less_hardfork_def dest: hardfork_rank_inj)

end

lemma Bedrock_least [simp]: "Bedrock \<le> f"
  by (simp add: less_eq_hardfork_def)

lemma to_spec_id_eq_iff:
  "to_spec_id a = to_spec_id b \<longleftrightarrow> a = b \<or> {a, b} = {Canyon, Delta}"
  by (cases a; cases b) auto

section \<open>Chains\<close>

record hardforks =
  canyon :: u64
  delta :: u64
  ecotone :: u64
  fjord :: u64
  granite :: u64
  holocene :: u64
  isthmus :: u64
  jovian :: u64

fun activation_time :: "hardforks \<Rightarrow> hardfork \<Rightarrow> u64" where
  "activation_time hf Bedrock = 0"
| "activation_time hf Canyon = canyon hf"
| "activation_time hf Delta = delta hf"
| "activation_time hf Ecotone = ecotone hf"
| "activation_time hf Fjord = fjord hf"
| "activation_time hf Granite = granite hf"
| "activation_time hf Holocene = holocene hf"
| "activation_time hf Isthmus = isthmus hf"
| "activation_time hf Jovian = jovian hf"

definition is_active :: "hardforks \<Rightarrow> hardfork \<Rightarrow> u64 \<Rightarrow> bool" where
  "is_active hf f ts \<longleftrightarrow> activation_time hf f \<le> ts"

record chain =
  chain_id :: u64
  chain_name :: string
  chain_hardforks :: hardforks

definition chain_is_active :: "chain \<Rightarrow> hardfork \<Rightarrow> u64 \<Rightarrow> bool" where
  "chain_is_active c f ts = is_active (chain_hardforks c) f ts"

definition active_hardfork :: "chain \<Rightarrow> u64 \<Rightarrow> hardfork" where
  "active_hardfork c ts =
     (if chain_is_active c Jovian ts then Jovian
      else if chain_is_active c Isthmus ts then Isthmus
      else if chain_is_active c Holocene ts then Holocene
      else if chain_is_active c Granite ts then Granite
      else if chain_is_active c Fjord ts then Fjord
      else if chain_is_active c Ecotone ts then Ecotone
      else if chain_is_active c Delta ts then Delta
      else if chain_is_active c Canyon ts then Canyon
      else Bedrock)"

definition spec_id_at_timestamp :: "chain \<Rightarrow> u64 \<Rightarrow> op_spec_id" where
  "spec_id_at_timestamp c ts = to_spec_id (active_hardfork c ts)"

definition mainnet_hardforks :: hardforks where
  "mainnet_hardforks =
     \<lparr>canyon = 1704992401, delta = 1708560000, ecotone = 1710374401, fjord = 1720627201,
      granite = 1726070401, holocene = 1736445601, isthmus = 1746806401, jovian = 1764777601\<rparr>"

definition BASE_MAINNET :: chain where
  "BASE_MAINNET = \<lparr>chain_id = 8453, chain_name = ''Base Mainnet'', chain_hardforks = mainnet_hardforks\<rparr>"

definition ANVIL :: chain where
  "ANVIL = \<lparr>chain_id = 31337, chain_name = ''Anvil'',
     chain_hardforks =
       \<lparr>canyon = 1704992401, delta = 1708560000, ecotone = 1710374401, fjord = 1720627201,
        granite = 1726070401, holocene = 1736445601, isthmus = 1746806401, jovian = 1764777601\<rparr>\<rparr>"

lemmas active_defs = active_hardfork_def chain_is_active_def is_active_def

text \<open>The selected hardfork is active, and none above it is, whatever the table of times.\<close>

lemma active_hardfork_active: "chain_is_active c (active_hardfork c ts) ts"
  by (auto simp: active_defs)

lemma active_hardfork_greatest: "chain_is_active c f ts \<Longrightarrow> f \<le> active_hardfork c ts"
  by (cases f) (auto simp: active_defs less_eq_hardfork_def)

lemma chain_is_active_mono: "chain_is_active c f ts \<Longrightarrow> ts \<le> ts' \<Longrightarrow> chain_is_active c f ts'"
  by (auto simp: chain_is_active_def is_active_def)

section \<open>Ordered schedules\<close>

locale fork_schedule =
  fixes sched :: chain
  assumes activation_mono:
    "f \<le> g \<Longrightarrow> activation_time (chain_hardforks sched) f \<le> activation_time (chain_hardforks sched) g"
begin

lemma active_below: "chain_is_active sched g ts \<Longrightarrow> f \<le> g \<Longrightarrow> chain_is_active sched f ts"
  using activation_mono [of f g] by (auto simp: chain_is_active_def is_active_def)

lemma active_iff: "chain_is_active sched f ts \<longleftrightarrow> f \<le> active_hardfork sched ts"
  using active_hardfork_greatest active_below [OF active_hardfork_active] by blast

lemma active_at_activation:
  assumes "activation_time (chain_hardforks sched) f \<le> ts"
    and "\<And>g. f < g \<Longrightarrow> ts < activation_time (chain_hardforks sched) g"
  shows "active_hardfork sched ts = f"
proof (rule antisym)
  show "f \<le> active_hardfork sched ts"
    using assms(1) by (simp add: chain_is_active_def is_active_def flip: active_iff)
  show "active_hardfork sched ts \<le> f"
  proof (rule ccontr)
    assume "\<not> active_hardfork sched ts \<le> f"
    then have "ts < activation_time (chain_hardforks sched) (active_hardfork sched ts)"
      using assms(2) by simp
    then show False
      using active_hardfork_active [of sched ts] by (simp add: chain_is_active_def is_active_def)
  qed
qed

end

lemma mainnet_activation_mono:
  "f \<le> g \<Longrightarrow> activation_time mainnet_hardforks f \<le> activation_time mainnet_hardforks g"
  by (cases f; cases g) (auto simp: mainnet_hardforks_def less_eq_hardfork_def)

interpretation base: fork_schedule BASE_MAINNET
  by unfold_locales (simp add: BASE_MAINNET_def mainnet_activation_mono)

interpretation anvil: fork_schedule ANVIL
  using mainnet_activation_mono
  by unfold_locales (simp add: ANVIL_def mainnet_hardforks_def)

text \<open>
  On Base mainnet and on the local Anvil chain, a hardfork is active at a timestamp
  exactly when it is at or below the one \<^verbatim>\<open>active_hardfork\<close> returns: the descending chain
  of tests computes the latest active hardfork and every earlier one is active too.
\<close>

theorem active_hardfork_is_latest:
  "chain_is_active BASE_MAINNET f ts = (f \<le> active_hardfork BASE_MAINNET ts)
   \<and> chain_is_active ANVIL f ts = (f \<le> active_hardfork ANVIL ts)"
  using base.active_iff anvil.active_iff by simp

text \<open>
  As time advances, the active hardfork of any chain never goes back, and the EVM
  specification changes only when the hardfork does.
\<close>

theorem active_hardfork_mono:
  assumes "ts \<le> ts'"
  shows "active_hardfork c ts \<le> active_hardfork c ts'
    \<and> (spec_id_at_timestamp c ts \<noteq> spec_id_at_timestamp c ts' \<longrightarrow>
         active_hardfork c ts < active_hardfork c ts')"
proof -
  have "active_hardfork c ts \<le> active_hardfork c ts'"
    using assms active_hardfork_active chain_is_active_mono active_hardfork_greatest by blast
  then show ?thesis by (auto simp: spec_id_at_timestamp_def less_le)
qed

theorem active_hardfork_mono_witness:
  "active_hardfork BASE_MAINNET 1704992400 \<le> active_hardfork BASE_MAINNET 1764777601
   \<and> spec_id_at_timestamp BASE_MAINNET 1704992400 = BEDROCK
   \<and> spec_id_at_timestamp BASE_MAINNET 1764777601 = JOVIAN"
proof -
  have "(1704992400 :: u64) \<le> 1764777601" by simp
  from active_hardfork_mono [OF this, of BASE_MAINNET] show ?thesis
    by (simp add: spec_id_at_timestamp_def active_defs BASE_MAINNET_def mainnet_hardforks_def)
qed

end
