(* ===== verification/Executor.thy ===== *)
theory Executor
  imports Cached_Database Chainspec
begin

text \<open>
  Block execution (\<^verbatim>\<open>crates/execution/vm/src/executor.rs\<close>), the conversions of blocks and
  transactions for revm (\<^verbatim>\<open>crates/execution/blocksource/src/convert.rs\<close>) and the comparison of
  the results with the receipts of an RPC node
  (\<^verbatim>\<open>crates/execution/runner/src/verification.rs\<close>).

  revm is a parameter: the record \<open>evm\<close> holds the interpreter, as a computation that reads the
  database through its trait, and the values the conversions take from revm. A transaction is
  the record of what the accessors of op-alloy's envelope return.
\<close>

section \<open>Blocks and transactions\<close>

record block_header =
  bh_number :: u64
  bh_beneficiary :: bytes
  bh_timestamp :: u64
  bh_gas_limit :: u64
  bh_base_fee :: "u64 option"
  bh_difficulty :: u256
  bh_mix_hash :: "bytes option"
  bh_excess_blob_gas :: "u64 option"

record tx_deposit =
  td_source_hash :: bytes
  td_mint :: u128
  td_is_system :: bool

record access_item =
  al_address :: bytes
  al_storage_keys :: "bytes list"

record 'a envelope =
  en_ty :: u8
  en_to :: "bytes option"
  en_access_list :: "access_item list option"
  en_authorization_list :: "'a list option"
  en_gas_limit :: u64
  en_gas_price :: "u128 option"
  en_max_fee_per_gas :: u128
  en_value :: u256
  en_input :: bytes
  en_nonce :: u64
  en_chain_id :: "u64 option"
  en_max_priority_fee :: "u128 option"
  en_blob_hashes :: "bytes list option"
  en_max_fee_per_blob_gas :: "u128 option"
  en_deposit :: "tx_deposit option"
  en_encoded :: bytes
  en_signer :: bytes

text \<open>\<open>blk_transactions\<close> is what \<open>into_transactions\<close> of the block's transactions iterates over.\<close>

record 'a exec_block =
  blk_header :: block_header
  blk_transactions :: "'a envelope list"

section \<open>What revm is given\<close>

record 'p block_env =
  be_number :: u256
  be_beneficiary :: bytes
  be_timestamp :: u256
  be_gas_limit :: u64
  be_basefee :: u64
  be_difficulty :: u256
  be_prevrandao :: "bytes option"
  be_blob :: "'p option"

record deposit_parts =
  dp_source_hash :: bytes
  dp_mint :: "u128 option"
  dp_is_system :: bool

datatype tx_kind = Create_Tx | Call_Tx bytes

datatype 'a left_either = Left_Auth 'a

record 'a tx_env =
  te_tx_type :: u8
  te_caller :: bytes
  te_gas_limit :: u64
  te_gas_price :: u128
  te_kind :: tx_kind
  te_value :: u256
  te_data :: bytes
  te_nonce :: u64
  te_chain_id :: "u64 option"
  te_access_list :: "access_item list"
  te_gas_priority_fee :: "u128 option"
  te_blob_hashes :: "bytes list"
  te_max_fee_per_blob_gas :: u128
  te_authorization_list :: "'a left_either list"

record 'a op_transaction =
  ot_base :: "'a tx_env"
  ot_enveloped :: "bytes option"
  ot_deposit :: deposit_parts

record cfg_env =
  cfg_spec :: op_spec_id
  cfg_chain_id :: u64

datatype exec_output = Call_Output bytes | Create_Output bytes "bytes option"

datatype exec_result =
    Exec_Success exec_output u64
  | Exec_Revert bytes u64
  | Exec_Halt u64

text \<open>
  revm: the price of blob gas, the default deposit fields, and \<^verbatim>\<open>replay\<close> of a transaction in a
  context, which reads the database and returns the error's text or the result and the changes.
\<close>

record ('c, 'a, 'p) evm =
  evm_blob_price :: "u64 \<Rightarrow> 'p"
  evm_deposit_default :: deposit_parts
  evm_replay :: "cfg_env \<Rightarrow> 'p block_env \<Rightarrow> 'a op_transaction
    \<Rightarrow> ('c, string + exec_result \<times> 'c evm_state) reading"

definition block_to_env :: "(u64 \<Rightarrow> 'p) \<Rightarrow> 'a exec_block \<Rightarrow> 'p block_env" where
  "block_to_env price b =
     \<lparr>be_number = ucast (bh_number (blk_header b)),
      be_beneficiary = bh_beneficiary (blk_header b),
      be_timestamp = ucast (bh_timestamp (blk_header b)),
      be_gas_limit = bh_gas_limit (blk_header b),
      be_basefee = (case bh_base_fee (blk_header b) of Some f \<Rightarrow> f | None \<Rightarrow> 0),
      be_difficulty = bh_difficulty (blk_header b),
      be_prevrandao = bh_mix_hash (blk_header b),
      be_blob = map_option price (bh_excess_blob_gas (blk_header b))\<rparr>"

definition tx_to_op_tx :: "deposit_parts \<Rightarrow> 'a envelope \<Rightarrow> bytes \<Rightarrow> 'a op_transaction" where
  "tx_to_op_tx dflt tx sender =
     (let tx_kind = (case en_to tx of None \<Rightarrow> Create_Tx | Some a \<Rightarrow> Call_Tx a);
          access = (case en_access_list tx of
                      None \<Rightarrow> []
                    | Some al \<Rightarrow> map (\<lambda>item. \<lparr>al_address = al_address item,
                                              al_storage_keys = al_storage_keys item\<rparr>) al);
          auths = map Left_Auth (case en_authorization_list tx of None \<Rightarrow> [] | Some l \<Rightarrow> l);
          base = \<lparr>te_tx_type = en_ty tx, te_caller = sender, te_gas_limit = en_gas_limit tx,
                  te_gas_price = (case en_gas_price tx of Some p \<Rightarrow> p | None \<Rightarrow> en_max_fee_per_gas tx),
                  te_kind = tx_kind, te_value = en_value tx, te_data = en_input tx, te_nonce = en_nonce tx,
                  te_chain_id = en_chain_id tx, te_access_list = access,
                  te_gas_priority_fee = en_max_priority_fee tx,
                  te_blob_hashes = (case en_blob_hashes tx of None \<Rightarrow> [] | Some hs \<Rightarrow> hs),
                  te_max_fee_per_blob_gas = (case en_max_fee_per_blob_gas tx of None \<Rightarrow> 0 | Some f \<Rightarrow> f),
                  te_authorization_list = auths\<rparr>
      in case en_deposit tx of
           None \<Rightarrow> \<lparr>ot_base = base, ot_enveloped = Some (en_encoded tx), ot_deposit = dflt\<rparr>
         | Some d \<Rightarrow>
             \<lparr>ot_base = base, ot_enveloped = None,
              ot_deposit = \<lparr>dp_source_hash = td_source_hash d, dp_mint = Some (td_mint d),
                            dp_is_system = td_is_system d\<rparr>\<rparr>)"

section \<open>Executing\<close>

datatype executor_error = Evm_Error string | Database_Error string

fun show_executor_error :: "executor_error \<Rightarrow> string" where
  "show_executor_error (Evm_Error e) = ''EVM execution error: '' @ e"
| "show_executor_error (Database_Error e) = ''Database error: '' @ e"

record 'c tx_result =
  tr_success :: bool
  tr_gas_used :: u64
  tr_output :: "bytes option"
  tr_state :: "'c evm_state"

record 'c block_result =
  br_block_number :: u64
  br_tx_results :: "'c tx_result list"
  br_state_root :: bytes

fun output_bytes :: "exec_output \<Rightarrow> bytes" where
  "output_bytes (Call_Output bs) = bs"
| "output_bytes (Create_Output bs _) = bs"

fun tx_result_of :: "exec_result \<Rightarrow> 'c evm_state \<Rightarrow> 'c tx_result" where
  "tx_result_of (Exec_Success out gas) st =
     \<lparr>tr_success = True, tr_gas_used = gas, tr_output = Some (output_bytes out), tr_state = st\<rparr>"
| "tx_result_of (Exec_Revert out gas) st =
     \<lparr>tr_success = False, tr_gas_used = gas, tr_output = Some out, tr_state = st\<rparr>"
| "tx_result_of (Exec_Halt gas) st =
     \<lparr>tr_success = False, tr_gas_used = gas, tr_output = None, tr_state = st\<rparr>"

lemma tr_state_of [simp]: "tr_state (tx_result_of q cs) = cs"
  by (cases q) auto

definition execute_tx :: "('c, 'a, 'p) evm \<Rightarrow> ('c, 's) evm_database \<Rightarrow> 'p block_env \<Rightarrow> cfg_env
    \<Rightarrow> 'a envelope \<Rightarrow> 's \<Rightarrow> (executor_error + 'c tx_result) \<times> 's" where
  "execute_tx E V env cfg tx s =
     (case perform V (evm_replay E cfg env (tx_to_op_tx (evm_deposit_default E) tx (en_signer tx))) s of
        (Inl e, s) \<Rightarrow> (Inl (Evm_Error e), s)
      | (Inr (r, changes), s) \<Rightarrow> (Inr (tx_result_of r changes), vm_commit V changes s))"

text \<open>The loop over the transactions: the results so far, and the error that ended it, if any.\<close>

fun execute_txs :: "('c, 'a, 'p) evm \<Rightarrow> ('c, 's) evm_database \<Rightarrow> 'p block_env \<Rightarrow> cfg_env
    \<Rightarrow> 'a envelope list \<Rightarrow> 'c tx_result list \<Rightarrow> 's \<Rightarrow> executor_error option \<times> 'c tx_result list \<times> 's" where
  "execute_txs E V env cfg [] rs s = (None, rs, s)"
| "execute_txs E V env cfg (tx # txs) rs s =
     (case execute_tx E V env cfg tx s of
        (Inl e, s) \<Rightarrow> (Some e, rs, s)
      | (Inr r, s) \<Rightarrow> execute_txs E V env cfg txs (rs @ [r]) s)"

definition block_cfg :: "chain \<Rightarrow> 'a exec_block \<Rightarrow> cfg_env" where
  "block_cfg ch b =
     \<lparr>cfg_spec = spec_id_at_timestamp ch (bh_timestamp (blk_header b)), cfg_chain_id = chain_id ch\<rparr>"

definition execute_block :: "('c, 'a, 'p) evm \<Rightarrow> ('c, 's) evm_database \<Rightarrow> chain \<Rightarrow> 'a exec_block \<Rightarrow> 's
    \<Rightarrow> (executor_error + 'c block_result) \<times> 's" where
  "execute_block E V ch b s =
     (let n = bh_number (blk_header b) in
      case execute_txs E V (block_to_env (evm_blob_price E) b) (block_cfg ch b) (blk_transactions b) [] s of
        (Some e, _, s) \<Rightarrow> (Inl e, s)
      | (None, rs, s) \<Rightarrow>
          (case vm_commit_block V n (map tr_state rs) s of
             (Inl e, s) \<Rightarrow> (Inl (Database_Error e), s)
           | (Inr rt, s) \<Rightarrow>
               (Inr \<lparr>br_block_number = n, br_tx_results = rs, br_state_root = rt\<rparr>, s)))"

section \<open>Verification against receipts\<close>

text \<open>
  The receipts of a block as the RPC node returns them (an error, none, or gas and status of each
  transaction) are a parameter. The verdict is the message that is logged.
\<close>

datatype verdict =
    Skipped_No_Receipts
  | Skipped_Upstream string
  | Verification_Passed nat nat
  | Verification_Failed nat nat nat

fun count_matches :: "'c tx_result list \<Rightarrow> (u64 \<times> bool) list \<Rightarrow> nat \<times> nat \<Rightarrow> nat \<times> nat" where
  "count_matches (r # rs) ((gas, ok) # receipts) (verified, mismatched) =
     count_matches rs receipts
       (if tr_gas_used r = gas \<and> tr_success r = ok then (verified + 1, mismatched) else (verified, mismatched + 1))"
| "count_matches _ _ counts = counts"

definition verify_block :: "(u64 \<Rightarrow> string + (u64 \<times> bool) list option) \<Rightarrow> 'c block_result \<Rightarrow> verdict" where
  "verify_block fetch r =
     (case fetch (br_block_number r) of
        Inl e \<Rightarrow> Skipped_Upstream e
      | Inr None \<Rightarrow> Skipped_No_Receipts
      | Inr (Some receipts) \<Rightarrow>
          (case count_matches (br_tx_results r) receipts (0, 0) of
             (verified, mismatched) \<Rightarrow>
               if mismatched = 0 then Verification_Passed verified (length (br_tx_results r))
               else Verification_Failed mismatched verified (length (br_tx_results r))))"

definition run_verifier :: "(u64 \<Rightarrow> string + (u64 \<times> bool) list option) \<Rightarrow> 'c block_result list \<Rightarrow> verdict list" where
  "run_verifier fetch executed = map (verify_block fetch) executed"

lemma count_matches_eq:
  "count_matches rs receipts (v, m) =
    (v + length (filter (\<lambda>(r, gas, ok). tr_gas_used r = gas \<and> tr_success r = ok) (zip rs receipts)),
     m + length (filter (\<lambda>(r, gas, ok). \<not> (tr_gas_used r = gas \<and> tr_success r = ok)) (zip rs receipts)))"
proof (induction rs arbitrary: receipts v m)
  case (Cons r rs)
  then show ?case by (cases receipts) auto
qed simp

text \<open>A block passes when the receipts that are there match, however few they are.\<close>

theorem passes_iff_receipts_match:
  assumes "fetch (br_block_number r) = Inr (Some receipts)"
  shows "(\<exists>v. verify_block fetch r = Verification_Passed v (length (br_tx_results r)))
    = (\<forall>i < min (length (br_tx_results r)) (length receipts).
        receipts ! i = (tr_gas_used (br_tx_results r ! i), tr_success (br_tx_results r ! i)))"
proof -
  let ?ok = "\<lambda>(r, gas, ok). tr_gas_used r = gas \<and> tr_success r = ok"
  have "(\<exists>v. verify_block fetch r = Verification_Passed v (length (br_tx_results r)))
    = (\<forall>x \<in> set (zip (br_tx_results r) receipts). ?ok x)"
    using assms by (auto simp: verify_block_def count_matches_eq filter_empty_conv split_beta)
  also have "\<dots> = (\<forall>i < min (length (br_tx_results r)) (length receipts).
      ?ok (br_tx_results r ! i, receipts ! i))"
    by (auto simp: all_set_conv_all_nth)
  finally show ?thesis by (auto simp: split_beta prod_eq_iff)
qed

section \<open>What a block does to the state\<close>

text \<open>A map \<open>m\<close>, its values read by \<open>g\<close>, laid over the function \<open>f\<close>.\<close>

definition overlay :: "('v \<Rightarrow> 'w) \<Rightarrow> ('p \<Rightarrow> 'v option) \<Rightarrow> ('p \<Rightarrow> 'w) \<Rightarrow> 'p \<Rightarrow> 'w" where
  "overlay g m f p = (case m p of Some v \<Rightarrow> g v | None \<Rightarrow> f p)"

lemma overlay_upd [simp]: "overlay g (m(p \<mapsto> v)) f = (overlay g m f)(p := g v)"
  by (simp add: overlay_def fun_eq_iff)

lemma overlay_again: "overlay g m f = h \<Longrightarrow> overlay g m h = h"
  by (auto simp: overlay_def fun_eq_iff split: option.splits)

lemma overlay_empty [simp]: "overlay g Map.empty f = f"
  by (simp add: overlay_def fun_eq_iff)

text \<open>The accounts and slots that a reader of the cache sees, over the contents of the trie.\<close>

definition account_view :: "('t \<Rightarrow> bytes \<Rightarrow> core option) \<Rightarrow> ('c, ('t, 'k) trie_database) cached
    \<Rightarrow> bytes \<Rightarrow> core option" where
  "account_view acc c = overlay (\<lambda>i. Some (info_core i)) (c_accounts c) (acc (fst (c_inner c)))"

definition storage_view :: "('t \<Rightarrow> bytes \<times> u256 \<Rightarrow> u256 option) \<Rightarrow> ('c, ('t, 'k) trie_database) cached
    \<Rightarrow> bytes \<times> u256 \<Rightarrow> u256" where
  "storage_view slot c = overlay (\<lambda>v. v) (c_storage c) (slot_values (slot (fst (c_inner c))))"

definition same_view :: "('t \<Rightarrow> bytes \<Rightarrow> core option) \<Rightarrow> ('t \<Rightarrow> bytes \<times> u256 \<Rightarrow> u256 option)
    \<Rightarrow> ('c, ('t, 'k) trie_database) cached \<Rightarrow> ('c, ('t, 'k) trie_database) cached \<Rightarrow> bool" where
  "same_view acc slot c d =
     (account_view acc d = account_view acc c \<and> storage_view slot d = storage_view slot c
      \<and> c_inner d = c_inner c)"

text \<open>All changes of a list of results, in order.\<close>

abbreviation changes_of :: "'c tx_result list \<Rightarrow> 'c evm_state" where
  "changes_of rs \<equiv> concat (map tr_state rs)"

lemma remember_code_simps [simp]:
  "c_accounts (remember_code B i c) = c_accounts c"
  "c_storage (remember_code B i c) = c_storage c"
  "c_inner (remember_code B i c) = c_inner c"
  by (simp_all add: remember_code_def split: option.split)

lemma remember_codes_simps:
  "c_accounts (fold (\<lambda>(a, acc). remember_code B (ea_info acc)) cs c) = c_accounts c"
  "c_storage (fold (\<lambda>(a, acc). remember_code B (ea_info acc)) cs c) = c_storage c"
  "c_inner (fold (\<lambda>(a, acc). remember_code B (ea_info acc)) cs c) = c_inner c"
  by (induction cs arbitrary: c) auto

lemma cached_commit_simps [simp]:
  "c_accounts (cached_commit B cs c) = commit_accounts cs (c_accounts c)"
  "c_storage (cached_commit B cs c) = commit_storage cs (c_storage c)"
  "c_inner (cached_commit B cs c) = c_inner c"
  by (simp_all add: cached_commit_def remember_codes_simps)

lemma account_effect_append: "account_effect (xs @ ys) f = account_effect ys (account_effect xs f)"
  by (induction xs arbitrary: f) auto

lemma storage_effect_append: "storage_effect (xs @ ys) f = storage_effect ys (storage_effect xs f)"
  by (induction xs arbitrary: f) auto

lemma commit_accounts_append: "commit_accounts (xs @ ys) m = commit_accounts ys (commit_accounts xs m)"
  by (induction xs arbitrary: m) auto

lemma no_selfdestruct_append [simp]:
  "no_selfdestruct (xs @ ys) = (no_selfdestruct xs \<and> no_selfdestruct ys)"
  by (simp add: no_selfdestruct_def)

lemma commit_accounts_effect:
  "no_selfdestruct cs \<Longrightarrow>
    overlay (\<lambda>i. Some (info_core i)) (commit_accounts cs m) f
    = account_effect cs (overlay (\<lambda>i. Some (info_core i)) m f)"
  by (induction cs arbitrary: m) (auto simp del: fun_upd_apply simp: no_selfdestruct_def)

lemma commit_slots_effect:
  "overlay (\<lambda>v. v) (commit_slots a slots m) f = slots_effect a slots (overlay (\<lambda>v. v) m f)"
  by (induction slots arbitrary: m) auto

lemma commit_storage_effect:
  "overlay (\<lambda>v. v) (commit_storage cs m) f = storage_effect cs (overlay (\<lambda>v. v) m f)"
  by (induction cs arbitrary: m) (auto simp: commit_slots_effect)

lemma commit_view:
  "no_selfdestruct cs \<Longrightarrow> account_view acc (cached_commit B cs c) = account_effect cs (account_view acc c)"
  "storage_view slot (cached_commit B cs c) = storage_effect cs (storage_view slot c)"
  by (simp_all add: account_view_def storage_view_def commit_accounts_effect commit_storage_effect)

text \<open>Reading leaves the view as it is.\<close>

lemma reads_keep_view:
  assumes L: "trie_laws D acc slot xacc xslot"
  shows "same_view acc slot c (snd (perform (cached_database (trie_ops_of D K B) B) p c))"
proof (rule perform_keeps)
  fix a s
  assume "same_view acc slot c s"
  moreover have "account_view acc (snd (cached_basic (trie_ops_of D K B) B a s)) = account_view acc s"
    using trie_reads(1) [OF L, of K B a "fst (c_inner s)" "snd (c_inner s)"]
    by (auto simp: cached_basic_def account_view_def overlay_def fun_eq_iff trie_ops_of_def
        split: option.splits sum.splits)
  moreover have "storage_view slot (snd (cached_basic (trie_ops_of D K B) B a s)) = storage_view slot s"
    "c_inner (snd (cached_basic (trie_ops_of D K B) B a s)) = c_inner s"
    by (auto simp: cached_basic_def storage_view_def split: option.splits sum.splits)
  ultimately show "same_view acc slot c (snd (vm_basic (cached_database (trie_ops_of D K B) B) a s))"
    by (simp add: same_view_def)
next
  fix a k s
  assume "same_view acc slot c s"
  moreover have "storage_view slot (snd (cached_read_storage (trie_ops_of D K B) a k s)) = storage_view slot s"
    using trie_reads(2) [OF L, of a k "fst (c_inner s)" "snd (c_inner s)"]
    by (auto simp: cached_read_storage_def storage_view_def overlay_def slot_values_def fun_eq_iff trie_ops_of_def
        split: option.splits sum.splits)
  moreover have "account_view acc (snd (cached_read_storage (trie_ops_of D K B) a k s)) = account_view acc s"
    "c_inner (snd (cached_read_storage (trie_ops_of D K B) a k s)) = c_inner s"
    by (auto simp: cached_read_storage_def account_view_def overlay_def fun_eq_iff split: option.splits sum.splits)
  ultimately show "same_view acc slot c (snd (vm_storage (cached_database (trie_ops_of D K B) B) a k s))"
    by (simp add: same_view_def)
qed (auto simp: same_view_def account_view_def storage_view_def cached_code_by_hash_def
    cached_block_hash_def split: option.splits sum.splits)

text \<open>One transaction, then the loop: the view moves by the changes of the results.\<close>

lemma execute_tx_view:
  assumes L: "trie_laws D acc slot xacc xslot"
    and x: "execute_tx E (cached_database (trie_ops_of D K B) B) env cfg tx c = (r, d)"
  shows "case r of
      Inl e \<Rightarrow> same_view acc slot c d
    | Inr t \<Rightarrow> (no_selfdestruct (tr_state t) \<longrightarrow> account_view acc d = account_effect (tr_state t) (account_view acc c))
        \<and> storage_view slot d = storage_effect (tr_state t) (storage_view slot c) \<and> c_inner d = c_inner c"
proof -
  let ?p = "evm_replay E cfg env (tx_to_op_tx (evm_deposit_default E) tx (en_signer tx))"
  obtain o' c1 where p: "perform (cached_database (trie_ops_of D K B) B) ?p c = (o', c1)" by force
  then have same: "same_view acc slot c c1" using reads_keep_view [OF L, of c K B ?p] by simp
  from x p same show ?thesis
    by (cases o') (auto simp: execute_tx_def same_view_def commit_view)
qed

lemma execute_txs_view:
  assumes L: "trie_laws D acc slot xacc xslot"
  shows "execute_txs E (cached_database (trie_ops_of D K B) B) env cfg txs rs c = (e, rs', d) \<Longrightarrow>
    \<exists>new. rs' = rs @ new \<and> c_inner d = c_inner c
      \<and> (no_selfdestruct (changes_of new) \<longrightarrow> account_view acc d = account_effect (changes_of new) (account_view acc c))
      \<and> storage_view slot d = storage_effect (changes_of new) (storage_view slot c)"
proof (induction txs arbitrary: rs c)
  case Nil
  then show ?case by auto
next
  case (Cons tx txs)
  obtain r c1 where x: "execute_tx E (cached_database (trie_ops_of D K B) B) env cfg tx c = (r, c1)" by force
  note view = execute_tx_view [OF L x]
  show ?case
  proof (cases r)
    case (Inl err)
    with Cons.prems x have "rs' = rs @ []" "d = c1" by auto
    with view Inl show ?thesis by (intro exI [of _ "[]"]) (auto simp: same_view_def)
  next
    case (Inr t)
    then have "execute_txs E (cached_database (trie_ops_of D K B) B) env cfg txs (rs @ [t]) c1 = (e, rs', d)"
      using Cons.prems x by simp
    from Cons.IH [OF this] obtain new where "rs' = rs @ [t] @ new" "c_inner d = c_inner c1"
      "no_selfdestruct (changes_of new) \<longrightarrow> account_view acc d = account_effect (changes_of new) (account_view acc c1)"
      "storage_view slot d = storage_effect (changes_of new) (storage_view slot c1)"
      by auto
    with view Inr show ?thesis
      by (intro exI [of _ "t # new"]) (auto simp: account_effect_append storage_effect_append)
  qed
qed

section \<open>Blocks and the state database\<close>

text \<open>The cache shows what the trie holds.\<close>

definition agrees :: "('t \<Rightarrow> bytes \<Rightarrow> core option) \<Rightarrow> ('t \<Rightarrow> bytes \<times> u256 \<Rightarrow> u256 option)
    \<Rightarrow> ('c, ('t, 'k) trie_database) cached \<Rightarrow> bool" where
  "agrees acc slot c =
     (account_view acc c = acc (fst (c_inner c)) \<and> storage_view slot c = slot_values (slot (fst (c_inner c))))"

lemma agrees_new: "agrees acc slot (cached_new db)"
  by (simp add: agrees_def account_view_def storage_view_def cached_new_def)

lemma execute_block_Ok:
  assumes "execute_block E (cached_database (trie_ops_of D K B) B) ch b c = (Inr r, d)"
  obtains rs c1 rt t k t' k' where
    "execute_txs E (cached_database (trie_ops_of D K B) B) (block_to_env (evm_blob_price E) b) (block_cfg ch b)
       (blk_transactions b) [] c = (None, rs, c1)"
    "trie_commit_block D K B (bh_number (blk_header b)) (map tr_state rs) (t, k) = (Inr rt, (t', k'))"
    "c_inner c1 = (t, k)" "c_inner d = (t', k')"
    "c_accounts d = c_accounts c1" "c_storage d = c_storage c1" "br_tx_results r = rs"
proof -
  obtain rs c1 rt where *: "execute_txs E (cached_database (trie_ops_of D K B) B)
      (block_to_env (evm_blob_price E) b) (block_cfg ch b) (blk_transactions b) [] c = (None, rs, c1)"
    "vm_commit_block (cached_database (trie_ops_of D K B) B) (bh_number (blk_header b)) (map tr_state rs) c1 = (Inr rt, d)"
    "br_tx_results r = rs"
    using assms by (auto simp: execute_block_def Let_def split: prod.splits option.splits sum.splits)
  obtain t k t' k' where inner: "c_inner c1 = (t, k)" "c_inner d = (t', k')" by force
  have "trie_commit_block D K B (bh_number (blk_header b)) (map tr_state rs) (t, k) = (Inr rt, (t', k'))"
    "c_accounts d = c_accounts c1" "c_storage d = c_storage c1"
    using *(2) inner by (auto simp: cached_commit_block_def trie_ops_of_def split: prod.splits)
  with * inner show ?thesis by (intro that)
qed

lemma execute_block_view:
  assumes L: "trie_laws D acc slot xacc xslot" and "agrees acc slot c"
    and x: "execute_block E (cached_database (trie_ops_of D K B) B) ch b c = (Inr r, d)"
    and ns: "no_selfdestruct (changes_of (br_tx_results r))"
  shows "agrees acc slot d
    \<and> acc (fst (c_inner d)) = account_effect (changes_of (br_tx_results r)) (acc (fst (c_inner c)))
    \<and> slot_values (slot (fst (c_inner d)))
        = storage_effect (changes_of (br_tx_results r)) (slot_values (slot (fst (c_inner c))))"
proof -
  let ?V = "cached_database (trie_ops_of D K B) B"
  obtain rs c1 rt t k t' k' where txs: "execute_txs E ?V (block_to_env (evm_blob_price E) b) (block_cfg ch b)
      (blk_transactions b) [] c = (None, rs, c1)"
    and wrote: "trie_commit_block D K B (bh_number (blk_header b)) (map tr_state rs) (t, k) = (Inr rt, (t', k'))"
    and inner: "c_inner c1 = (t, k)" "c_inner d = (t', k')"
    and cache: "c_accounts d = c_accounts c1" "c_storage d = c_storage c1"
    and rs: "br_tx_results r = rs"
    by (rule execute_block_Ok [OF x])
  have view: "c_inner c1 = c_inner c" "account_view acc c1 = account_effect (changes_of rs) (account_view acc c)"
    "storage_view slot c1 = storage_effect (changes_of rs) (storage_view slot c)"
    using execute_txs_view [OF L txs] ns rs by auto
  have t: "fst (c_inner c) = t" using view(1) inner by (metis fst_conv)
  note effect = commit_block_effect [OF L wrote]
  then have "account_view acc c1 = acc t'" "storage_view slot c1 = slot_values (slot t')"
    using view assms(2) ns rs by (simp_all add: agrees_def t)
  then have "agrees acc slot d"
    using cache inner by (simp add: agrees_def account_view_def storage_view_def overlay_again)
  with effect ns rs t inner show ?thesis by simp
qed

text \<open>Blocks executed one after the other, each of them to be accepted.\<close>

fun execute_all :: "('c, 'a, 'p) evm \<Rightarrow> ('c, 's) evm_database \<Rightarrow> chain \<Rightarrow> 'a exec_block list \<Rightarrow> 's
    \<Rightarrow> ('c block_result list \<times> 's) option" where
  "execute_all E V ch [] s = Some ([], s)"
| "execute_all E V ch (b # bs) s =
     (case execute_block E V ch b s of
        (Inl e, _) \<Rightarrow> None
      | (Inr r, s) \<Rightarrow> map_option (\<lambda>(rs, s). (r # rs, s)) (execute_all E V ch bs s))"

text \<open>All changes of a list of blocks, in order.\<close>

abbreviation block_changes :: "'c block_result list \<Rightarrow> 'c evm_state" where
  "block_changes rs \<equiv> concat (map (\<lambda>r. changes_of (br_tx_results r)) rs)"

lemma execute_all_view:
  assumes L: "trie_laws D acc slot xacc xslot"
  shows "agrees acc slot c \<Longrightarrow> execute_all E (cached_database (trie_ops_of D K B) B) ch bs c = Some (rs, d) \<Longrightarrow>
    no_selfdestruct (block_changes rs) \<Longrightarrow>
    agrees acc slot d
    \<and> acc (fst (c_inner d)) = account_effect (block_changes rs) (acc (fst (c_inner c)))
    \<and> slot_values (slot (fst (c_inner d)))
        = storage_effect (block_changes rs) (slot_values (slot (fst (c_inner c))))"
proof (induction bs arbitrary: c rs)
  case Nil
  then show ?case by simp
next
  case (Cons b bs)
  let ?V = "cached_database (trie_ops_of D K B) B"
  obtain r c1 rs1 where first: "execute_block E ?V ch b c = (Inr r, c1)"
    and rest: "execute_all E ?V ch bs c1 = Some (rs1, d)" and rs: "rs = r # rs1"
    using Cons.prems(2) by (auto split: prod.splits sum.splits)
  have ns: "no_selfdestruct (changes_of (br_tx_results r))" "no_selfdestruct (block_changes rs1)"
    using Cons.prems(3) rs by simp_all
  note one = execute_block_view [OF L Cons.prems(1) first ns(1)]
  with Cons.IH [OF _ rest ns(2)] show ?case by (simp add: rs account_effect_append storage_effect_append)
qed

text \<open>The entry of one account in the cache: the last change of it.\<close>

lemma commit_accounts_entry:
  "commit_accounts cs m a = (case map_of (rev cs) a of Some ac \<Rightarrow> Some (ea_info ac) | None \<Rightarrow> m a)"
  by (induction cs arbitrary: m) (auto simp: map_add_def split: option.splits)

lemma account_effect_entry:
  "account_effect cs f a =
    (case map_of (rev cs) a of
       Some ac \<Rightarrow> (if ea_selfdestructed ac then None else Some (info_core (ea_info ac)))
     | None \<Rightarrow> f a)"
  by (induction cs arbitrary: f) (auto simp: map_add_def split: option.splits)

lemma reads_keep_entry:
  "c_accounts c a = Some i \<Longrightarrow> c_accounts (snd (perform (cached_database I B) p c)) a = Some i"
  by (rule perform_keeps [where P = "\<lambda>s. c_accounts s a = Some i"])
    (auto simp: cached_basic_def cached_code_by_hash_def cached_read_storage_def cached_block_hash_def
      split: option.splits sum.splits)

lemma execute_txs_extends:
  "execute_txs E V env cfg txs rs c = (e, rs', d) \<Longrightarrow> \<exists>new. rs' = rs @ new"
  by (induction txs arbitrary: rs c) (fastforce split: prod.splits sum.splits)+

lemma execute_txs_entry:
  "execute_txs E (cached_database I B) env cfg txs rs c = (e, rs', d) \<Longrightarrow> rs' = rs @ new \<Longrightarrow>
    (case map_of (rev (changes_of new)) a of
       Some ac \<Rightarrow> c_accounts d a = Some (ea_info ac)
     | None \<Rightarrow> \<forall>i. c_accounts c a = Some i \<longrightarrow> c_accounts d a = Some i)"
proof (induction txs arbitrary: rs c new)
  case Nil
  then show ?case by simp
next
  case (Cons tx txs)
  let ?p = "evm_replay E cfg env (tx_to_op_tx (evm_deposit_default E) tx (en_signer tx))"
  obtain r c1 where p: "perform (cached_database I B) ?p c = (r, c1)" by force
  have keep: "c_accounts c a = Some i \<Longrightarrow> c_accounts c1 a = Some i" for i
    using reads_keep_entry [of c a i I B ?p] p by simp
  show ?case
  proof (cases r)
    case (Inl err)
    with Cons.prems p keep show ?thesis by (auto simp: execute_tx_def)
  next
    case (Inr q)
    obtain res cs where q: "q = (res, cs)" by force
    let ?t = "tx_result_of res cs"
    have rest: "execute_txs E (cached_database I B) env cfg txs (rs @ [?t]) (cached_commit B cs c1) = (e, rs', d)"
      using Cons.prems(1) p Inr q by (simp add: execute_tx_def)
    then obtain new1 where rs': "rs' = (rs @ [?t]) @ new1" using execute_txs_extends by metis
    then have new: "changes_of new = cs @ changes_of new1" using Cons.prems(2) by simp
    show ?thesis using Cons.IH [OF rest rs'] keep
      by (auto simp: new map_add_def commit_accounts_entry split: option.splits)
  qed
qed

section \<open>A concrete database\<close>

text \<open>
  For the witnesses: over the trie of functions, an interpreter that executes a transaction with
  nonce 0 as a change of its sender and fails on any other.
\<close>

definition nonce_change :: "bool \<Rightarrow> u64 \<Rightarrow> bytes evm_account" where
  "nonce_change killed n =
     \<lparr>ea_info = \<lparr>ai_nonce = n, ai_balance = 5, ai_code_hash = ZERO_HASH, ai_code = None\<rparr>,
      ea_storage = [(1, 9)], ea_selfdestructed = killed\<rparr>"

definition nonce_evm :: "bool \<Rightarrow> (bytes, unit, unit) evm" where
  "nonce_evm killed =
     \<lparr>evm_blob_price = \<lambda>_. (), evm_deposit_default = \<lparr>dp_source_hash = ZERO_HASH, dp_mint = None, dp_is_system = False\<rparr>,
      evm_replay = \<lambda>cfg env tx. Ask_Basic (te_caller (ot_base tx)) (\<lambda>_. Done_With
        (if te_nonce (ot_base tx) = 0
         then Inr (Exec_Halt 21000, [(te_caller (ot_base tx), nonce_change killed 7)])
         else Inl ''nonce''))\<rparr>"

definition plain_tx :: "u64 \<Rightarrow> unit envelope" where
  "plain_tx n =
     \<lparr>en_ty = 2, en_to = None, en_access_list = None, en_authorization_list = None, en_gas_limit = 21000,
      en_gas_price = None, en_max_fee_per_gas = 1, en_value = 0, en_input = [], en_nonce = n,
      en_chain_id = None, en_max_priority_fee = None, en_blob_hashes = None, en_max_fee_per_blob_gas = None,
      en_deposit = None, en_encoded = [], en_signer = [3]\<rparr>"

definition plain_block :: "u64 list \<Rightarrow> unit exec_block" where
  "plain_block ns =
     \<lparr>blk_header = \<lparr>bh_number = 1, bh_beneficiary = [], bh_timestamp = 0, bh_gas_limit = 30000000,
        bh_base_fee = None, bh_difficulty = 0, bh_mix_hash = None, bh_excess_blob_gas = None\<rparr>,
      blk_transactions = map plain_tx ns\<rparr>"

abbreviation map_cached :: "(bytes, (bytes, map_trie \<times> unit) cached) evm_database" where
  "map_cached \<equiv> cached_database (trie_ops_of map_trie_ops no_code_kv raw_code) raw_code"

abbreviation fresh_cached :: "(bytes, map_trie \<times> unit) cached" where
  "fresh_cached \<equiv> cached_new ((\<lambda>_. None, \<lambda>_. None), ())"

lemmas concrete_defs = map_trie_ops_def no_code_kv_def raw_code_def nonce_change_def nonce_evm_def plain_tx_def
  plain_block_def execute_tx_def tx_to_op_tx_def Let_def block_to_env_def block_cfg_def cached_new_def
  cached_basic_def trie_basic_def read_tx_def trie_ops_of_def cached_commit_def remember_code_def

lemma concrete_txs:
  "execute_txs (nonce_evm killed) map_cached env cfg [plain_tx 0] [] fresh_cached
    = (None, [\<lparr>tr_success = False, tr_gas_used = 21000, tr_output = None,
               tr_state = [([3], nonce_change killed 7)]\<rparr>],
       fresh_cached\<lparr>c_accounts := [[3] \<mapsto> ea_info (nonce_change killed 7)], c_storage := [([3], 1) \<mapsto> 9]\<rparr>)"
  by (simp add: concrete_defs)

lemma concrete_refusal:
  "execute_txs (nonce_evm killed) map_cached env cfg [plain_tx 0, plain_tx 1] [] fresh_cached
    = (Some (Evm_Error ''nonce''),
       [\<lparr>tr_success = False, tr_gas_used = 21000, tr_output = None,
         tr_state = [([3], nonce_change killed 7)]\<rparr>],
       fresh_cached\<lparr>c_accounts := [[3] \<mapsto> ea_info (nonce_change killed 7)], c_storage := [([3], 1) \<mapsto> 9]\<rparr>)"
  by (simp add: concrete_defs)

lemma concrete_block:
  "\<exists>d. execute_block (nonce_evm killed) map_cached ANVIL (plain_block [0]) fresh_cached
    = (Inr \<lparr>br_block_number = 1,
            br_tx_results = [\<lparr>tr_success = False, tr_gas_used = 21000, tr_output = None,
              tr_state = [([3], nonce_change killed 7)]\<rparr>],
            br_state_root = ZERO_HASH\<rparr>, d)"
  using concrete_txs [of killed "block_to_env (evm_blob_price (nonce_evm killed)) (plain_block [0])"
      "block_cfg ANVIL (plain_block [0])"]
  by (auto simp: execute_block_def Let_def plain_block_def cached_commit_block_def trie_ops_of_def
      trie_commit_block_def write_change_def nonce_change_def map_trie_ops_def no_code_kv_def
      store_code_def cached_new_def)

section \<open>Properties\<close>

text \<open>
  C7: Whatever sequence of blocks the executor accepts on a fresh cache over a state database, no
  change of which is a self-destruction, the state database ends up with exactly the changes of
  all transactions of all blocks, applied in order to what it held (nonce, balance and code hash
  of every account, value of every slot), and the cache shows the same accounts and slots: the
  next block reads what was committed, although \<^verbatim>\<open>commit\<close> and \<^verbatim>\<open>commit_block\<close> write into two
  different places.
\<close>

theorem blocks_reach_the_state:
  assumes "trie_laws D acc slot xacc xslot"
    and "execute_all E (cached_database (trie_ops_of D K B) B) ch bs (cached_new db) = Some (rs, d)"
    and "no_selfdestruct (block_changes rs)"
  shows "acc (fst (c_inner d)) = account_effect (block_changes rs) (acc (fst db))
    \<and> slot_values (slot (fst (c_inner d))) = storage_effect (block_changes rs) (slot_values (slot (fst db)))
    \<and> account_view acc d = acc (fst (c_inner d))
    \<and> storage_view slot d = slot_values (slot (fst (c_inner d)))"
  using execute_all_view [OF assms(1) agrees_new assms(2,3)] by (simp add: agrees_def cached_new_def)

theorem blocks_reach_the_state_witness:
  "\<exists>d. map_accounts (fst (c_inner d)) [3] = Some (7, 5, ZERO_HASH)
    \<and> slot_values (snd (fst (c_inner d))) ([3], 1) = 9
    \<and> account_view map_accounts (d :: (bytes, map_trie \<times> unit) cached) [3] = Some (7, 5, ZERO_HASH)"
proof -
  obtain d where block: "execute_block (nonce_evm False) map_cached ANVIL (plain_block [0]) fresh_cached
    = (Inr \<lparr>br_block_number = 1,
            br_tx_results = [\<lparr>tr_success = False, tr_gas_used = 21000, tr_output = None,
              tr_state = [([3], nonce_change False 7)]\<rparr>],
            br_state_root = ZERO_HASH\<rparr>, d)"
    using concrete_block by blast
  then have all: "execute_all (nonce_evm False) map_cached ANVIL [plain_block [0]] fresh_cached
    = Some ([\<lparr>br_block_number = 1,
            br_tx_results = [\<lparr>tr_success = False, tr_gas_used = 21000, tr_output = None,
              tr_state = [([3], nonce_change False 7)]\<rparr>],
            br_state_root = ZERO_HASH\<rparr>], d)"
    by simp
  have "map_accounts (fst (c_inner d)) [3] = Some (7, 5, ZERO_HASH)
      \<and> slot_values (snd (fst (c_inner d))) ([3], 1) = 9
      \<and> account_view map_accounts d = map_accounts (fst (c_inner d))"
    using blocks_reach_the_state [OF map_trie_laws all]
    by (simp add: no_selfdestruct_def nonce_change_def info_core_def)
  then show ?thesis by (intro exI [of _ d]) simp
qed

text \<open>
  C14: When a transaction of a block cannot be executed, the block is refused and the state
  database is as it was, but the changes of the transactions before it stay in the cache: the
  next block, or the same block tried again, is executed on a state that no block committed.
\<close>

theorem refused_block_leaves_changes:
  assumes "trie_laws D acc slot xacc xslot"
    and "execute_txs E (cached_database (trie_ops_of D K B) B) (block_to_env (evm_blob_price E) b)
           (block_cfg ch b) (blk_transactions b) [] c = (Some e, rs, d)"
    and "no_selfdestruct (changes_of rs)"
  shows "execute_block E (cached_database (trie_ops_of D K B) B) ch b c = (Inl e, d)
    \<and> c_inner d = c_inner c
    \<and> account_view acc d = account_effect (changes_of rs) (account_view acc c)
    \<and> storage_view slot d = storage_effect (changes_of rs) (storage_view slot c)"
  using execute_txs_view [OF assms(1,2)] assms(2,3) by (simp add: execute_block_def Let_def)

theorem refused_block_leaves_changes_witness:
  "\<exists>d. execute_block (nonce_evm False) map_cached ANVIL (plain_block [0, 1]) fresh_cached
      = (Inl (Evm_Error ''nonce''), d)
    \<and> map_accounts (fst (c_inner d)) [3] = None
    \<and> account_view map_accounts d [3] = Some (7, 5, ZERO_HASH)"
proof -
  let ?b = "plain_block [0, 1]"
  have "blk_transactions ?b = [plain_tx 0, plain_tx 1]" by (simp add: plain_block_def)
  then have "execute_txs (nonce_evm False) map_cached (block_to_env (evm_blob_price (nonce_evm False)) ?b)
      (block_cfg ANVIL ?b) (blk_transactions ?b) [] fresh_cached
    = (Some (Evm_Error ''nonce''),
       [\<lparr>tr_success = False, tr_gas_used = 21000, tr_output = None,
         tr_state = [([3], nonce_change False 7)]\<rparr>],
       fresh_cached\<lparr>c_accounts := [[3] \<mapsto> ea_info (nonce_change False 7)], c_storage := [([3], 1) \<mapsto> 9]\<rparr>)"
    by (simp only: concrete_refusal)
  from refused_block_leaves_changes [OF map_trie_laws this]
  show ?thesis
    by (auto simp: no_selfdestruct_def nonce_change_def info_core_def map_accounts_def cached_new_def)
qed

text \<open>
  C15: An account whose last change in an accepted block is its self-destruction is gone from the
  state database, but the cache goes on answering with the account: a cached read returns
  \<open>Some\<close> where the state database has none, until the process is restarted.
\<close>

theorem selfdestructed_account_survives:
  assumes "trie_laws D acc slot xacc xslot"
    and "execute_block E (cached_database (trie_ops_of D K B) B) ch b c = (Inr r, d)"
    and "map_of (rev (changes_of (br_tx_results r))) a = Some ac" and "ea_selfdestructed ac"
  shows "fst (cached_basic (trie_ops_of D K B) B a d) = Inr (Some (ea_info ac))
    \<and> acc (fst (c_inner d)) a = None
    \<and> trie_basic D K B a (c_inner d) \<noteq> Inr (Some i)"
proof -
  let ?V = "cached_database (trie_ops_of D K B) B"
  obtain rs c1 rt t k t' k' where txs: "execute_txs E ?V (block_to_env (evm_blob_price E) b) (block_cfg ch b)
      (blk_transactions b) [] c = (None, rs, c1)"
    and wrote: "trie_commit_block D K B (bh_number (blk_header b)) (map tr_state rs) (t, k) = (Inr rt, (t', k'))"
    and inner: "c_inner c1 = (t, k)" "c_inner d = (t', k')"
    and cache: "c_accounts d = c_accounts c1" "c_storage d = c_storage c1"
    and rs: "br_tx_results r = rs"
    by (rule execute_block_Ok [OF assms(2)])
  have gone: "acc t' a = None"
    using commit_block_effect(1) [OF assms(1) wrote] assms(3,4) rs by (simp add: account_effect_entry)
  then have "trie_basic D K B a (t', k') \<noteq> Inr (Some i)"
    using trie_reads(1) [OF assms(1), of K B a t' k' "Some i"] by auto
  moreover have "c_accounts d a = Some (ea_info ac)"
    using execute_txs_entry [OF txs, of rs a] assms(3) rs cache by simp
  ultimately show ?thesis using gone inner by (simp add: cached_basic_def)
qed

theorem selfdestructed_account_survives_witness:
  "\<exists>d. fst (cached_basic (trie_ops_of map_trie_ops no_code_kv raw_code) raw_code [3] d)
      = Inr (Some (ea_info (nonce_change True 7)))
    \<and> map_accounts (fst (c_inner (d :: (bytes, map_trie \<times> unit) cached))) [3] = None"
proof -
  obtain d where block: "execute_block (nonce_evm True) map_cached ANVIL (plain_block [0]) fresh_cached
    = (Inr \<lparr>br_block_number = 1,
            br_tx_results = [\<lparr>tr_success = False, tr_gas_used = 21000, tr_output = None,
              tr_state = [([3], nonce_change True 7)]\<rparr>],
            br_state_root = ZERO_HASH\<rparr>, d)"
    using concrete_block by blast
  show ?thesis
    using selfdestructed_account_survives [OF map_trie_laws block, of "[3]" "nonce_change True 7"]
    by (auto simp: nonce_change_def)
qed

end
