(* ===== verification/Reth_Compact.thy ===== *)
theory Reth_Compact
  imports Trie_Database
begin

text \<open>
  The decoders for values of a Reth database (\<^verbatim>\<open>crates/execution/migration/src/reth\<close>): integers
  with their leading zero bytes stripped, accounts with the lengths in a two-byte bit field,
  storage entries and bytecode. A result in an option is \<open>None\<close> where the code panics, on a slice
  out of range.

  \<open>to_compact\<close> and \<open>storage_value\<close> are the encoders that the documentation of the decoders
  describes; they are the specification, no code of the repository writes the format.
\<close>

unbundle bit_operations_syntax

section \<open>Compact integers\<close>

definition read_compact_u64 :: "bytes \<Rightarrow> usize \<Rightarrow> (u64 \<times> bytes) option" where
  "read_compact_u64 bs len =
     (if len = 0 then Some (0, bs)
      else if 8 < len \<or> length bs < len then None
      else Some (from_be_bytes (replicate (8 - len) 0 @ take len bs), drop len bs))"

definition read_compact_u256 :: "bytes \<Rightarrow> usize \<Rightarrow> (u256 \<times> bytes) option" where
  "read_compact_u256 bs len =
     (if len = 0 then Some (0, bs)
      else if 32 < len \<or> length bs < len then None
      else Some (u256_of_be (replicate (32 - len) 0 @ take len bs), drop len bs))"

section \<open>Accounts\<close>

definition KECCAK_EMPTY :: bytes where
  "KECCAK_EMPTY =
     [0xc5, 0xd2, 0x46, 0x01, 0x86, 0xf7, 0x23, 0x3c, 0x92, 0x7e, 0x7d, 0xb2, 0xdc, 0xc7, 0x03, 0xc0,
      0xe5, 0x00, 0xb6, 0x53, 0xca, 0x82, 0x27, 0x3b, 0x7b, 0xfa, 0xd8, 0x04, 0x5d, 0x85, 0xa4, 0x70]"

definition EMPTY_ROOT_HASH :: bytes where
  "EMPTY_ROOT_HASH =
     [0x56, 0xe8, 0x1f, 0x17, 0x1b, 0xcc, 0x55, 0xa6, 0xff, 0x83, 0x45, 0xe6, 0x92, 0xc0, 0xf8, 0x6e,
      0x5b, 0x48, 0xe0, 0x1b, 0x99, 0x6c, 0xad, 0xc0, 0x01, 0x62, 0x2f, 0xb5, 0xe3, 0x63, 0xb4, 0x21]"

record reth_account =
  reth_nonce :: u64
  reth_balance :: u256
  reth_bytecode_hash :: "bytes option"

datatype decode_error = Account_Insufficient_Data usize usize

fun show_decode_error :: "decode_error \<Rightarrow> string" where
  "show_decode_error (Account_Insufficient_Data expected got) =
     ''insufficient data: expected '' @ dec expected @ '' bytes, got '' @ dec got"

definition from_compact :: "bytes \<Rightarrow> (decode_error + reth_account) option" where
  "from_compact bs =
     (if length bs < 2 then Some (Inl (Account_Insufficient_Data 2 (length bs)))
      else
        (let flags = (of_nat (le_val (take 2 bs)) :: u16);
             buf = drop 2 bs;
             nonce_len = unat (flags AND 0x0F);
             balance_len = unat (drop_bit 4 flags AND 0x3F);
             has_bytecode_hash = (drop_bit 10 flags AND 0x01 \<noteq> 0);
             required_len = nonce_len + balance_len + (if has_bytecode_hash then 32 else 0)
         in if length buf < required_len
            then Some (Inl (Account_Insufficient_Data (required_len + 2) (length bs)))
            else
              (case read_compact_u64 buf nonce_len of
                 None \<Rightarrow> None
               | Some (nonce, buf) \<Rightarrow>
                   (case read_compact_u256 buf balance_len of
                      None \<Rightarrow> None
                    | Some (balance, buf) \<Rightarrow>
                        Some (Inr \<lparr>reth_nonce = nonce, reth_balance = balance,
                          reth_bytecode_hash = (if has_bytecode_hash then Some (take 32 buf) else None)\<rparr>)))))"

definition to_triedb_account :: "reth_account \<Rightarrow> trie_account" where
  "to_triedb_account a =
     \<lparr>ta_nonce = reth_nonce a, ta_balance = reth_balance a, ta_storage_root = EMPTY_ROOT_HASH,
      ta_code_hash = (case reth_bytecode_hash a of Some h \<Rightarrow> h | None \<Rightarrow> KECCAK_EMPTY)\<rparr>"

section \<open>Storage entries and bytecode\<close>

record storage_entry =
  se_slot :: bytes
  se_value :: u256

datatype storage_decode_error =
    Entry_Insufficient_Data usize usize
  | Invalid_Value_Length usize

fun show_storage_decode_error :: "storage_decode_error \<Rightarrow> string" where
  "show_storage_decode_error (Entry_Insufficient_Data expected got) =
     ''insufficient data: expected '' @ dec expected @ '' bytes, got '' @ dec got"
| "show_storage_decode_error (Invalid_Value_Length got) =
     ''value too long for U256: '' @ dec got @ '' bytes''"

definition decode_storage_entry :: "bytes \<Rightarrow> storage_decode_error + storage_entry" where
  "decode_storage_entry bs =
     (if length bs < 32 then Inl (Entry_Insufficient_Data 32 (length bs))
      else
        (let slot = take 32 bs; value_bytes = drop 32 bs in
         if value_bytes = [] then Inr \<lparr>se_slot = slot, se_value = 0\<rparr>
         else if length value_bytes \<le> 32
         then Inr \<lparr>se_slot = slot, se_value = u256_of_be (replicate (32 - length value_bytes) 0 @ value_bytes)\<rparr>
         else Inl (Invalid_Value_Length (length value_bytes))))"

definition decode_bytecode :: "'c bytecode_ops \<Rightarrow> bytes \<Rightarrow> 'c" where
  "decode_bytecode B bs = (if bs = [] then bc_default B else bc_new_raw B bs)"

section \<open>The format\<close>

text \<open>The bytes of a number, little end first, without the zeros at the high end.\<close>

fun le_min :: "nat \<Rightarrow> bytes" where
  "le_min v = (if v = 0 then [] else of_nat v # le_min (v div 256))"

declare le_min.simps [simp del]

lemma le_min_0 [simp]: "le_min 0 = []"
  by (simp add: le_min.simps)

lemma le_val_min [simp]: "le_val (le_min v) = v"
proof (induction v rule: le_min.induct)
  case (1 v)
  then show ?case
    by (subst le_min.simps) (auto simp: unat_of_nat take_bit_eq_mod)
qed

lemma length_le_min: "v < 256 ^ n \<Longrightarrow> length (le_min v) \<le> n"
proof (induction n arbitrary: v)
  case 0
  then show ?case by simp
next
  case (Suc n)
  have "v div 256 < 256 ^ n" using Suc.prems by (simp add: less_mult_imp_div_less mult.commute)
  then show ?case using Suc.IH by (subst le_min.simps) simp
qed

lemma le_val_zeros [simp]: "le_val (bs @ replicate k 0) = le_val bs"
proof (induction bs)
  case Nil
  show ?case by (induction k) simp_all
qed simp

definition to_compact :: "reth_account \<Rightarrow> bytes" where
  "to_compact a =
     (let n = rev (le_min (unat (reth_nonce a)));
          b = rev (le_min (unat (reth_balance a)));
          h = (case reth_bytecode_hash a of None \<Rightarrow> [] | Some h \<Rightarrow> h)
      in le_bytes 2 (length n + 16 * length b + (if reth_bytecode_hash a = None then 0 else 1024)) @ n @ b @ h)"

definition storage_value :: "storage_entry \<Rightarrow> bytes" where
  "storage_value e = se_slot e @ rev (le_min (unat (se_value e)))"

text \<open>Reading back what was stripped.\<close>

lemma length_nonce: "length (le_min (unat (w :: u64))) \<le> 8"
  using length_le_min [of "unat w" 8] unsigned_less [of w, where ?'a = nat] by simp

lemma length_balance: "length (le_min (unat (w :: u256))) \<le> 32"
  using length_le_min [of "unat w" 32] unsigned_less [of w, where ?'a = nat] by simp

lemma le_min_Nil_iff [simp]: "le_min v = [] \<longleftrightarrow> v = 0"
  by (subst le_min.simps) simp

lemma read_compact_u64_min:
  "read_compact_u64 (rev (le_min (unat w)) @ rest) (length (le_min (unat w))) = Some (w, rest)"
  using length_nonce [of w]
  by (auto simp: read_compact_u64_def from_be_bytes_def from_le_bytes_def unat_eq_zero)

lemma read_compact_u256_min:
  "read_compact_u256 (rev (le_min (unat w)) @ rest) (length (le_min (unat w))) = Some (w, rest)"
  using length_balance [of w]
  by (auto simp: read_compact_u256_def u256_of_be_def unat_eq_zero)

text \<open>The three fields of the flags, as numbers.\<close>

lemma flag_fields:
  fixes flags :: u16
  shows "unat (flags AND 0x0F) = unat flags mod 16"
    and "unat (drop_bit 4 flags AND 0x3F) = unat flags div 16 mod 64"
    and "(drop_bit 10 flags AND 0x01 \<noteq> 0) = odd (unat flags div 1024)"
proof -
  have m: "(0x0F :: u16) = mask 4" "(0x3F :: u16) = mask 6" "(0x01 :: u16) = mask 1"
    by (simp_all add: mask_eq_exp_minus_1)
  show "unat (flags AND 0x0F) = unat flags mod 16"
    by (simp only: m(1) unsigned_take_bit_eq flip: take_bit_eq_mask)
      (simp add: take_bit_eq_mod)
  show "unat (drop_bit 4 flags AND 0x3F) = unat flags div 16 mod 64"
    by (simp only: m(2) unsigned_take_bit_eq unsigned_drop_bit_eq flip: take_bit_eq_mask)
      (use unsigned_less [of flags, where ?'a = nat] in \<open>simp add: take_bit_eq_mod drop_bit_eq_div\<close>)
  have "unat (drop_bit 10 flags AND 0x01) = unat flags div 1024 mod 2"
    by (simp only: m(3) unsigned_take_bit_eq unsigned_drop_bit_eq flip: take_bit_eq_mask)
      (use unsigned_less [of flags, where ?'a = nat] in \<open>simp add: take_bit_eq_mod drop_bit_eq_div\<close>)
  then show "(drop_bit 10 flags AND 0x01 \<noteq> 0) = odd (unat flags div 1024)"
    by (metis odd_iff_mod_2_eq_one not_mod_2_eq_1_eq_0 unat_0 unsigned_eq_0_iff)
qed


text \<open>Decoding by the lengths in the flags, as numbers.\<close>

definition flags_of :: "bytes \<Rightarrow> nat" where
  "flags_of bs = le_val (take 2 bs)"

abbreviation nonce_length :: "bytes \<Rightarrow> nat" where "nonce_length bs \<equiv> flags_of bs mod 16"
abbreviation balance_length :: "bytes \<Rightarrow> nat" where "balance_length bs \<equiv> flags_of bs div 16 mod 64"
abbreviation has_code :: "bytes \<Rightarrow> bool" where "has_code bs \<equiv> odd (flags_of bs div 1024)"

definition required_length :: "bytes \<Rightarrow> nat" where
  "required_length bs = 2 + nonce_length bs + balance_length bs + (if has_code bs then 32 else 0)"

lemma unat_flags: "2 \<le> length bs \<Longrightarrow> unat (of_nat (le_val (take 2 bs)) :: u16) = flags_of bs"
  using le_val_less [of "take 2 bs"] by (simp add: flags_of_def unat_of_nat take_bit_eq_mod)

lemma from_compact_eq:
  "from_compact bs =
     (if length bs < 2 then Some (Inl (Account_Insufficient_Data 2 (length bs)))
      else if length bs < required_length bs
      then Some (Inl (Account_Insufficient_Data (required_length bs) (length bs)))
      else (case read_compact_u64 (drop 2 bs) (nonce_length bs) of
              None \<Rightarrow> None
            | Some (nonce, buf) \<Rightarrow>
                (case read_compact_u256 buf (balance_length bs) of
                   None \<Rightarrow> None
                 | Some (balance, buf) \<Rightarrow>
                     Some (Inr \<lparr>reth_nonce = nonce, reth_balance = balance,
                       reth_bytecode_hash = (if has_code bs then Some (take 32 buf) else None)\<rparr>))))"
proof (cases "length bs < 2")
  case False
  then have u: "unat (of_nat (le_val (take 2 bs)) :: u16) = flags_of bs" by (simp add: unat_flags)
  have "(length (drop 2 bs) < nonce_length bs + balance_length bs + (if has_code bs then 32 else 0))
      = (length bs < required_length bs)"
    using False by (auto simp: required_length_def)
  with False show ?thesis
    by (simp only: from_compact_def Let_def flag_fields u if_False) (simp add: required_length_def)
qed (simp add: from_compact_def)

lemma packed_lengths:
  fixes n b :: nat
  assumes "n \<le> 8" and "b \<le> 32"
  shows "(n + 16 * b + (if c then 0 else 1024)) mod 16 = n"
    and "(n + 16 * b + (if c then 0 else 1024)) div 16 mod 64 = b"
    and "odd ((n + 16 * b + (if c then 0 else 1024)) div 1024) = (\<not> c)"
proof -
  define m where "m = b + (if c then 0 else 64)"
  have sum: "n + 16 * b + (if c then 0 else 1024) = n + m * 16" by (simp add: m_def)
  have e: "(n + 16 * b + (if c then 0 else 1024)) mod 16 = n"
    "(n + 16 * b + (if c then 0 else 1024)) div 16 = m"
    unfolding sum using assms by simp_all
  show "(n + 16 * b + (if c then 0 else 1024)) mod 16 = n" by (rule e)
  show "(n + 16 * b + (if c then 0 else 1024)) div 16 mod 64 = b" using assms by (simp add: e m_def)
  have "(n + 16 * b + (if c then 0 else 1024)) div 1024 = m div 64"
    using e(2) div_mult2_eq [of "n + 16 * b + (if c then 0 else 1024)" 16 64] by simp
  then show "odd ((n + 16 * b + (if c then 0 else 1024)) div 1024) = (\<not> c)"
    using assms div_nat_eqI [of 64 1 "b + 64"] by (simp add: m_def)
qed

section \<open>Properties\<close>

text \<open>
  C32: Reading what was written. Every account, in the format of Reth, is decoded to itself,
  whatever bytes follow it, and every storage entry is.
\<close>

theorem compact_roundtrip:
  assumes "case reth_bytecode_hash a of None \<Rightarrow> True | Some h \<Rightarrow> length h = 32"
    and "length (se_slot e) = 32"
  shows "from_compact (to_compact a @ rest) = Some (Inr a)
    \<and> decode_storage_entry (storage_value e) = Inr e"
proof
  let ?n = "le_min (unat (reth_nonce a))" and ?b = "le_min (unat (reth_balance a))"
  let ?f = "length ?n + 16 * length ?b + (if reth_bytecode_hash a = None then 0 else 1024)"
  let ?h = "case reth_bytecode_hash a of None \<Rightarrow> [] | Some h \<Rightarrow> h"
  have bs: "to_compact a @ rest = le_bytes 2 ?f @ rev ?n @ rev ?b @ ?h @ rest"
    by (simp add: to_compact_def)
  have n: "length ?n \<le> 8" and b: "length ?b \<le> 32" by (rule length_nonce, rule length_balance)
  then have "?f < 256 ^ 2" by simp
  then have f: "flags_of (to_compact a @ rest) = ?f"
    by (simp add: flags_of_def bs le_val_le_bytes)
  have lengths: "?f mod 16 = length ?n" "?f div 16 mod 64 = length ?b"
    "odd (?f div 1024) = (reth_bytecode_hash a \<noteq> None)"
    using packed_lengths [OF n b] by simp_all
  have "required_length (to_compact a @ rest) \<le> length (to_compact a @ rest)"
    using assms(1) unfolding required_length_def f lengths by (auto simp: bs split: option.splits)
  then show "from_compact (to_compact a @ rest) = Some (Inr a)"
    using assms(1) unfolding from_compact_eq f lengths
    by (auto simp: bs read_compact_u64_min read_compact_u256_min split: option.splits)
next
  show "decode_storage_entry (storage_value e) = Inr e"
    using assms(2) length_balance [of "se_value e"]
    by (cases e) (auto simp: decode_storage_entry_def storage_value_def Let_def u256_of_be_def unat_eq_zero)
qed

theorem compact_roundtrip_witness:
  "from_compact (to_compact \<lparr>reth_nonce = 300, reth_balance = 0, reth_bytecode_hash = None\<rparr> @ [7])
      = Some (Inr \<lparr>reth_nonce = 300, reth_balance = 0, reth_bytecode_hash = None\<rparr>)
    \<and> decode_storage_entry (storage_value \<lparr>se_slot = replicate 32 1, se_value = 66\<rparr>)
      = Inr \<lparr>se_slot = replicate 32 1, se_value = 66\<rparr>"
  by (rule compact_roundtrip) simp_all

text \<open>
  What the account decoder does with arbitrary bytes. It returns an error exactly on fewer
  bytes than the flags announce; on all others it returns an account or it panics, and it
  panics exactly when the flags announce a nonce of more than 8 bytes or a balance of more than
  32, which the documentation calls invalid data to be reported as an error.
\<close>

theorem from_compact_panics_iff:
  "(from_compact bs = None) =
     (2 \<le> length bs \<and> required_length bs \<le> length bs \<and> (8 < nonce_length bs \<or> 32 < balance_length bs))
   \<and> ((\<exists>e. from_compact bs = Some (Inl e)) = (length bs < 2 \<or> length bs < required_length bs))"
proof (cases "length bs < required_length bs")
  case True
  then show ?thesis by (simp add: from_compact_eq)
next
  case False
  then have "nonce_length bs + balance_length bs + 2 \<le> length bs"
    by (simp add: required_length_def split: if_splits)
  with False show ?thesis
    by (auto simp: from_compact_eq read_compact_u64_def read_compact_u256_def)
qed

end
