(* ===== verification/Migrator.thy ===== *)
theory Migrator
  imports Reth_Compact
begin

text \<open>
  The migration of a Reth database into TrieDB (\<^verbatim>\<open>crates/execution/migration/src/migrator.rs\<close>).

  A table of the source is the list of what its cursor yields: an error or a key with its value.
  The destination is TrieDB as in \<^verbatim>\<open>Trie_Database\<close>. The two loops of the source, over accounts
  and over storage entries, do the same around the handling of one entry, which is the argument
  \<open>process\<close> of \<open>migrate_loop\<close>. A panic is \<open>None\<close>: on a key that is no address, in the account
  decoder, and in the remainder by a log interval of zero.
\<close>

section \<open>Configuration, statistics, errors\<close>

record migrator_config =
  mg_batch_size :: u64
  mg_log_interval :: u64

definition DEFAULT_BATCH_SIZE :: u64 where "DEFAULT_BATCH_SIZE = 5000000"
definition DEFAULT_LOG_INTERVAL :: u64 where "DEFAULT_LOG_INTERVAL = 100000"

definition migrator_config_default :: migrator_config where
  "migrator_config_default = \<lparr>mg_batch_size = DEFAULT_BATCH_SIZE, mg_log_interval = DEFAULT_LOG_INTERVAL\<rparr>"

definition with_batch_size :: "u64 \<Rightarrow> migrator_config \<Rightarrow> migrator_config" where
  "with_batch_size v c = c\<lparr>mg_batch_size := v\<rparr>"

definition with_log_interval :: "u64 \<Rightarrow> migrator_config \<Rightarrow> migrator_config" where
  "with_log_interval v c = c\<lparr>mg_log_interval := v\<rparr>"

record migration_stats =
  accounts_migrated :: u64
  storage_slots_migrated :: u64
  account_errors :: u64
  storage_errors :: u64

definition migration_stats_default :: migration_stats where
  "migration_stats_default =
     \<lparr>accounts_migrated = 0, storage_slots_migrated = 0, account_errors = 0, storage_errors = 0\<rparr>"

datatype migration_error = Mig_Source string | Mig_Destination string | Mig_Decode string

fun show_migration_error :: "migration_error \<Rightarrow> string" where
  "show_migration_error (Mig_Source e) = ''source database error: '' @ e"
| "show_migration_error (Mig_Destination e) = ''destination database error: '' @ e"
| "show_migration_error (Mig_Decode e) = ''decode error: '' @ e"

section \<open>Opening\<close>

text \<open>
  What the file system and the two databases answer: the source, whether the destination and its
  parent directory exist (\<open>parent_missing\<close>: a non-empty parent that does not exist), the creation
  of the parent, and the destination as opened or created, with the error's debug text.
\<close>

definition migrator_with_config :: "string + 's \<Rightarrow> bool \<Rightarrow> string + 't \<Rightarrow> bool \<Rightarrow> string + unit \<Rightarrow> string + 't
    \<Rightarrow> migrator_config \<Rightarrow> migration_error + 's \<times> 't \<times> migrator_config" where
  "migrator_with_config source exists opened parent_missing created_dir created cfg =
     rbind (map_err Mig_Source source) (\<lambda>s.
     rbind (if exists then map_err Mig_Destination opened
            else if parent_missing
            then rbind (map_err (\<lambda>e. Mig_Destination (''failed to create parent directory: '' @ e)) created_dir)
                   (\<lambda>_. map_err Mig_Destination created)
            else map_err Mig_Destination created)
       (\<lambda>t. Inr (s, t, cfg)))"

definition migrator_new :: "string + 's \<Rightarrow> bool \<Rightarrow> string + 't \<Rightarrow> bool \<Rightarrow> string + unit \<Rightarrow> string + 't
    \<Rightarrow> migration_error + 's \<times> 't \<times> migrator_config" where
  "migrator_new source exists opened parent_missing created_dir created =
     migrator_with_config source exists opened parent_missing created_dir created migrator_config_default"

section \<open>One entry\<close>

type_synonym entry = "bytes \<times> bytes"

definition process_account :: "('t, 'x) trie_ops \<Rightarrow> entry \<Rightarrow> 'x \<times> migration_stats \<Rightarrow> ('x \<times> migration_stats) option" where
  "process_account D e s =
     (case e of (key, value) \<Rightarrow> case s of (x, stats) \<Rightarrow>
        (if length key \<noteq> 20 then None
         else
           (case from_compact value of
              None \<Rightarrow> None
            | Some (Inr account) \<Rightarrow>
                (case write_account D key (Some (to_triedb_account account)) x of
                   Inl _ \<Rightarrow> Some (x, stats\<lparr>account_errors := account_errors stats + 1\<rparr>)
                 | Inr x \<Rightarrow> Some (x, stats\<lparr>accounts_migrated := accounts_migrated stats + 1\<rparr>))
            | Some (Inl _) \<Rightarrow> Some (x, stats\<lparr>account_errors := account_errors stats + 1\<rparr>))))"

definition process_storage_entry :: "('t, 'x) trie_ops \<Rightarrow> entry \<Rightarrow> 'x \<times> migration_stats
    \<Rightarrow> ('x \<times> migration_stats) option" where
  "process_storage_entry D e s =
     (case e of (key, value) \<Rightarrow> case s of (x, stats) \<Rightarrow>
        (if length key \<noteq> 20 then None
         else
           (case decode_storage_entry value of
              Inr entry \<Rightarrow>
                (case write_slot D (key, u256_of_be (se_slot entry)) (Some (se_value entry)) x of
                   Inl _ \<Rightarrow> Some (x, stats\<lparr>storage_errors := storage_errors stats + 1\<rparr>)
                 | Inr x \<Rightarrow> Some (x, stats\<lparr>storage_slots_migrated := storage_slots_migrated stats + 1\<rparr>))
            | Inl _ \<Rightarrow> Some (x, stats\<lparr>storage_errors := storage_errors stats + 1\<rparr>))))"

section \<open>The loops\<close>

text \<open>
  \<open>t\<close> is the database as committed, \<open>x\<close> the open transaction, \<open>batch_count\<close> the entries in it;
  the result is the outcome and the database left behind.
\<close>

fun migrate_loop :: "('t, 'x) trie_ops \<Rightarrow> migrator_config
    \<Rightarrow> (entry \<Rightarrow> 'x \<times> migration_stats \<Rightarrow> ('x \<times> migration_stats) option) \<Rightarrow> (string + entry) list
    \<Rightarrow> 't \<Rightarrow> 'x \<Rightarrow> migration_stats \<Rightarrow> u64 \<Rightarrow> ((migration_error + migration_stats) \<times> 't) option" where
  "migrate_loop D cfg process [] t x stats batch_count =
     (case commit_rw D x of
        Inl e \<Rightarrow> Some (Inl (Mig_Destination e), t)
      | Inr t \<Rightarrow> Some (Inr stats, t))"
| "migrate_loop D cfg process (Inl e # items) t x stats batch_count = Some (Inl (Mig_Source e), t)"
| "migrate_loop D cfg process (Inr item # items) t x stats batch_count =
     (case process item (x, stats) of
        None \<Rightarrow> None
      | Some (x, stats) \<Rightarrow>
          (let batch_count = batch_count + 1 in
           if mg_log_interval cfg = 0 then None
           else if mg_batch_size cfg \<le> batch_count
           then (case commit_rw D x of
                   Inl e \<Rightarrow> Some (Inl (Mig_Destination e), t)
                 | Inr t \<Rightarrow>
                     (case begin_rw D t of
                        Inl e \<Rightarrow> Some (Inl (Mig_Destination e), t)
                      | Inr x \<Rightarrow> migrate_loop D cfg process items t x stats 0))
           else migrate_loop D cfg process items t x stats batch_count))"

definition migrate_table :: "('t, 'x) trie_ops \<Rightarrow> migrator_config
    \<Rightarrow> (entry \<Rightarrow> 'x \<times> migration_stats \<Rightarrow> ('x \<times> migration_stats) option)
    \<Rightarrow> string + (string + entry) list \<Rightarrow> 't \<Rightarrow> ((migration_error + migration_stats) \<times> 't) option" where
  "migrate_table D cfg process table t =
     (case table of
        Inl e \<Rightarrow> Some (Inl (Mig_Source e), t)
      | Inr items \<Rightarrow>
          (case begin_rw D t of
             Inl e \<Rightarrow> Some (Inl (Mig_Destination e), t)
           | Inr x \<Rightarrow> migrate_loop D cfg process items t x migration_stats_default 0))"

definition migrate_accounts :: "('t, 'x) trie_ops \<Rightarrow> migrator_config \<Rightarrow> string + (string + entry) list \<Rightarrow> 't
    \<Rightarrow> ((migration_error + migration_stats) \<times> 't) option" where
  "migrate_accounts D cfg table t = migrate_table D cfg (process_account D) table t"

definition migrate_storage :: "('t, 'x) trie_ops \<Rightarrow> migrator_config \<Rightarrow> string + (string + entry) list \<Rightarrow> 't
    \<Rightarrow> ((migration_error + migration_stats) \<times> 't) option" where
  "migrate_storage D cfg table t = migrate_table D cfg (process_storage_entry D) table t"

definition migrate_all :: "('t, 'x) trie_ops \<Rightarrow> migrator_config \<Rightarrow> string + (string + entry) list
    \<Rightarrow> string + (string + entry) list \<Rightarrow> 't \<Rightarrow> ((migration_error + migration_stats) \<times> 't) option" where
  "migrate_all D cfg accounts storage t =
     (case migrate_accounts D cfg accounts t of
        None \<Rightarrow> None
      | Some (Inl e, t) \<Rightarrow> Some (Inl e, t)
      | Some (Inr a, t) \<Rightarrow>
          (case migrate_storage D cfg storage t of
             None \<Rightarrow> None
           | Some (Inl e, t) \<Rightarrow> Some (Inl e, t)
           | Some (Inr s, t) \<Rightarrow>
               Some (Inr (migration_stats_default
                 \<lparr>accounts_migrated := accounts_migrated a, account_errors := account_errors a,
                  storage_slots_migrated := storage_slots_migrated s, storage_errors := storage_errors s\<rparr>), t)))"

definition migrator_close :: "('t \<Rightarrow> string + unit) \<Rightarrow> 't \<Rightarrow> migration_error + unit" where
  "migrator_close close t = map_err Mig_Destination (close t)"

section \<open>What a migration copies\<close>

text \<open>
  A destination whose transactions do not fail. TrieDB wants an account before its storage, which
  is why \<^verbatim>\<open>migrate_all\<close> migrates the accounts first: nothing is supposed of the slots of an address
  that has no account.
\<close>

definition trie_total :: "('t, 'x) trie_ops \<Rightarrow> ('x \<Rightarrow> bytes \<Rightarrow> core option) \<Rightarrow> bool" where
  "trie_total D xacc =
     ((\<forall>t. is_ok (begin_rw D t)) \<and> (\<forall>x. is_ok (commit_rw D x))
      \<and> (\<forall>a v x. is_ok (write_account D a v x)) \<and> (\<forall>p v x. xacc x (fst p) \<noteq> None \<longrightarrow> is_ok (write_slot D p v x)))"

text \<open>The entries that decode, and what they do to the accounts and slots of the destination.\<close>

definition account_of :: "entry \<Rightarrow> reth_account option" where
  "account_of e = (case from_compact (snd e) of Some (Inr a) \<Rightarrow> Some a | _ \<Rightarrow> None)"

definition slot_of :: "entry \<Rightarrow> storage_entry option" where
  "slot_of e = (case decode_storage_entry (snd e) of Inr s \<Rightarrow> Some s | _ \<Rightarrow> None)"

type_synonym contents = "(bytes \<Rightarrow> core option) \<times> (bytes \<times> u256 \<Rightarrow> u256 option)"

fun copy_account :: "entry \<Rightarrow> contents \<Rightarrow> contents" where
  "copy_account e (f, g) =
     (case account_of e of
        Some a \<Rightarrow> (f(fst e \<mapsto> core_of (to_triedb_account a)), g)
      | None \<Rightarrow> (f, g))"

fun copy_slot :: "entry \<Rightarrow> contents \<Rightarrow> contents" where
  "copy_slot e (f, g) =
     (case slot_of e of
        Some s \<Rightarrow> (f, g((fst e, u256_of_be (se_slot s)) \<mapsto> se_value s))
      | None \<Rightarrow> (f, g))"

definition count_account :: "entry \<Rightarrow> migration_stats \<Rightarrow> migration_stats" where
  "count_account e stats =
     (if account_of e = None then stats\<lparr>account_errors := account_errors stats + 1\<rparr>
      else stats\<lparr>accounts_migrated := accounts_migrated stats + 1\<rparr>)"

definition count_slot :: "entry \<Rightarrow> migration_stats \<Rightarrow> migration_stats" where
  "count_slot e stats =
     (if slot_of e = None then stats\<lparr>storage_errors := storage_errors stats + 1\<rparr>
      else stats\<lparr>storage_slots_migrated := storage_slots_migrated stats + 1\<rparr>)"

lemma trie_totalD:
  assumes "trie_total D xacc"
  obtains "\<And>t. \<exists>x. begin_rw D t = Inr x" "\<And>x. \<exists>t. commit_rw D x = Inr t"
    "\<And>a v x. \<exists>y. write_account D a v x = Inr y"
    "\<And>p v x. xacc x (fst p) \<noteq> None \<Longrightarrow> \<exists>y. write_slot D p v x = Inr y"
proof -
  have "is_ok r \<Longrightarrow> \<exists>y. r = Inr y" for r :: "'m + 'n" by (cases r) auto
  moreover have "is_ok r \<Longrightarrow> \<exists>y. r = Inr y" for r :: "string + 'b" by (cases r) auto
  moreover have "is_ok r \<Longrightarrow> \<exists>y. r = Inr y" for r :: "string + 'a" by (cases r) auto
  ultimately show ?thesis using assms that unfolding trie_total_def by metis
qed

text \<open>The table has an account that decodes for the address.\<close>

definition has_account :: "entry list \<Rightarrow> bytes \<Rightarrow> bool" where
  "has_account es a = list_ex (\<lambda>e. fst e = a \<and> account_of e \<noteq> None) es"

lemma copied_accounts:
  "has_account es a \<or> fst c a \<noteq> None \<Longrightarrow> fst (fold copy_account es c) a \<noteq> None"
proof (induction es arbitrary: c)
  case (Cons e es)
  have "fst (copy_account e c) a \<noteq> None" if "fst c a \<noteq> None \<or> fst e = a \<and> account_of e \<noteq> None"
    using that by (cases c; cases "account_of e") (auto simp del: not_None_eq)
  then have "has_account es a \<or> fst (copy_account e c) a \<noteq> None"
    using Cons.prems by (cases "fst c a = None") (auto simp: has_account_def simp del: not_None_eq)
  with Cons.IH show ?case by simp
qed (simp add: has_account_def)

lemma copy_slot_accounts: "fst (copy_slot e c) = fst c"
  by (cases c) (simp split: option.split)

text \<open>
  The loop over a step that does \<open>f\<close> to the contents and \<open>g\<close> to the statistics, as long as the
  contents are \<open>good\<close>: commits in between, after however many entries, change nothing.
\<close>

lemma migrate_loop_copies:
  assumes L: "trie_laws D acc slot xacc xslot" and T: "trie_total D xacc" and log: "mg_log_interval cfg \<noteq> 0"
    and good: "\<And>e c. good c \<Longrightarrow> good (f e c)"
    and step: "\<And>e x stats. e \<in> set es \<Longrightarrow> good (xacc x, xslot x) \<Longrightarrow> \<exists>y. process e (x, stats) = Some (y, g e stats)
      \<and> (xacc y, xslot y) = f e (xacc x, xslot x)"
    and start: "good (xacc x, xslot x)"
  shows "\<exists>t'. migrate_loop D cfg process (map Inr es) t x stats n = Some (Inr (fold g es stats), t')
    \<and> (acc t', slot t') = fold f es (xacc x, xslot x)"
  using step start
proof (induction es arbitrary: t x stats n)
  case Nil
  obtain t' where "commit_rw D x = Inr t'" using T by (meson trie_totalD)
  with L show ?case by (auto simp: trie_laws_def)
next
  case (Cons e es)
  obtain y where y: "process e (x, stats) = Some (y, g e stats)"
    and fy: "(xacc y, xslot y) = f e (xacc x, xslot x)"
    using Cons.prems(1) [of e x stats] Cons.prems(2) by auto
  obtain t1 where t1: "commit_rw D y = Inr t1" using T by (meson trie_totalD)
  obtain z where z: "begin_rw D t1 = Inr z" using T by (meson trie_totalD)
  have zy: "(xacc z, xslot z) = (xacc y, xslot y)" using L t1 z by (simp add: trie_laws_def)
  have gy: "good (xacc y, xslot y)" unfolding fy by (rule good [OF Cons.prems(2)])
  have rest: "\<exists>y. process e' (x', stats') = Some (y, g e' stats') \<and> (xacc y, xslot y) = f e' (xacc x', xslot x')"
    if "e' \<in> set es" "good (xacc x', xslot x')" for e' x' stats'
    using Cons.prems(1) [of e' x' stats'] that by simp
  from Cons.IH [OF rest, of z t1 "g e stats" 0] Cons.IH [OF rest gy, of t "g e stats" "n + 1"] gy zy
  show ?case using y fy t1 z log by (cases "mg_batch_size cfg \<le> n + 1") (auto simp: Let_def)
qed

lemma process_account_step:
  assumes L: "trie_laws D acc slot xacc xslot" and T: "trie_total D xacc"
    and "length (fst e) = 20" and "from_compact (snd e) \<noteq> None"
  shows "\<exists>y. process_account D e (x, stats) = Some (y, count_account e stats)
    \<and> (xacc y, xslot y) = copy_account e (xacc x, xslot x)"
proof -
  obtain k v where e: "e = (k, v)" by force
  obtain r where r: "from_compact v = Some r" using assms(4) e by auto
  show ?thesis
  proof (cases r)
    case (Inr a)
    obtain y where y: "write_account D k (Some (to_triedb_account a)) x = Inr y" using T by (meson trie_totalD)
    with L have "xacc y = (xacc x)(k \<mapsto> core_of (to_triedb_account a))" "xslot y = xslot x"
      by (auto simp: trie_laws_def)
    with y Inr r e assms(3) show ?thesis
      by (auto simp: process_account_def count_account_def account_of_def)
  qed (use r e assms(3) in \<open>auto simp: process_account_def count_account_def account_of_def\<close>)
qed

lemma process_storage_step:
  assumes L: "trie_laws D acc slot xacc xslot" and T: "trie_total D xacc" and "length (fst e) = 20"
    and "slot_of e \<noteq> None \<Longrightarrow> xacc x (fst e) \<noteq> None"
  shows "\<exists>y. process_storage_entry D e (x, stats) = Some (y, count_slot e stats)
    \<and> (xacc y, xslot y) = copy_slot e (xacc x, xslot x)"
proof -
  obtain k v where e: "e = (k, v)" by force
  show ?thesis
  proof (cases "decode_storage_entry v")
    case (Inr s)
    obtain y where y: "write_slot D (k, u256_of_be (se_slot s)) (Some (se_value s)) x = Inr y"
      using T assms(4) Inr e by (metis fst_conv option.distinct(1) slot_of_def snd_conv sum.simps(6) trie_totalD)
    with L have "xslot y = (xslot x)((k, u256_of_be (se_slot s)) \<mapsto> se_value s)" "xacc y = xacc x"
      by (auto simp: trie_laws_def)
    with y Inr e assms(3) show ?thesis
      by (auto simp: process_storage_entry_def count_slot_def slot_of_def)
  qed (use e assms(3) in \<open>auto simp: process_storage_entry_def count_slot_def slot_of_def\<close>)
qed

lemma migrate_table_copies:
  assumes L: "trie_laws D acc slot xacc xslot" and T: "trie_total D xacc" and log: "mg_log_interval cfg \<noteq> 0"
    and good: "\<And>e c. good c \<Longrightarrow> good (f e c)"
    and step: "\<And>e x stats. e \<in> set es \<Longrightarrow> good (xacc x, xslot x) \<Longrightarrow> \<exists>y. process e (x, stats) = Some (y, g e stats)
      \<and> (xacc y, xslot y) = f e (xacc x, xslot x)"
    and start: "good (acc t, slot t)"
  shows "\<exists>t'. migrate_table D cfg process (Inr (map Inr es)) t
      = Some (Inr (fold g es migration_stats_default), t')
    \<and> (acc t', slot t') = fold f es (acc t, slot t)"
proof -
  obtain x where x: "begin_rw D t = Inr x" using T by (meson trie_totalD)
  with L have eq: "(xacc x, xslot x) = (acc t, slot t)" by (simp add: trie_laws_def)
  have "good (xacc x, xslot x)" unfolding eq by (rule start)
  from x eq migrate_loop_copies [where process = process and g = g and f = f and es = es and good = good,
      OF L T log good step this, of t migration_stats_default 0]
  show ?thesis by (simp add: migrate_table_def)
qed

text \<open>The statistics of a table, in closed form.\<close>

lemma fold_count_account:
  "fold count_account es stats =
    stats\<lparr>accounts_migrated := accounts_migrated stats + of_nat (length (filter (\<lambda>e. account_of e \<noteq> None) es)),
          account_errors := account_errors stats + of_nat (length (filter (\<lambda>e. account_of e = None) es))\<rparr>"
  by (induction es arbitrary: stats) (auto simp: count_account_def)

lemma fold_count_slot:
  "fold count_slot es stats =
    stats\<lparr>storage_slots_migrated := storage_slots_migrated stats + of_nat (length (filter (\<lambda>e. slot_of e \<noteq> None) es)),
          storage_errors := storage_errors stats + of_nat (length (filter (\<lambda>e. slot_of e = None) es))\<rparr>"
  by (induction es arbitrary: stats) (auto simp: count_slot_def)

text \<open>
  C31: A migration, with any batch size, of tables that can be read, into a database that does not
  fail, returns, and leaves there what it held, changed by every account that decodes and every
  storage entry that decodes, in the order of the tables; how the entries are cut into
  transactions makes no difference. The statistics count exactly the entries that decode and
  those that do not, which are left out. It takes keys that are addresses, a log interval other
  than zero, no account value on which the decoder panics, and storage only of addresses that have
  an account, in the table of accounts or in the destination: of others nothing is said.
\<close>

theorem migration_copies:
  assumes "trie_laws D acc slot xacc xslot" and "trie_total D xacc" and "mg_log_interval cfg \<noteq> 0"
    and "\<forall>e \<in> set as. length (fst e) = 20 \<and> from_compact (snd e) \<noteq> None"
    and "\<forall>e \<in> set ss. length (fst e) = 20 \<and> (slot_of e \<noteq> None \<longrightarrow>
          has_account as (fst e) \<or> acc t (fst e) \<noteq> None)"
  shows "\<exists>t'. migrate_all D cfg (Inr (map Inr as)) (Inr (map Inr ss)) t =
      Some (Inr \<lparr>accounts_migrated = of_nat (length (filter (\<lambda>e. account_of e \<noteq> None) as)),
                 storage_slots_migrated = of_nat (length (filter (\<lambda>e. slot_of e \<noteq> None) ss)),
                 account_errors = of_nat (length (filter (\<lambda>e. account_of e = None) as)),
                 storage_errors = of_nat (length (filter (\<lambda>e. slot_of e = None) ss))\<rparr>, t')
    \<and> (acc t', slot t') = fold copy_slot ss (fold copy_account as (acc t, slot t))"
proof -
  obtain t1 where a: "migrate_accounts D cfg (Inr (map Inr as)) t
      = Some (Inr (fold count_account as migration_stats_default), t1)"
    and t1: "(acc t1, slot t1) = fold copy_account as (acc t, slot t)"
    using migrate_table_copies [OF assms(1-3), of "\<lambda>_. True" copy_account as "process_account D" count_account t]
      process_account_step [OF assms(1,2)] assms(4) by (auto simp: migrate_accounts_def)
  define good where "good c = (\<forall>e \<in> set ss. slot_of e \<noteq> None \<longrightarrow> fst c (fst e) \<noteq> None)" for c :: contents
  have "good (fold copy_account as (acc t, slot t))"
    using assms(5) by (auto simp: good_def simp del: not_None_eq intro!: copied_accounts)
  then have start: "good (acc t1, slot t1)" by (simp add: t1)
  have kept: "good (copy_slot e c)" if "good c" for e c using that by (simp add: good_def copy_slot_accounts)
  have step: "\<exists>y. process_storage_entry D e (x, stats) = Some (y, count_slot e stats)
      \<and> (xacc y, xslot y) = copy_slot e (xacc x, xslot x)"
    if "e \<in> set ss" "good (xacc x, xslot x)" for e x stats
    using process_storage_step [OF assms(1,2), of e x stats] assms(5) that by (auto simp: good_def)
  obtain t2 where s: "migrate_storage D cfg (Inr (map Inr ss)) t1
      = Some (Inr (fold count_slot ss migration_stats_default), t2)"
    and t2: "(acc t2, slot t2) = fold copy_slot ss (acc t1, slot t1)"
    using migrate_table_copies [where good = good and process = "process_storage_entry D" and g = count_slot
        and f = copy_slot and es = ss, OF assms(1-3) kept step start]
    by (auto simp: migrate_storage_def)
  show ?thesis using t1 t2
    by (intro exI [of _ t2])
      (simp add: migrate_all_def a s fold_count_account fold_count_slot migration_stats_default_def)
qed

definition migration_demo :: "(entry list \<times> entry list)" where
  "migration_demo =
     ([(replicate 20 1, [1, 0, 5]), (replicate 20 2, [0])], [(replicate 20 1, replicate 32 0 @ [7])])"

lemma migration_demo_decodes:
  "from_compact [1, 0, 5] = Some (Inr \<lparr>reth_nonce = 5, reth_balance = 0, reth_bytecode_hash = None\<rparr>)"
  "from_compact [0] = Some (Inl (Account_Insufficient_Data 2 1))"
  "decode_storage_entry (replicate 32 0 @ [7]) = Inr \<lparr>se_slot = replicate 32 0, se_value = 7\<rparr>"
  "u256_of_be (replicate 32 0) = 0"
  by code_simp+

theorem migration_copies_witness:
  "\<exists>t'. migrate_all map_trie_ops migrator_config_default (Inr (map Inr (fst migration_demo)))
        (Inr (map Inr (snd migration_demo))) (\<lambda>_. None, \<lambda>_. None)
      = Some (Inr \<lparr>accounts_migrated = 1, storage_slots_migrated = 1, account_errors = 1, storage_errors = 0\<rparr>, t')
    \<and> map_accounts t' (replicate 20 1) = Some (5, 0, KECCAK_EMPTY)
    \<and> snd t' (replicate 20 1, 0) = Some 7"
proof -
  have total: "trie_total map_trie_ops map_accounts" by (simp add: trie_total_def map_trie_ops_def)
  have log: "mg_log_interval migrator_config_default \<noteq> 0"
    by (simp add: migrator_config_default_def DEFAULT_LOG_INTERVAL_def)
  have keys: "\<forall>e \<in> set (fst migration_demo). length (fst e) = 20 \<and> from_compact (snd e) \<noteq> None"
    "\<forall>e \<in> set (snd migration_demo). length (fst e) = 20 \<and> (slot_of e \<noteq> None \<longrightarrow>
       has_account (fst migration_demo) (fst e) \<or> map_accounts (\<lambda>_. None, \<lambda>_. None) (fst e) \<noteq> None)"
    by (simp_all add: migration_demo_def migration_demo_decodes account_of_def has_account_def)
  from migration_copies [OF map_trie_laws total log keys]
  show ?thesis
    by (auto simp: migration_demo_def account_of_def slot_of_def migration_demo_decodes core_of_def to_triedb_account_def)
qed

end
