(* ===== verification/Local_IO.thy ===== *)
theory Local_IO
  imports Pipeline
begin

text \<open>
  The local sink and source (\<^verbatim>\<open>crates/consensus/local/src/sink.rs\<close>, \<^verbatim>\<open>source.rs\<close>, \<^verbatim>\<open>error.rs\<close>),
  which keep batches and read blocks as JSON with hexadecimal strings.

  serde_json and the file system are parameters. A string is the list of its UTF-8 bytes, as
  characters, since the source indexes it by bytes; \<open>None\<close> is the panic of a slice out of range
  or inside a character. The sink's mutexes are never poisoned: no code panics while it holds one.
\<close>

section \<open>Hexadecimal strings\<close>

definition hex_digit :: "nat \<Rightarrow> char" where
  "hex_digit d = (if d < 10 then char_of (48 + d) else char_of (87 + d))"

text \<open>\<^verbatim>\<open>format!("{:02x}")\<close> of each byte, after the prefix.\<close>

definition hex_byte :: "u8 \<Rightarrow> string" where
  "hex_byte b = [hex_digit (unat b div 16), hex_digit (unat b mod 16)]"

definition bytes_to_hex :: "bytes \<Rightarrow> string" where
  "bytes_to_hex bs = ''0x'' @ concat (map hex_byte bs)"

text \<open>\<^verbatim>\<open>char::to_digit(16)\<close> on a byte.\<close>

definition digit_of :: "char \<Rightarrow> nat option" where
  "digit_of c =
     (let n = of_char c in
      if 48 \<le> n \<and> n \<le> 57 then Some (n - 48)
      else if 97 \<le> n \<and> n \<le> 102 then Some (n - 87)
      else if 65 \<le> n \<and> n \<le> 70 then Some (n - 55)
      else None)"

text \<open>\<^verbatim>\<open>u8::from_str_radix(_, 16)\<close> of two bytes: a leading plus is allowed.\<close>

definition radix_byte :: "char \<Rightarrow> char \<Rightarrow> u8 option" where
  "radix_byte c d =
     (if c = CHR ''+'' then map_option of_nat (digit_of d)
      else (case digit_of c of
              None \<Rightarrow> None
            | Some h \<Rightarrow> map_option (\<lambda>l. of_nat (16 * h + l)) (digit_of d)))"

text \<open>A byte that continues a character: a slice that starts or ends before it panics.\<close>

definition continuation :: "char \<Rightarrow> bool" where
  "continuation c = (128 \<le> (of_char c :: nat) \<and> (of_char c :: nat) < 192)"

fun hex_pairs :: "string \<Rightarrow> (source_error + bytes) option" where
  "hex_pairs [] = Some (Inr [])"
| "hex_pairs [c] = None"
| "hex_pairs (c # d # cs) =
     (if continuation c \<or> (cs \<noteq> [] \<and> continuation (hd cs)) then None
      else (case radix_byte c d of
              None \<Rightarrow> Some (Inl (SourceConnection ''Invalid hex string''))
            | Some b \<Rightarrow> map_option (\<lambda>r. rbind r (\<lambda>bs. Inr (b # bs))) (hex_pairs cs)))"

definition hex_to_bytes :: "string \<Rightarrow> (source_error + bytes) option" where
  "hex_to_bytes hex = hex_pairs (if take 2 hex = ''0x'' then drop 2 hex else hex)"

section \<open>The sink\<close>

text \<open>An IO error and a JSON error as their messages.\<close>

datatype local_error = LocalIo string | LocalJson string | LocalNotFound string | LocalLockPoisoned string

record json_receipt =
  jr_batch_number :: u64
  jr_tx_hash :: string
  jr_l1_block :: u64
  jr_blob_hash :: "string option"

record json_batch =
  jb_batch_number :: u64
  jb_data :: string

record json_sink_data =
  js_batches :: "json_batch list"
  js_receipts :: "json_receipt list"

record local_sink =
  ls_output_path :: "string option"
  ls_data :: json_sink_data
  ls_next_l1_block :: u64
  ls_capacity :: usize

definition sink_data_default :: json_sink_data where
  "sink_data_default = \<lparr>js_batches = [], js_receipts = []\<rparr>"

definition local_sink_new :: "string \<Rightarrow> local_sink" where
  "local_sink_new path =
     \<lparr>ls_output_path = Some path, ls_data = sink_data_default, ls_next_l1_block = 1,
      ls_capacity = 128 * 1024\<rparr>"

definition local_sink_in_memory :: local_sink where
  "local_sink_in_memory =
     \<lparr>ls_output_path = None, ls_data = sink_data_default, ls_next_l1_block = 1,
      ls_capacity = 128 * 1024\<rparr>"

definition sink_with_capacity :: "usize \<Rightarrow> local_sink \<Rightarrow> local_sink" where
  "sink_with_capacity n s = s\<lparr>ls_capacity := n\<rparr>"

definition batch_count :: "local_sink \<Rightarrow> local_error + usize" where
  "batch_count s = Inr (length (js_batches (ls_data s)))"

definition sink_data :: "local_sink \<Rightarrow> local_error + json_sink_data" where
  "sink_data s = Inr (ls_data s)"

text \<open>serde_json's \<^verbatim>\<open>to_string_pretty\<close> and \<^verbatim>\<open>std::fs::write\<close>, as they answer on this call.\<close>

record json_world =
  jw_ser :: "json_sink_data \<Rightarrow> string + string"
  jw_write :: "string \<Rightarrow> string \<Rightarrow> string + unit"

definition write_to_file :: "json_world \<Rightarrow> local_sink \<Rightarrow> sink_error + unit" where
  "write_to_file w s =
     (case ls_output_path s of
        None \<Rightarrow> Inr ()
      | Some path \<Rightarrow>
          rbind (map_err (\<lambda>e. TxFailed (''JSON serialization error: '' @ e)) (jw_ser w (ls_data s))) (\<lambda>json.
          map_err (\<lambda>e. TxFailed (''File write error: '' @ e)) (jw_write w path json)))"

definition local_submit :: "json_world \<Rightarrow> compressed_batch \<Rightarrow> local_sink
    \<Rightarrow> (sink_error + submission_receipt) \<times> local_sink" where
  "local_submit w b s =
     (let n = batch_number b;
          data_hex = bytes_to_hex (batch_data b);
          hash = to_le_bytes n @ replicate 24 0;
          blob = [1] @ to_le_bytes n @ replicate 23 0;
          current = ls_next_l1_block s;
          s = s\<lparr>ls_next_l1_block := current + 1\<rparr>;
          jb = \<lparr>jb_batch_number = n, jb_data = data_hex\<rparr>;
          jr = \<lparr>jr_batch_number = n, jr_tx_hash = bytes_to_hex hash, jr_l1_block = current,
                jr_blob_hash = Some (bytes_to_hex blob)\<rparr>;
          s = s\<lparr>ls_data := \<lparr>js_batches = js_batches (ls_data s) @ [jb], js_receipts = js_receipts (ls_data s) @ [jr]\<rparr>\<rparr>
      in (rbind (write_to_file w s) (\<lambda>_.
            Inr \<lparr>receipt_batch_number = n, tx_hash = hash, l1_block = current, blob_hash = Some blob\<rparr>), s))"

definition local_capacity :: "local_sink \<Rightarrow> sink_error + usize" where
  "local_capacity s = Inr (ls_capacity s)"

definition local_health_check :: "local_sink \<Rightarrow> sink_error + unit" where
  "local_health_check s = Inr ()"

section \<open>The source\<close>

record json_block =
  jk_block_number :: u64
  jk_timestamp :: u64
  jk_transactions :: "string list"

record local_source =
  lo_blocks :: "json_block list"
  lo_blocks_consumed :: bool

text \<open>The file as read, its error kind, and the parser are parameters.\<close>

datatype read_failure = File_Not_Found | Other_Io string

definition source_from_json :: "(string \<Rightarrow> string + json_block list) \<Rightarrow> string \<Rightarrow> local_error + local_source" where
  "source_from_json parse json =
     rbind (map_err LocalJson (parse json)) (\<lambda>bs. Inr \<lparr>lo_blocks = bs, lo_blocks_consumed = False\<rparr>)"

definition source_from_file :: "(string \<Rightarrow> string + json_block list) \<Rightarrow> (string \<Rightarrow> read_failure + string)
    \<Rightarrow> string \<Rightarrow> local_error + local_source" where
  "source_from_file parse read_file path =
     rbind (map_err (\<lambda>e. case e of File_Not_Found \<Rightarrow> LocalNotFound path | Other_Io m \<Rightarrow> LocalIo m)
              (read_file path))
       (source_from_json parse)"

definition source_from_data :: "json_block list \<Rightarrow> local_source" where
  "source_from_data bs = \<lparr>lo_blocks = bs, lo_blocks_consumed = False\<rparr>"

text \<open>\<^verbatim>\<open>collect::<Result<_, _>>\<close> of results whose computation may panic.\<close>

fun collect_or_panic :: "('a \<Rightarrow> ('e + 'b) option) \<Rightarrow> 'a list \<Rightarrow> ('e + 'b list) option" where
  "collect_or_panic f [] = Some (Inr [])"
| "collect_or_panic f (x # xs) =
     (case f x of
        None \<Rightarrow> None
      | Some (Inl e) \<Rightarrow> Some (Inl e)
      | Some (Inr y) \<Rightarrow> map_option (\<lambda>r. rbind r (\<lambda>ys. Inr (y # ys))) (collect_or_panic f xs))"

definition source_block :: "json_block \<Rightarrow> (source_error + l2_block_data) option" where
  "source_block b =
     map_option (\<lambda>r. rbind r (\<lambda>txs.
         Inr \<lparr>l2_block_number = jk_block_number b, l2_timestamp = jk_timestamp b, l2_transactions = txs\<rparr>))
       (collect_or_panic hex_to_bytes (jk_transactions b))"

definition local_pending_blocks :: "local_source \<Rightarrow> (source_error + l2_block_data list) option \<times> local_source" where
  "local_pending_blocks s =
     (if lo_blocks_consumed s then (Some (Inr []), s)
      else (collect_or_panic source_block (lo_blocks s), s\<lparr>lo_blocks_consumed := True\<rparr>))"

section \<open>Round trips\<close>

lemma digit_of_hex:
  assumes "d < 16"
  shows "digit_of (hex_digit d) = Some d \<and> \<not> continuation (hex_digit d) \<and> hex_digit d \<noteq> CHR ''+''"
proof -
  have n: "(of_char (hex_digit d) :: nat) = (if d < 10 then 48 + d else 87 + d)"
    using assms by (simp add: hex_digit_def)
  then have "hex_digit d \<noteq> CHR ''+''" by (auto split: if_splits)
  with n assms show ?thesis by (simp add: digit_of_def continuation_def Let_def)
qed

lemma radix_hex_byte: "radix_byte (hex_digit (unat b div 16)) (hex_digit (unat b mod 16)) = Some b"
proof -
  have "unat b < 256" using unsigned_less [of b, where ?'a = nat] by simp
  then have "unat b div 16 < 16" "unat b mod 16 < 16" by auto
  note d = digit_of_hex [OF this(1)] digit_of_hex [OF this(2)]
  have "16 * (unat b div 16) + unat b mod 16 = unat b" by simp
  then show ?thesis using d by (simp add: radix_byte_def flip: of_nat_mult of_nat_add)
qed

lemma hd_hex: "concat (map hex_byte bs) \<noteq> [] \<Longrightarrow> \<not> continuation (hd (concat (map hex_byte bs)))"
proof (cases bs)
  case (Cons b cs)
  have "unat b < 256" using unsigned_less [of b, where ?'a = nat] by simp
  then show ?thesis using digit_of_hex [of "unat b div 16"] by (simp add: Cons hex_byte_def)
qed simp

lemma hex_pairs_hex: "hex_pairs (concat (map hex_byte bs)) = Some (Inr bs)"
proof (induction bs)
  case (Cons b bs)
  have "unat b < 256" using unsigned_less [of b, where ?'a = nat] by simp
  then have "\<not> continuation (hex_digit (unat b div 16))" using digit_of_hex [of "unat b div 16"] by simp
  with Cons hd_hex [of bs] radix_hex_byte [of b] show ?case
    by (cases "concat (map hex_byte bs)") (simp_all add: hex_byte_def [of b])
qed simp

lemma hex_to_bytes_hex: "hex_to_bytes (bytes_to_hex bs) = Some (Inr bs)"
  by (simp add: hex_to_bytes_def bytes_to_hex_def hex_pairs_hex)

section \<open>Properties\<close>

text \<open>Batches submitted one after the other, each with what the file system answers then.\<close>

fun local_submits :: "(json_world \<times> compressed_batch) list \<Rightarrow> local_sink \<Rightarrow> local_sink" where
  "local_submits [] s = s"
| "local_submits ((w, b) # calls) s = local_submits calls (snd (local_submit w b s))"

lemma local_submits_batches:
  "js_batches (ls_data (local_submits calls s)) = js_batches (ls_data s)
    @ map (\<lambda>(w, b). \<lparr>jb_batch_number = batch_number b, jb_data = bytes_to_hex (batch_data b)\<rparr>) calls"
  by (induction calls arbitrary: s) (auto simp: local_submit_def Let_def)

lemma local_submits_receipts:
  "map jr_batch_number (js_receipts (ls_data (local_submits calls s)))
    = map jr_batch_number (js_receipts (ls_data s)) @ map (\<lambda>(w, b). batch_number b) calls"
  "map jr_l1_block (js_receipts (ls_data (local_submits calls s)))
    = map jr_l1_block (js_receipts (ls_data s)) @ map (\<lambda>k. ls_next_l1_block s + of_nat k) [0..<length calls]"
proof -
  show "map jr_batch_number (js_receipts (ls_data (local_submits calls s)))
    = map jr_batch_number (js_receipts (ls_data s)) @ map (\<lambda>(w, b). batch_number b) calls"
    by (induction calls arbitrary: s) (auto simp: local_submit_def Let_def)
  show "map jr_l1_block (js_receipts (ls_data (local_submits calls s)))
    = map jr_l1_block (js_receipts (ls_data s)) @ map (\<lambda>k. ls_next_l1_block s + of_nat k) [0..<length calls]"
  proof (induction calls arbitrary: s)
    case (Cons c calls)
    obtain w b where c: "c = (w, b)" by force
    have "[0..<length (c # calls)] = 0 # map Suc [0..<length calls]"
      by (simp add: upt_conv_Cons map_Suc_upt del: upt_Suc)
    then show ?case
      by (simp add: c Cons local_submit_def Let_def o_def add_ac del: upt_Suc)
  qed simp
qed

text \<open>
  What is submitted to a new local sink can be read back. Whatever batches are submitted, and
  whatever the file system answers, the sink holds one entry for each call, in order, with the
  batch's number and a hexadecimal string that the local source decodes to the payload, and the
  receipts count the L1 blocks from 1. A call that fails because the file cannot be written
  keeps its entry, too: submitted again, the batch is there twice.
\<close>

theorem local_sink_keeps_batches:
  "let d = ls_data (local_submits calls (local_sink_new path)) in
    map jb_batch_number (js_batches d) = map (\<lambda>(w, b). batch_number b) calls
    \<and> map (\<lambda>j. hex_to_bytes (jb_data j)) (js_batches d) = map (\<lambda>(w, b). Some (Inr (batch_data b))) calls
    \<and> map jr_batch_number (js_receipts d) = map (\<lambda>(w, b). batch_number b) calls
    \<and> map jr_l1_block (js_receipts d) = map (\<lambda>k. 1 + of_nat k) [0..<length calls]"
  by (simp add: Let_def local_submits_batches local_submits_receipts local_sink_new_def sink_data_default_def
      hex_to_bytes_hex split_beta o_def)

text \<open>
  An error consumes the blocks: the next call returns no blocks instead of the error. A string
  with an odd number of digits panics.
\<close>

lemma failed_read_consumes:
  "local_pending_blocks s = (Some (Inl e), s') \<Longrightarrow> local_pending_blocks s' = (Some (Inr []), s')"
  by (auto simp: local_pending_blocks_def split: if_splits)

lemma odd_hex_panics:
  "odd (length cs) \<Longrightarrow> \<forall>c \<in> set cs. digit_of c \<noteq> None \<and> c \<noteq> CHR ''+'' \<Longrightarrow> hex_pairs cs = None"
proof (induction cs rule: hex_pairs.induct)
  case (3 c d cs)
  obtain h l where "digit_of c = Some h" "digit_of d = Some l" "c \<noteq> CHR ''+''" using 3(3) by auto
  then obtain b where b: "radix_byte c d = Some b" unfolding radix_byte_def by simp
  have "hex_pairs cs = None" if "\<not> (continuation c \<or> (cs \<noteq> [] \<and> continuation (hd cs)))"
    using 3(1) [OF that b] 3(2,3) by simp
  then show ?case by (simp only: hex_pairs.simps b) simp
qed simp_all

end
