(* ===== verification/Tui_App.thy ===== *)
theory Tui_App
  imports Local_IO
begin

text \<open>
  The state behind the terminal interface: its events (\<^verbatim>\<open>crates/utilities/tui/src/events.rs\<close>), the
  \<^verbatim>\<open>App\<close> with its counters, bounded logs and view of the L1 chain (\<^verbatim>\<open>app.rs\<close>, \<^verbatim>\<open>tui-common/src\<close>) and
  the handling of an event or a key (\<^verbatim>\<open>process_event\<close> and \<^verbatim>\<open>event_loop\<close> of \<^verbatim>\<open>tui.rs\<close>). What is drawn is in \<open>Tui_Draw\<close>.

  Floating point numbers are an arbitrary type with the operations that the code uses, as a
  record. \<^verbatim>\<open>Instant::now()\<close> is the argument \<open>clk\<close>: the k-th call in the handling of an event is
  \<open>clk k\<close>. A panic, of a slice inside a character, is \<open>None\<close>.
\<close>

record 'f f64_ops =
  f_of_nat :: "nat \<Rightarrow> 'f"
  f_add :: "'f \<Rightarrow> 'f \<Rightarrow> 'f"
  f_sub :: "'f \<Rightarrow> 'f \<Rightarrow> 'f"
  f_mul :: "'f \<Rightarrow> 'f \<Rightarrow> 'f"
  f_div :: "'f \<Rightarrow> 'f \<Rightarrow> 'f"
  f_sqrt :: "'f \<Rightarrow> 'f"
  f_pos :: "'f \<Rightarrow> bool"  \<comment> \<open>greater than zero\<close>
  f_secs :: "duration \<Rightarrow> 'f"
  f_show :: "nat \<Rightarrow> 'f \<Rightarrow> string"  \<comment> \<open>with so many digits after the point\<close>

section \<open>Logs and formats\<close>

datatype log_level = Log_Info | Log_Warn | Log_Error

record log_entry =
  le_level :: log_level
  le_message :: string

definition log_info :: "string \<Rightarrow> log_entry" where "log_info m = \<lparr>le_level = Log_Info, le_message = m\<rparr>"
definition log_warn :: "string \<Rightarrow> log_entry" where "log_warn m = \<lparr>le_level = Log_Warn, le_message = m\<rparr>"
definition log_error :: "string \<Rightarrow> log_entry" where "log_error m = \<lparr>le_level = Log_Error, le_message = m\<rparr>"

definition format_bytes :: "'f f64_ops \<Rightarrow> usize \<Rightarrow> string" where
  "format_bytes F n =
     (if n < 1024 then dec n @ '' B''
      else if n < 1024 * 1024 then f_show F 2 (f_div F (f_of_nat F n) (f_of_nat F 1024)) @ '' KB''
      else f_show F 2 (f_div F (f_of_nat F n) (f_mul F (f_of_nat F 1024) (f_of_nat F 1024))) @ '' MB'')"

text \<open>\<^verbatim>\<open>&url[..n]\<close>, for n at most the length.\<close>

definition str_prefix :: "nat \<Rightarrow> string \<Rightarrow> string option" where
  "str_prefix n s = (if n < length s \<and> continuation (s ! n) then None else Some (take n s))"

definition truncate_url :: "string \<Rightarrow> usize \<Rightarrow> string option" where
  "truncate_url url max_len =
     (if length url \<le> max_len then Some url else map_option (\<lambda>u. u @ ''...'') (str_prefix max_len url))"

definition format_duration_ms :: "u64 \<Rightarrow> string" where
  "format_duration_ms ms = dec (unat ms) @ ''.0ms''"

text \<open>A duration is in nanoseconds.\<close>

definition format_duration :: "duration \<Rightarrow> string" where
  "format_duration d =
     (let total_secs = d div 1000000000 in
      if total_secs < 60 then dec total_secs @ ''s''
      else if total_secs < 3600 then dec (total_secs div 60) @ ''m '' @ dec (total_secs mod 60) @ ''s''
      else dec (total_secs div 3600) @ ''h '' @ dec (total_secs mod 3600 div 60) @ ''m'')"

text \<open>\<^verbatim>\<open>push(x); if len > cap { remove(0) }\<close>.\<close>

definition push_capped :: "nat \<Rightarrow> 'a list \<Rightarrow> 'a \<Rightarrow> 'a list" where
  "push_capped cap xs x = (let ys = xs @ [x] in if cap < length ys then tl ys else ys)"

definition MAX_LOG_ENTRIES :: usize where "MAX_LOG_ENTRIES = 100"
definition MAX_L1_BLOCKS :: usize where "MAX_L1_BLOCKS = 50"

section \<open>Events\<close>

datatype 'f tui_event =
    UiSyncStarted u64 u64
  | UiSyncProgress u64 u64 'f "duration option"
  | UiSyncCompleted u64 'f
  | UiTransaction bytes bytes "bytes option" u64
  | UiBlockBuilt u64 usize usize u64  \<comment> \<open>number, transactions, bytes, gas\<close>
  | UiBatchSubmitted u64 usize u64 u64 usize usize  \<comment> \<open>number, blocks, first, last, sizes\<close>
  | UiBlockDerived u64 usize u64 u64
  | UiBatchDerived u64 u64 u64 u64  \<comment> \<open>number, blocks, first, last\<close>
  | UnsafeHeadUpdated u64
  | SafeHeadUpdated u64
  | FinalizedUpdated u64
  | UiBlockExecuted u64 u64 u64
  | BacklogUpdated u64 u64
  | ModeInfo string "u64 option" bool
  | TogglePause
  | Reset_Event
  | HarnessModeEnabled
  | HarnessBlockProduced u64 usize
  | HarnessInitProgress u64 u64 string
  | HarnessInitComplete u64
  | SequencerInit u64 usize u64 u16
  | ValidatorInit u64
  | ExecutionInit u64 u64 bool
  | BlockBuilderInit string u64
  | WaitingForChain string
  | L1BlockProduced u64
  | BatchIncludedInL1 u64 u64 usize  \<comment> \<open>L1 block, batch, blocks\<close>

section \<open>The state\<close>

record l1_entry =
  l1e_number :: u64
  l1e_batch_number :: "u64 option"
  l1e_batch_block_count :: "usize option"
  l1e_is_derivation_origin :: bool

datatype 'f sync_state =
    Sync_Idle
  | Syncing u64 u64 u64 'f "duration option"  \<comment> \<open>start, current, target\<close>
  | Sync_Completed u64 'f

record 'f app =
  ui_unsafe_head :: u64
  ui_safe_head :: u64
  ui_finalized_head :: u64
  ui_sync_state :: "'f sync_state"
  ui_syncs_completed :: u64
  ui_sync_start_time :: "instant option"
  ui_blocks_processed :: u64
  ui_batches_submitted :: u64
  ui_batches_derived :: u64
  ui_transactions_received :: u64
  ui_tx_tracking_start_time :: "instant option"
  ui_blocks_fetched :: u64
  ui_blocks_executed :: u64
  ui_last_fetched_block :: u64
  ui_last_executed_block :: u64
  ui_execution_times :: "u64 list"
  ui_total_gas_used :: u128
  ui_recent_gas_used :: "u64 list"
  ui_execution_start_time :: "instant option"
  ui_last_execution_time :: "instant option"
  ui_execution_logs :: "log_entry list"
  ui_batch_submit_times :: "u64 \<rightharpoonup> instant"
  ui_round_trip_latencies :: "u64 list"
  ui_compression_ratios :: "'f list"
  ui_sync_logs :: "log_entry list"
  ui_block_builder_logs :: "log_entry list"
  ui_batch_logs :: "log_entry list"
  ui_derivation_logs :: "log_entry list"
  ui_derivation_execution_logs :: "log_entry list"
  ui_node_role :: string
  ui_start_block :: "u64 option"
  ui_skip_sync :: bool
  ui_is_paused :: bool
  ui_harness_mode :: bool
  ui_harness_logs :: "log_entry list"
  ui_harness_block :: u64
  ui_harness_init_block :: u64
  ui_l1_blocks :: "l1_entry list"
  ui_l1_head :: u64
  ui_latest_batch_submission :: "u64 option"
  ui_latest_derivation_origin :: "u64 option"
  ui_batch_to_l1_block :: "u64 \<rightharpoonup> u64"

definition app_new :: "'f app" where
  "app_new =
     \<lparr>ui_unsafe_head = 0, ui_safe_head = 0, ui_finalized_head = 0, ui_sync_state = Sync_Idle,
      ui_syncs_completed = 0, ui_sync_start_time = None, ui_blocks_processed = 0,
      ui_batches_submitted = 0, ui_batches_derived = 0, ui_transactions_received = 0,
      ui_tx_tracking_start_time = None, ui_blocks_fetched = 0, ui_blocks_executed = 0,
      ui_last_fetched_block = 0, ui_last_executed_block = 0, ui_execution_times = [],
      ui_total_gas_used = 0, ui_recent_gas_used = [], ui_execution_start_time = None,
      ui_last_execution_time = None, ui_execution_logs = [], ui_batch_submit_times = Map.empty,
      ui_round_trip_latencies = [], ui_compression_ratios = [], ui_sync_logs = [],
      ui_block_builder_logs = [], ui_batch_logs = [], ui_derivation_logs = [],
      ui_derivation_execution_logs = [], ui_node_role = ''Unknown'', ui_start_block = None,
      ui_skip_sync = False, ui_is_paused = False, ui_harness_mode = False, ui_harness_logs = [],
      ui_harness_block = 0, ui_harness_init_block = 0, ui_l1_blocks = [], ui_l1_head = 0,
      ui_latest_batch_submission = None, ui_latest_derivation_origin = None,
      ui_batch_to_l1_block = Map.empty\<rparr>"

text \<open>\<^verbatim>\<open>reset\<close> keeps the mode information, the pause and the harness mode.\<close>

definition app_reset :: "'f app \<Rightarrow> 'f app" where
  "app_reset a =
     app_new\<lparr>ui_node_role := ui_node_role a, ui_start_block := ui_start_block a,
       ui_skip_sync := ui_skip_sync a, ui_is_paused := ui_is_paused a,
       ui_harness_mode := ui_harness_mode a\<rparr>"

definition app_toggle_pause :: "'f app \<Rightarrow> 'f app" where
  "app_toggle_pause a = a\<lparr>ui_is_paused := \<not> ui_is_paused a\<rparr>"

definition set_mode_info :: "string \<Rightarrow> u64 option \<Rightarrow> bool \<Rightarrow> 'f app \<Rightarrow> 'f app" where
  "set_mode_info role start skip a =
     a\<lparr>ui_node_role := role, ui_start_block := start, ui_skip_sync := skip\<rparr>"

section \<open>Operations\<close>

text \<open>One function per log buffer.\<close>

definition log_sync :: "log_entry \<Rightarrow> 'f app \<Rightarrow> 'f app" where
  "log_sync e a = a\<lparr>ui_sync_logs := push_capped MAX_LOG_ENTRIES (ui_sync_logs a) e\<rparr>"

definition log_block :: "log_entry \<Rightarrow> 'f app \<Rightarrow> 'f app" where
  "log_block e a = a\<lparr>ui_block_builder_logs := push_capped MAX_LOG_ENTRIES (ui_block_builder_logs a) e\<rparr>"

definition log_batch :: "log_entry \<Rightarrow> 'f app \<Rightarrow> 'f app" where
  "log_batch e a = a\<lparr>ui_batch_logs := push_capped MAX_LOG_ENTRIES (ui_batch_logs a) e\<rparr>"

definition log_derivation :: "log_entry \<Rightarrow> 'f app \<Rightarrow> 'f app" where
  "log_derivation e a = a\<lparr>ui_derivation_logs := push_capped MAX_LOG_ENTRIES (ui_derivation_logs a) e\<rparr>"

definition log_derivation_execution :: "log_entry \<Rightarrow> 'f app \<Rightarrow> 'f app" where
  "log_derivation_execution e a =
     a\<lparr>ui_derivation_execution_logs := push_capped MAX_LOG_ENTRIES (ui_derivation_execution_logs a) e\<rparr>"

definition log_execution :: "log_entry \<Rightarrow> 'f app \<Rightarrow> 'f app" where
  "log_execution e a = a\<lparr>ui_execution_logs := push_capped MAX_LOG_ENTRIES (ui_execution_logs a) e\<rparr>"

definition log_harness :: "log_entry \<Rightarrow> 'f app \<Rightarrow> 'f app" where
  "log_harness e a = a\<lparr>ui_harness_logs := push_capped MAX_LOG_ENTRIES (ui_harness_logs a) e\<rparr>"

definition start_sync :: "'f f64_ops \<Rightarrow> instant \<Rightarrow> u64 \<Rightarrow> u64 \<Rightarrow> 'f app \<Rightarrow> 'f app" where
  "start_sync F now start target a =
     a\<lparr>ui_sync_state := Syncing start start target (f_of_nat F 0) None, ui_sync_start_time := Some now\<rparr>"

definition update_sync_progress :: "u64 \<Rightarrow> u64 \<Rightarrow> 'f \<Rightarrow> duration option \<Rightarrow> 'f app \<Rightarrow> 'f app" where
  "update_sync_progress current target rate eta a =
     (let start = (case ui_sync_state a of Syncing start _ _ _ _ \<Rightarrow> start | _ \<Rightarrow> current)
      in a\<lparr>ui_sync_state := Syncing start current target rate eta\<rparr>)"

definition complete_sync :: "u64 \<Rightarrow> 'f \<Rightarrow> 'f app \<Rightarrow> 'f app" where
  "complete_sync n secs a =
     a\<lparr>ui_sync_state := Sync_Completed n secs, ui_syncs_completed := ui_syncs_completed a + 1,
       ui_sync_start_time := None\<rparr>"

definition sync_elapsed_secs :: "'f f64_ops \<Rightarrow> instant \<Rightarrow> 'f app \<Rightarrow> 'f" where
  "sync_elapsed_secs F now a =
     (case ui_sync_start_time a of None \<Rightarrow> f_of_nat F 0 | Some t \<Rightarrow> f_secs F (now - t))"

definition is_sync_complete :: "'f app \<Rightarrow> bool" where
  "is_sync_complete a = (case ui_sync_state a of Sync_Completed _ _ \<Rightarrow> True | _ \<Rightarrow> False)"

definition sync_progress_percent :: "'f f64_ops \<Rightarrow> 'f app \<Rightarrow> 'f" where
  "sync_progress_percent F a =
     (case ui_sync_state a of
        Syncing start current target _ _ \<Rightarrow>
          (if target \<le> start then f_of_nat F 100
           else f_mul F (f_div F (f_of_nat F (unat (saturating_sub current start)))
                                 (f_of_nat F (unat (target - start)))) (f_of_nat F 100))
      | Sync_Completed _ _ \<Rightarrow> f_of_nat F 100
      | Sync_Idle \<Rightarrow> f_of_nat F 0)"

definition set_unsafe_head :: "u64 \<Rightarrow> 'f app \<Rightarrow> 'f app" where
  "set_unsafe_head h a = a\<lparr>ui_unsafe_head := h, ui_blocks_processed := max (ui_blocks_processed a) h\<rparr>"

definition set_safe_head :: "u64 \<Rightarrow> 'f app \<Rightarrow> 'f app" where
  "set_safe_head h a = a\<lparr>ui_safe_head := h\<rparr>"

definition set_finalized_head :: "u64 \<Rightarrow> 'f app \<Rightarrow> 'f app" where
  "set_finalized_head h a = a\<lparr>ui_finalized_head := h\<rparr>"

definition record_transactions_received :: "instant \<Rightarrow> usize \<Rightarrow> 'f app \<Rightarrow> 'f app" where
  "record_transactions_received now n a =
     a\<lparr>ui_tx_tracking_start_time :=
         (if ui_tx_tracking_start_time a = None \<and> 0 < n then Some now else ui_tx_tracking_start_time a),
       ui_transactions_received := ui_transactions_received a + of_nat n\<rparr>"

text \<open>A number per elapsed second, zero when no time has passed.\<close>

definition per_second :: "'f f64_ops \<Rightarrow> instant \<Rightarrow> 'f \<Rightarrow> instant option \<Rightarrow> 'f" where
  "per_second F now n start =
     (case start of
        None \<Rightarrow> f_of_nat F 0
      | Some t \<Rightarrow> (let e = f_secs F (now - t) in if f_pos F e then f_div F n e else f_of_nat F 0))"

definition transactions_per_second :: "'f f64_ops \<Rightarrow> instant \<Rightarrow> 'f app \<Rightarrow> 'f" where
  "transactions_per_second F now a =
     per_second F now (f_of_nat F (unat (ui_transactions_received a))) (ui_tx_tracking_start_time a)"

definition record_batch_submit :: "instant \<Rightarrow> u64 \<Rightarrow> 'f app \<Rightarrow> 'f app" where
  "record_batch_submit now n a =
     a\<lparr>ui_batch_submit_times := (ui_batch_submit_times a)(n \<mapsto> now),
       ui_batches_submitted := ui_batches_submitted a + 1\<rparr>"

definition ui_record_latency :: "u64 \<Rightarrow> 'f app \<Rightarrow> 'f app" where
  "ui_record_latency ms a =
     a\<lparr>ui_round_trip_latencies := push_capped 1000 (ui_round_trip_latencies a) ms\<rparr>"

definition ui_record_batch_derived :: "instant \<Rightarrow> u64 \<Rightarrow> 'f app \<Rightarrow> 'f app" where
  "ui_record_batch_derived now n a =
     (let b = (case ui_batch_submit_times a n of
                 None \<Rightarrow> a
               | Some t \<Rightarrow>
                   ui_record_latency (of_nat ((now - t) div 1000000))
                     (a\<lparr>ui_batch_submit_times := (ui_batch_submit_times a)(n := None)\<rparr>))
      in b\<lparr>ui_batches_derived := ui_batches_derived b + 1\<rparr>)"

text \<open>Mean and standard deviation of a list of floating point numbers.\<close>

definition f_sum :: "'f f64_ops \<Rightarrow> 'f list \<Rightarrow> 'f" where
  "f_sum F xs = foldl (f_add F) (f_of_nat F 0) xs"

definition ui_avg_latency_ms :: "'f f64_ops \<Rightarrow> 'f app \<Rightarrow> 'f" where
  "ui_avg_latency_ms F a =
     (let l = ui_round_trip_latencies a in
      if l = [] then f_of_nat F 0
      else f_div F (f_of_nat F (unat (sum_list l))) (f_of_nat F (length l)))"

definition stddev :: "'f f64_ops \<Rightarrow> 'f \<Rightarrow> 'f list \<Rightarrow> 'f" where
  "stddev F avg xs =
     f_sqrt F (f_div F (f_sum F (map (\<lambda>x. f_mul F (f_sub F x avg) (f_sub F x avg)) xs)) (f_of_nat F (length xs)))"

definition latency_stddev_ms :: "'f f64_ops \<Rightarrow> 'f app \<Rightarrow> 'f" where
  "latency_stddev_ms F a =
     (let l = ui_round_trip_latencies a in
      if length l < 2 then f_of_nat F 0
      else stddev F (ui_avg_latency_ms F a) (map (\<lambda>x. f_of_nat F (unat x)) l))"

definition record_compression_ratio :: "'f \<Rightarrow> 'f app \<Rightarrow> 'f app" where
  "record_compression_ratio r a = a\<lparr>ui_compression_ratios := push_capped 1000 (ui_compression_ratios a) r\<rparr>"

definition avg_compression_ratio :: "'f f64_ops \<Rightarrow> 'f app \<Rightarrow> 'f" where
  "avg_compression_ratio F a =
     (let l = ui_compression_ratios a in
      if l = [] then f_of_nat F 0 else f_div F (f_sum F l) (f_of_nat F (length l)))"

definition compression_stddev :: "'f f64_ops \<Rightarrow> 'f app \<Rightarrow> 'f" where
  "compression_stddev F a =
     (let l = ui_compression_ratios a in
      if length l < 2 then f_of_nat F 0 else stddev F (avg_compression_ratio F a) l)"

text \<open>\<open>now\<close> and \<open>now'\<close> are the two times taken, the first only at the first execution.\<close>

definition record_executed :: "instant \<Rightarrow> instant \<Rightarrow> u64 \<Rightarrow> u64 \<Rightarrow> u64 \<Rightarrow> 'f app \<Rightarrow> 'f app" where
  "record_executed now now' n us gas a =
     a\<lparr>ui_blocks_executed := ui_blocks_executed a + 1, ui_last_executed_block := n,
       ui_execution_start_time :=
         (if ui_execution_start_time a = None then Some now else ui_execution_start_time a),
       ui_last_execution_time := Some now',
       ui_execution_times := push_capped 100 (ui_execution_times a) us,
       ui_total_gas_used := ui_total_gas_used a + ucast gas,
       ui_recent_gas_used := push_capped 100 (ui_recent_gas_used a) gas\<rparr>"

definition update_backlog :: "u64 \<Rightarrow> u64 \<Rightarrow> 'f app \<Rightarrow> 'f app" where
  "update_backlog fetched m a = a\<lparr>ui_blocks_fetched := fetched, ui_last_fetched_block := m\<rparr>"

definition backlog_size :: "'f app \<Rightarrow> u64" where
  "backlog_size a = saturating_sub (ui_blocks_fetched a) (ui_blocks_executed a)"

definition execution_rate :: "'f f64_ops \<Rightarrow> instant \<Rightarrow> 'f app \<Rightarrow> 'f" where
  "execution_rate F now a =
     per_second F now (f_of_nat F (unat (ui_blocks_executed a))) (ui_execution_start_time a)"

definition mgas_per_second :: "'f f64_ops \<Rightarrow> instant \<Rightarrow> 'f app \<Rightarrow> 'f" where
  "mgas_per_second F now a =
     per_second F now (f_div F (f_of_nat F (unat (ui_total_gas_used a))) (f_of_nat F 1000000))
       (ui_execution_start_time a)"

definition avg_execution_time_ms :: "'f f64_ops \<Rightarrow> 'f app \<Rightarrow> 'f" where
  "avg_execution_time_ms F a =
     (let l = ui_execution_times a in
      if l = [] then f_of_nat F 0
      else f_div F (f_div F (f_of_nat F (unat (sum_list l))) (f_of_nat F (length l))) (f_of_nat F 1000))"

definition time_since_last_execution :: "instant \<Rightarrow> 'f app \<Rightarrow> duration option" where
  "time_since_last_execution now a = map_option (\<lambda>t. now - t) (ui_last_execution_time a)"

definition record_harness_block :: "u64 \<Rightarrow> usize \<Rightarrow> 'f app \<Rightarrow> 'f app" where
  "record_harness_block n txs a =
     log_harness (log_info (''Block #'' @ dec (unat n) @ '' ('' @ dec txs @ '' txs)''))
       (a\<lparr>ui_harness_block := n\<rparr>)"

definition complete_harness_init :: "u64 \<Rightarrow> 'f app \<Rightarrow> 'f app" where
  "complete_harness_init n a = a\<lparr>ui_harness_init_block := n\<rparr>"

definition is_after_harness_init :: "u64 \<Rightarrow> 'f app \<Rightarrow> bool" where
  "is_after_harness_init n a = (ui_harness_init_block a < n)"

section \<open>The L1 chain\<close>

definition record_l1_block :: "u64 \<Rightarrow> 'f app \<Rightarrow> 'f app" where
  "record_l1_block n a =
     (if ui_l1_head a < n
      then a\<lparr>ui_l1_head := n,
             ui_l1_blocks := push_capped MAX_L1_BLOCKS (ui_l1_blocks a)
               \<lparr>l1e_number = n, l1e_batch_number = None, l1e_batch_block_count = None,
                l1e_is_derivation_origin = False\<rparr>\<rparr>
      else a)"

text \<open>\<^verbatim>\<open>iter_mut().find(p)\<close> and an update of what it finds.\<close>

fun update_first :: "('a \<Rightarrow> bool) \<Rightarrow> ('a \<Rightarrow> 'a) \<Rightarrow> 'a list \<Rightarrow> 'a list" where
  "update_first p f [] = []"
| "update_first p f (x # xs) = (if p x then f x # xs else x # update_first p f xs)"

definition record_batch_in_l1_block :: "u64 \<Rightarrow> u64 \<Rightarrow> usize \<Rightarrow> 'f app \<Rightarrow> 'f app" where
  "record_batch_in_l1_block l1 n count a =
     (let a = a\<lparr>ui_latest_batch_submission := Some l1,
                ui_batch_to_l1_block := (ui_batch_to_l1_block a)(n \<mapsto> l1)\<rparr> in
      if ui_l1_head a < l1
      then a\<lparr>ui_l1_head := l1,
             ui_l1_blocks := push_capped MAX_L1_BLOCKS (ui_l1_blocks a)
               \<lparr>l1e_number = l1, l1e_batch_number = Some n, l1e_batch_block_count = Some count,
                l1e_is_derivation_origin = False\<rparr>\<rparr>
      else a\<lparr>ui_l1_blocks := update_first (\<lambda>b. l1e_number b = l1)
               (\<lambda>b. b\<lparr>l1e_batch_number := Some n, l1e_batch_block_count := Some count\<rparr>) (ui_l1_blocks a)\<rparr>)"

definition record_derivation_origin :: "u64 \<Rightarrow> 'f app \<Rightarrow> 'f app" where
  "record_derivation_origin l1 a =
     a\<lparr>ui_latest_derivation_origin := Some l1,
       ui_l1_blocks := update_first (\<lambda>b. l1e_number b = l1)
         (\<lambda>b. b\<lparr>l1e_is_derivation_origin := True\<rparr>) (ui_l1_blocks a)\<rparr>"

definition record_batch_derivation_origin :: "u64 \<Rightarrow> 'f app \<Rightarrow> 'f app" where
  "record_batch_derivation_origin n a =
     (case ui_batch_to_l1_block a n of None \<Rightarrow> a | Some l1 \<Rightarrow> record_derivation_origin l1 a)"

section \<open>Handling an event\<close>

definition waiting_blocks :: log_entry where "waiting_blocks = log_info ''Waiting for blocks...''"
definition waiting_batches :: log_entry where "waiting_batches = log_info ''Waiting for batches...''"
definition waiting_chain :: log_entry where "waiting_chain = log_info ''Waiting for chain initialization...''"

definition waiting_for_chain :: "string \<Rightarrow> 'f app \<Rightarrow> 'f app" where
  "waiting_for_chain service a =
     (if service = ''sequencer'' \<or> service = ''batch'' then log_batch waiting_blocks a
      else if service = ''validator'' \<or> service = ''derivation'' then log_derivation waiting_batches a
      else if service = ''execution'' then log_execution waiting_blocks a
      else if service = ''block_builder'' then log_block waiting_blocks a
      else a)"

fun process_event :: "'f f64_ops \<Rightarrow> (nat \<Rightarrow> instant) \<Rightarrow> 'f app \<Rightarrow> 'f tui_event \<Rightarrow> 'f app option" where
  "process_event F clk a (UiSyncStarted start target) = Some
     (log_sync (log_info (''Sync started: #'' @ dec (unat start) @ '' -> #'' @ dec (unat target) @ '' (''
         @ dec (unat (saturating_sub target start)) @ '' blocks)''))
       (start_sync F (clk 0) start target a))"
| "process_event F clk a (UiSyncProgress current target rate eta) = Some
     (let eta_str = (case eta of None \<Rightarrow> ''calculating...'' | Some d \<Rightarrow> format_duration d);
          a = log_sync (log_info (''Block #'' @ dec (unat current) @ '': '' @ f_show F 1 rate @ '' blks/s, ''
                @ dec (unat (saturating_sub target current)) @ '' remaining, ETA '' @ eta_str))
                (update_sync_progress current target rate eta a)
      in if ui_harness_mode a \<and> is_after_harness_init current a \<and> ui_harness_block a < current
         then record_harness_block current 0 a else a)"
| "process_event F clk a (UiSyncCompleted n secs) = Some
     (let speed = (if f_pos F secs then f_div F (f_of_nat F (unat n)) secs else f_of_nat F 0)
      in log_sync (log_info (''SYNC COMPLETE: '' @ dec (unat n) @ '' blocks in '' @ f_show F 1 secs @ ''s (''
           @ f_show F 1 speed @ '' blks/s)''))
         (complete_sync n secs a))"
| "process_event F clk a (UiTransaction hash source dest gas) = Some a"
| "process_event F clk a (UiBlockBuilt n txs bytes gas) = Some
     (let a = log_block (log_info (''Block #'' @ dec (unat n) @ '': '' @ dec txs @ '' txs, ''
                @ format_bytes F bytes @ '' bytes, '' @ dec (unat gas) @ '' gas''))
                (record_transactions_received (clk 0) txs (set_unsafe_head n a))
      in if ui_harness_mode a \<and> is_after_harness_init n a then record_harness_block n txs a else a)"
| "process_event F clk a (UiBatchSubmitted n count first last_b uncompressed compressed) = Some
     (let ratio = (if 0 < uncompressed
                   then f_mul F (f_div F (f_of_nat F compressed) (f_of_nat F uncompressed)) (f_of_nat F 100)
                   else f_of_nat F 100)
      in log_batch (log_info (''Batch #'' @ dec (unat n) @ '': blocks '' @ dec (unat first) @ ''-''
           @ dec (unat last_b) @ '' ('' @ dec count @ '' blocks), '' @ format_bytes F uncompressed @ '' -> ''
           @ format_bytes F compressed @ '' ('' @ f_show F 1 ratio @ ''%)''))
         (record_compression_ratio ratio (set_safe_head last_b (record_batch_submit (clk 0) n a))))"
| "process_event F clk a (UiBlockDerived n txs derivation_ms execution_ms) = Some
     (log_derivation (log_info (''Block #'' @ dec (unat n) @ '': derived in '' @ dec (unat derivation_ms) @ ''ms''))
       (log_derivation_execution (log_info (''Block #'' @ dec (unat n) @ '': '' @ dec txs @ '' txs, ''
           @ dec (unat execution_ms) @ ''ms''))
         (set_finalized_head n a)))"
| "process_event F clk a (UiBatchDerived n count first last_b) = Some
     (log_derivation (log_info (''Batch #'' @ dec (unat n) @ '': derived '' @ dec (unat count) @ '' blocks (''
         @ dec (unat first) @ ''-'' @ dec (unat last_b) @ '')''))
       (record_batch_derivation_origin n (set_finalized_head last_b (ui_record_batch_derived (clk 0) n a))))"
| "process_event F clk a (UnsafeHeadUpdated h) = Some (set_unsafe_head h a)"
| "process_event F clk a (SafeHeadUpdated h) = Some (set_safe_head h a)"
| "process_event F clk a (FinalizedUpdated h) = Some (set_finalized_head h a)"
| "process_event F clk a (ModeInfo role start skip) = Some (set_mode_info role start skip a)"
| "process_event F clk a (UiBlockExecuted n us gas) = Some
     (let a = record_executed (clk 0) (clk 1) n us gas a
      in log_execution (log_info (''Block #'' @ dec (unat n) @ '': ''
           @ f_show F 2 (f_div F (f_of_nat F (unat us)) (f_of_nat F 1000)) @ ''ms, ''
           @ f_show F 1 (execution_rate F (clk 2) a) @ '' blks/s, ''
           @ f_show F 1 (mgas_per_second F (clk 3) a) @ '' Mgas/s, ''
           @ dec (unat (backlog_size a)) @ '' backlog'')) a)"
| "process_event F clk a (BacklogUpdated fetched last_b) = Some (update_backlog fetched last_b a)"
| "process_event F clk a TogglePause = Some (app_toggle_pause a)"
| "process_event F clk a Reset_Event = Some (app_reset a)"
| "process_event F clk a HarnessModeEnabled = Some (a\<lparr>ui_harness_mode := True\<rparr>)"
| "process_event F clk a (HarnessBlockProduced n txs) = Some (record_harness_block n txs a)"
| "process_event F clk a (HarnessInitProgress current total_blocks message) = Some
     (let pct = (if 0 < total_blocks
                 then f_mul F (f_div F (f_of_nat F (unat current)) (f_of_nat F (unat total_blocks))) (f_of_nat F 100)
                 else f_of_nat F 0)
      in (log_harness (log_info (''['' @ dec (unat current) @ ''/'' @ dec (unat total_blocks) @ ''] ''
            @ f_show F 0 pct @ ''% - '' @ message)) a)\<lparr>ui_harness_block := current\<rparr>)"
| "process_event F clk a (HarnessInitComplete n) = Some (complete_harness_init n a)"
| "process_event F clk a (SequencerInit checkpoint min_size interval max_count) = Some
     (let a = log_batch (log_info (''Config: min_size='' @ dec min_size @ '' bytes, interval=''
                @ dec (unat interval) @ ''s, max_blocks='' @ dec (unat max_count)))
              (log_batch (log_info (''Sequencer initialized: checkpoint batch #'' @ dec (unat checkpoint))) a)
      in if ui_harness_mode a then log_batch waiting_chain a else a)"
| "process_event F clk a (ValidatorInit checkpoint) = Some
     (let a = log_derivation (log_info (''Validator initialized: checkpoint batch #'' @ dec (unat checkpoint))) a
      in if ui_harness_mode a then log_derivation waiting_chain a else a)"
| "process_event F clk a (ExecutionInit start checkpoint harness) = Some
     (let a = log_execution (log_info (''Execution initialized: start block #'' @ dec (unat start)
                @ '', checkpoint block #'' @ dec (unat checkpoint))) a
      in if harness then log_execution waiting_chain a else a)"
| "process_event F clk a (BlockBuilderInit url poll_ms) =
     (case (if 40 < length url then map_option (\<lambda>u. u @ ''...'') (str_prefix 37 url) else Some url) of
        None \<Rightarrow> None
      | Some display_url \<Rightarrow> Some
          (let a = log_block (log_info (''Block builder: '' @ display_url @ '' (poll '' @ dec (unat poll_ms) @ ''ms)'')) a
           in if ui_harness_mode a then log_block waiting_chain a else a))"
| "process_event F clk a (WaitingForChain service) = Some (waiting_for_chain service a)"
| "process_event F clk a (L1BlockProduced n) = Some (record_l1_block n a)"
| "process_event F clk a (BatchIncludedInL1 l1 n count) = Some (record_batch_in_l1_block l1 n count a)"

text \<open>
  An iteration of the event loop: the key pressed, if any, then the events in the channel, which
  are dropped while the interface is paused. The key \<open>q\<close> or escape ends the loop before the
  events are looked at.
\<close>

datatype key = Key_Quit | Key_Pause | Key_Reset | Key_Other

definition press :: "key option \<Rightarrow> 'f app \<Rightarrow> 'f app" where
  "press k a =
     (case k of
        Some Key_Pause \<Rightarrow> app_toggle_pause a
      | Some Key_Reset \<Rightarrow> app_reset a
      | _ \<Rightarrow> a)"

fun drain_events :: "'f f64_ops \<Rightarrow> ((nat \<Rightarrow> instant) \<times> 'f tui_event) list \<Rightarrow> 'f app \<Rightarrow> 'f app option" where
  "drain_events F [] a = Some a"
| "drain_events F ((clk, e) # es) a =
     (if ui_is_paused a then drain_events F es a
      else (case process_event F clk a e of
              None \<Rightarrow> None
            | Some a \<Rightarrow> drain_events F es a))"

text \<open>The event loop over iterations; \<open>True\<close> when it has returned.\<close>

fun ui_event_loop :: "'f f64_ops \<Rightarrow> (bool \<times> key option \<times> ((nat \<Rightarrow> instant) \<times> 'f tui_event) list) list
    \<Rightarrow> 'f app \<Rightarrow> (bool \<times> 'f app) option" where
  "ui_event_loop F [] a = Some (False, a)"
| "ui_event_loop F ((shutdown, k, es) # rest) a =
     (if shutdown then Some (True, a)
      else if k = Some Key_Quit then Some (True, a)
      else (case drain_events F es (press k a) of
              None \<Rightarrow> None
            | Some a \<Rightarrow> ui_event_loop F rest a))"

section \<open>The invariant\<close>

text \<open>
  The buffers are bounded, the L1 blocks are in strictly increasing order with the head as the
  last, and the blocks processed are no fewer than the unsafe head.
\<close>

definition buffers_ok :: "'f app \<Rightarrow> bool" where
  "buffers_ok a =
     (list_all (\<lambda>l. length l \<le> 100)
        [ui_sync_logs a, ui_block_builder_logs a, ui_batch_logs a, ui_derivation_logs a,
         ui_derivation_execution_logs a, ui_execution_logs a, ui_harness_logs a]
      \<and> length (ui_execution_times a) \<le> 100 \<and> length (ui_recent_gas_used a) \<le> 100
      \<and> length (ui_round_trip_latencies a) \<le> 1000 \<and> length (ui_compression_ratios a) \<le> 1000)"

definition l1_view_ok :: "u64 \<Rightarrow> l1_entry list \<Rightarrow> bool" where
  "l1_view_ok h bs =
     (length bs \<le> MAX_L1_BLOCKS \<and> sorted_wrt (<) (map l1e_number bs)
      \<and> (bs \<noteq> [] \<longrightarrow> l1e_number (last bs) = h))"

definition app_ok :: "'f app \<Rightarrow> bool" where
  "app_ok a =
     (buffers_ok a \<and> l1_view_ok (ui_l1_head a) (ui_l1_blocks a) \<and> ui_unsafe_head a \<le> ui_blocks_processed a)"

lemma length_push_capped: "length xs \<le> cap \<Longrightarrow> length (push_capped cap xs x) \<le> cap"
  by (auto simp: push_capped_def Let_def)

lemma l1_view_ok_bound: "l1_view_ok h bs \<Longrightarrow> b \<in> set bs \<Longrightarrow> l1e_number b \<le> h"
proof -
  assume ok: "l1_view_ok h bs" and b: "b \<in> set bs"
  then have "bs \<noteq> []" by auto
  then obtain cs c where bs: "bs = cs @ [c]" by (metis append_butlast_last_id)
  with ok b show ?thesis by (auto simp: l1_view_ok_def sorted_wrt_append)
qed

lemma l1_view_ok_push:
  assumes "l1_view_ok h bs" and "h < l1e_number b"
  shows "l1_view_ok (l1e_number b) (push_capped MAX_L1_BLOCKS bs b)"
proof -
  have "sorted_wrt (<) (map l1e_number (bs @ [b]))"
    using assms l1_view_ok_bound [OF assms(1)] by (force simp: l1_view_ok_def sorted_wrt_append)
  moreover have "sorted_wrt (<) (tl ns)" if "sorted_wrt (<) ns" for ns :: "u64 list"
    using that by (cases ns) auto
  ultimately have "sorted_wrt (<) (map l1e_number (push_capped MAX_L1_BLOCKS bs b))"
    by (auto simp: push_capped_def Let_def map_tl)
  moreover have "length (push_capped MAX_L1_BLOCKS bs b) \<le> MAX_L1_BLOCKS"
    using assms(1) by (simp add: length_push_capped l1_view_ok_def)
  moreover have "last (push_capped MAX_L1_BLOCKS bs b) = b"
    by (cases bs) (auto simp: push_capped_def Let_def MAX_L1_BLOCKS_def)
  ultimately show ?thesis by (simp add: l1_view_ok_def)
qed

lemma update_first_view:
  assumes "\<And>b. l1e_number (f b) = l1e_number b"
  shows "l1_view_ok h (update_first p f bs) = l1_view_ok h bs"
proof -
  have m: "map l1e_number (update_first p f bs) = map l1e_number bs"
    using assms by (induction bs) auto
  then have "length (update_first p f bs) = length bs" by (metis length_map)
  moreover have "update_first p f bs = [] \<longleftrightarrow> bs = []" using m by auto
  moreover have "l1e_number (last (update_first p f bs)) = l1e_number (last bs)" if "bs \<noteq> []"
    using that m calculation(2) by (metis last_map)
  ultimately show ?thesis using m by (auto simp: l1_view_ok_def)
qed

lemma app_ok_new: "app_ok app_new"
  by (simp add: app_ok_def buffers_ok_def l1_view_ok_def app_new_def)

lemmas app_ok_defs = app_ok_def buffers_ok_def length_push_capped MAX_LOG_ENTRIES_def

text \<open>Each operation keeps it.\<close>

lemma app_ok_logs [intro]:
  assumes "app_ok a"
  shows "app_ok (log_sync e a)" "app_ok (log_block e a)" "app_ok (log_batch e a)" "app_ok (log_derivation e a)"
    "app_ok (log_derivation_execution e a)" "app_ok (log_execution e a)" "app_ok (log_harness e a)"
  using assms
  by (simp_all add: app_ok_defs log_sync_def log_block_def log_batch_def log_derivation_def
      log_derivation_execution_def log_execution_def log_harness_def)

lemma app_ok_ops [intro]:
  assumes "app_ok a"
  shows "app_ok (start_sync F now m n a)" "app_ok (update_sync_progress m n r eta a)" "app_ok (complete_sync n r a)"
    "app_ok (set_unsafe_head n a)" "app_ok (set_safe_head n a)" "app_ok (set_finalized_head n a)"
    "app_ok (record_transactions_received now k a)" "app_ok (record_batch_submit now n a)"
    "app_ok (record_compression_ratio r a)" "app_ok (record_executed now now' n m g a)"
    "app_ok (update_backlog m n a)" "app_ok (app_toggle_pause a)" "app_ok (set_mode_info role s b a)"
    "app_ok (complete_harness_init n a)" "app_ok (ui_record_latency n a)"
    "app_ok (a\<lparr>ui_harness_block := n\<rparr>)" "app_ok (a\<lparr>ui_harness_mode := b\<rparr>)"
    "app_ok (a\<lparr>ui_batches_derived := n\<rparr>)" "app_ok (a\<lparr>ui_batch_submit_times := t\<rparr>)"
  using assms
  by (simp_all add: app_ok_defs start_sync_def update_sync_progress_def complete_sync_def set_unsafe_head_def
      set_safe_head_def set_finalized_head_def record_transactions_received_def record_batch_submit_def
      record_compression_ratio_def record_executed_def update_backlog_def app_toggle_pause_def
      set_mode_info_def complete_harness_init_def ui_record_latency_def)

lemma app_ok_reset [intro]: "app_ok (app_reset a)"
  using app_ok_new [where 'a = 'a] by (simp add: app_ok_def buffers_ok_def app_reset_def)

lemma app_ok_if: "app_ok x \<Longrightarrow> app_ok y \<Longrightarrow> app_ok (if c then x else y)"
  by simp

lemma app_ok_composed [intro]:
  assumes "app_ok a"
  shows "app_ok (record_harness_block n k a)" "app_ok (ui_record_batch_derived now n a)"
    "app_ok (waiting_for_chain service a)" "app_ok (press k' a)"
proof -
  show "app_ok (waiting_for_chain service a)"
    unfolding waiting_for_chain_def by (intro app_ok_if app_ok_logs assms)
qed (use assms in \<open>auto simp: record_harness_block_def ui_record_batch_derived_def Let_def press_def
      split: option.split key.split\<close>)

lemma app_ok_l1 [intro]:
  assumes "app_ok a"
  shows "app_ok (record_l1_block n a)" "app_ok (record_batch_in_l1_block l1 n k a)"
    "app_ok (record_derivation_origin l1 a)" "app_ok (record_batch_derivation_origin n a)"
proof -
  have v: "l1_view_ok (ui_l1_head a) (ui_l1_blocks a)" using assms by (simp add: app_ok_def)
  show "app_ok (record_l1_block n a)"
    using assms l1_view_ok_push [OF v, of "\<lparr>l1e_number = n, l1e_batch_number = None, l1e_batch_block_count = None,
      l1e_is_derivation_origin = False\<rparr>"]
    by (auto simp: record_l1_block_def app_ok_def buffers_ok_def)
  show "app_ok (record_batch_in_l1_block l1 n k a)"
    using assms l1_view_ok_push [OF v, of "\<lparr>l1e_number = l1, l1e_batch_number = Some n,
      l1e_batch_block_count = Some k, l1e_is_derivation_origin = False\<rparr>"]
    by (auto simp: record_batch_in_l1_block_def Let_def app_ok_def buffers_ok_def update_first_view)
  have origin: "app_ok (record_derivation_origin l a)" for l
    using assms by (simp add: record_derivation_origin_def app_ok_def buffers_ok_def update_first_view)
  show "app_ok (record_derivation_origin l1 a)" by (rule origin)
  show "app_ok (record_batch_derivation_origin n a)"
    using assms origin by (simp add: record_batch_derivation_origin_def split: option.split)
qed

lemma process_event_pred:
  assumes "app_ok a"
  shows "pred_option app_ok (process_event F clk a e)"
proof (cases e)
  case (BlockBuilderInit url n)
  have "pred_option app_ok (case u of None \<Rightarrow> None
      | Some d \<Rightarrow> Some (let a = log_block (m d) a in if ui_harness_mode a then log_block waiting_chain a else a))"
    for u :: "string option" and m
    using assms by (cases u) (auto simp: Let_def)
  then show ?thesis unfolding BlockBuilderInit process_event.simps by this
qed (simp only: process_event.simps Let_def option.pred_inject;
  intro app_ok_if app_ok_logs app_ok_ops app_ok_composed app_ok_l1 app_ok_reset assms)+

lemma process_event_ok: "app_ok a \<Longrightarrow> process_event F clk a e = Some b \<Longrightarrow> app_ok b"
  using process_event_pred [of a F clk e] by simp

lemma drain_events_ok: "app_ok a \<Longrightarrow> drain_events F es a = Some b \<Longrightarrow> app_ok b"
proof (induction es arbitrary: a)
  case (Cons c es)
  then show ?case by (cases c) (auto split: if_splits option.splits dest: process_event_ok)
qed simp

lemma ui_event_loop_ok: "app_ok a \<Longrightarrow> ui_event_loop F its a = Some (r, b) \<Longrightarrow> app_ok b"
proof (induction its arbitrary: a)
  case (Cons c its)
  obtain q k es where c: "c = (q, k, es)" by (metis prod_cases3)
  show ?case
  proof (cases "q \<or> k = Some Key_Quit")
    case False
    with Cons.prems(2) c obtain d where "drain_events F es (press k a) = Some d" "ui_event_loop F its d = Some (r, b)"
      by (auto split: option.splits)
    with Cons show ?thesis using drain_events_ok [OF app_ok_composed(4) [OF Cons.prems(1)]] by blast
  qed (use Cons.prems c in \<open>auto split: if_splits\<close>)
qed simp

text \<open>While the interface is paused the events in the channel are lost, the toggle event among them.\<close>

lemma paused_loses_events: "ui_is_paused a \<Longrightarrow> drain_events F es a = Some a"
  by (induction es) auto

text \<open>The float operations of the concrete runs below: whole numbers, rounding down.\<close>

definition nat_f64 :: "nat f64_ops" where
  "nat_f64 = \<lparr>f_of_nat = (\<lambda>n. n), f_add = (+), f_sub = (-), f_mul = (*), f_div = (div), f_sqrt = (\<lambda>n. n),
     f_pos = (\<lambda>n. 0 < n), f_secs = (\<lambda>d. d div 1000000000), f_show = (\<lambda>_ n. replicate n (CHR ''9''))\<rparr>"

text \<open>
  C40: The state of the interface stays bounded and consistent. Whatever keys are pressed and
  whatever events arrive, in whatever order, at every moment no log holds more than 100 entries
  and no buffer of samples more than 1000, the L1 blocks shown are at most 50, in strictly
  increasing order, none above the L1 head, which is the last of them, and the blocks processed
  are no fewer than the unsafe head.
\<close>

theorem ui_stays_consistent:
  assumes "ui_event_loop F its app_new = Some (r, a)"
  shows "buffers_ok a
    \<and> length (ui_l1_blocks a) \<le> 50 \<and> sorted_wrt (<) (map l1e_number (ui_l1_blocks a))
    \<and> (\<forall>b \<in> set (ui_l1_blocks a). l1e_number b \<le> ui_l1_head a)
    \<and> (ui_l1_blocks a = [] \<or> l1e_number (last (ui_l1_blocks a)) = ui_l1_head a)
    \<and> ui_unsafe_head a \<le> ui_blocks_processed a"
proof -
  have "app_ok a" by (rule ui_event_loop_ok [OF app_ok_new assms])
  then show ?thesis
    using l1_view_ok_bound by (auto simp: app_ok_def l1_view_ok_def MAX_L1_BLOCKS_def)
qed

theorem ui_stays_consistent_witness:
  "\<exists>a. ui_event_loop nat_f64
        [(False, None, [(\<lambda>_. 0, L1BlockProduced 5), (\<lambda>_. 0, BatchIncludedInL1 9 1 3)]),
         (False, Some Key_Pause, [(\<lambda>_. 0, UnsafeHeadUpdated 7)]), (True, None, [])] app_new = Some (True, a)
    \<and> map l1e_number (ui_l1_blocks a) = [5, 9] \<and> ui_unsafe_head a = 0 \<and> buffers_ok a"
proof -
  obtain a where "ui_event_loop nat_f64
        [(False, None, [(\<lambda>_. 0, L1BlockProduced 5), (\<lambda>_. 0, BatchIncludedInL1 9 1 3)]),
         (False, Some Key_Pause, [(\<lambda>_. 0, UnsafeHeadUpdated 7)]), (True, None, [])] app_new = Some (True, a)"
    and "map l1e_number (ui_l1_blocks a) = [5, 9]" and "ui_unsafe_head a = 0"
    by (simp add: press_def app_toggle_pause_def app_new_def record_l1_block_def record_batch_in_l1_block_def
        Let_def push_capped_def MAX_L1_BLOCKS_def)
  with ui_stays_consistent [OF this(1)] show ?thesis
    by (elim conjE) (intro exI [of _ a] conjI)
qed

end
