(* ===== verification/Tui_Feed.thy ===== *)
theory Tui_Feed
  imports Tui_App Node_Main
begin

text \<open>
  Where blocks and interface events come from: the observer that turns the node's events into
  interface events (\<^verbatim>\<open>crates/utilities/tui/src/observer.rs\<close>), the block feeder
  (\<^verbatim>\<open>crates/consensus/block-feeder\<close>) and the block producers
  (\<^verbatim>\<open>crates/execution/blocksource/src/producer\<close>).

  The RPC provider is a parameter: each poll of the tip is an answer of a list, blocks are the
  answers of a function. Sending to a channel fails once its receiver is gone, which is the
  argument \<open>accepts\<close>, a function of the number of blocks sent before.
\<close>

section \<open>The observer\<close>

text \<open>\<open>to_f\<close> and \<open>to_eta\<close> give the rate and the remaining time of the node's progress as numbers.\<close>

definition observe :: "(rate \<Rightarrow> 'f) \<Rightarrow> (u64 \<times> rate \<Rightarrow> duration) \<Rightarrow> node_event \<Rightarrow> 'f tui_event option" where
  "observe to_f to_eta e =
     (case e of
        NodeSyncStarted start target \<Rightarrow> Some (UiSyncStarted start target)
      | NodeSyncProgress p \<Rightarrow>
          Some (UiSyncProgress (progress_current p) (progress_target p) (to_f (progress_rate p))
                 (map_option to_eta (progress_eta p)))
      | NodeSyncCompleted n secs \<Rightarrow> Some (UiSyncCompleted n (to_f secs))
      | NodeBlockExecuted n us gas \<Rightarrow> Some (UiBlockExecuted n us gas)
      | NodeBatchSubmitted n hash \<Rightarrow> Some (SafeHeadUpdated n)
      | NodeBatchDerived n count \<Rightarrow> Some (UiBatchDerived n (of_nat count) 0 0)
      | NodeBatchValidated n \<Rightarrow> Some (FinalizedUpdated n)
      | StateChanged _ \<Rightarrow> None
      | CheckpointSaved _ \<Rightarrow> None
      | NodeBatchBuilt _ _ \<Rightarrow> None
      | NodeError _ _ \<Rightarrow> None)"

text \<open>
  The heads of the interface are block numbers, but the observer gives it batch numbers, and 0
  when a batch has been derived.
\<close>

lemma observed_heads:
  "map_option ui_finalized_head (drain_events F
     (map (\<lambda>e. (clk, the (observe to_f to_eta e))) [NodeBatchDerived n k]) (a\<lparr>ui_is_paused := False\<rparr>)) = Some 0"
  "map_option ui_finalized_head (drain_events F
     (map (\<lambda>e. (clk, the (observe to_f to_eta e))) [NodeBatchValidated n]) (a\<lparr>ui_is_paused := False\<rparr>)) = Some n"
  "map_option ui_safe_head (drain_events F
     (map (\<lambda>e. (clk, the (observe to_f to_eta e))) [NodeBatchSubmitted n h]) (a\<lparr>ui_is_paused := False\<rparr>)) = Some n"
  by (simp_all add: observe_def log_derivation_def record_batch_derivation_origin_def record_derivation_origin_def
      ui_record_batch_derived_def ui_record_latency_def Let_def set_finalized_head_def set_safe_head_def
      split: option.split)

section \<open>The RPC block producer\<close>

text \<open>
  One poll: the blocks after \<open>last_b\<close> up to \<open>latest\<close> are fetched and sent. The result is the
  return of the loop, if there is one, the last block and the blocks sent.
\<close>

function produce_new :: "(u64 \<Rightarrow> string + 'b option) \<Rightarrow> (nat \<Rightarrow> bool) \<Rightarrow> u64 \<Rightarrow> u64 \<Rightarrow> 'b list
    \<Rightarrow> (string + unit) option \<times> u64 \<times> 'b list" where
  "produce_new src accepts latest last_b sent =
     (if last_b < latest
      then
        (let next_block = last_b + 1 in
         case src next_block of
           Inl e \<Rightarrow> (Some (Inl e), last_b, sent)
         | Inr None \<Rightarrow> (Some (Inl (''Block '' @ dec (unat next_block) @ '' not found'')), last_b, sent)
         | Inr (Some b) \<Rightarrow>
             (if accepts (length sent) then produce_new src accepts latest next_block (sent @ [b])
              else (Some (Inr ()), last_b, sent)))
      else (None, last_b, sent))"
  by pat_completeness auto

lemma unat_next: "a < b \<Longrightarrow> unat (a + 1) = unat a + 1" for a b :: u64
  using unsigned_less [of b, where ?'a = nat] by (simp add: unat_word_ariths word_less_nat_alt)

termination produce_new
  by (relation "measure (\<lambda>(f, a, latest, last_b, s). unat latest - unat last_b)")
    (auto simp: unat_next word_less_nat_alt)

declare produce_new.simps [simp del]

fun produce_polls :: "(u64 \<Rightarrow> string + 'b option) \<Rightarrow> (nat \<Rightarrow> bool) \<Rightarrow> (string + u64) list \<Rightarrow> u64 \<Rightarrow> 'b list
    \<Rightarrow> (string + unit) option \<times> u64 \<times> 'b list" where
  "produce_polls src accepts [] last_b sent = (None, last_b, sent)"
| "produce_polls src accepts (Inl e # polls) last_b sent = (Some (Inl e), last_b, sent)"
| "produce_polls src accepts (Inr latest # polls) last_b sent =
     (case produce_new src accepts latest last_b sent of
        (None, last_b, sent) \<Rightarrow> produce_polls src accepts polls last_b sent
      | r \<Rightarrow> r)"

definition rpc_produce :: "(u64 \<Rightarrow> string + 'b option) \<Rightarrow> (nat \<Rightarrow> bool) \<Rightarrow> u64 \<Rightarrow> (string + u64) list
    \<Rightarrow> (string + unit) option \<times> u64 \<times> 'b list" where
  "rpc_produce src accepts start polls =
     produce_polls src accepts polls (saturating_sub start 1) []"

definition rpc_get_chain_tip :: "string + u64 \<Rightarrow> string + u64" where "rpc_get_chain_tip answer = answer"

definition rpc_get_block :: "(u64 \<Rightarrow> string + 'b option) \<Rightarrow> u64 \<Rightarrow> string + 'b option" where
  "rpc_get_block src n = src n"

text \<open>The block source that takes a missing block for an error.\<close>

definition rpc_source_get_block :: "(u64 \<Rightarrow> string + 'b option) \<Rightarrow> u64 \<Rightarrow> string + 'b" where
  "rpc_source_get_block src n =
     rbind (src n) (\<lambda>b. ok_or b (''Block '' @ dec (unat n) @ '' not found''))"

section \<open>The channel block producer\<close>

text \<open>The blocks of the closed channel are forwarded until the consumer is gone.\<close>

fun channel_produce :: "(nat \<Rightarrow> bool) \<Rightarrow> 'b list \<Rightarrow> 'b list \<Rightarrow> (string + unit) \<times> 'b list" where
  "channel_produce accepts [] sent = (Inr (), sent)"
| "channel_produce accepts (b # bs) sent =
     (if accepts (length sent) then channel_produce accepts bs (sent @ [b]) else (Inr (), sent))"

definition channel_get_chain_tip :: "string + u64" where
  "channel_get_chain_tip = Inl ''Channel producer does not support get_chain_tip''"

definition channel_get_block :: "u64 \<Rightarrow> string + 'b option" where
  "channel_get_block n = Inl ''Channel producer does not support get_block''"

section \<open>The block feeder\<close>

text \<open>What the feeder reads off a block, and what it keeps; \<open>fd_events\<close> is what the interface got.\<close>

record 'b block_info =
  bi_tx_count :: "'b \<Rightarrow> usize"
  bi_gas_used :: "'b \<Rightarrow> u64"
  bi_size :: "'b \<Rightarrow> usize"

record ('b, 'f) feeder =
  fd_current :: u64
  fd_fetched :: u64
  fd_sent :: "'b list"
  fd_events :: "'f tui_event list"

definition feeder_tell :: "bool \<Rightarrow> 'f tui_event list \<Rightarrow> ('b, 'f) feeder \<Rightarrow> ('b, 'f) feeder" where
  "feeder_tell has_tui es s = (if has_tui then s\<lparr>fd_events := fd_events s @ es\<rparr> else s)"

definition feed_one :: "'b block_info \<Rightarrow> (u64 \<Rightarrow> string + 'b option) \<Rightarrow> (nat \<Rightarrow> bool) \<Rightarrow> bool \<Rightarrow> ('b, 'f) feeder
    \<Rightarrow> (string + unit) option \<times> ('b, 'f) feeder" where
  "feed_one B src accepts has_tui s =
     (let current = fd_current s in
      case src current of
        Inl e \<Rightarrow> (Some (Inl e), s)
      | Inr None \<Rightarrow> (Some (Inl (''Block '' @ dec (unat current) @ '' not found'')), s)
      | Inr (Some b) \<Rightarrow>
          (let s = feeder_tell has_tui [UiBlockBuilt current (bi_tx_count B b) (bi_size B b) (bi_gas_used B b),
                     UnsafeHeadUpdated current] s in
           if accepts (length (fd_sent s))
           then (let fetched = fd_fetched s + 1;
                     s = feeder_tell has_tui [BacklogUpdated fetched current]
                           (s\<lparr>fd_sent := fd_sent s @ [b], fd_fetched := fetched\<rparr>)
                 in (None, s\<lparr>fd_current := current + 1\<rparr>))
           else (Some (Inr ()), s)))"

text \<open>
  The loop up to the tip. Should the tip be the largest number, the next one is 0 and the loop
  goes on without end; hence a partial function.
\<close>

partial_function (option) feed_to_tip :: "'b block_info \<Rightarrow> (u64 \<Rightarrow> string + 'b option) \<Rightarrow> (nat \<Rightarrow> bool) \<Rightarrow> bool \<Rightarrow> u64
    \<Rightarrow> ('b, 'f) feeder \<Rightarrow> ((string + unit) option \<times> ('b, 'f) feeder) option" where
  "feed_to_tip B src accepts has_tui head_n s =
     (if fd_current s \<le> head_n
      then (let r = feed_one B src accepts has_tui s in
            if fst r = None then feed_to_tip B src accepts has_tui head_n (snd r) else Some r)
      else Some (None, s))"

fun run_block_feeder :: "'b block_info \<Rightarrow> (u64 \<Rightarrow> string + 'b option) \<Rightarrow> (nat \<Rightarrow> bool) \<Rightarrow> bool \<Rightarrow> (string + u64) list
    \<Rightarrow> ('b, 'f) feeder \<Rightarrow> ((string + unit) option \<times> ('b, 'f) feeder) option" where
  "run_block_feeder B src accepts has_tui [] s = Some (None, s)"
| "run_block_feeder B src accepts has_tui (Inl e # polls) s = Some (Some (Inl e), s)"
| "run_block_feeder B src accepts has_tui (Inr head_n # polls) s =
     (case feed_to_tip B src accepts has_tui head_n s of
        None \<Rightarrow> None
      | Some (None, s) \<Rightarrow> run_block_feeder B src accepts has_tui polls s
      | Some (Some r, s) \<Rightarrow> Some (Some r, s))"

definition feeder_new :: "u64 \<Rightarrow> ('b, 'f) feeder" where
  "feeder_new start = \<lparr>fd_current = start, fd_fetched = 0, fd_sent = [], fd_events = []\<rparr>"

section \<open>What is delivered\<close>

text \<open>The blocks with numbers from m to below n.\<close>

definition blocks_in :: "(u64 \<Rightarrow> 'b) \<Rightarrow> nat \<Rightarrow> nat \<Rightarrow> 'b list" where
  "blocks_in b m n = map (\<lambda>k. b (of_nat k)) [m..<n]"

lemma blocks_in_append: "l \<le> m \<Longrightarrow> m \<le> n \<Longrightarrow> blocks_in b l m @ blocks_in b m n = blocks_in b l n"
  using upt_add_eq_append [of l m "n - m"] by (simp add: blocks_in_def flip: map_append)

lemma blocks_in_Cons: "m < n \<Longrightarrow> b (of_nat m) # blocks_in b (Suc m) n = blocks_in b m n"
  by (simp add: blocks_in_def upt_conv_Cons)

lemma blocks_in_empty [simp]: "n \<le> m \<Longrightarrow> blocks_in b m n = []"
  by (simp add: blocks_in_def)

lemma produce_new_all:
  assumes "\<And>n. src n = Inr (Some (b n))" and "\<And>k. accepts k"
  shows "produce_new src accepts latest l sent =
    (None, max l latest, sent @ blocks_in b (Suc (unat l)) (Suc (unat (max l latest))))"
proof (induction "unat latest - unat l" arbitrary: l sent rule: less_induct)
  case less
  show ?case
  proof (cases "l < latest")
    case True
    then have u: "unat (l + 1) = Suc (unat l)" and le: "l + 1 \<le> latest"
      by (simp_all add: unat_next word_le_nat_alt word_less_nat_alt Suc_le_eq)
    have "produce_new src accepts latest (l + 1) (sent @ [b (l + 1)]) =
        (None, latest, (sent @ [b (l + 1)]) @ blocks_in b (Suc (Suc (unat l))) (Suc (unat latest)))"
      using less [of "l + 1"] True u le by (simp add: word_less_nat_alt max_absorb2)
    moreover have "b (l + 1) # blocks_in b (Suc (Suc (unat l))) (Suc (unat latest))
        = blocks_in b (Suc (unat l)) (Suc (unat latest))"
      using True blocks_in_Cons [of "Suc (unat l)" "Suc (unat latest)" b]
      by (simp add: word_less_nat_alt add.commute)
    ultimately show ?thesis using True
      by (subst produce_new.simps) (simp add: assms Let_def max_absorb2 less_imp_le)
  next
    case False
    then show ?thesis by (subst produce_new.simps) (auto simp: max_def)
  qed
qed

lemma produce_polls_all:
  assumes "\<And>n. src n = Inr (Some (b n))" and "\<And>k. accepts k"
  shows "produce_polls src accepts (map Inr tips) l sent =
    (None, fold max tips l, sent @ blocks_in b (Suc (unat l)) (Suc (unat (fold max tips l))))
    \<and> l \<le> fold max tips l"
proof (induction tips arbitrary: l sent)
  case (Cons head_n tips)
  have "unat l \<le> unat (max l head_n)" and "max l head_n = max head_n l"
    by (simp add: max_def word_le_nat_alt) (rule max.commute)
  moreover have "max head_n l \<le> fold max tips (max head_n l)" using Cons by blast
  then have "unat (max head_n l) \<le> unat (fold max tips (max head_n l))" by (simp add: word_le_nat_alt)
  ultimately show ?case
    using Cons [of "max head_n l"] order_trans
    by (simp add: produce_new_all [where b = b, OF assms] blocks_in_append word_le_nat_alt)
qed simp

text \<open>
  With a provider that has every block and a consumer that stays, the RPC producer delivers every
  block after the one before the start, up to the highest tip seen, in order and each once. For a
  start of 0 the block before the start is taken to be block 0, so that block 0 is never delivered.
\<close>

theorem rpc_producer_delivers:
  assumes "\<And>n. src n = Inr (Some (b n))" and "\<And>k. accepts k"
  shows "rpc_produce src accepts start (map Inr tips) =
    (let l = saturating_sub start 1 in
     (None, fold max tips l, blocks_in b (Suc (unat l)) (Suc (unat (fold max tips l)))))"
  using produce_polls_all [where b = b and tips = tips and l = "saturating_sub start 1" and sent = "[]", OF assms]
  by (simp add: rpc_produce_def Let_def)

text \<open>The feeder: one block, the blocks up to a tip, the polls.\<close>

lemma feed_one_ok:
  assumes "src (fd_current s) = Inr (Some x)" and "accepts (length (fd_sent s))"
  shows "fst (feed_one B src accepts has_tui s) = None
    \<and> fd_sent (snd (feed_one B src accepts has_tui s)) = fd_sent s @ [x]
    \<and> fd_fetched (snd (feed_one B src accepts has_tui s)) = fd_fetched s + 1
    \<and> fd_current (snd (feed_one B src accepts has_tui s)) = fd_current s + 1"
  using assms by (simp add: feed_one_def feeder_tell_def Let_def)

lemma feed_to_tip_all:
  assumes "\<And>n. src n = Inr (Some (b n))" and "\<And>k. accepts k" and "head_n \<noteq> - 1"
  shows "\<exists>s'. feed_to_tip B src accepts has_tui head_n s = Some (None, s')
    \<and> unat (fd_current s') = max (unat (fd_current s)) (Suc (unat head_n))
    \<and> fd_sent s' = fd_sent s @ blocks_in b (unat (fd_current s)) (Suc (unat head_n))
    \<and> fd_fetched s' = fd_fetched s + of_nat (Suc (unat head_n) - unat (fd_current s))"
proof (induction "Suc (unat head_n) - unat (fd_current s)" arbitrary: s rule: less_induct)
  case less
  show ?case
  proof (cases "fd_current s \<le> head_n")
    case True
    define d where "d = snd (feed_one B src accepts has_tui s)"
    have d: "fst (feed_one B src accepts has_tui s) = None" "fd_sent d = fd_sent s @ [b (fd_current s)]"
      "fd_fetched d = fd_fetched s + 1" "fd_current d = fd_current s + 1"
      using feed_one_ok [where src = src and accepts = accepts and s = s and B = B and has_tui = has_tui,
        OF assms(1,2)] by (simp_all add: d_def)
    have "head_n < - 1" using assms(3) by (simp add: word_order.not_eq_extremum)
    then have "fd_current s < - 1" using True by simp
    then have u: "unat (fd_current d) = Suc (unat (fd_current s))" by (simp add: d(4) unat_next)
    have t: "unat (fd_current s) \<le> unat head_n" using True by (simp add: word_le_nat_alt)
    have shorter: "Suc (unat head_n) - unat (fd_current d) < Suc (unat head_n) - unat (fd_current s)"
      using u t by simp
    obtain s' where s': "feed_to_tip B src accepts has_tui head_n d = Some (None, s')"
      "unat (fd_current s') = max (unat (fd_current d)) (Suc (unat head_n))"
      "fd_sent s' = fd_sent d @ blocks_in b (unat (fd_current d)) (Suc (unat head_n))"
      "fd_fetched s' = fd_fetched d + of_nat (Suc (unat head_n) - unat (fd_current d))"
      using less [OF shorter] by blast
    have "fd_sent s' = fd_sent s @ blocks_in b (unat (fd_current s)) (Suc (unat head_n))"
      using s'(3) d(2) u t blocks_in_Cons [of "unat (fd_current s)" "Suc (unat head_n)" b] by simp
    moreover have "fd_fetched s' = fd_fetched s + of_nat (Suc (unat head_n) - unat (fd_current s))"
      using s'(4) d(3) u t by (simp add: Suc_diff_le)
    ultimately show ?thesis using s'(1,2) d(1) u t True
      by (subst feed_to_tip.simps) (simp add: Let_def flip: d_def)
  next
    case False
    then show ?thesis by (subst feed_to_tip.simps) (auto simp: word_le_nat_alt)
  qed
qed

definition feed_end :: "u64 list \<Rightarrow> nat \<Rightarrow> nat" where
  "feed_end tips n = fold (\<lambda>t n. max n (Suc (unat t))) tips n"

lemma feed_end_simps [simp]:
  "feed_end [] n = n" "feed_end (t # ts) n = feed_end ts (max n (Suc (unat t)))"
  by (simp_all add: feed_end_def)

lemma feed_end_ge: "n \<le> feed_end tips n"
proof (induction tips arbitrary: n)
  case (Cons t ts)
  have "max n (Suc (unat t)) \<le> feed_end ts (max n (Suc (unat t)))" by (rule Cons.IH)
  then show ?case by simp
qed simp

lemma run_block_feeder_all:
  assumes "\<And>n. src n = Inr (Some (b n))" and "\<And>k. accepts k"
  shows "- 1 \<notin> set tips \<Longrightarrow> \<exists>s'. run_block_feeder B src accepts has_tui (map Inr tips) s = Some (None, s')
    \<and> unat (fd_current s') = feed_end tips (unat (fd_current s))
    \<and> fd_sent s' = fd_sent s @ blocks_in b (unat (fd_current s)) (feed_end tips (unat (fd_current s)))
    \<and> fd_fetched s' = fd_fetched s + of_nat (feed_end tips (unat (fd_current s)) - unat (fd_current s))"
proof (induction tips arbitrary: s)
  case (Cons t tips)
  let ?n = "unat (fd_current s)" and ?m = "max (unat (fd_current s)) (Suc (unat t))"
  have t: "t \<noteq> - 1" and rest: "- 1 \<notin> set tips" using Cons.prems by auto
  obtain d where d: "feed_to_tip B src accepts has_tui t s = Some (None, d)" "unat (fd_current d) = ?m"
    "fd_sent d = fd_sent s @ blocks_in b ?n (Suc (unat t))"
    "fd_fetched d = fd_fetched s + of_nat (Suc (unat t) - ?n)"
    using feed_to_tip_all [where src = src and accepts = accepts and b = b and head_n = t and s = s
        and B = B and has_tui = has_tui, OF assms t] by (elim exE conjE) (rule that)
  obtain s' where s': "run_block_feeder B src accepts has_tui (map Inr tips) d = Some (None, s')"
    "unat (fd_current s') = feed_end tips ?m"
    "fd_sent s' = fd_sent d @ blocks_in b ?m (feed_end tips ?m)"
    "fd_fetched s' = fd_fetched d + of_nat (feed_end tips ?m - ?m)"
    using Cons.IH [OF rest, of d] unfolding d(2) by (elim exE conjE) (rule that)
  have ge: "?m \<le> feed_end tips ?m" by (rule feed_end_ge)
  have "blocks_in b ?n (Suc (unat t)) = blocks_in b ?n ?m" by (simp add: max_def)
  then have sent: "fd_sent s' = fd_sent s @ blocks_in b ?n (feed_end tips ?m)"
    using s'(3) d(3) blocks_in_append [of ?n ?m "feed_end tips ?m" b] ge by simp
  have "(Suc (unat t) - ?n) + (feed_end tips ?m - ?m) = feed_end tips ?m - ?n" using ge by simp
  then have "fd_fetched s' = fd_fetched s + of_nat (feed_end tips ?m - ?n)"
    by (simp only: s'(4) d(4) add.assoc flip: of_nat_add)
  with sent s'(1,2) d(1) show ?case by simp
qed simp

text \<open>Blocks that are only numbers, for the concrete run below.\<close>

definition empty_blocks :: "'b block_info" where
  "empty_blocks = \<lparr>bi_tx_count = (\<lambda>_. 0), bi_gas_used = (\<lambda>_. 0), bi_size = (\<lambda>_. 0)\<rparr>"

text \<open>
  C20: The block feeder ends every round and delivers every block once. With a provider that has
  every block, a receiver that stays and tips below the largest number, each round of the feeder
  returns to polling, however the tips rise and fall, and the blocks sent are exactly those from
  the start to the highest tip, in order; the counter shown to the interface is their number.
\<close>

theorem feeder_ends_and_delivers:
  assumes "\<And>n. src n = Inr (Some (b n))" and "\<And>k. accepts k" and "- 1 \<notin> set tips"
  shows "\<exists>s. run_block_feeder B src accepts has_tui (map Inr tips) (feeder_new start :: ('b, 'f) feeder) = Some (None, s)
    \<and> fd_sent s = blocks_in b (unat start) (feed_end tips (unat start))
    \<and> fd_fetched s = of_nat (length (fd_sent s))"
proof -
  obtain s :: "('b, 'f) feeder" where
    "run_block_feeder B src accepts has_tui (map Inr tips) (feeder_new start) = Some (None, s)"
    "fd_sent s = blocks_in b (unat start) (feed_end tips (unat start))"
    "fd_fetched s = of_nat (feed_end tips (unat start) - unat start)"
    using run_block_feeder_all [where src = src and accepts = accepts and b = b and tips = tips
        and s = "feeder_new start" and B = B and has_tui = has_tui, OF assms] unfolding feeder_new_def by auto
  moreover have "length (blocks_in b m n) = n - m" for m n by (simp add: blocks_in_def)
  ultimately show ?thesis by auto
qed

theorem feeder_ends_and_delivers_witness:
  "\<exists>s. run_block_feeder empty_blocks (\<lambda>n. Inr (Some n)) (\<lambda>_. True) True [Inr 2, Inr 1, Inr 3] (feeder_new 1 :: (u64, unit) feeder)
      = Some (None, s)
    \<and> fd_sent s = [1, 2, 3] \<and> fd_fetched s = 3"
proof -
  have "(- 1 :: u64) \<notin> set [2, 1, 3]" by simp
  from feeder_ends_and_delivers [where src = "\<lambda>n. Inr (Some n)" and b = "\<lambda>n. n" and accepts = "\<lambda>_. True"
      and B = empty_blocks and has_tui = True and start = 1, OF refl TrueI this]
  obtain s :: "(u64, unit) feeder" where s:
    "run_block_feeder empty_blocks (\<lambda>n. Inr (Some n)) (\<lambda>_. True) True (map Inr [2, 1, 3]) (feeder_new 1) = Some (None, s)"
    "fd_sent s = blocks_in (\<lambda>n. n) (unat (1 :: u64)) (feed_end [2, 1, 3] (unat (1 :: u64)))"
    "fd_fetched s = of_nat (length (fd_sent s))"
    by blast
  moreover have "blocks_in (\<lambda>n. n) (unat (1 :: u64)) (feed_end [2, 1, 3] (unat (1 :: u64))) = [1, 2, 3]"
    by (simp add: blocks_in_def upt_rec)
  ultimately show ?thesis by (intro exI [of _ s]) (simp only: list.map, simp)
qed

end
