(* ===== verification/Remote_Database.thy ===== *)
theory Remote_Database
  imports Cached_Database
begin

text \<open>
  The database that asks a remote node (\<^verbatim>\<open>crates/execution/database/src/remote.rs\<close>): the state
  at one block, read over JSON-RPC and remembered in memory and in one cache file per block.

  Outside the repository are the remote node, the file system and serde_json. Everything that
  may answer differently at different times is indexed by \<open>rd_time\<close>, which counts the calls to
  the outside; a remote node may fail at one time and answer at another, a file may be
  unreadable, a write may fail before, after or in the middle of its work. \<^verbatim>\<open>try_join!\<close> of the
  three account requests is one request that answers all three or one of the errors. The locks
  are never held across a panic, so they are not poisoned.
\<close>

section \<open>The state\<close>

record 'c block_cache =
  rc_accounts :: "bytes \<Rightarrow> 'c account_info option"
  rc_storage :: "string \<Rightarrow> u256 option"
  rc_block_hashes :: "u64 \<Rightarrow> bytes option"

datatype write_outcome = Written | Untouched | Torn string

record 'c remote_world =
  rw_account :: "nat \<Rightarrow> bytes \<Rightarrow> u64 \<Rightarrow> string + u64 \<times> u256 \<times> bytes"
  rw_storage_at :: "nat \<Rightarrow> bytes \<Rightarrow> u256 \<Rightarrow> u64 \<Rightarrow> string + u256"
  rw_block_by_number :: "nat \<Rightarrow> u64 \<Rightarrow> string + bytes option"
  rw_unreadable :: "nat \<Rightarrow> bool"
  rw_write :: "nat \<Rightarrow> write_outcome"
  rw_to_json :: "'c block_cache \<Rightarrow> string option"
  rw_from_json :: "string \<Rightarrow> 'c block_cache option"
  rw_show_address :: "bytes \<Rightarrow> string"

record 'c rpc_database =
  rd_cache :: "'c block_cache"
  rd_state_block :: u64
  rd_files :: "string \<Rightarrow> string option"
  rd_time :: nat

definition empty_cache :: "'c block_cache" where
  "empty_cache = \<lparr>rc_accounts = Map.empty, rc_storage = Map.empty, rc_block_hashes = Map.empty\<rparr>"

definition storage_key :: "'c remote_world \<Rightarrow> bytes \<Rightarrow> u256 \<Rightarrow> string" where
  "storage_key W a slot = rw_show_address W a @ '':'' @ dec (unat slot)"

definition cache_path :: "u64 \<Rightarrow> string" where
  "cache_path n = ''static/remote-db/'' @ dec (unat n) @ ''.json''"

definition passed :: "'c rpc_database \<Rightarrow> 'c rpc_database" where
  "passed db = db\<lparr>rd_time := Suc (rd_time db)\<rparr>"

section \<open>Cache files\<close>

definition load_cache_for_block :: "'c remote_world \<Rightarrow> nat \<Rightarrow> (string \<Rightarrow> string option) \<Rightarrow> u64 \<Rightarrow> 'c block_cache" where
  "load_cache_for_block W t fs n =
     (if rw_unreadable W t then empty_cache
      else case fs (cache_path n) of
        None \<Rightarrow> empty_cache
      | Some contents \<Rightarrow>
          (case rw_from_json W contents of Some c \<Rightarrow> c | None \<Rightarrow> empty_cache))"

definition rpc_new :: "'c remote_world \<Rightarrow> nat \<Rightarrow> (string \<Rightarrow> string option) \<Rightarrow> u64 \<Rightarrow> 'c rpc_database" where
  "rpc_new W t fs n =
     \<lparr>rd_cache = load_cache_for_block W t fs n, rd_state_block = n, rd_files = fs, rd_time = Suc t\<rparr>"

fun after_write :: "write_outcome \<Rightarrow> string \<Rightarrow> string option \<Rightarrow> string option" where
  "after_write Written json old = Some json"
| "after_write Untouched json old = old"
| "after_write (Torn s) json old = Some s"

text \<open>Every failure is a warning: the caller does not notice it.\<close>

definition save_file_cache :: "'c remote_world \<Rightarrow> 'c rpc_database \<Rightarrow> 'c rpc_database" where
  "save_file_cache W db =
     (case rw_to_json W (rd_cache db) of
        None \<Rightarrow> passed db
      | Some json \<Rightarrow>
          (let p = cache_path (rd_state_block db)
           in passed (db\<lparr>rd_files := (rd_files db)(p := after_write (rw_write W (rd_time db)) json (rd_files db p))\<rparr>)))"

section \<open>Reads\<close>

definition remote_info :: "'c bytecode_ops \<Rightarrow> u64 \<times> u256 \<times> bytes \<Rightarrow> 'c account_info" where
  "remote_info B answer =
     (case answer of (nonce, balance, code_bytes) \<Rightarrow>
        let bytecode = (if code_bytes = [] then bc_default B else bc_new_raw B code_bytes);
            code_hash = (if bc_is_empty B bytecode then keccak_empty B else bc_hash_slow B bytecode)
        in \<lparr>ai_nonce = nonce, ai_balance = balance, ai_code_hash = code_hash, ai_code = Some bytecode\<rparr>)"

definition fetch_account_info :: "'c remote_world \<Rightarrow> 'c bytecode_ops \<Rightarrow> bytes \<Rightarrow> 'c rpc_database
    \<Rightarrow> (db_error + 'c account_info) \<times> 'c rpc_database" where
  "fetch_account_info W B a db =
     (case rc_accounts (rd_cache db) a of
        Some info \<Rightarrow> (Inr info, db)
      | None \<Rightarrow>
          (case rw_account W (rd_time db) a (rd_state_block db) of
             Inl e \<Rightarrow> (Inl (''RPC error fetching account '' @ rw_show_address W a @ '': '' @ e), passed db)
           | Inr answer \<Rightarrow>
               (let info = remote_info B answer
                in (Inr info,
                    save_file_cache W (passed (db\<lparr>rd_cache :=
                      (rd_cache db)\<lparr>rc_accounts := (rc_accounts (rd_cache db))(a \<mapsto> info)\<rparr>\<rparr>))))))"

definition fetch_storage :: "'c remote_world \<Rightarrow> bytes \<Rightarrow> u256 \<Rightarrow> 'c rpc_database
    \<Rightarrow> (db_error + u256) \<times> 'c rpc_database" where
  "fetch_storage W a slot db =
     (case rc_storage (rd_cache db) (storage_key W a slot) of
        Some v \<Rightarrow> (Inr v, db)
      | None \<Rightarrow>
          (case rw_storage_at W (rd_time db) a slot (rd_state_block db) of
             Inl e \<Rightarrow> (Inl (''RPC error fetching storage '' @ storage_key W a slot @ '': '' @ e), passed db)
           | Inr v \<Rightarrow>
               (Inr v,
                save_file_cache W (passed (db\<lparr>rd_cache :=
                  (rd_cache db)\<lparr>rc_storage := (rc_storage (rd_cache db))(storage_key W a slot \<mapsto> v)\<rparr>\<rparr>)))))"

definition fetch_block_hash :: "'c remote_world \<Rightarrow> u64 \<Rightarrow> 'c rpc_database
    \<Rightarrow> (db_error + bytes) \<times> 'c rpc_database" where
  "fetch_block_hash W n db =
     (case rc_block_hashes (rd_cache db) n of
        Some h \<Rightarrow> (Inr h, db)
      | None \<Rightarrow>
          (case rw_block_by_number W (rd_time db) n of
             Inl e \<Rightarrow> (Inl (''RPC error fetching block '' @ dec (unat n) @ '': '' @ e), passed db)
           | Inr None \<Rightarrow> (Inl (''Block '' @ dec (unat n) @ '' not found''), passed db)
           | Inr (Some h) \<Rightarrow>
               (Inr h,
                save_file_cache W (passed (db\<lparr>rd_cache :=
                  (rd_cache db)\<lparr>rc_block_hashes := (rc_block_hashes (rd_cache db))(n \<mapsto> h)\<rparr>\<rparr>)))))"

definition rpc_basic :: "'c remote_world \<Rightarrow> 'c bytecode_ops \<Rightarrow> bytes \<Rightarrow> 'c rpc_database
    \<Rightarrow> (db_error + 'c account_info option) \<times> 'c rpc_database" where
  "rpc_basic W B a db =
     (case fetch_account_info W B a db of (r, db) \<Rightarrow> (rbind r (\<lambda>info. Inr (Some info)), db))"

text \<open>Code by hash: the answer is always the empty code, with a warning.\<close>

definition rpc_code_by_hash :: "'c bytecode_ops \<Rightarrow> bytes \<Rightarrow> 'c rpc_database \<Rightarrow> (db_error + 'c) \<times> 'c rpc_database" where
  "rpc_code_by_hash B h db = (Inr (bc_default B), db)"

section \<open>Commits\<close>

definition rpc_commit :: "'c evm_state \<Rightarrow> 'c rpc_database \<Rightarrow> 'c rpc_database" where
  "rpc_commit changes db = db"

definition rpc_commit_block :: "'c remote_world \<Rightarrow> u64 \<Rightarrow> 'c evm_state list \<Rightarrow> 'c rpc_database
    \<Rightarrow> (db_error + bytes) \<times> 'c rpc_database" where
  "rpc_commit_block W n changes db =
     (let db = save_file_cache W db;
          db = db\<lparr>rd_state_block := n\<rparr>
      in (Inr ZERO_HASH,
          passed (db\<lparr>rd_cache := load_cache_for_block W (rd_time db) (rd_files db) n\<rparr>)))"

text \<open>The database as revm sees it.\<close>

definition remote_database :: "'c remote_world \<Rightarrow> 'c bytecode_ops \<Rightarrow> ('c, 'c rpc_database) evm_database" where
  "remote_database W B =
     \<lparr>vm_basic = rpc_basic W B, vm_code = rpc_code_by_hash B, vm_storage = fetch_storage W,
      vm_block_hash = fetch_block_hash W, vm_commit = rpc_commit, vm_commit_block = rpc_commit_block W\<rparr>"

lemma remote_simps [simp]:
  "vm_basic (remote_database W B) = rpc_basic W B"
  "vm_code (remote_database W B) = rpc_code_by_hash B"
  "vm_storage (remote_database W B) = fetch_storage W"
  "vm_block_hash (remote_database W B) = fetch_block_hash W"
  "vm_commit_block (remote_database W B) = rpc_commit_block W"
  by (simp_all add: remote_database_def)

lemma passed_simps [frame_simps, simp]:
  "rd_cache (passed db) = rd_cache db" "rd_state_block (passed db) = rd_state_block db"
  "rd_files (passed db) = rd_files db"
  by (simp_all add: passed_def)

lemma save_frames [frame_simps, simp]:
  "rd_cache (save_file_cache W db) = rd_cache db"
  "rd_state_block (save_file_cache W db) = rd_state_block db"
  by (simp_all add: save_file_cache_def Let_def split: option.split)

section \<open>The archive behind it\<close>

text \<open>
  What an archive node promises: the state at a block, and the hash of a block, do not change.
  It is the database whose state is the block number.
\<close>

record archive =
  arc_account :: "bytes \<Rightarrow> u64 \<Rightarrow> u64 \<times> u256 \<times> bytes"
  arc_storage :: "bytes \<Rightarrow> u256 \<Rightarrow> u64 \<Rightarrow> u256"
  arc_hash :: "u64 \<Rightarrow> bytes"

definition archive_ops :: "archive \<Rightarrow> 'c bytecode_ops \<Rightarrow> ('c, u64) database_ops" where
  "archive_ops A B =
     \<lparr>db_basic = \<lambda>a n. Inr (Some (remote_info B (arc_account A a n))),
      db_code_by_hash = \<lambda>h n. Inr (bc_default B),
      db_storage = \<lambda>a k n. Inr (arc_storage A a k n),
      db_block_hash = \<lambda>m n. Inr (arc_hash A m),
      db_commit = \<lambda>_ n. n, db_commit_block = \<lambda>m _ n. (Inr ZERO_HASH, m)\<rparr>"

text \<open>
  The node answers from the archive when it answers; \<open>down\<close> says at which times it does not.
\<close>

definition answers :: "'c remote_world \<Rightarrow> (nat \<Rightarrow> bool) \<Rightarrow> archive \<Rightarrow> bool" where
  "answers W down A =
     (\<forall>t. if down t
       then (\<forall>a n. \<not> is_ok (rw_account W t a n)) \<and> (\<forall>a k n. \<not> is_ok (rw_storage_at W t a k n))
         \<and> (\<forall>n. \<not> is_ok (rw_block_by_number W t n))
       else (\<forall>a n. rw_account W t a n = Inr (arc_account A a n))
         \<and> (\<forall>a k n. rw_storage_at W t a k n = Inr (arc_storage A a k n))
         \<and> (\<forall>n. rw_block_by_number W t n = Inr (Some (arc_hash A n))))"

text \<open>serde_json and the printing of addresses: a written file is read back as it was, the
  pieces of one are no cache, and addresses are told apart without a colon.\<close>

definition formats :: "'c remote_world \<Rightarrow> bool" where
  "formats W =
     ((\<forall>c s. rw_to_json W c = Some s \<longrightarrow> rw_from_json W s = Some c)
      \<and> (\<forall>t s. rw_write W t = Torn s \<longrightarrow> rw_from_json W s = None)
      \<and> inj (rw_show_address W) \<and> (\<forall>a. CHR '':'' \<notin> set (rw_show_address W a)))"

definition honest_cache :: "'c remote_world \<Rightarrow> 'c bytecode_ops \<Rightarrow> archive \<Rightarrow> u64 \<Rightarrow> 'c block_cache \<Rightarrow> bool" where
  "honest_cache W B A n c =
     ((\<forall>a info. rc_accounts c a = Some info \<longrightarrow> info = remote_info B (arc_account A a n))
      \<and> (\<forall>a k v. rc_storage c (storage_key W a k) = Some v \<longrightarrow> v = arc_storage A a k n)
      \<and> (\<forall>m h. rc_block_hashes c m = Some h \<longrightarrow> h = arc_hash A m))"

text \<open>Every file that can be parsed is an honest cache of its block.\<close>

definition honest_files :: "'c remote_world \<Rightarrow> 'c bytecode_ops \<Rightarrow> archive \<Rightarrow> (string \<Rightarrow> string option) \<Rightarrow> bool" where
  "honest_files W B A fs =
     (\<forall>n s c. fs (cache_path n) = Some s \<longrightarrow> rw_from_json W s = Some c \<longrightarrow> honest_cache W B A n c)"

definition honest_database :: "'c remote_world \<Rightarrow> 'c bytecode_ops \<Rightarrow> archive \<Rightarrow> 'c rpc_database \<Rightarrow> bool" where
  "honest_database W B A db = (honest_cache W B A (rd_state_block db) (rd_cache db) \<and> honest_files W B A (rd_files db))"

lemma cache_path_inj [simp]: "cache_path m = cache_path n \<longleftrightarrow> m = n"
  by (simp add: cache_path_def word_unat_eq_iff)

lemma append_sep_inj: "c \<notin> set xs \<Longrightarrow> c \<notin> set ys \<Longrightarrow> xs @ c # us = ys @ c # vs \<longleftrightarrow> xs = ys \<and> us = vs"
proof (induction xs arbitrary: ys)
  case Nil
  then show ?case by (cases ys) auto
next
  case (Cons x xs)
  then show ?case by (cases ys) auto
qed

lemma storage_key_inj: "formats W \<Longrightarrow> storage_key W a k = storage_key W b l \<longleftrightarrow> a = b \<and> k = l"
  by (auto simp: formats_def storage_key_def append_sep_inj word_unat_eq_iff dest: injD)

lemma honest_empty: "honest_cache W B A n empty_cache"
  by (simp add: honest_cache_def empty_cache_def)

lemma honest_load: "honest_files W B A fs \<Longrightarrow> honest_cache W B A n (load_cache_for_block W t fs n)"
  by (auto simp: load_cache_for_block_def honest_empty honest_files_def split: option.splits)

lemma honest_new: "honest_files W B A fs \<Longrightarrow> honest_database W B A (rpc_new W t fs n)"
  by (simp add: honest_database_def rpc_new_def honest_load)

lemma honest_passed [simp]: "honest_database W B A (passed db) = honest_database W B A db"
  by (simp add: honest_database_def)

text \<open>However a save ends, every file is an honest cache, or none.\<close>

lemma honest_save:
  assumes "formats W" and "honest_database W B A db"
  shows "honest_database W B A (save_file_cache W db)"
proof (cases "rw_to_json W (rd_cache db)")
  case None
  with assms show ?thesis by (simp add: save_file_cache_def)
next
  case (Some json)
  then have json: "rw_from_json W json = Some (rd_cache db)" using assms(1) by (simp add: formats_def)
  have "honest_files W B A ((rd_files db)(cache_path (rd_state_block db) :=
      after_write (rw_write W (rd_time db)) json (rd_files db (cache_path (rd_state_block db)))))"
    using assms json
    by (cases "rw_write W (rd_time db)") (auto simp: honest_database_def honest_files_def formats_def)
  with Some assms show ?thesis by (simp add: save_file_cache_def Let_def honest_database_def)
qed

lemmas remote_reads = rpc_basic_def fetch_account_info_def fetch_storage_def fetch_block_hash_def
  rpc_code_by_hash_def

text \<open>Reads and commits keep all this, whether the node answers or not.\<close>

lemma answers_Inr:
  assumes "answers W down A"
  shows "rw_account W t a n = Inr x \<Longrightarrow> x = arc_account A a n"
    and "rw_storage_at W t a k n = Inr v \<Longrightarrow> v = arc_storage A a k n"
    and "rw_block_by_number W t n = Inr h \<Longrightarrow> h = Some (arc_hash A n)"
  using assms unfolding answers_def by (metis is_ok_simps(1) sum.inject(2))+

lemma honest_remember:
  assumes "formats W" and "honest_database W B A db"
  shows "honest_database W B A (db\<lparr>rd_cache := (rd_cache db)\<lparr>rc_accounts :=
            (rc_accounts (rd_cache db))(a \<mapsto> remote_info B (arc_account A a (rd_state_block db)))\<rparr>\<rparr>)"
    and "honest_database W B A (db\<lparr>rd_cache := (rd_cache db)\<lparr>rc_storage :=
            (rc_storage (rd_cache db))(storage_key W a k \<mapsto> arc_storage A a k (rd_state_block db))\<rparr>\<rparr>)"
    and "honest_database W B A (db\<lparr>rd_cache := (rd_cache db)\<lparr>rc_block_hashes :=
            (rc_block_hashes (rd_cache db))(m \<mapsto> arc_hash A m)\<rparr>\<rparr>)"
  using assms by (auto simp: honest_database_def honest_cache_def storage_key_inj)

lemma passed_upd: "passed (db\<lparr>rd_cache := c\<rparr>) = (passed db)\<lparr>rd_cache := c\<rparr>"
  by (simp add: passed_def)

lemma honest_reads:
  assumes "answers W down A" and "formats W" and "honest_database W B A db"
  shows "honest_database W B A (snd (rpc_basic W B a db))"
    and "honest_database W B A (snd (fetch_storage W a k db))"
    and "honest_database W B A (snd (fetch_block_hash W m db))"
  using assms honest_remember [OF assms(2), of B A "passed db"]
  by (auto simp: remote_reads Let_def passed_upd intro!: honest_save
      split: option.splits sum.splits dest: answers_Inr [OF assms(1)])

lemma reads_keep_block [simp]:
  "rd_state_block (snd (rpc_basic W B a db)) = rd_state_block db"
  "rd_state_block (snd (rpc_code_by_hash B h db)) = rd_state_block db"
  "rd_state_block (snd (fetch_storage W a k db)) = rd_state_block db"
  "rd_state_block (snd (fetch_block_hash W m db)) = rd_state_block db"
  by (simp_all add: remote_reads Let_def split: option.split sum.split)

section \<open>The node may be down\<close>

text \<open>What a read returns, at any time.\<close>

lemma reads_answer:
  assumes "answers W down A" and "honest_database W B A db"
  shows "fst (rpc_basic W B a db) = db_basic (archive_ops A B) a (rd_state_block db)
      \<or> (down (rd_time db) \<and> \<not> is_ok (fst (rpc_basic W B a db)) \<and> snd (rpc_basic W B a db) = passed db)"
    and "fst (fetch_storage W a k db) = db_storage (archive_ops A B) a k (rd_state_block db)
      \<or> (down (rd_time db) \<and> \<not> is_ok (fst (fetch_storage W a k db)) \<and> snd (fetch_storage W a k db) = passed db)"
    and "fst (fetch_block_hash W m db) = db_block_hash (archive_ops A B) m (rd_state_block db)
      \<or> (down (rd_time db) \<and> \<not> is_ok (fst (fetch_block_hash W m db)) \<and> snd (fetch_block_hash W m db) = passed db)"
proof -
  have node: "if down t
      then \<not> is_ok (rw_account W t a n) \<and> \<not> is_ok (rw_storage_at W t a k n) \<and> \<not> is_ok (rw_block_by_number W t m)
      else rw_account W t a n = Inr (arc_account A a n) \<and> rw_storage_at W t a k n = Inr (arc_storage A a k n)
         \<and> rw_block_by_number W t m = Inr (Some (arc_hash A m))" for t n
    using assms(1) by (auto simp: answers_def)
  from assms(2) node [of "rd_time db" "rd_state_block db"] show
    "fst (rpc_basic W B a db) = db_basic (archive_ops A B) a (rd_state_block db)
      \<or> (down (rd_time db) \<and> \<not> is_ok (fst (rpc_basic W B a db)) \<and> snd (rpc_basic W B a db) = passed db)"
    "fst (fetch_storage W a k db) = db_storage (archive_ops A B) a k (rd_state_block db)
      \<or> (down (rd_time db) \<and> \<not> is_ok (fst (fetch_storage W a k db)) \<and> snd (fetch_storage W a k db) = passed db)"
    "fst (fetch_block_hash W m db) = db_block_hash (archive_ops A B) m (rd_state_block db)
      \<or> (down (rd_time db) \<and> \<not> is_ok (fst (fetch_block_hash W m db)) \<and> snd (fetch_block_hash W m db) = passed db)"
    by (auto simp: remote_reads archive_ops_def honest_database_def honest_cache_def Let_def
        split: option.splits sum.splits if_splits)
qed

text \<open>After one answer the database needs the node no more: asked again in the same block, and
  also after a restart when the file was written, it answers at once.\<close>

definition remembers :: "'c remote_world \<Rightarrow> bytes \<Rightarrow> u256 \<Rightarrow> u64 \<Rightarrow> 'c block_cache \<Rightarrow> bool" where
  "remembers W a k m c =
     (rc_accounts c a \<noteq> None \<and> rc_storage c (storage_key W a k) \<noteq> None \<and> rc_block_hashes c m \<noteq> None)"

lemma remembered_reads:
  assumes "remembers W a k m (rd_cache db)"
  shows "snd (rpc_basic W B a db) = db" and "snd (fetch_storage W a k db) = db" and "snd (fetch_block_hash W m db) = db"
  using assms by (auto simp: remembers_def remote_reads)

section \<open>Runs\<close>

text \<open>
  A process reads, commits blocks, and is started again on the files it left.
\<close>

datatype ('c, 'r) remote_step =
    Reading "('c, 'r) reading"
  | Committing u64 "'c evm_state list"
  | Restarting u64

fun remote_run :: "'c remote_world \<Rightarrow> 'c bytecode_ops \<Rightarrow> ('c, 'r) remote_step list \<Rightarrow> 'c rpc_database
    \<Rightarrow> 'r list \<times> 'c rpc_database" where
  "remote_run W B [] db = ([], db)"
| "remote_run W B (Reading p # steps) db =
     (case perform (remote_database W B) p db of (r, db) \<Rightarrow>
      case remote_run W B steps db of (rs, db) \<Rightarrow> (r # rs, db))"
| "remote_run W B (Committing n changes # steps) db =
     remote_run W B steps (snd (vm_commit_block (remote_database W B) n changes db))"
| "remote_run W B (Restarting n # steps) db = remote_run W B steps (rpc_new W (rd_time db) (rd_files db) n)"

text \<open>The same on the archive itself.\<close>

fun archive_run :: "archive \<Rightarrow> 'c bytecode_ops \<Rightarrow> ('c, 'r) remote_step list \<Rightarrow> u64 \<Rightarrow> 'r list \<times> u64" where
  "archive_run A B [] n = ([], n)"
| "archive_run A B (Reading p # steps) n =
     (case archive_run A B steps n of (rs, n') \<Rightarrow> (fst (perform (plain_database (archive_ops A B)) p n) # rs, n'))"
| "archive_run A B (Committing m changes # steps) n = archive_run A B steps m"
| "archive_run A B (Restarting m # steps) n = archive_run A B steps m"

lemma perform_block [simp]: "rd_state_block (snd (perform (remote_database W B) p db)) = rd_state_block db"
  by (rule perform_keeps [where P = "\<lambda>s. rd_state_block s = rd_state_block db"]) simp_all

lemma code_keeps [simp]: "rpc_code_by_hash B h db = (Inr (bc_default B), db)"
  by (simp add: rpc_code_by_hash_def)

lemma archive_perform_keeps: "snd (perform (plain_database (archive_ops A B)) p n) = n"
  by (rule perform_keeps [where P = "\<lambda>s. s = n"]) simp_all

text \<open>While the node answers, the database reads through to the archive at its block.\<close>

interpretation remote: read_through "remote_database W B" "archive_ops A B"
    "\<lambda>db. answers W (\<lambda>_. False) A \<and> formats W \<and> honest_database W B A db" rd_state_block for W A B
proof (unfold_locales, goal_cases)
  case (1 db a)
  then show ?case using reads_answer(1) [of W _ A B db a] honest_reads(1) [of W _ A B db a] by auto
next
  case (2 db h)
  then show ?case by (simp add: archive_ops_def)
next
  case (3 db a k)
  then show ?case using reads_answer(2) [of W _ A B db a k] honest_reads(2) [of W _ A B db a k] by auto
next
  case (4 db m)
  then show ?case using reads_answer(3) [of W _ A B db m] honest_reads(3) [of W _ A B db m] by auto
qed

lemma honest_commit:
  assumes "formats W" and "honest_database W B A db"
  shows "honest_database W B A (snd (rpc_commit_block W n changes db)) \<and> rd_state_block (snd (rpc_commit_block W n changes db)) = n"
  using honest_save [OF assms] by (simp add: rpc_commit_block_def Let_def honest_database_def honest_load)

lemma remote_run_follows:
  assumes "answers W (\<lambda>_. False) A" and "formats W" and "honest_database W B A db"
  shows "fst (remote_run W B steps db) = fst (archive_run A B steps (rd_state_block db))
    \<and> rd_state_block (snd (remote_run W B steps db)) = snd (archive_run A B steps (rd_state_block db))
    \<and> honest_database W B A (snd (remote_run W B steps db))"
  using assms(3)
proof (induction steps arbitrary: db)
  case (Cons step steps)
  show ?case
  proof (cases step)
    case (Reading p)
    then show ?thesis
      using Cons.IH [of "snd (perform (remote_database W B) p db)"]
        remote.transparent [of W A B db p] assms(1, 2) Cons.prems
      by (simp add: split_beta)
  next
    case (Committing n changes)
    then show ?thesis using honest_commit [OF assms(2) Cons.prems, of n changes] Cons.IH by simp
  next
    case (Restarting n)
    have "honest_database W B A (rpc_new W (rd_time db) (rd_files db) n)"
      using Cons.prems by (intro honest_new) (simp add: honest_database_def)
    from Restarting Cons.IH [OF this] show ?thesis by (simp add: rpc_new_def)
  qed
qed simp

text \<open>
  A node whose accounts have the block number as nonce, with a disk that tears every second write
  and a printer of addresses that takes two letters for a byte.
\<close>

definition block_archive :: archive where
  "block_archive =
     \<lparr>arc_account = (\<lambda>_ n. (n, 0, [])), arc_storage = (\<lambda>_ k _. k), arc_hash = (\<lambda>_. ZERO_HASH)\<rparr>"

fun letters :: "bytes \<Rightarrow> string" where
  "letters [] = []"
| "letters (b # bs) = char_of (65 + unat b div 16) # char_of (65 + unat b mod 16) # letters bs"

definition torn_world :: "bytes remote_world" where
  "torn_world =
     \<lparr>rw_account = (\<lambda>_ _ n. Inr (n, 0, [])), rw_storage_at = (\<lambda>_ _ k _. Inr k),
      rw_block_by_number = (\<lambda>_ _. Inr (Some ZERO_HASH)), rw_unreadable = (\<lambda>_. False),
      rw_write = (\<lambda>t. if even t then Torn ''{'' else Written),
      rw_to_json = (\<lambda>c. if c = empty_cache then Some ''{}'' else None),
      rw_from_json = (\<lambda>s. if s = ''{}'' then Some empty_cache else None),
      rw_show_address = letters\<rparr>"

lemma letter_values:
  "of_char (char_of (65 + unat (b :: u8) div 16) :: char) = 65 + unat b div 16"
  "of_char (char_of (65 + unat (b :: u8) mod 16) :: char) = 65 + unat b mod 16"
proof -
  have "unat b < 256" using unsigned_less [of b, where ?'a = nat] by simp
  then show "of_char (char_of (65 + unat b div 16) :: char) = 65 + unat b div 16"
    "of_char (char_of (65 + unat b mod 16) :: char) = 65 + unat b mod 16"
    by simp_all
qed

lemma letters_inj: "letters a = letters b \<longleftrightarrow> a = b"
proof (induction a arbitrary: b)
  case Nil
  then show ?case by (cases b) auto
next
  case (Cons x a)
  have "x = y" if "(char_of (65 + unat x div 16) :: char) = char_of (65 + unat y div 16)"
    and "(char_of (65 + unat x mod 16) :: char) = char_of (65 + unat y mod 16)" for y
  proof -
    from that have "unat x div 16 = unat y div 16" "unat x mod 16 = unat y mod 16"
      by (metis letter_values add_left_cancel)+
    then have "unat x = unat y" by (metis div_mult_mod_eq)
    then show ?thesis by (simp add: word_unat_eq_iff)
  qed
  with Cons show ?case by (cases b) auto
qed

lemma letters_colon: "CHR '':'' \<notin> set (letters a)"
proof (induction a)
  case (Cons b a)
  have "c \<noteq> CHR '':''" if "65 \<le> (of_char c :: nat)" for c
    using that by auto
  with Cons show ?case by (metis letter_values le_add1 letters.simps(2) set_ConsD)
qed simp

lemma torn_world_ok: "answers torn_world (\<lambda>_. False) block_archive" "formats torn_world"
  by (auto simp: answers_def formats_def torn_world_def block_archive_def letters_inj letters_colon
      intro!: injI split: if_splits)

text \<open>
  C13: The database that asks a remote node is, for its clients, the archive itself: a process that
  reads in whatever way, commits blocks and is restarted on its cache files at other blocks gets
  for every reading computation exactly the result that the computation has on the state of the
  block it is at. It does not matter which reads are answered from memory, from a file or by the
  node, nor which cache files are unreadable, missing, not written or torn in the middle; and the
  files it leaves are honest for the next process.
\<close>

theorem remote_is_the_archive:
  assumes "answers W (\<lambda>_. False) A" and "formats W" and "honest_files W B A fs"
  shows "fst (remote_run W B steps (rpc_new W t fs n)) = fst (archive_run A B steps n)
    \<and> rd_state_block (snd (remote_run W B steps (rpc_new W t fs n))) = snd (archive_run A B steps n)
    \<and> honest_files W B A (rd_files (snd (remote_run W B steps (rpc_new W t fs n))))"
  using remote_run_follows [OF assms(1, 2) honest_new [OF assms(3)], of steps t n]
  by (simp add: rpc_new_def honest_database_def)

theorem remote_is_the_archive_witness:
  "fst (remote_run torn_world raw_code
      [Reading (Ask_Basic [1] (\<lambda>r. case r of Inr (Some i) \<Rightarrow> Ask_Basic [1] (\<lambda>_. Done_With (ai_nonce i)) | _ \<Rightarrow> Done_With 0)),
       Committing 5 [], Reading (Ask_Basic [1] (\<lambda>r. case r of Inr (Some i) \<Rightarrow> Done_With (ai_nonce i) | _ \<Rightarrow> Done_With 0)),
       Restarting 7, Reading (Ask_Storage [1] 8 (\<lambda>r. case r of Inr v \<Rightarrow> Done_With (ucast v) | _ \<Rightarrow> Done_With 0))]
      (rpc_new torn_world 0 Map.empty 3)) = [3, 5, 8 :: u64]"
proof -
  have "honest_files torn_world raw_code block_archive Map.empty" by (simp add: honest_files_def)
  note same = remote_is_the_archive [OF torn_world_ok this, THEN conjunct1]
  show ?thesis
    by (subst same) (simp add: archive_ops_def remote_info_def block_archive_def raw_code_def Let_def)
qed

end
