(* ===== verification/Command_Line.thy ===== *)
theory Command_Line
  imports Node_Main Batch_Context
begin

text \<open>
  The command line (\<^verbatim>\<open>crates/utilities/cli\<close>) and the \<^verbatim>\<open>main\<close> function of the binary
  (\<^verbatim>\<open>bin/montana/src/main.rs\<close>), which checks the arguments, adjusts them in harness mode and
  resets the checkpoint. Parsing the arguments is clap's work; a command line here is what clap
  returns.
\<close>

section \<open>Enumerations\<close>

fun show_montana_mode :: "montana_mode \<Rightarrow> string" where
  "show_montana_mode ExecutorMode = ''executor''"
| "show_montana_mode SequencerMode = ''sequencer''"
| "show_montana_mode ValidatorMode = ''validator''"
| "show_montana_mode DualMode = ''dual''"

datatype compression_algorithm = Alg_Brotli | Alg_Zlib | Alg_Zstd | Alg_All

fun show_compression_algorithm :: "compression_algorithm \<Rightarrow> string" where
  "show_compression_algorithm Alg_Brotli = ''brotli''"
| "show_compression_algorithm Alg_Zlib = ''zlib''"
| "show_compression_algorithm Alg_Zstd = ''zstd''"
| "show_compression_algorithm Alg_All = ''all''"

definition all_algorithms :: "compression_algorithm list" where
  "all_algorithms = [Alg_Brotli, Alg_Zlib, Alg_Zstd]"

datatype pipeline_mode = Mode_Batch | Mode_Derivation | Mode_Roundtrip

fun show_pipeline_mode :: "pipeline_mode \<Rightarrow> string" where
  "show_pipeline_mode Mode_Batch = ''batch''"
| "show_pipeline_mode Mode_Derivation = ''derivation''"
| "show_pipeline_mode Mode_Roundtrip = ''roundtrip''"

text \<open>The arguments of the pipeline examples, with their defaults.\<close>

record pipeline_cli =
  pc_verbose :: u8
  pc_mode :: pipeline_mode
  pc_input :: string
  pc_output :: string
  pc_compression :: compression_algorithm

definition pipeline_cli_default :: pipeline_cli where
  "pipeline_cli_default =
     \<lparr>pc_verbose = 0, pc_mode = Mode_Batch, pc_input = ''static/base_mainnet_blocks.json'',
      pc_output = ''output.json'', pc_compression = Alg_Brotli\<rparr>"

datatype trace_level = Trace_Warn | Trace_Info | Trace_Debug | Trace_Trace

definition verbosity_level :: "u8 \<Rightarrow> trace_level" where
  "verbosity_level v =
     (if v = 0 then Trace_Warn else if v = 1 then Trace_Info else if v = 2 then Trace_Debug else Trace_Trace)"

text \<open>The process-wide shutdown flag: set by the handler of Ctrl+C, unless listening fails, and
  by the interface; never reset.\<close>

definition request_shutdown :: "bool \<Rightarrow> bool" where
  "request_shutdown flag = True"

definition ctrlc_handler :: "string + unit \<Rightarrow> bool \<Rightarrow> bool" where
  "ctrlc_handler received flag = (case received of Inl _ \<Rightarrow> flag | Inr _ \<Rightarrow> True)"

section \<open>The arguments of the node\<close>

record montana_cli =
  cli_rpc_url :: "string option"
  cli_mode :: montana_mode
  cli_headless :: bool
  cli_skip_sync :: bool
  cli_start :: "u64 option"
  cli_poll_interval_ms :: u64
  cli_checkpoint_path :: path
  cli_checkpoint_interval :: u64
  cli_sync_threshold :: u64
  cli_log_level :: string
  cli_batch_mode :: submission_mode
  cli_l1_rpc_url :: "string option"
  cli_with_harness :: bool
  cli_reset_checkpoint :: bool
  cli_harness_block_time_ms :: u64
  cli_harness_initial_blocks :: u64
  cli_harness_tx_per_block :: u64

definition montana_cli_default :: montana_cli where
  "montana_cli_default =
     \<lparr>cli_rpc_url = None, cli_mode = DualMode, cli_headless = False, cli_skip_sync = False,
      cli_start = None, cli_poll_interval_ms = 2000,
      cli_checkpoint_path = \<lparr>parent_dir = ''./data'', file_name = ''checkpoint.json''\<rparr>,
      cli_checkpoint_interval = 10, cli_sync_threshold = 10, cli_log_level = ''info'',
      cli_batch_mode = AnvilMode, cli_l1_rpc_url = None, cli_with_harness = False,
      cli_reset_checkpoint = False, cli_harness_block_time_ms = 50, cli_harness_initial_blocks = 10,
      cli_harness_tx_per_block = 10000\<rparr>"

section \<open>The main function\<close>

definition executor_unsupported :: "string list" where
  "executor_unsupported =
     [''Error: Executor mode is not yet supported in the new node architecture.'',
      ''Please use 'sequencer', 'validator', or 'dual' mode instead.'']"

definition rpc_url_required :: "string list" where
  "rpc_url_required = [''Error: --rpc-url is required unless --with-harness is enabled.'']"

datatype main_outcome = Exit_Failure "string list" | Run_Node montana_cli

definition harness_adjust :: "montana_cli \<Rightarrow> montana_cli" where
  "harness_adjust c =
     (if cli_with_harness c \<and> \<not> cli_skip_sync c
      then (let c = c\<lparr>cli_skip_sync := True\<rparr>
            in if cli_start c = None then c\<lparr>cli_start := Some 0\<rparr> else c)
      else c)"

text \<open>\<open>removed\<close> says whether removing the file succeeds; a failure is a warning.\<close>

definition reset_checkpoint_file :: "bool \<Rightarrow> montana_cli \<Rightarrow> file_system \<Rightarrow> file_system" where
  "reset_checkpoint_file removed c fs =
     (if (cli_reset_checkpoint c \<or> cli_with_harness c) \<and> files fs (cli_checkpoint_path c) \<noteq> None \<and> removed
      then fs\<lparr>files := (files fs)(cli_checkpoint_path c := None)\<rparr> else fs)"

definition montana_main :: "bool \<Rightarrow> montana_cli \<Rightarrow> file_system \<Rightarrow> main_outcome \<times> file_system" where
  "montana_main removed c fs =
     (if cli_mode c = ExecutorMode then (Exit_Failure executor_unsupported, fs)
      else if \<not> cli_with_harness c \<and> cli_rpc_url c = None then (Exit_Failure rpc_url_required, fs)
      else (let c = harness_adjust c in (Run_Node c, reset_checkpoint_file removed c fs)))"

lemma harness_adjust_simps [simp]:
  "cli_mode (harness_adjust c) = cli_mode c" "cli_with_harness (harness_adjust c) = cli_with_harness c"
  "cli_rpc_url (harness_adjust c) = cli_rpc_url c" "cli_checkpoint_path (harness_adjust c) = cli_checkpoint_path c"
  "cli_skip_sync (harness_adjust c) = (cli_skip_sync c \<or> cli_with_harness c)"
  by (auto simp: harness_adjust_def Let_def)

text \<open>What a command line that reaches the runtime looks like.\<close>

lemma main_runs:
  assumes "montana_main removed c fs = (Run_Node c', fs')"
  shows "cli_mode c' = cli_mode c" and "cli_mode c' \<noteq> ExecutorMode"
    and "cli_with_harness c' \<or> cli_rpc_url c' \<noteq> None"
    and "cli_with_harness c' \<Longrightarrow> cli_skip_sync c'"
  using assms by (auto simp: montana_main_def Let_def split: if_splits)

end
