(* ===== verification/Adapters.thy ===== *)
theory Adapters
  imports Sequencer Validator Batch_Context Tui_App
begin

text \<open>
  The adapters between the crates (\<^verbatim>\<open>crates/utilities/adapters/src/lib.rs\<close>): the batch sink and
  source of the context as the sink and source of the roles, the callbacks of the roles as
  events of the terminal interface, and the store that carries the transaction counts of blocks
  from the batch callback to the derivation callback.

  \<^verbatim>\<open>TuiHandle::send\<close> (\<^verbatim>\<open>crates/utilities/tui/src/handle.rs\<close>) drops the events that nobody
  receives; the events here are those sent. The lock of the store is never held across a panic,
  so it is not poisoned, and its operations are total.
\<close>

section \<open>The transaction counts\<close>

type_synonym tx_count_store = "u64 \<Rightarrow> usize option"

definition count_store_new :: tx_count_store where
  "count_store_new = Map.empty"

fun record_counts :: "u64 \<Rightarrow> nat \<Rightarrow> usize list \<Rightarrow> tx_count_store \<Rightarrow> tx_count_store" where
  "record_counts start i [] s = s"
| "record_counts start i (c # cs) s = record_counts start (Suc i) cs (s(start + of_nat i \<mapsto> c))"

definition record_batch :: "u64 \<Rightarrow> usize list \<Rightarrow> tx_count_store \<Rightarrow> tx_count_store" where
  "record_batch start block_tx_counts s = record_counts start 0 block_tx_counts s"

definition get_tx_count :: "u64 \<Rightarrow> tx_count_store \<Rightarrow> usize" where
  "get_tx_count n s = (case s n of Some c \<Rightarrow> c | None \<Rightarrow> 0)"

definition remove_count :: "u64 \<Rightarrow> tx_count_store \<Rightarrow> tx_count_store" where
  "remove_count n s = s(n := None)"

section \<open>Sinks and sources\<close>

text \<open>
  \<open>inner\<close> is what the sink of the context does with a batch, \<open>next\<close> and \<open>head\<close> what its source
  answers.
\<close>

definition adapter_submit :: "(compressed_batch \<Rightarrow> 's \<Rightarrow> (ctx_sink_error + submission_receipt) \<times> 's)
    \<Rightarrow> compressed_batch \<Rightarrow> 's \<Rightarrow> (sink_error + submission_receipt) \<times> 's" where
  "adapter_submit inner b s = (case inner b s of (r, s) \<Rightarrow> (adapt_sink_result r, s))"

definition adapter_capacity :: "sink_error + usize" where
  "adapter_capacity = Inr 1000"

definition adapter_health_check :: "sink_error + unit" where
  "adapter_health_check = Inr ()"

definition adapter_next_batch :: "('s \<Rightarrow> (ctx_source_error + compressed_batch option) \<times> 's)
    \<Rightarrow> 's \<Rightarrow> (source_error + compressed_batch option) \<times> 's" where
  "adapter_next_batch next s = (case next s of (r, s) \<Rightarrow> (adapt_source_result r, s))"

definition adapter_l1_head :: "('s \<Rightarrow> ctx_source_error + u64) \<Rightarrow> 's \<Rightarrow> source_error + u64" where
  "adapter_l1_head head s = adapt_source_result (head s)"

section \<open>Callbacks\<close>

text \<open>What the interface has been sent, and the store both callbacks share.\<close>

record 'f callback_state =
  cb_events :: "'f tui_event list"
  cb_store :: tx_count_store

definition callbacks_new :: "'f callback_state" where
  "callbacks_new = \<lparr>cb_events = [], cb_store = count_store_new\<rparr>"

definition cb_send :: "'f tui_event list \<Rightarrow> 'f callback_state \<Rightarrow> 'f callback_state" where
  "cb_send es s = s\<lparr>cb_events := cb_events s @ es\<rparr>"

definition tui_on_block_executed :: "u64 \<Rightarrow> u64 \<Rightarrow> u64 \<Rightarrow> 'f callback_state \<Rightarrow> 'f callback_state" where
  "tui_on_block_executed n us gas s = cb_send [UiBlockExecuted n us gas] s"

definition tui_on_batch_submitted :: "u64 \<Rightarrow> usize \<Rightarrow> u64 \<Rightarrow> u64 \<Rightarrow> usize \<Rightarrow> usize \<Rightarrow> usize list \<Rightarrow> u64
    \<Rightarrow> 'f callback_state \<Rightarrow> 'f callback_state" where
  "tui_on_batch_submitted n count first_b last_b uncompressed compressed tx_counts l1 s =
     cb_send [UiBatchSubmitted n count first_b last_b uncompressed compressed, BatchIncludedInL1 l1 n count]
       (s\<lparr>cb_store := record_batch first_b tx_counts (cb_store s)\<rparr>)"

definition tui_on_batch_derived :: "u64 \<Rightarrow> usize \<Rightarrow> u64 \<Rightarrow> u64 \<Rightarrow> 'f callback_state \<Rightarrow> 'f callback_state" where
  "tui_on_batch_derived n count first_b last_b s = cb_send [UiBatchDerived n (of_nat count) first_b last_b] s"

definition tui_on_block_derived :: "u64 \<Rightarrow> usize \<Rightarrow> u64 \<Rightarrow> u64 \<Rightarrow> 'f callback_state \<Rightarrow> 'f callback_state" where
  "tui_on_block_derived n tx_count derivation_time execution_time s =
     (let actual = get_tx_count n (cb_store s);
          s = s\<lparr>cb_store := remove_count n (cb_store s)\<rparr>
      in cb_send [UiBlockDerived n actual derivation_time execution_time] s)"

definition tui_on_l1_block_produced :: "u64 \<Rightarrow> 'f callback_state \<Rightarrow> 'f callback_state" where
  "tui_on_l1_block_produced n s = cb_send [L1BlockProduced n] s"

text \<open>The progress of the harness.\<close>

definition adapter_report_progress :: "u64 \<Rightarrow> u64 \<Rightarrow> string \<Rightarrow> 'f tui_event list" where
  "adapter_report_progress n of_blocks message = [HarnessInitProgress n of_blocks message]"

definition adapter_report_init_complete :: "u64 \<Rightarrow> 'f tui_event list" where
  "adapter_report_init_complete final_block = [HarnessInitComplete final_block]"

text \<open>
  A run of the callbacks: the outputs of the sequencer and of the validator, in the order in
  which the node's ticks make them. The event channels of the roles are not connected to the
  interface.
\<close>

datatype role_output = From_Sequencer sequencer_output | From_Validator validator_output

fun role_call_back :: "role_output \<Rightarrow> 'f callback_state \<Rightarrow> 'f callback_state" where
  "role_call_back (From_Sequencer (OnBlockExecuted n us gas)) s = tui_on_block_executed n us gas s"
| "role_call_back (From_Sequencer (OnBatchSubmitted n k f l u c cs l1)) s = tui_on_batch_submitted n k f l u c cs l1 s"
| "role_call_back (From_Sequencer (SequencerEvent e)) s = s"
| "role_call_back (From_Validator (OnBatchDerived n k f l)) s = tui_on_batch_derived n k f l s"
| "role_call_back (From_Validator (OnBlockDerived n k d e)) s = tui_on_block_derived n k d e s"
| "role_call_back (From_Validator (OnL1BlockProduced n)) s = tui_on_l1_block_produced n s"
| "role_call_back (From_Validator (ValidatorEvent e)) s = s"

definition role_call_backs :: "role_output list \<Rightarrow> 'f callback_state \<Rightarrow> 'f callback_state" where
  "role_call_backs outs s = fold role_call_back outs s"

lemmas callback_defs = tui_on_block_executed_def tui_on_batch_submitted_def tui_on_batch_derived_def
  tui_on_block_derived_def tui_on_l1_block_produced_def cb_send_def Let_def

section \<open>What the store holds\<close>

text \<open>The entry that recording a batch makes for a block, when the numbers of the batch do not
  come round.\<close>

lemma record_counts_at:
  assumes "i + length cs \<le> 2 ^ 64"
  shows "record_counts f i cs s n =
    (let k = unat (n - f) in if i \<le> k \<and> k < i + length cs then Some (cs ! (k - i)) else s n)"
  using assms
proof (induction cs arbitrary: i s)
  case (Cons c cs)
  have k: "n = f + of_nat i \<longleftrightarrow> unat (n - f) = i"
  proof
    assume "n = f + of_nat i"
    then show "unat (n - f) = i" using Cons.prems by (simp add: unat_of_nat take_bit_eq_mod)
  next
    assume "unat (n - f) = i"
    then have "of_nat i = (of_nat (unat (n - f)) :: u64)" by simp
    then have "of_nat i = n - f" by simp
    then show "n = f + of_nat i" by simp
  qed
  have "record_counts f i (c # cs) s n = record_counts f (Suc i) cs (s(f + of_nat i \<mapsto> c)) n" by simp
  also have "\<dots> = (let k = unat (n - f) in if Suc i \<le> k \<and> k < Suc i + length cs then Some (cs ! (k - Suc i))
      else (s(f + of_nat i \<mapsto> c)) n)"
    using Cons.prems by (intro Cons.IH) simp
  also have "\<dots> = (let k = unat (n - f) in if i \<le> k \<and> k < i + length (c # cs) then Some ((c # cs) ! (k - i)) else s n)"
    using k by (auto simp: Let_def nth_Cons' Suc_le_eq)
  finally show ?case .
qed (auto simp: Let_def)

text \<open>What a call of the callbacks says about the transaction count of block \<open>n\<close>: nothing, or
  that it is now so many, or that it is forgotten.\<close>

fun says :: "u64 \<Rightarrow> role_output \<Rightarrow> usize option option" where
  "says n (From_Sequencer (OnBatchSubmitted _ _ f _ _ _ cs _)) =
     (if unat (n - f) < length cs then Some (Some (cs ! unat (n - f))) else None)"
| "says n (From_Validator (OnBlockDerived m _ _ _)) = (if m = n then Some None else None)"
| "says n out = None"

text \<open>The latest that was said, by looking back.\<close>

definition latest :: "u64 \<Rightarrow> role_output list \<Rightarrow> usize option" where
  "latest n outs = (case filter (\<lambda>out. says n out \<noteq> None) (rev outs) of [] \<Rightarrow> None | out # _ \<Rightarrow> the (says n out))"

fun batch_sizes_ok :: "role_output \<Rightarrow> bool" where
  "batch_sizes_ok (From_Sequencer (OnBatchSubmitted _ _ _ _ _ _ cs _)) = (length cs \<le> 2 ^ 64)"
| "batch_sizes_ok out = True"

lemma call_back_store:
  assumes "batch_sizes_ok out"
  shows "cb_store (role_call_back out s) n = (case says n out of None \<Rightarrow> cb_store s n | Some c \<Rightarrow> c)"
  using assms
  by (cases "(out, s)" rule: role_call_back.cases)
    (auto simp: callback_defs record_batch_def record_counts_at remove_count_def)

lemma latest_snoc: "latest n (outs @ [out]) = (case says n out of None \<Rightarrow> latest n outs | Some c \<Rightarrow> c)"
  by (auto simp: latest_def)

lemma call_backs_snoc: "role_call_backs (outs @ [out]) s = role_call_back out (role_call_backs outs s)"
  by (simp add: role_call_backs_def)

lemma call_backs_append: "role_call_backs (xs @ ys) s = role_call_backs ys (role_call_backs xs s)"
  by (simp add: role_call_backs_def)

lemma store_is_latest:
  assumes "list_all batch_sizes_ok outs"
  shows "cb_store (role_call_backs outs callbacks_new) n = latest n outs"
  using assms
proof (induction outs rule: rev_induct)
  case Nil
  then show ?case by (simp add: role_call_backs_def callbacks_new_def count_store_new_def latest_def)
next
  case (snoc out outs)
  then show ?case by (simp add: call_backs_snoc latest_snoc call_back_store split: option.split)
qed

lemma latest_quiet: "\<forall>out\<in>set mid. says n out = None \<Longrightarrow> latest n (outs @ mid) = latest n outs"
proof (induction mid rule: rev_induct)
  case (snoc out mid)
  then show ?case using latest_snoc [of n "outs @ mid" out] by simp
qed simp

lemma events_derived:
  "cb_events (role_call_back (From_Validator (OnBlockDerived n k d e)) s) = cb_events s @ [UiBlockDerived n (get_tx_count n (cb_store s)) d e]"
  by (simp add: callback_defs)

text \<open>
  C34: The interface shows the right number of transactions for every derived block. Whatever the
  sequencer and the validator reported before and in between, when a block is derived whose batch
  was reported as submitted, and neither was its number reported again nor was it derived since,
  then the interface is sent the block with the transaction count that the sequencer gave for it
  when it submitted the batch (not the count the validator passes), and the store forgets the
  block and nothing else.
\<close>

theorem derived_block_shows_count:
  assumes "list_all batch_sizes_ok (before @ From_Sequencer (OnBatchSubmitted b k f l u c cs l1) # between)"
    and "i < length cs"
    and "\<forall>out\<in>set between. says (f + of_nat i) out = None"
  shows "let s = role_call_backs (before @ From_Sequencer (OnBatchSubmitted b k f l u c cs l1) # between) (callbacks_new :: 'f callback_state);
             s' = role_call_back (From_Validator (OnBlockDerived (f + of_nat i) tx_count d e)) s
    in cb_events s' = cb_events s @ [UiBlockDerived (f + of_nat i) (cs ! i) d e]
     \<and> cb_store s' = (cb_store s)(f + of_nat i := None)"
proof -
  let ?outs = "before @ From_Sequencer (OnBatchSubmitted b k f l u c cs l1) # between"
  have "length cs \<le> 2 ^ 64" using assms(1) by simp
  then have i: "unat ((f + of_nat i) - f) = i" using assms(2) by (simp add: unat_of_nat take_bit_eq_mod)
  have "latest (f + of_nat i) ?outs = latest (f + of_nat i) (before @ [From_Sequencer (OnBatchSubmitted b k f l u c cs l1)])"
    using latest_quiet [OF assms(3), of "before @ [From_Sequencer (OnBatchSubmitted b k f l u c cs l1)]"] by simp
  also have "\<dots> = Some (cs ! i)" using i assms(2) by (simp add: latest_snoc)
  finally have "cb_store (role_call_backs ?outs (callbacks_new :: 'f callback_state)) (f + of_nat i) = Some (cs ! i)"
    by (simp only: store_is_latest [OF assms(1)])
  then show ?thesis by (simp add: callback_defs get_tx_count_def remove_count_def)
qed

theorem derived_block_shows_count_witness:
  "cb_events (role_call_backs
      [From_Sequencer (OnBatchSubmitted 1 2 7 8 100 50 [3, 4] 9), From_Validator (OnBlockDerived 7 0 1 1),
       From_Validator (OnBlockDerived 8 0 1 1)] callbacks_new)
   = [UiBatchSubmitted 1 2 7 8 100 50, BatchIncludedInL1 9 1 2, UiBlockDerived 7 3 1 1,
      UiBlockDerived 8 4 1 1 :: nat tui_event]"
proof -
  let ?pre = "[From_Sequencer (OnBatchSubmitted 1 2 7 8 100 50 [3, 4] 9), From_Validator (OnBlockDerived 7 0 1 1)]"
  have "cb_events (role_call_back (From_Validator (OnBlockDerived (7 + of_nat 1) 0 1 1)) (role_call_backs ?pre (callbacks_new :: nat callback_state)))
     = cb_events (role_call_backs ?pre callbacks_new) @ [UiBlockDerived (7 + of_nat 1) ([3, 4] ! 1) 1 1 :: nat tui_event]"
    using derived_block_shows_count [where ?'f = nat and before = "[]" and b = 1 and k = 2 and f = 7 and l = 8 and u = 100 and c = 50
        and cs = "[3, 4]" and ?l1.0 = 9 and between = "[From_Validator (OnBlockDerived 7 0 1 1)]" and i = 1
        and tx_count = 0 and d = 1 and e = 1]
    by (simp add: Let_def)
  moreover have "cb_events (role_call_backs ?pre callbacks_new) =
      [UiBatchSubmitted 1 2 7 8 100 50, BatchIncludedInL1 9 1 2, UiBlockDerived 7 3 1 1 :: nat tui_event]"
    by (simp add: role_call_backs_def callback_defs callbacks_new_def record_batch_def get_tx_count_def)
  ultimately show ?thesis by (simp add: role_call_backs_def)
qed

text \<open>
  Without a validator nothing is ever removed: the store grows by every block submitted.
\<close>

lemma sequencer_alone_keeps_counts:
  assumes "list_all batch_sizes_ok outs" and "\<forall>out\<in>set outs. \<exists>o'. out = From_Sequencer o'"
  shows "dom (cb_store (role_call_backs outs (callbacks_new :: 'f callback_state)))
    = {n. \<exists>out\<in>set outs. says n out \<noteq> None}"
  using assms
proof (induction outs rule: rev_induct)
  case Nil
  then show ?case by (simp add: role_call_backs_def callbacks_new_def count_store_new_def)
next
  case (snoc out outs)
  then obtain o' where out: "out = From_Sequencer o'" by auto
  have "batch_sizes_ok out" using snoc.prems by simp
  then have "cb_store (role_call_backs (outs @ [out]) (callbacks_new :: 'f callback_state)) n
      = (case says n out of None \<Rightarrow> cb_store (role_call_backs outs (callbacks_new :: 'f callback_state)) n | Some c \<Rightarrow> c)" for n
    by (simp add: call_backs_snoc call_back_store)
  moreover have "\<exists>y. c = Some y" if "says n out = Some c" for n c
    using out that by (cases o') (auto split: if_splits)
  ultimately have "cb_store (role_call_backs (outs @ [out]) (callbacks_new :: 'f callback_state)) n \<noteq> None
      \<longleftrightarrow> says n out \<noteq> None \<or> cb_store (role_call_backs outs (callbacks_new :: 'f callback_state)) n \<noteq> None" for n
    by (cases "says n out") auto
  then have "dom (cb_store (role_call_backs (outs @ [out]) (callbacks_new :: 'f callback_state)))
      = {n. says n out \<noteq> None} \<union> dom (cb_store (role_call_backs outs (callbacks_new :: 'f callback_state)))"
    by (auto simp: dom_def)
  then show ?case using snoc by auto
qed

end
