(* ===== verification/Anvil_State.thy ===== *)
theory Anvil_State
  imports Trie_Database
begin

text \<open>
  The genesis state of the harness (\<^verbatim>\<open>crates/utilities/harness/src/anvil_state.rs\<close>): Anvil's
  state file as accounts and a block, its conversion to a genesis, and what a state database
  created from that genesis answers.

  Outside the repository are serde_json, which reads the file, and TrieDB. A \<^verbatim>\<open>BTreeMap\<close> is the
  list of its entries by key; a \<^verbatim>\<open>B256\<close> is its 32 bytes.
\<close>

section \<open>The state file\<close>

record anvil_block_env =
  ab_number :: u256
  ab_beneficiary :: bytes
  ab_timestamp :: u256
  ab_gas_limit :: u64
  ab_basefee :: u128
  ab_difficulty :: u256
  ab_prevrandao :: bytes

record anvil_account_record =
  ar_nonce :: u64
  ar_balance :: u256
  ar_code :: bytes
  ar_storage :: "(bytes \<times> bytes) list"

record anvil_state =
  as_block :: "anvil_block_env option"
  as_accounts :: "(bytes \<times> anvil_account_record) list"
  as_best_block_number :: "u64 option"

datatype anvil_state_error = AnvilStateIo string | AnvilStateJson string

fun show_anvil_state_error :: "anvil_state_error \<Rightarrow> string" where
  "show_anvil_state_error (AnvilStateIo e) = ''failed to read anvil state file: '' @ e"
| "show_anvil_state_error (AnvilStateJson e) = ''failed to parse anvil state JSON: '' @ e"

text \<open>\<open>parse\<close> is serde_json, \<open>contents\<close> what reading the file returns.\<close>

definition anvil_state_from_json :: "(string \<Rightarrow> string + anvil_state) \<Rightarrow> string \<Rightarrow> anvil_state_error + anvil_state" where
  "anvil_state_from_json parse json = map_err AnvilStateJson (parse json)"

definition anvil_state_from_file :: "(string \<Rightarrow> string + anvil_state) \<Rightarrow> string + string \<Rightarrow> anvil_state_error + anvil_state" where
  "anvil_state_from_file parse contents =
     rbind (map_err AnvilStateIo contents) (anvil_state_from_json parse)"

section \<open>The genesis\<close>

text \<open>The fields of \<^verbatim>\<open>Genesis\<close> that are set; the others keep their defaults.\<close>

record genesis =
  gen_alloc :: "(bytes \<times> genesis_account) list"
  gen_gas_limit :: u64
  gen_timestamp :: u64
  gen_base_fee :: "u128 option"
  gen_difficulty :: u256
  gen_coinbase :: bytes

definition genesis_default :: genesis where
  "genesis_default =
     \<lparr>gen_alloc = [], gen_gas_limit = 0, gen_timestamp = 0, gen_base_fee = None, gen_difficulty = 0,
      gen_coinbase = replicate 20 0\<rparr>"

definition u256_to_u64_or_zero :: "u256 \<Rightarrow> u64" where
  "u256_to_u64_or_zero x = (if unat x < 2 ^ 64 then ucast x else 0)"

definition genesis_account_of :: "anvil_account_record \<Rightarrow> genesis_account" where
  "genesis_account_of r =
     \<lparr>g_nonce = Some (ar_nonce r), g_balance = ar_balance r,
      g_code = (if ar_code r = [] then None else Some (ar_code r)),
      g_storage = (if ar_storage r = [] then None else Some (ar_storage r))\<rparr>"

definition into_genesis :: "anvil_state \<Rightarrow> genesis" where
  "into_genesis S =
     (let g = genesis_default\<lparr>gen_alloc := map (\<lambda>(a, r). (a, genesis_account_of r)) (as_accounts S)\<rparr>
      in case as_block S of
           None \<Rightarrow> g
         | Some b \<Rightarrow>
             g\<lparr>gen_gas_limit := ab_gas_limit b, gen_timestamp := u256_to_u64_or_zero (ab_timestamp b),
               gen_base_fee := Some (ab_basefee b), gen_difficulty := ab_difficulty b,
               gen_coinbase := ab_beneficiary b\<rparr>)"

definition account_count :: "anvil_state \<Rightarrow> usize" where
  "account_count S = length (as_accounts S)"

lemma into_genesis_alloc [simp]:
  "gen_alloc (into_genesis S) = map (\<lambda>(a, r). (a, genesis_account_of r)) (as_accounts S)"
  by (simp add: into_genesis_def Let_def split: option.split)

section \<open>The effect of a genesis\<close>

definition genesis_core :: "'c bytecode_ops \<Rightarrow> genesis_account \<Rightarrow> core" where
  "genesis_core B g =
     ((case g_nonce g of Some n \<Rightarrow> n | None \<Rightarrow> 0), g_balance g,
      (case g_code g of None \<Rightarrow> keccak_empty B | Some code \<Rightarrow> bc_hash_slow B (bc_new_raw B code)))"

fun genesis_slots_effect :: "bytes \<Rightarrow> (bytes \<times> bytes) list \<Rightarrow> (bytes \<times> u256 \<Rightarrow> u256) \<Rightarrow> bytes \<times> u256 \<Rightarrow> u256" where
  "genesis_slots_effect a [] f = f"
| "genesis_slots_effect a ((slot, v) # slots) f = genesis_slots_effect a slots (f((a, u256_of_be slot) := u256_of_be v))"

fun genesis_effect :: "'c bytecode_ops \<Rightarrow> (bytes \<times> genesis_account) list
    \<Rightarrow> (bytes \<Rightarrow> core option) \<times> (bytes \<times> u256 \<Rightarrow> u256) \<Rightarrow> (bytes \<Rightarrow> core option) \<times> (bytes \<times> u256 \<Rightarrow> u256)" where
  "genesis_effect B [] s = s"
| "genesis_effect B ((a, g) # gs) s =
     genesis_effect B gs
       ((fst s)(a \<mapsto> genesis_core B g),
        case g_storage g of None \<Rightarrow> snd s | Some slots \<Rightarrow> genesis_slots_effect a slots (snd s))"

lemma le_val_null [simp]: "le_val (replicate n 0) = 0"
  by (induction n) simp_all

lemma u256_of_be_zero [simp]: "u256_of_be ZERO_HASH = 0"
  by (simp add: u256_of_be_def ZERO_HASH_def)

lemma genesis_slots_values:
  assumes "trie_laws D acc slot xacc xslot"
  shows "genesis_slots D a slots x = Inr y \<Longrightarrow>
    xacc y = xacc x \<and> slot_values (xslot y) = genesis_slots_effect a slots (slot_values (xslot x))"
proof (induction slots arbitrary: x)
  case (Cons sv slots)
  obtain k v where sv: "sv = (k, v)" by (cases sv)
  from Cons.prems sv obtain z
    where z: "write_slot D (a, u256_of_be k) (if v = ZERO_HASH then None else Some (u256_of_be v)) x = Inr z"
      and rest: "genesis_slots D a slots z = Inr y"
    by (auto simp: rbind_Inr_iff)
  have acc: "xacc z = xacc x" and slots: "xslot z = (xslot x)((a, u256_of_be k) := (if v = ZERO_HASH then None else Some (u256_of_be v)))"
    using z assms by (auto simp: trie_laws_def)
  have "slot_values (xslot z) = (slot_values (xslot x))((a, u256_of_be k) := u256_of_be v)"
    unfolding slots by (auto simp: slot_values_def value_of_def fun_eq_iff)
  with Cons.IH [OF rest] sv acc show ?case by (simp del: fun_upd_apply)
qed simp

lemma genesis_accounts_values:
  assumes "trie_laws D acc slot xacc xslot"
  shows "genesis_accounts D K B alloc (x, k) = (Inr y, k') \<Longrightarrow>
    (xacc y, slot_values (xslot y)) = genesis_effect B alloc (xacc x, slot_values (xslot x))"
proof (induction alloc arbitrary: x k)
  case (Cons ag alloc)
  obtain a g where ag: "ag = (a, g)" by (cases ag)
  define account where "account h = \<lparr>ta_nonce = (case g_nonce g of Some n \<Rightarrow> n | None \<Rightarrow> 0),
      ta_balance = g_balance g, ta_storage_root = ZERO_HASH, ta_code_hash = h\<rparr>" for h
  define code where "code = (case g_code g of None \<Rightarrow> Inr (keccak_empty B, k)
      | Some code \<Rightarrow> rbind (map_err (\<lambda>e. ''Failed to store genesis code: '' @ e)
            (kv_set_code K (bc_hash_slow B (bc_new_raw B code)) code k))
          (\<lambda>k. Inr (bc_hash_slow B (bc_new_raw B code), k)))"
  define written where "written h = rbind (map_err (\<lambda>e. ''Failed to set genesis account '' @ show_address D a @ '': '' @ e)
      (write_account D a (Some (account h)) x))
      (\<lambda>x. case g_storage g of None \<Rightarrow> Inr x | Some slots \<Rightarrow> genesis_slots D a slots x)" for h
  have "(case code of Inl e \<Rightarrow> (Inl e, k) | Inr (h, k) \<Rightarrow>
      (case written h of Inl e \<Rightarrow> (Inl e, k) | Inr x \<Rightarrow> genesis_accounts D K B alloc (x, k))) = (Inr y, k')"
    using Cons.prems unfolding ag genesis_accounts.simps prod.case code_def written_def account_def by simp
  then obtain h l x2 where code: "code = Inr (h, l)" and written: "written h = Inr x2"
    and rest: "genesis_accounts D K B alloc (x2, l) = (Inr y, k')"
    by (auto split: sum.splits prod.splits)
  have h: "h = (case g_code g of None \<Rightarrow> keccak_empty B | Some code \<Rightarrow> bc_hash_slow B (bc_new_raw B code))"
    using code by (auto simp: code_def rbind_Inr_iff split: option.splits)
  obtain x1 where x1: "write_account D a (Some (account h)) x = Inr x1"
    and x2: "(case g_storage g of None \<Rightarrow> Inr x1 | Some slots \<Rightarrow> genesis_slots D a slots x1) = Inr x2"
    using written by (auto simp: written_def rbind_Inr_iff)
  have "xacc x1 = (xacc x)(a \<mapsto> genesis_core B g)" and same: "xslot x1 = xslot x"
    using x1 assms by (auto simp: trie_laws_def core_of_def account_def genesis_core_def h)
  then have "xacc x2 = (xacc x)(a \<mapsto> genesis_core B g)"
    and "slot_values (xslot x2) = (case g_storage g of None \<Rightarrow> slot_values (xslot x)
        | Some slots \<Rightarrow> genesis_slots_effect a slots (slot_values (xslot x)))"
    using x2 genesis_slots_values [OF assms, of a _ x1 x2] same by (auto split: option.splits)
  with Cons.IH [OF rest] ag show ?case by (cases "g_storage g") (simp_all del: fun_upd_apply)
qed simp

section \<open>The state the validator starts from\<close>

text \<open>Maps have each key once, and keys and values of storage have 32 bytes.\<close>

definition anvil_state_ok :: "anvil_state \<Rightarrow> bool" where
  "anvil_state_ok S =
     (distinct (map fst (as_accounts S))
      \<and> (\<forall>(a, r)\<in>set (as_accounts S). distinct (map fst (ar_storage r)) \<and> (\<forall>(k, v)\<in>set (ar_storage r). length k = 32)))"

definition slot_numbers :: "(bytes \<times> bytes) list \<Rightarrow> (u256 \<times> u256) list" where
  "slot_numbers slots = map (\<lambda>(k, v). (u256_of_be k, u256_of_be v)) slots"

lemma slot_numbers_simps [simp]:
  "slot_numbers [] = []"
  "slot_numbers ((k, v) # slots) = (u256_of_be k, u256_of_be v) # slot_numbers slots"
  by (simp_all add: slot_numbers_def)

definition anvil_core :: "'c bytecode_ops \<Rightarrow> anvil_account_record \<Rightarrow> core" where
  "anvil_core B r =
     (ar_nonce r, ar_balance r, if ar_code r = [] then keccak_empty B else bc_hash_slow B (bc_new_raw B (ar_code r)))"

definition anvil_slot :: "anvil_account_record \<Rightarrow> u256 \<Rightarrow> u256" where
  "anvil_slot r k = value_of (map_of (slot_numbers (ar_storage r)) k)"

lemma u256_of_be_inj:
  assumes "length a = 32" and "length b = 32" and "u256_of_be a = u256_of_be b"
  shows "a = b"
proof -
  have "le_val (rev c) < 2 ^ 256" if "length c = 32" for c
    using le_val_less [of "rev c"] that by simp
  with assms have "le_val (rev a) = le_val (rev b)"
    by (simp add: u256_of_be_def word_of_nat_eq_iff take_bit_nat_eq_self_iff take_bit_nat_eq_self)
  then have "rev a = rev b"
    using le_bytes_le_val [of "rev a"] le_bytes_le_val [of "rev b"] assms(1,2) by simp
  then show ?thesis by simp
qed

lemma distinct_slot_numbers:
  assumes "distinct (map fst slots)" and "\<forall>(k, v)\<in>set slots. length k = 32"
  shows "distinct (map fst (slot_numbers slots))"
proof -
  have "inj_on u256_of_be (fst ` set slots)"
    using assms(2) by (auto intro!: inj_onI u256_of_be_inj)
  then show ?thesis
    using assms(1) by (simp add: slot_numbers_def case_prod_beta comp_def distinct_map inj_on_def)
qed

lemma genesis_slots_effect_at:
  "distinct (map fst (slot_numbers slots)) \<Longrightarrow>
   genesis_slots_effect a slots f (b, k)
     = (if b = a then (case map_of (slot_numbers slots) k of None \<Rightarrow> f (b, k) | Some v \<Rightarrow> v) else f (b, k))"
proof (induction slots arbitrary: f)
  case (Cons sv slots)
  obtain slot v where sv: "sv = (slot, v)" by (cases sv)
  with Cons.prems have "map_of (slot_numbers slots) (u256_of_be slot) = None"
    by (simp add: map_of_eq_None_iff)
  with Cons sv show ?case by (auto split: option.split)
qed simp

definition distinct_genesis :: "(bytes \<times> genesis_account) list \<Rightarrow> bool" where
  "distinct_genesis alloc =
     (distinct (map fst alloc) \<and>
      list_all (\<lambda>(a, g). case g_storage g of None \<Rightarrow> True | Some slots \<Rightarrow> distinct (map fst (slot_numbers slots))) alloc)"

lemma genesis_effect_at:
  "distinct_genesis alloc \<Longrightarrow>
   fst (genesis_effect B alloc s) a = (case map_of alloc a of None \<Rightarrow> fst s a | Some g \<Rightarrow> Some (genesis_core B g))
   \<and> snd (genesis_effect B alloc s) (a, k) =
      (case map_of alloc a of None \<Rightarrow> snd s (a, k)
       | Some g \<Rightarrow> (case g_storage g of None \<Rightarrow> snd s (a, k)
          | Some slots \<Rightarrow> (case map_of (slot_numbers slots) k of None \<Rightarrow> snd s (a, k) | Some v \<Rightarrow> v)))"
proof (induction alloc arbitrary: s)
  case (Cons ag alloc)
  obtain b g where ag: "ag = (b, g)" by (cases ag)
  have fresh: "map_of alloc b = None" and rest: "distinct_genesis alloc"
    using Cons.prems ag by (auto simp: distinct_genesis_def map_of_eq_None_iff)
  show ?case
    using Cons.IH [OF rest] Cons.prems fresh ag
    by (auto simp: genesis_slots_effect_at distinct_genesis_def split: option.splits)
qed simp

lemma alloc_of_state: "map_of (map (\<lambda>(a, r). (a, genesis_account_of r)) rs) a = map_option genesis_account_of (map_of rs a)"
  by (induction rs) auto

lemma genesis_core_of: "genesis_core B (genesis_account_of r) = anvil_core B r"
  by (simp add: genesis_core_def genesis_account_of_def anvil_core_def)

text \<open>A state file with one account that has one slot.\<close>

definition one_account :: anvil_state where
  "one_account =
     \<lparr>as_block = None,
      as_accounts = [([1], \<lparr>ar_nonce = 3, ar_balance = 100, ar_code = [],
        ar_storage = [(replicate 32 0, replicate 31 0 @ [9])]\<rparr>)],
      as_best_block_number = None\<rparr>"

lemma genesis_storage_of [simp]:
  "g_storage (genesis_account_of r) = (if ar_storage r = [] then None else Some (ar_storage r))"
  by (simp add: genesis_account_of_def)

text \<open>
  A validator's state database that is created from the harness's genesis state is that state:
  whatever account or slot is read from it, a successful answer is the nonce, the balance, the
  code hash and the value that Anvil's state file has, and no account or zero for what the file
  does not name. It is the state that the harness's Anvil starts from.
\<close>

theorem created_state_is_anvil_state:
  assumes "trie_laws D acc slot xacc xslot" and "anvil_state_ok S"
    and "acc fresh = Map.empty" and "slot fresh = Map.empty"
    and "trie_open_or_create D K B Not_Found (Inr fresh) (gen_alloc (into_genesis S)) k = Inr db"
  shows "(trie_basic D K B a db = Inr i \<longrightarrow>
            map_option info_core i = map_option (anvil_core B) (map_of (as_accounts S) a))
       \<and> (trie_storage D a n db = Inr v \<longrightarrow>
            v = (case map_of (as_accounts S) a of None \<Rightarrow> 0 | Some r \<Rightarrow> anvil_slot r n))"
proof -
  let ?alloc = "map (\<lambda>(a, r). (a, genesis_account_of r)) (as_accounts S)"
  obtain x y t k' k'' where db: "db = (t, k'')" and x: "begin_rw D fresh = Inr x"
    and y: "genesis_accounts D K B ?alloc (x, k) = (Inr y, k')" and t: "commit_rw D y = Inr t"
    using assms(5) by (auto simp: trie_open_or_create_def trie_apply_genesis_def split: sum.splits prod.splits)
  have "acc t = xacc y" "slot t = xslot y" "xacc x = Map.empty" "xslot x = Map.empty"
    using x t assms(1,3,4) unfolding trie_laws_def by metis+
  moreover have "slot_values (Map.empty :: bytes \<times> u256 \<Rightarrow> u256 option) = (\<lambda>_. 0)"
    by (simp add: slot_values_def value_of_def fun_eq_iff)
  ultimately have eff: "(acc t, slot_values (slot t)) = genesis_effect B ?alloc (Map.empty, \<lambda>_. 0)"
    using genesis_accounts_values [OF assms(1) y] by simp
  have "distinct (map fst (slot_numbers (ar_storage r)))" if "(b, r) \<in> set (as_accounts S)" for b r
    using assms(2) that by (intro distinct_slot_numbers) (fastforce simp: anvil_state_ok_def)+
  then have ok: "distinct_genesis ?alloc"
    using assms(2)
    by (auto simp: anvil_state_ok_def distinct_genesis_def case_prod_beta comp_def list_all_iff)
  have "acc t a = map_option (anvil_core B) (map_of (as_accounts S) a)"
    using genesis_effect_at [OF ok, of B "(Map.empty, \<lambda>_. 0)" a]
    by (simp add: eff [symmetric] alloc_of_state genesis_core_of split: option.split)
  moreover have "value_of (slot t (a, n)) = (case map_of (as_accounts S) a of None \<Rightarrow> 0 | Some r \<Rightarrow> anvil_slot r n)"
  proof -
    have "value_of (slot t (a, n)) = snd (acc t, slot_values (slot t)) (a, n)" by (simp add: slot_values_def)
    also have "\<dots> = (case map_of (as_accounts S) a of None \<Rightarrow> 0 | Some r \<Rightarrow> anvil_slot r n)"
      using genesis_effect_at [OF ok, of B "(Map.empty, \<lambda>_. 0)" a n]
      unfolding eff by (auto simp: alloc_of_state anvil_slot_def value_of_def split: option.splits)
    finally show ?thesis .
  qed
  ultimately show ?thesis
    using trie_reads(1) [OF assms(1), of K B a t k'' i] trie_reads(2) [OF assms(1), of a n t k'' v]
    unfolding db by simp
qed

theorem created_state_is_anvil_state_witness:
  "\<exists>db. trie_open_or_create map_trie_ops no_code_kv raw_code Not_Found (Inr (Map.empty, Map.empty))
        (gen_alloc (into_genesis one_account)) () = Inr db
     \<and> trie_storage map_trie_ops [1] 0 db = Inr 9"
proof -
  obtain db where db: "trie_open_or_create map_trie_ops no_code_kv raw_code Not_Found (Inr (Map.empty, Map.empty))
      (gen_alloc (into_genesis one_account)) () = Inr db"
    by (simp add: trie_open_or_create_def trie_apply_genesis_def map_trie_ops_def genesis_account_of_def
        one_account_def no_code_kv_def)
  obtain v where v: "trie_storage map_trie_ops [1] 0 db = Inr v"
    by (cases db) (simp add: trie_storage_def read_tx_def map_trie_ops_def)
  have "anvil_state_ok one_account" by (simp add: anvil_state_ok_def one_account_def)
  moreover have "u256_of_be (replicate 32 0) = 0" "u256_of_be (replicate 31 0 @ [9]) = 9"
    by (simp_all add: u256_of_be_def)
  moreover have "map_accounts (Map.empty, Map.empty) = Map.empty"
    by (simp add: map_accounts_def fun_eq_iff)
  ultimately have "v = 9"
    using created_state_is_anvil_state [OF map_trie_laws _ _ _ db, where a = "[1]" and n = 0 and v = v] v
    by (simp add: anvil_slot_def slot_numbers_def value_of_def one_account_def)
  with db v show ?thesis by blast
qed

end
