(* ===== verification/Harness.thy ===== *)
theory Harness
  imports Montana_Prelude
begin

text \<open>
  The test harness (\<^verbatim>\<open>crates/utilities/harness\<close>): starting an Anvil process, generating the
  initial blocks with progress reports, and the generator of transactions that runs until the
  harness is dropped.

  The Anvil process, its keys, the network and the file system are the fields of \<open>harness_env\<close>;
  the random numbers and the outcomes of the transactions are inputs. Anvil is built with the
  block time in seconds, a float computed from the milliseconds, which are kept here.
\<close>

section \<open>Configuration\<close>

record harness_config =
  hc_block_time_ms :: u64
  hc_tx_per_block :: u64
  hc_initial_delay_blocks :: u64
  hc_accounts :: u8
  hc_use_default_genesis :: bool
  hc_state_path :: "string option"
  hc_dump_initial_state :: bool
  hc_block_gas_limit :: u64

definition harness_config_default :: harness_config where
  "harness_config_default =
     \<lparr>hc_block_time_ms = 50, hc_tx_per_block = 10000, hc_initial_delay_blocks = 10, hc_accounts = 10,
      hc_use_default_genesis = True, hc_state_path = None, hc_dump_initial_state = False,
      hc_block_gas_limit = 1000000000\<rparr>"

section \<open>Progress\<close>

datatype progress_report = Progress_Report u64 u64 string | Init_Complete u64

definition report_started :: "u64 \<Rightarrow> progress_report list" where
  "report_started n = [Progress_Report 0 n ''Starting anvil...'']"

definition report_completed :: "u64 \<Rightarrow> progress_report list" where
  "report_completed n = [Progress_Report n n ''Initialization complete'', Init_Complete n]"

section \<open>Starting\<close>

record 'key harness_env =
  he_exists :: "string \<Rightarrow> bool"
  he_temp_file :: "string + string"
  he_write_temp :: "string + unit"
  he_spawn :: "u64 \<Rightarrow> string list \<Rightarrow> string + string \<times> 'key list"
  he_address :: "'key \<Rightarrow> bytes"
  he_connect :: "string \<Rightarrow> string + unit"
  he_send :: "nat \<Rightarrow> bytes \<Rightarrow> string + unit"

record 'key harness =
  h_rpc_url :: string
  h_signers :: "'key list"
  h_config :: harness_config
  h_stop_signal :: bool

datatype 'key harness_outcome = Harness_Started "'key harness" | Harness_Error string | Harness_Panic

text \<open>The arguments that load or dump the state.\<close>

definition state_args :: "'key harness_env \<Rightarrow> harness_config \<Rightarrow> string + string list" where
  "state_args E c =
     (case hc_state_path c of
        Some p \<Rightarrow>
          Inr (if hc_dump_initial_state c then [''--dump-state'', p]
               else if he_exists E p then [''--load-state'', p] else [])
      | None \<Rightarrow>
          if hc_use_default_genesis c
          then rbind (map_err (\<lambda>e. ''Failed to create temp file for genesis state: '' @ e) (he_temp_file E)) (\<lambda>p.
               rbind (map_err (\<lambda>e. ''Failed to write default genesis state: '' @ e) (he_write_temp E)) (\<lambda>_.
                 Inr [''--load-state'', p]))
          else Inr [])"

text \<open>The loop over the initial blocks: the error that ended it, and the reports.\<close>

fun generate_blocks :: "'key harness_env \<Rightarrow> bytes list \<Rightarrow> u64 \<Rightarrow> nat list \<Rightarrow> string option \<times> progress_report list" where
  "generate_blocks E addrs n [] = (None, [])"
| "generate_blocks E addrs n (i # is) =
     (case he_send E i (addrs ! ((i + 1) mod length addrs)) of
        Inl e \<Rightarrow> (Some e, [])
      | Inr _ \<Rightarrow>
          (case generate_blocks E addrs n is of (r, reports) \<Rightarrow>
             (r, Progress_Report (of_nat (i + 1)) n (''Generated block #'' @ dec (i + 1)) # reports)))"

definition spawn_with_progress :: "'key harness_env \<Rightarrow> harness_config \<Rightarrow> 'key harness_outcome \<times> progress_report list" where
  "spawn_with_progress E c =
     (let n = hc_initial_delay_blocks c; started = report_started n in
      case state_args E c of
        Inl e \<Rightarrow> (Harness_Error e, started)
      | Inr args \<Rightarrow>
          (case he_spawn E (hc_block_time_ms c) ([''--gas-limit'', dec (unat (hc_block_gas_limit c))] @ args) of
             Inl e \<Rightarrow> (Harness_Error (''Failed to spawn anvil: '' @ e), started)
           | Inr (url, keys) \<Rightarrow>
               (let running = started @ [Progress_Report 0 n (''Anvil started at '' @ url)];
                    signers = take (unat (hc_accounts c)) keys;
                    addrs = map (he_address E) signers;
                    ok = Harness_Started \<lparr>h_rpc_url = url, h_signers = signers, h_config = c, h_stop_signal = False\<rparr>
                in if signers = [] then (Harness_Panic, running)
                   else case he_connect E url of
                     Inl e \<Rightarrow> (Harness_Error e, running)
                   | Inr _ \<Rightarrow>
                       if 0 < n
                       then (let generating = running @ [Progress_Report 0 n ''Generating initial blocks...''] in
                             case generate_blocks E addrs n [0..<unat n] of
                               (Some e, reports) \<Rightarrow> (Harness_Error e, generating @ reports)
                             | (None, reports) \<Rightarrow> (ok, generating @ reports @ report_completed n))
                       else (ok, running))))"

text \<open>Without a reporter nobody is told.\<close>

definition harness_spawn :: "'key harness_env \<Rightarrow> harness_config \<Rightarrow> 'key harness_outcome" where
  "harness_spawn E c = fst (spawn_with_progress E c)"

definition harness_drop :: "'key harness \<Rightarrow> 'key harness" where
  "harness_drop h = h\<lparr>h_stop_signal := True\<rparr>"

text \<open>
  \<^verbatim>\<open>spawn_if_enabled\<close>: the harness, if there is one, the address to use, and the reports.
\<close>

definition spawn_if_enabled :: "'key harness_env \<Rightarrow> bool \<Rightarrow> u64 \<Rightarrow> u64 \<Rightarrow> u64 \<Rightarrow> string option
    \<Rightarrow> (string + 'key harness option \<times> string) option \<times> progress_report list" where
  "spawn_if_enabled E with_harness block_time initial_blocks txs url =
     (if with_harness
      then (case spawn_with_progress E
                  (harness_config_default\<lparr>hc_block_time_ms := block_time, hc_tx_per_block := txs,
                    hc_initial_delay_blocks := initial_blocks\<rparr>) of
              (Harness_Started h, reports) \<Rightarrow> (Some (Inr (Some h, h_rpc_url h)), reports)
            | (Harness_Error e, reports) \<Rightarrow> (Some (Inl e), reports)
            | (Harness_Panic, reports) \<Rightarrow> (None, reports))
      else (case url of
              None \<Rightarrow> (Some (Inl ''RPC URL is required when harness is disabled''), [])
            | Some u \<Rightarrow> (Some (Inr (None, u)), [])))"

section \<open>The transaction generator\<close>

definition GENERATOR_BATCH_SIZE :: nat where "GENERATOR_BATCH_SIZE = 10"
definition MAX_CONSECUTIVE_ERRORS :: u32 where "MAX_CONSECUTIVE_ERRORS = 50"

definition batches_per_block :: "u64 \<Rightarrow> u64" where
  "batches_per_block txs =
     (let size = of_nat GENERATOR_BATCH_SIZE
      in txs div size + (if txs mod size = 0 then 0 else 1))"

definition batch_interval_ms :: "u64 \<Rightarrow> u64 \<Rightarrow> u64" where
  "batch_interval_ms txs block_time =
     (if 0 < batches_per_block txs then (block_time * 80 div 100) div batches_per_block txs else block_time)"

text \<open>
  The \<open>i\<close>-th transfer of a batch among \<open>n\<close> accounts; \<open>r\<close> is what \<^verbatim>\<open>gen_range(1..n)\<close> returns,
  which panics when the range is empty.
\<close>

definition transfer :: "nat \<Rightarrow> nat \<Rightarrow> nat \<Rightarrow> (nat \<times> nat) option" where
  "transfer n i r =
     (if n \<le> 1 then None else let sender = i mod n in Some (sender, (sender + r) mod n))"

record generator =
  tx_count :: u64
  consecutive_errors :: u32

definition generator_new :: generator where
  "generator_new = \<lparr>tx_count = 0, consecutive_errors = 0\<rparr>"

datatype generator_pause = Back_Off | Wait_Ms u64 | Yield_Now

text \<open>One batch, with the outcomes of its transactions, and the pauses it ends with.\<close>

definition generator_step :: "u64 \<Rightarrow> bool list \<Rightarrow> generator \<Rightarrow> generator_pause list \<times> generator" where
  "generator_step interval outcomes g =
     (let batch_errors = of_nat (length (filter Not outcomes)) :: u32;
          g = g\<lparr>tx_count := tx_count g + of_nat (length (filter (\<lambda>ok. ok) outcomes))\<rparr>;
          after = (if 0 < interval then [Wait_Ms interval] else [Yield_Now])
      in if 0 < batch_errors
         then (let g = g\<lparr>consecutive_errors := consecutive_errors g + batch_errors\<rparr>
               in if MAX_CONSECUTIVE_ERRORS \<le> consecutive_errors g
                  then (Back_Off # after, g\<lparr>consecutive_errors := 0\<rparr>)
                  else (after, g))
         else (after, g\<lparr>consecutive_errors := 0\<rparr>))"

text \<open>
  The loop: each iteration reads the stop signal and, when it is not set, has the outcomes of a
  batch. When the inputs are used up the generator still runs, which is the value \<open>None\<close>.
\<close>

fun run_tx_generator :: "u64 \<Rightarrow> (bool \<times> bool list) list \<Rightarrow> generator \<Rightarrow> (generator_pause list \<times> generator) option" where
  "run_tx_generator interval [] g = None"
| "run_tx_generator interval ((stop, outcomes) # rest) g =
     (if stop then Some ([], g)
      else case generator_step interval outcomes g of
        (pauses, g) \<Rightarrow> map_option (\<lambda>(more, g). (pauses @ more, g)) (run_tx_generator interval rest g))"

section \<open>What the generator does\<close>

lemma transfer_valid:
  assumes "transfer n i r = Some (sender, recipient)" and "1 \<le> r" and "r < n"
  shows "sender < n \<and> recipient < n \<and> sender \<noteq> recipient"
proof -
  have s: "sender = i mod n" "recipient = (sender + r) mod n" and n: "1 < n"
    using assms(1) by (auto simp: transfer_def Let_def split: if_splits)
  have lt: "sender < n" unfolding s(1) using n by (intro mod_less_divisor) simp
  have "recipient < n" unfolding s(2) using n by (intro mod_less_divisor) simp
  moreover have "recipient \<noteq> sender"
  proof (cases "sender + r < n")
    case True
    then have "recipient = sender + r" unfolding s(2) by (rule mod_less)
    with assms(2) show ?thesis by linarith
  next
    case False
    then have "(sender + r) mod n = (sender + r - n) mod n" by (simp add: le_mod_geq)
    also have "\<dots> = sender + r - n" using lt assms(3) by (intro mod_less) linarith
    finally have "recipient = sender + r - n" unfolding s(2) .
    with False assms(3) show ?thesis by linarith
  qed
  ultimately show ?thesis using lt by blast
qed

definition failures :: "bool list \<Rightarrow> nat" where
  "failures outcomes = length (filter Not outcomes)"

definition back_offs :: "generator_pause list \<Rightarrow> nat" where
  "back_offs ps = count_list ps Back_Off"

lemma back_offs_append [simp]: "back_offs (ps @ qs) = back_offs ps + back_offs qs"
  by (simp add: back_offs_def)

lemma generator_step_errors:
  assumes "generator_step interval outcomes g = (ps, g')" and "length outcomes \<le> GENERATOR_BATCH_SIZE"
    and "unat (consecutive_errors g) < 50"
  shows "unat (consecutive_errors g') < 50"
    and "50 * back_offs ps + unat (consecutive_errors g') \<le> unat (consecutive_errors g) + failures outcomes"
    and "0 < failures outcomes \<Longrightarrow>
      unat (consecutive_errors g) + failures outcomes \<le> 59 * back_offs ps + unat (consecutive_errors g')"
    and "tx_count g' = tx_count g + of_nat (length (filter (\<lambda>ok. ok) outcomes))"
proof -
  define e where "e = failures outcomes"
  have e: "e \<le> 10"
    using order_trans [OF length_filter_le [of Not outcomes] assms(2)] by (simp add: e_def failures_def GENERATOR_BATCH_SIZE_def)
  have small: "unat (of_nat e :: u32) = e" using e by (simp add: unat_of_nat take_bit_eq_mod)
  have sum: "unat (consecutive_errors g + of_nat e) = unat (consecutive_errors g) + e"
    using e assms(3) by (simp add: unat_word_ariths small)
  have pos: "0 < (of_nat e :: u32) \<longleftrightarrow> 0 < e" by (simp add: word_less_nat_alt small)
  have fifty: "MAX_CONSECUTIVE_ERRORS \<le> consecutive_errors g + of_nat e \<longleftrightarrow> 50 \<le> unat (consecutive_errors g) + e"
    by (simp add: MAX_CONSECUTIVE_ERRORS_def word_le_nat_alt sum)
  have "ps = (if 0 < e \<and> 50 \<le> unat (consecutive_errors g) + e then [Back_Off] else [])
        @ (if 0 < interval then [Wait_Ms interval] else [Yield_Now])"
    and cons: "consecutive_errors g' = (if 0 < e \<and> unat (consecutive_errors g) + e < 50
        then consecutive_errors g + of_nat e else 0)"
    and "tx_count g' = tx_count g + of_nat (length (filter (\<lambda>ok. ok) outcomes))"
    using assms(1) pos fifty
    by (auto simp: generator_step_def Let_def e_def failures_def split: if_splits)
  moreover from this have "back_offs ps = (if 0 < e \<and> 50 \<le> unat (consecutive_errors g) + e then 1 else 0)"
    by (simp add: back_offs_def)
  moreover have "unat (consecutive_errors g') = (if 0 < e \<and> unat (consecutive_errors g) + e < 50
      then unat (consecutive_errors g) + e else 0)"
    unfolding cons by (simp add: sum)
  ultimately show "unat (consecutive_errors g') < 50"
    "50 * back_offs ps + unat (consecutive_errors g') \<le> unat (consecutive_errors g) + failures outcomes"
    "0 < failures outcomes \<Longrightarrow> unat (consecutive_errors g) + failures outcomes \<le> 59 * back_offs ps + unat (consecutive_errors g')"
    "tx_count g' = tx_count g + of_nat (length (filter (\<lambda>ok. ok) outcomes))"
    unfolding e_def [symmetric] using e assms(3) by auto
qed

text \<open>The batches before the stop signal is seen.\<close>

definition batches_sent :: "(bool \<times> bool list) list \<Rightarrow> bool list list" where
  "batches_sent inputs = map snd (takeWhile (\<lambda>i. \<not> fst i) inputs)"

lemma run_tx_generator_errors:
  assumes "run_tx_generator interval inputs g = Some (ps, g')"
    and "\<forall>outcomes\<in>set (batches_sent inputs). length outcomes \<le> GENERATOR_BATCH_SIZE"
    and "unat (consecutive_errors g) < 50"
  shows "unat (consecutive_errors g') < 50
    \<and> tx_count g' = tx_count g + of_nat (length (filter (\<lambda>ok. ok) (concat (batches_sent inputs))))
    \<and> 50 * back_offs ps + unat (consecutive_errors g')
        \<le> unat (consecutive_errors g) + sum_list (map failures (batches_sent inputs))
    \<and> ((\<forall>outcomes\<in>set (batches_sent inputs). 0 < failures outcomes) \<longrightarrow>
        unat (consecutive_errors g) + sum_list (map failures (batches_sent inputs))
          \<le> 59 * back_offs ps + unat (consecutive_errors g'))"
  using assms
proof (induction inputs arbitrary: g ps)
  case (Cons input inputs)
  obtain stop outcomes where input: "input = (stop, outcomes)" by (cases input)
  show ?case
  proof (cases stop)
    case True
    with Cons.prems input show ?thesis by (auto simp: batches_sent_def back_offs_def)
  next
    case False
    obtain qs h where step: "generator_step interval outcomes g = (qs, h)" by force
    with Cons.prems(1) False input obtain more
      where rest: "run_tx_generator interval inputs h = Some (more, g')" and ps: "ps = qs @ more"
      by auto
    have sent: "batches_sent (input # inputs) = outcomes # batches_sent inputs"
      using False input by (simp add: batches_sent_def)
    have len: "length outcomes \<le> GENERATOR_BATCH_SIZE" using Cons.prems(2) sent by simp
    note h = generator_step_errors [OF step len Cons.prems(3)]
    have "\<forall>outcomes\<in>set (batches_sent inputs). length outcomes \<le> GENERATOR_BATCH_SIZE"
      using Cons.prems(2) sent by simp
    from Cons.IH [OF rest this h(1)] h ps show ?thesis
      unfolding sent by (auto simp: algebra_simps)
  qed
qed simp

lemma stopped_generator_ends: "\<exists>i\<in>set inputs. fst i \<Longrightarrow> \<exists>ps g'. run_tx_generator interval inputs g = Some (ps, g')"
proof (induction inputs arbitrary: g)
  case (Cons input inputs)
  then show ?case
    by (cases input; cases "generator_step interval (snd input) g"; cases "fst input") fastforce+
qed simp

text \<open>
  The transaction generator backs off in time. Whatever its transactions come to, until it
  is stopped it counts exactly the transactions that were accepted; fewer than 50 errors are ever
  carried over; it never pauses more often than once in 50 errors; and as long as no batch
  succeeds as a whole it pauses at least once in every 59 errors.
\<close>

theorem generator_backs_off:
  assumes "run_tx_generator interval inputs generator_new = Some (ps, g)"
    and "\<forall>outcomes\<in>set (batches_sent inputs). length outcomes \<le> GENERATOR_BATCH_SIZE"
  shows "tx_count g = of_nat (length (filter (\<lambda>ok. ok) (concat (batches_sent inputs))))
    \<and> unat (consecutive_errors g) < 50
    \<and> 50 * back_offs ps \<le> sum_list (map failures (batches_sent inputs))
    \<and> ((\<forall>outcomes\<in>set (batches_sent inputs). 0 < failures outcomes) \<longrightarrow>
        sum_list (map failures (batches_sent inputs)) < 59 * back_offs ps + 50)"
  using run_tx_generator_errors [OF assms] by (auto simp: generator_new_def)

theorem generator_backs_off_witness:
  "\<exists>ps g. run_tx_generator 4 (replicate 5 (False, replicate 10 False) @ [(True, [])]) generator_new = Some (ps, g)
     \<and> back_offs ps = 1"
proof -
  let ?inputs = "replicate 5 (False, replicate 10 False) @ [(True, [])]"
  obtain ps g where run: "run_tx_generator 4 ?inputs generator_new = Some (ps, g)"
    using stopped_generator_ends [of ?inputs 4 generator_new] by auto
  have sent: "batches_sent ?inputs = replicate 5 (replicate 10 False)"
    by (simp add: batches_sent_def numeral_eq_Suc)
  have sum: "sum_list (map failures (batches_sent ?inputs)) = 50"
    unfolding sent by (simp add: failures_def sum_list_replicate)
  have "50 * back_offs ps \<le> 50" "50 < 59 * back_offs ps + 50"
    using generator_backs_off [OF run] unfolding sum unfolding sent by (simp_all add: GENERATOR_BATCH_SIZE_def failures_def)
  then have "back_offs ps = 1" by linarith
  with run show ?thesis by blast
qed

text \<open>The waits for the batches of one block fit into four fifths of its block time.\<close>

lemma batches_fit_block:
  assumes "unat block_time * 80 < 2 ^ 64"
  shows "unat (batches_per_block txs) * unat (batch_interval_ms txs block_time) * 100 \<le> unat block_time * 80"
proof (cases "0 < batches_per_block txs")
  case True
  have "unat (block_time * 80 div 100) = unat block_time * 80 div 100"
    using assms by (simp add: unat_div unat_word_ariths)
  moreover have "unat (batches_per_block txs) * (x div unat (batches_per_block txs)) \<le> x" for x by simp
  ultimately show ?thesis
    using True by (simp add: batch_interval_ms_def unat_div)
      (metis (no_types) div_times_less_eq_dividend mult.commute mult_le_mono1 order_trans)
qed (simp add: word_gt_0)

section \<open>What the reports say\<close>

fun report_number :: "progress_report \<Rightarrow> u64" where
  "report_number (Progress_Report k _ _) = k"
| "report_number (Init_Complete k) = k"

text \<open>The reports of the loop that starts at block \<open>i\<close>: one for each block that was mined.\<close>

lemma generate_blocks_reports:
  assumes "generate_blocks E addrs n [i..<m] = (r, reports)" and "i \<le> m"
  shows "map report_number reports = map (\<lambda>k. of_nat (Suc k)) [i..<i + length reports]
    \<and> i + length reports \<le> m \<and> (r = None \<longleftrightarrow> i + length reports = m) \<and> (\<forall>k. Init_Complete k \<notin> set reports)"
  using assms
proof (induction "m - i" arbitrary: i r reports)
  case (Suc d)
  then have lt: "i < m" by simp
  show ?case
  proof (cases "he_send E i (addrs ! ((i + 1) mod length addrs))")
    case (Inl e)
    with Suc.prems lt show ?thesis by (auto simp: upt_conv_Cons)
  next
    case (Inr u)
    obtain r' rest where rest: "generate_blocks E addrs n [Suc i..<m] = (r', rest)" by force
    have "r = r'" and reports: "reports = Progress_Report (of_nat (i + 1)) n (''Generated block #'' @ dec (i + 1)) # rest"
      using Suc.prems(1) Inr rest lt by (simp_all add: upt_conv_Cons)
    moreover have "map report_number rest = map (\<lambda>k. of_nat (Suc k)) [Suc i..<Suc i + length rest]
        \<and> Suc i + length rest \<le> m \<and> (r' = None \<longleftrightarrow> Suc i + length rest = m) \<and> (\<forall>k. Init_Complete k \<notin> set rest)"
      using Suc.hyps(2) lt rest by (intro Suc.hyps(1)) simp_all
    ultimately show ?thesis by (simp add: upt_conv_Cons del: upt_Suc)
  qed
qed simp

definition at_start :: "u64 \<Rightarrow> progress_report list \<Rightarrow> bool" where
  "at_start n reports = (\<forall>p\<in>set reports. \<exists>m. p = Progress_Report 0 n m)"

lemma spawn_reports:
  assumes "spawn_with_progress E c = (res, reports)" and "n = hc_initial_delay_blocks c"
  shows "(at_start n reports \<and> ((\<exists>h. res = Harness_Started h) \<longrightarrow> n = 0))
    \<or> (\<exists>addrs r blocks pre. generate_blocks E addrs n [0..<unat n] = (r, blocks) \<and> at_start n pre \<and> 0 < n
        \<and> reports = pre @ blocks @ (if r = None then report_completed n else [])
        \<and> (r = None \<longleftrightarrow> (\<exists>h. res = Harness_Started h)))"
proof -
  let ?short = "at_start n reports \<and> ((\<exists>h. res = Harness_Started h) \<longrightarrow> n = 0)"
  note run = assms(1) [unfolded spawn_with_progress_def Let_def assms(2) [symmetric]]
  show ?thesis
  proof (cases "state_args E c")
    case (Inl e)
    with run have ?short by (auto simp: at_start_def report_started_def)
    then show ?thesis ..
  next
    case args: (Inr args)
    show ?thesis
    proof (cases "he_spawn E (hc_block_time_ms c) ([''--gas-limit'', dec (unat (hc_block_gas_limit c))] @ args)")
      case (Inl e)
      with run args have ?short by (auto simp: at_start_def report_started_def)
      then show ?thesis ..
    next
      case (Inr uk)
      obtain url keys where uk: "uk = (url, keys)" by (cases uk)
      define signers where "signers = take (unat (hc_accounts c)) keys"
      note run = run [unfolded args Inr uk sum.case prod.case, folded signers_def]
      show ?thesis
      proof (cases "signers = [] \<or> he_connect E url \<noteq> Inr () \<or> n = 0")
        case True
        with run have ?short
          by (auto simp: at_start_def report_started_def split: if_splits sum.splits)
        then show ?thesis ..
      next
        case False
        then have ok: "signers \<noteq> []" "he_connect E url = Inr ()" "n \<noteq> 0" by auto
        obtain r blocks where gen: "generate_blocks E (map (he_address E) signers) n [0..<unat n] = (r, blocks)" by force
        let ?pre = "report_started n @ [Progress_Report 0 n (''Anvil started at '' @ url),
            Progress_Report 0 n ''Generating initial blocks...'']"
        have "at_start n ?pre" by (simp add: at_start_def report_started_def)
        moreover have "reports = ?pre @ blocks @ (if r = None then report_completed n else [])"
          and "r = None \<longleftrightarrow> (\<exists>h. res = Harness_Started h)"
          using run ok gen by (auto simp: word_gt_0 split: option.splits)
        ultimately show ?thesis using gen ok(3) by (metis word_gt_0)
      qed
    qed
  qed
qed

text \<open>
  The progress of the harness never goes back or too far, and it reports its end exactly when
  it has started. Whatever fails, the block numbers reported while the harness starts do not
  decrease and do not exceed the number of initial blocks; the completion is reported if and only
  if the start succeeded with at least one initial block, as the last report and with the number
  of all blocks.
\<close>

theorem harness_progress:
  assumes "spawn_with_progress E c = (res, reports)"
  shows "sorted (map (unat \<circ> report_number) reports)
    \<and> (\<forall>p\<in>set reports. unat (report_number p) \<le> unat (hc_initial_delay_blocks c))
    \<and> ((\<exists>k. Init_Complete k \<in> set reports) \<longleftrightarrow> (\<exists>h. res = Harness_Started h) \<and> 0 < hc_initial_delay_blocks c)
    \<and> ((\<exists>k. Init_Complete k \<in> set reports) \<longrightarrow> last reports = Init_Complete (hc_initial_delay_blocks c))"
proof -
  let ?n = "hc_initial_delay_blocks c"
  from spawn_reports [OF assms refl] show ?thesis
  proof (elim disjE exE conjE)
    assume "at_start ?n reports" and "(\<exists>h. res = Harness_Started h) \<longrightarrow> ?n = 0"
    moreover from this have "map (unat \<circ> report_number) reports = replicate (length reports) 0"
      by (intro replicate_eqI) (auto simp: at_start_def)
    ultimately show ?thesis by (auto simp: at_start_def)
  next
    fix addrs r blocks pre
    assume gen: "generate_blocks E addrs ?n [0..<unat ?n] = (r, blocks)" and pre: "at_start ?n pre" and n: "0 < ?n"
      and reports: "reports = pre @ blocks @ (if r = None then report_completed ?n else [])"
      and res: "r = None \<longleftrightarrow> (\<exists>h. res = Harness_Started h)"
    note blocks = generate_blocks_reports [OF gen le0, simplified]
    have "unat ?n < 2 ^ 64" using unsigned_less [of ?n, where ?'a = nat] by simp
    then have small: "length blocks < 2 ^ 64" using blocks by linarith
    have nums: "map (unat \<circ> report_number) blocks = map Suc [0..<length blocks]"
    proof -
      have "map (unat \<circ> report_number) blocks = map unat (map report_number blocks)" by simp
      also have "\<dots> = map (\<lambda>k. unat (of_nat (Suc k) :: u64)) [0..<length blocks]" using blocks by simp
      also have "\<dots> = map Suc [0..<length blocks]"
        using small by (auto simp: unat_of_nat take_bit_eq_mod simp del: of_nat_Suc)
      finally show ?thesis .
    qed
    have zeros: "map (unat \<circ> report_number) pre = replicate (length pre) 0"
      using pre by (intro replicate_eqI) (auto simp: at_start_def)
    have "map (unat \<circ> report_number) reports = replicate (length pre) 0 @ map Suc [0..<length blocks]
        @ (if r = None then [unat ?n, unat ?n] else [])"
      unfolding reports using zeros nums by (simp add: report_completed_def)
    moreover have "r = None \<Longrightarrow> length blocks = unat ?n" and le: "length blocks \<le> unat ?n" using blocks by auto
    ultimately have "sorted (map (unat \<circ> report_number) reports)"
      and "\<forall>k\<in>set (map (unat \<circ> report_number) reports). k \<le> unat ?n"
      by (auto simp: sorted_append map_Suc_upt)
    moreover have "(\<exists>k. Init_Complete k \<in> set reports) \<longleftrightarrow> r = None"
      using blocks pre by (auto simp: reports report_completed_def at_start_def)
    moreover have "r = None \<Longrightarrow> last reports = Init_Complete ?n" by (simp add: reports report_completed_def)
    ultimately show ?thesis using res n by auto
  qed
qed

text \<open>An Anvil that starts with one account and mines whatever it gets.\<close>

definition demo_env :: "nat harness_env" where
  "demo_env =
     \<lparr>he_exists = (\<lambda>_. False), he_temp_file = Inr ''t'', he_write_temp = Inr (), he_spawn = (\<lambda>_ _. Inr (''u'', [1])),
      he_address = (\<lambda>_. []), he_connect = (\<lambda>_. Inr ()), he_send = (\<lambda>i _. if i < 2 then Inr () else Inl ''down'')\<rparr>"

theorem harness_progress_witness:
  "\<exists>h reports. spawn_with_progress demo_env (harness_config_default\<lparr>hc_initial_delay_blocks := 2\<rparr>) = (Harness_Started h, reports)
     \<and> last reports = Init_Complete 2"
proof -
  obtain h reports where run:
    "spawn_with_progress demo_env (harness_config_default\<lparr>hc_initial_delay_blocks := 2\<rparr>) = (Harness_Started h, reports)"
    by (simp add: spawn_with_progress_def demo_env_def harness_config_default_def state_args_def Let_def upt_rec)
  from harness_progress [OF run] have "last reports = Init_Complete 2" by simp
  with run show ?thesis by blast
qed

end
