(* ===== verification/Runtime.thy ===== *)
theory Runtime
  imports Command_Line Adapters Anvil_State Harness End_To_End
begin

text \<open>
  The runtime (\<^verbatim>\<open>crates/node/runtime/src\<close>): from a command line to a node with its roles, sync
  stage, block feeder and callbacks.

  A role in a node is its record together with its surroundings and the number of its ticks; the
  objects satisfy the \<^verbatim>\<open>Role\<close> operations of \<open>Node_Main\<close>. Outside the repository are the RPC
  providers, Anvil, RocksDB, TrieDB and serde_json, whose answers are the fields of
  \<open>runtime_env\<close>. A panic is the value \<open>None\<close>.
\<close>

section \<open>The roles as objects of the node\<close>

text \<open>The sequencer, with what happens around each of its ticks.\<close>

type_synonym 'tx sequencer_object = "'tx world \<times> nat"

definition sequencer_role :: "'tx deps \<Rightarrow> (nat \<Rightarrow> 'tx schedule) \<Rightarrow> (nat \<Rightarrow> instant) \<Rightarrow> 'tx sequencer_object role_ops" where
  "sequencer_role d sched clocks =
     \<lparr>r_resume = \<lambda>c (w, k). (Inr (), (sequencer_resume c w, k)),
      r_tick = \<lambda>(w, k). map_option (\<lambda>(r, w). (r, (w, Suc k))) (sequencer_tick d (sched k) (clocks k) w),
      r_checkpoint = \<lambda>(w, k). sequencer_checkpoint w\<rparr>"

definition validator_role :: "('tx, 's) vdeps \<Rightarrow> ('tx, 's) vworld role_ops" where
  "validator_role d =
     \<lparr>r_resume = \<lambda>c w. (Inr (), validator_resume c w),
      r_tick = \<lambda>w. Some (validator_tick d w),
      r_checkpoint = validator_checkpoint\<rparr>"

text \<open>A sequencer whose channel has no block in it; \<open>closed\<close> says whether its sender is gone.\<close>

definition sequencer_object_new :: "bool \<Rightarrow> file_system \<Rightarrow> 'tx sequencer \<Rightarrow> 'tx sequencer_object" where
  "sequencer_object_new closed fs s =
     (sequencer.extend s \<lparr>rx_closed = closed, sent = [], spawned = [], running = [], sink_log = [],
        disk = fs, outputs = []\<rparr>, 0)"

section \<open>The environment\<close>

record 's runtime_env =
  re_connect :: "string \<Rightarrow> string + unit"
  re_tip :: "string + u64"
  re_de :: "string \<Rightarrow> checkpoint option"
  re_readable :: bool
  re_spawn_anvil :: "anvil_config \<Rightarrow> string + address"
  re_create_dir :: "string + unit"
  re_anvil_json :: "string + anvil_state"
  re_kvdb :: "genesis \<Rightarrow> string + unit"
  re_triedb :: "genesis \<Rightarrow> string + unit"
  re_source :: 's
  re_now :: instant
  re_fs :: file_system

record rpc_producer =
  rp_poll_interval_ms :: u64
  rp_start :: u64

record ('tx, 's) montana =
  m_node :: "(rpc_producer, 'tx sequencer_object, ('tx, 's) vworld) node"
  m_context :: batch_context
  m_feeder :: "(u64 \<times> u64) option"  \<comment> \<open>where the block feeder starts, and its poll interval\<close>
  m_tui_events :: "nat tui_event list"

section \<open>Choices\<close>

definition show_checkpoint_error :: "checkpoint_error \<Rightarrow> string" where
  "show_checkpoint_error e = (case e of Io \<Rightarrow> ''IO error'' | Serialize \<Rightarrow> ''Serialization error'')"

definition runtime_start_block :: "'s runtime_env \<Rightarrow> montana_cli \<Rightarrow> node_error + u64" where
  "runtime_start_block E c =
     (case cli_start c of
        Some n \<Rightarrow> Inr n
      | None \<Rightarrow>
          if cli_with_harness c then Inr 0
          else case load (re_de E) (re_readable E) (re_fs E) (cli_checkpoint_path c) of
            Inl e \<Rightarrow> Inl (NodeReport (''Failed to load checkpoint: '' @ show_checkpoint_error e))
          | Inr (Some saved) \<Rightarrow> Inr (saturating_add (synced_to_block saved) 1)
          | Inr None \<Rightarrow> map_err NodeReport (re_tip E))"

definition feeder_start :: "montana_cli \<Rightarrow> u64" where
  "feeder_start c = (case cli_start c of Some n \<Rightarrow> n | None \<Rightarrow> 0)"

definition runtime_checkpoint_path :: "montana_cli \<Rightarrow> path option" where
  "runtime_checkpoint_path c = (if cli_with_harness c then None else Some (cli_checkpoint_path c))"

definition runtime_batcher_config :: "montana_cli \<Rightarrow> batcher_config" where
  "runtime_batcher_config c =
     (if cli_with_harness c
      then build (set_max_blocks_per_batch 3 (set_batch_interval (2 * SECS) (set_min_batch_size 10 builder)))
      else batcher_config_default)"

definition checkpoint_for_tui :: "'s runtime_env \<Rightarrow> montana_cli \<Rightarrow> checkpoint" where
  "checkpoint_for_tui E c =
     (if cli_with_harness c then checkpoint_default
      else case load (re_de E) (re_readable E) (re_fs E) (cli_checkpoint_path c) of
        Inr (Some saved) \<Rightarrow> saved | _ \<Rightarrow> checkpoint_default)"

definition BATCH_INBOX :: address where
  "BATCH_INBOX = 0x4242424242424242424242424242424242424242"

section \<open>Building the node\<close>

text \<open>The sequencer, when the role needs it; \<open>closed\<close> as in \<open>sequencer_object_new\<close>.\<close>

definition attach_sequencer :: "'s runtime_env \<Rightarrow> montana_cli \<Rightarrow> bool \<Rightarrow> bool
    \<Rightarrow> (rpc_producer, 'tx sequencer_object, ('tx, 's) vworld) node_builder
    \<Rightarrow> node_error + (rpc_producer, 'tx sequencer_object, ('tx, 's) vworld) node_builder" where
  "attach_sequencer E c has_tui closed b =
     rbind (map_err NodeRoleError
              (sequencer_new (re_de E) (re_readable E) (re_fs E) (re_now E) (runtime_batcher_config c)
                 (runtime_checkpoint_path c) []))
       (\<lambda>s. let s = (if has_tui then with_batch_callback (with_execution_callback s) else s)
            in Inr (with_sequencer (sequencer_object_new closed (re_fs E) s) b))"

definition sequencer_tui_events :: "'s runtime_env \<Rightarrow> montana_cli \<Rightarrow> nat tui_event list" where
  "sequencer_tui_events E c =
     (let cfg = runtime_batcher_config c; mark = checkpoint_for_tui E c in
      [SequencerInit (last_batch_submitted mark) (min_batch_size cfg) (of_nat (batch_interval cfg div SECS))
         (max_blocks_per_batch cfg),
       ExecutionInit (feeder_start c) (last_block_executed mark) (cli_with_harness c)])"

text \<open>The validator's database: its directory, the genesis, the two stores.\<close>

definition open_validator_database :: "'s runtime_env \<Rightarrow> node_error + unit" where
  "open_validator_database E =
     rbind (map_err NodeReport (re_create_dir E)) (\<lambda>_.
     rbind (map_err (\<lambda>e. NodeReport (''Failed to parse anvil state: '' @ e)) (re_anvil_json E)) (\<lambda>S.
     rbind (map_err (\<lambda>e. NodeReport (''Failed to create kvdb: '' @ e)) (re_kvdb E (into_genesis S))) (\<lambda>_.
       map_err (\<lambda>e. NodeReport (''Failed to create trie db: '' @ e)) (re_triedb E (into_genesis S)))))"

definition attach_validator :: "'s runtime_env \<Rightarrow> montana_cli \<Rightarrow> bool
    \<Rightarrow> (rpc_producer, 'tx sequencer_object, ('tx, 's) vworld) node_builder
    \<Rightarrow> node_error + (rpc_producer, 'tx sequencer_object, ('tx, 's) vworld) node_builder" where
  "attach_validator E c has_tui b =
     rbind (open_validator_database E) (\<lambda>_.
     rbind (map_err NodeRoleError
              (validator_new (re_de E) (re_readable E) (re_fs E) (runtime_checkpoint_path c)))
       (\<lambda>v. let v = (if has_tui then with_derivation_callback v else v)
            in Inr (with_validator (vworld_of v (re_source E) (re_fs E)) b)))"

definition validator_tui_events :: "'s runtime_env \<Rightarrow> montana_cli \<Rightarrow> nat tui_event list" where
  "validator_tui_events E c = [ValidatorInit (last_batch_derived (checkpoint_for_tui E c))]"

definition runtime_node_config :: "montana_cli \<Rightarrow> node_role \<Rightarrow> node_config" where
  "runtime_node_config c r =
     \<lparr>role = r, checkpoint_path = cli_checkpoint_path c,
      checkpoint_interval_secs = cli_checkpoint_interval c, skip_sync = cli_skip_sync c\<rparr>"

text \<open>
  The feeder and the sync stage. The sender of the block channel goes to the feeder's thread with
  \<^verbatim>\<open>--skip-sync\<close>; without it nobody takes it, and it is dropped when the function returns.
\<close>

definition runtime_feeder :: "montana_cli \<Rightarrow> (u64 \<times> u64) option" where
  "runtime_feeder c = (if cli_skip_sync c then Some (feeder_start c, cli_poll_interval_ms c) else None)"

definition feeder_tui_events :: "montana_cli \<Rightarrow> string \<Rightarrow> nat tui_event list" where
  "feeder_tui_events c url = (if cli_skip_sync c then [BlockBuilderInit url (cli_poll_interval_ms c)] else [])"

definition base_builder :: "'s runtime_env \<Rightarrow> montana_cli \<Rightarrow> node_role \<Rightarrow> rpc_producer
    \<Rightarrow> (rpc_producer, 'tx sequencer_object, ('tx, 's) vworld) node_builder" where
  "base_builder E c r rpc =
     (if cli_skip_sync c then with_config (runtime_node_config c r) node_builder_new
      else with_sync_stage
             (sync_new (re_now E) rpc (sync_config_default\<lparr>sync_threshold := cli_sync_threshold c\<rparr>))
             (with_config (runtime_node_config c r) node_builder_new))"

text \<open>The two roles and the observer.\<close>

definition attach_roles :: "'s runtime_env \<Rightarrow> montana_cli \<Rightarrow> node_role \<Rightarrow> bool
    \<Rightarrow> (rpc_producer, 'tx sequencer_object, ('tx, 's) vworld) node_builder
    \<Rightarrow> node_error + (rpc_producer, 'tx sequencer_object, ('tx, 's) vworld) node_builder" where
  "attach_roles E c r has_tui b =
     rbind (if runs_sequencer r then attach_sequencer E c has_tui (runtime_feeder c = None) b else Inr b) (\<lambda>b.
     rbind (if runs_validator r then attach_validator E c has_tui b else Inr b) (\<lambda>b.
       Inr (if has_tui then with_observer b else b)))"

definition role_tui_events :: "'s runtime_env \<Rightarrow> montana_cli \<Rightarrow> node_role \<Rightarrow> nat tui_event list" where
  "role_tui_events E c r =
     (if runs_sequencer r then sequencer_tui_events E c else [])
     @ (if runs_validator r then validator_tui_events E c else [])"

definition build_node_common :: "'s runtime_env \<Rightarrow> montana_cli \<Rightarrow> bool \<Rightarrow> rpc_producer \<Rightarrow> string
    \<Rightarrow> (node_error + ('tx, 's) montana) option" where
  "build_node_common E c has_tui rpc url =
     (case role_of_mode (cli_mode c) of
        Inl _ \<Rightarrow> None
      | Inr r \<Rightarrow> Some (
          rbind (map_err (\<lambda>e. NodeReport (''Failed to create batch context: '' @ show_ctx_sink_error e))
                   (batch_context_new (re_spawn_anvil E) (cli_batch_mode c) BATCH_INBOX)) (\<lambda>ctx.
          rbind (attach_roles E c r has_tui (base_builder E c r rpc)) (\<lambda>b.
          rbind (build_node (re_de E) (re_readable E) (re_fs E) (re_now E) b) (\<lambda>n.
            Inr \<lparr>m_node = n, m_context = ctx, m_feeder = runtime_feeder c,
                 m_tui_events = (if has_tui then feeder_tui_events c url @ role_tui_events E c r else [])\<rparr>)))))"

definition runtime_build_node :: "'s runtime_env \<Rightarrow> montana_cli \<Rightarrow> bool \<Rightarrow> string
    \<Rightarrow> (node_error + ('tx, 's) montana) option" where
  "runtime_build_node E c has_tui url =
     (case map_err NodeReport (re_connect E url) of
        Inl e \<Rightarrow> Some (Inl e)
      | Inr _ \<Rightarrow>
          (case runtime_start_block E c of
             Inl e \<Rightarrow> Some (Inl e)
           | Inr start \<Rightarrow>
               build_node_common E c has_tui
                 \<lparr>rp_poll_interval_ms = cli_poll_interval_ms c, rp_start = start\<rparr> url))"

text \<open>\<^verbatim>\<open>run_headless\<close> up to the node's run; \<open>H\<close> is the environment of the harness.\<close>

definition run_headless :: "'key harness_env \<Rightarrow> 's runtime_env \<Rightarrow> montana_cli
    \<Rightarrow> (node_error + 'key harness option \<times> ('tx, 's) montana) option" where
  "run_headless H E c =
     (case fst (spawn_if_enabled H (cli_with_harness c) (cli_harness_block_time_ms c)
              (cli_harness_initial_blocks c) (cli_harness_tx_per_block c) (cli_rpc_url c)) of
        None \<Rightarrow> None
      | Some (Inl e) \<Rightarrow> Some (Inl (NodeReport e))
      | Some (Inr (h, url)) \<Rightarrow> map_option (map_sum id (Pair h)) (runtime_build_node E c False url))"

text \<open>What \<^verbatim>\<open>run_with_tui\<close> tells the interface before the node is built.\<close>

fun show_node_role_name :: "montana_mode \<Rightarrow> string" where
  "show_node_role_name SequencerMode = ''Sequencer''"
| "show_node_role_name ValidatorMode = ''Validator''"
| "show_node_role_name DualMode = ''Dual''"
| "show_node_role_name ExecutorMode = ''Executor''"

definition tui_first_events :: "montana_cli \<Rightarrow> nat tui_event list" where
  "tui_first_events c =
     ModeInfo (show_node_role_name (cli_mode c)) (cli_start c) (cli_skip_sync c)
     # (if cli_with_harness c then [HarnessModeEnabled] else [])"

fun progress_tui_events :: "progress_report \<Rightarrow> nat tui_event list" where
  "progress_tui_events (Progress_Report n of_blocks message) = adapter_report_progress n of_blocks message"
| "progress_tui_events (Init_Complete final_block) = adapter_report_init_complete final_block"

text \<open>
  The thread of the node up to the node's run: nothing when the harness or the node could not be
  made, which is only logged; \<open>None\<close> is a panic. Beside it what the interface is told.
\<close>

definition tui_node_thread :: "'key harness_env \<Rightarrow> 's runtime_env \<Rightarrow> montana_cli
    \<Rightarrow> ('key harness option \<times> ('tx, 's) montana) option option \<times> nat tui_event list" where
  "tui_node_thread H E c =
     (case spawn_if_enabled H (cli_with_harness c) (cli_harness_block_time_ms c)
              (cli_harness_initial_blocks c) (cli_harness_tx_per_block c) (cli_rpc_url c) of
        (made, reports) \<Rightarrow>
          (let told = tui_first_events c @ concat (map progress_tui_events reports)
           in case made of
                None \<Rightarrow> (None, told)
              | Some (Inl e) \<Rightarrow> (Some None, told)
              | Some (Inr (h, url)) \<Rightarrow>
                  (case runtime_build_node E c True url of
                     None \<Rightarrow> (None, told)
                   | Some (Inl e) \<Rightarrow> (Some None, told)
                   | Some (Inr m) \<Rightarrow> (Some (Some (h, m)), told @ m_tui_events m))))"

text \<open>
  \<^verbatim>\<open>run_with_tui\<close> itself: its result is that of the terminal and of the interface (\<open>tui_result\<close>), whatever
  becomes of the thread.
\<close>

definition run_with_tui :: "'key harness_env \<Rightarrow> 's runtime_env \<Rightarrow> montana_cli \<Rightarrow> string + unit \<Rightarrow> string + unit
    \<Rightarrow> string + unit \<Rightarrow> (string + unit) \<times> ('key harness option \<times> ('tx, 's) montana) option option" where
  "run_with_tui H E c entered tui_result left =
     (case entered of
        Inl e \<Rightarrow> (Inl e, Some None)
      | Inr _ \<Rightarrow> (rbind left (\<lambda>_. map_err (\<lambda>e. ''TUI error: '' @ e) tui_result), fst (tui_node_thread H E c)))"

text \<open>
  A node that cannot be built makes \<^verbatim>\<open>run_headless\<close> fail, but with the interface the program goes on
  with nothing behind it and ends as a success.
\<close>

lemma tui_hides_failures:
  assumes "fst (spawn_if_enabled H (cli_with_harness c) (cli_harness_block_time_ms c)
      (cli_harness_initial_blocks c) (cli_harness_tx_per_block c) (cli_rpc_url c)) = Some (Inl e)"
  shows "run_headless H E c = Some (Inl (NodeReport e))"
    and "run_with_tui H E c (Inr ()) (Inr ()) (Inr ()) = (Inr (), Some None)"
  using assms by (auto simp: run_headless_def run_with_tui_def tui_node_thread_def Let_def split: prod.split)

text \<open>
  Where a node starts without \<^verbatim>\<open>--start\<close>: the sync stage after the block the checkpoint says, but the
  feeder of a node that skips the sync stage at block 0, whatever the checkpoint says.
\<close>

lemma skip_sync_starts_over:
  assumes "cli_start c = None" and "\<not> cli_with_harness c" and "cli_skip_sync c"
    and "load (re_de E) (re_readable E) (re_fs E) (cli_checkpoint_path c) = Inr (Some saved)"
  shows "runtime_start_block E c = Inr (saturating_add (synced_to_block saved) 1)"
    and "runtime_feeder c = Some (0, cli_poll_interval_ms c)"
  using assms by (simp_all add: runtime_start_block_def runtime_feeder_def feeder_start_def)

section \<open>Command lines that reach the runtime build a node\<close>

text \<open>Every call to the outside succeeds.\<close>

definition outside_ok :: "'s runtime_env \<Rightarrow> montana_cli \<Rightarrow> string \<Rightarrow> bool" where
  "outside_ok E c url =
     (re_connect E url = Inr () \<and> is_ok (re_tip E)
      \<and> is_ok (load (re_de E) (re_readable E) (re_fs E) (cli_checkpoint_path c))
      \<and> is_ok (batch_context_new (re_spawn_anvil E) (cli_batch_mode c) BATCH_INBOX)
      \<and> open_validator_database E = Inr ())"

text \<open>The parts of a node that fit together and to the command line.\<close>

definition wired :: "montana_cli \<Rightarrow> bool \<Rightarrow> ('tx, 's) montana \<Rightarrow> bool" where
  "wired c has_tui m =
     (let n = m_node m; r = role (n_config n) in
      role_of_mode (cli_mode c) = Inr r \<and> n_state n = Starting
      \<and> (n_sequencer n \<noteq> None \<longleftrightarrow> runs_sequencer r) \<and> (n_validator n \<noteq> None \<longleftrightarrow> runs_validator r)
      \<and> skip_sync (n_config n) = cli_skip_sync c
      \<and> (n_sync n \<noteq> None \<longleftrightarrow> \<not> cli_skip_sync c) \<and> (m_feeder m \<noteq> None \<longleftrightarrow> cli_skip_sync c)
      \<and> n_observers n = (if has_tui then 1 else 0) \<and> context_mode (m_context m) = cli_batch_mode c)"

lemma is_ok_iff: "is_ok r \<longleftrightarrow> (\<exists>x. r = Inr x)"
  by (cases r) simp_all

lemma runtime_start_block_ok:
  assumes "is_ok (re_tip E)" and "is_ok (load (re_de E) (re_readable E) (re_fs E) (cli_checkpoint_path c))"
  shows "\<exists>start. runtime_start_block E c = Inr start"
proof -
  from assms obtain n saved where "re_tip E = Inr n"
    and "load (re_de E) (re_readable E) (re_fs E) (cli_checkpoint_path c) = Inr saved"
    by (auto simp: is_ok_iff)
  then show ?thesis
    by (cases "cli_start c"; cases saved) (simp_all add: runtime_start_block_def)
qed

lemma initial_checkpoint_ok:
  "is_ok (load de readable fs p) \<Longrightarrow> q = None \<or> q = Some p \<Longrightarrow> is_ok (initial_checkpoint de readable fs q)"
  by (auto simp: initial_checkpoint_def is_ok_def split: option.splits sum.splits)

lemma context_mode_of: "batch_context_new spawn mode inbox = Inr ctx \<Longrightarrow> context_mode ctx = mode"
  by (auto simp: batch_context_new_def Let_def rbind_Inr_iff split: submission_mode.splits)

text \<open>A sequencer that has not been used.\<close>

definition unused :: "'tx sequencer \<Rightarrow> bool" where
  "unused s =
     (block_rx s = [] \<and> pending s = [] \<and> prepared_rx s = [] \<and> in_flight s = 0 \<and> ready s = []
      \<and> next_batch_number s = 1 \<and> next_submission_number s = 1)"

lemma unused_fresh: "unused s \<Longrightarrow> fresh (fst (sequencer_object_new closed fs s))"
  by (simp add: unused_def fresh_def sequencer_object_new_def sequencer.defs)

lemma attach_sequencer_Inr:
  "attach_sequencer E c has_tui closed b = Inr b' \<Longrightarrow>
    \<exists>s. b' = with_sequencer (sequencer_object_new closed (re_fs E) s) b \<and> unused s
        \<and> cp_path s = runtime_checkpoint_path c"
  by (auto simp: attach_sequencer_def rbind_Inr_iff sequencer_new_def Let_def with_batch_callback_def
      with_execution_callback_def unused_def)

lemma attach_validator_Inr:
  "attach_validator E c has_tui b = Inr b' \<Longrightarrow>
    \<exists>v. b' = with_validator (vworld_of v (re_source E) (re_fs E)) b \<and> v_cp_path v = runtime_checkpoint_path c"
  by (cases has_tui) (auto simp: attach_validator_def rbind_Inr_iff Let_def validator_new_def with_derivation_callback_def)

lemma attach_ok:
  assumes "is_ok (load (re_de E) (re_readable E) (re_fs E) (cli_checkpoint_path c))"
  shows "is_ok (attach_sequencer E c has_tui closed b)"
    and "open_validator_database E = Inr () \<Longrightarrow> is_ok (attach_validator E c has_tui b)"
proof -
  have "is_ok (initial_checkpoint (re_de E) (re_readable E) (re_fs E) (runtime_checkpoint_path c))"
    using assms by (intro initial_checkpoint_ok [of _ _ _ "cli_checkpoint_path c"]) (simp_all add: runtime_checkpoint_path_def)
  then obtain cp0 where "initial_checkpoint (re_de E) (re_readable E) (re_fs E) (runtime_checkpoint_path c) = Inr cp0"
    by (auto simp: is_ok_def split: sum.splits)
  then show "is_ok (attach_sequencer E c has_tui closed b)"
    "open_validator_database E = Inr () \<Longrightarrow> is_ok (attach_validator E c has_tui b)"
    by (simp_all add: attach_sequencer_def attach_validator_def sequencer_new_def validator_new_def Let_def)
qed

text \<open>A builder with its roles.\<close>

definition roles_attached :: "'s runtime_env \<Rightarrow> montana_cli \<Rightarrow> node_role \<Rightarrow> bool
    \<Rightarrow> (rpc_producer, 'tx sequencer_object, ('tx, 's) vworld) node_builder \<Rightarrow> bool" where
  "roles_attached E c r has_tui b =
     (nb_config b = runtime_node_config c r
      \<and> (nb_sync_stage b \<noteq> None \<longleftrightarrow> \<not> cli_skip_sync c)
      \<and> (if runs_sequencer r
         then \<exists>s. nb_sequencer b = Some (sequencer_object_new (\<not> cli_skip_sync c) (re_fs E) s) \<and> unused s
                \<and> cp_path s = runtime_checkpoint_path c
         else nb_sequencer b = None)
      \<and> (if runs_validator r
         then \<exists>v. nb_validator b = Some (vworld_of v (re_source E) (re_fs E)) \<and> v_cp_path v = runtime_checkpoint_path c
         else nb_validator b = None)
      \<and> nb_observers b = (if has_tui then 1 else 0))"

lemma attach_roles_Inr:
  assumes "attach_roles E c r has_tui (base_builder E c r rpc) = Inr b"
  shows "roles_attached E c r has_tui b"
proof -
  let ?b0 = "base_builder E c r rpc"
  have b0: "nb_config ?b0 = runtime_node_config c r" "nb_sequencer ?b0 = None" "nb_validator ?b0 = None"
    "nb_observers ?b0 = 0" "nb_sync_stage ?b0 \<noteq> None \<longleftrightarrow> \<not> cli_skip_sync c"
    by (simp_all add: base_builder_def with_config_def with_sync_stage_def node_builder_new_def)
  obtain b1 b2
    where b1: "(if runs_sequencer r then attach_sequencer E c has_tui (runtime_feeder c = None) ?b0 else Inr ?b0) = Inr b1"
      and b2: "(if runs_validator r then attach_validator E c has_tui b1 else Inr b1) = Inr b2"
      and b: "b = (if has_tui then with_observer b2 else b2)"
    using assms by (auto simp: attach_roles_def rbind_Inr_iff)
  have closed: "runtime_feeder c = None \<longleftrightarrow> \<not> cli_skip_sync c" by (simp add: runtime_feeder_def)
  have b1': "nb_config b1 = runtime_node_config c r" "nb_validator b1 = None" "nb_observers b1 = 0"
    "nb_sync_stage b1 \<noteq> None \<longleftrightarrow> \<not> cli_skip_sync c"
    "if runs_sequencer r then \<exists>s. nb_sequencer b1 = Some (sequencer_object_new (\<not> cli_skip_sync c) (re_fs E) s) \<and> unused s
       \<and> cp_path s = runtime_checkpoint_path c
     else nb_sequencer b1 = None"
    using b1 b0 attach_sequencer_Inr [of E c has_tui "runtime_feeder c = None" ?b0 b1]
    by (auto simp: with_sequencer_def closed split: if_splits)
  have "nb_config b2 = nb_config b1" "nb_sequencer b2 = nb_sequencer b1" "nb_observers b2 = nb_observers b1"
    "nb_sync_stage b2 = nb_sync_stage b1"
    "if runs_validator r then \<exists>v. nb_validator b2 = Some (vworld_of v (re_source E) (re_fs E))
       \<and> v_cp_path v = runtime_checkpoint_path c else nb_validator b2 = None"
    using b2 b1'(2) attach_validator_Inr [of E c has_tui b1 b2] by (auto simp: with_validator_def split: if_splits)
  with b1' b show ?thesis by (simp add: roles_attached_def with_observer_def)
qed

lemma attach_roles_ok:
  assumes "is_ok (load (re_de E) (re_readable E) (re_fs E) (cli_checkpoint_path c))"
    and "open_validator_database E = Inr ()"
  shows "is_ok (attach_roles E c r has_tui b)"
proof -
  obtain b1 where b1: "(if runs_sequencer r then attach_sequencer E c has_tui (runtime_feeder c = None) b else Inr b) = Inr b1"
    using attach_ok(1) [OF assms(1), of has_tui "runtime_feeder c = None" b]
    by (cases "runs_sequencer r") (auto simp: is_ok_iff)
  obtain b2 where b2: "(if runs_validator r then attach_validator E c has_tui b1 else Inr b1) = Inr b2"
    using attach_ok(2) [OF assms, of has_tui b1] by (cases "runs_validator r") (auto simp: is_ok_iff)
  from b1 b2 show ?thesis by (simp add: attach_roles_def)
qed

lemma roles_attached_builds:
  "roles_attached E c r has_tui b \<Longrightarrow> is_ok (build_node de readable fs now b)"
  by (cases "runs_sequencer r"; cases "runs_validator r")
    (auto simp: build_node_ok_iff complete_builder_def roles_attached_def runtime_node_config_def)

text \<open>A built node, taken apart.\<close>

lemma build_common_Inr:
  assumes "build_node_common E c has_tui rpc url = Some (Inr m)"
  obtains r b where "role_of_mode (cli_mode c) = Inr r" and "m_feeder m = runtime_feeder c"
    and "batch_context_new (re_spawn_anvil E) (cli_batch_mode c) BATCH_INBOX = Inr (m_context m)"
    and "build_node (re_de E) (re_readable E) (re_fs E) (re_now E) b = Inr (m_node m)"
    and "roles_attached E c r has_tui b"
proof -
  from assms obtain r ctx b n where r: "role_of_mode (cli_mode c) = Inr r"
    and ctx: "batch_context_new (re_spawn_anvil E) (cli_batch_mode c) BATCH_INBOX = Inr ctx"
    and b: "attach_roles E c r has_tui (base_builder E c r rpc) = Inr b"
    and n: "build_node (re_de E) (re_readable E) (re_fs E) (re_now E) b = Inr n"
    and m: "m_node m = n" "m_context m = ctx" "m_feeder m = runtime_feeder c"
    by (auto simp: build_node_common_def rbind_Inr_iff split: sum.splits)
  show thesis using that [OF r m(3) _ _ attach_roles_Inr [OF b]] ctx n m by simp
qed

lemma built_node_fields:
  assumes "build_node de readable fs now b = Inr n"
  shows "n_config n = nb_config b" "n_state n = Starting" "n_sync n = nb_sync_stage b"
    "n_sequencer n = nb_sequencer b" "n_validator n = nb_validator b" "n_observers n = nb_observers b"
    "n_checkpoint n = (case load de readable fs (checkpoint_path (nb_config b)) of Inr (Some c) \<Rightarrow> c | _ \<Rightarrow> checkpoint_default)"
  using assms by (auto simp: build_node_def split: if_splits)

lemma build_common_ok:
  assumes "role_of_mode (cli_mode c) = Inr r"
    and "is_ok (load (re_de E) (re_readable E) (re_fs E) (cli_checkpoint_path c))"
    and "is_ok (batch_context_new (re_spawn_anvil E) (cli_batch_mode c) BATCH_INBOX)"
    and "open_validator_database E = Inr ()"
  shows "\<exists>m :: ('tx, 's) montana. build_node_common E c has_tui rpc url = Some (Inr m)"
proof -
  let ?b0 = "base_builder E c r rpc :: (rpc_producer, 'tx sequencer_object, ('tx, 's) vworld) node_builder"
  obtain b where b: "attach_roles E c r has_tui ?b0 = Inr b"
    using attach_roles_ok [OF assms(2,4), of r has_tui ?b0] by (auto simp: is_ok_iff)
  with roles_attached_builds [OF attach_roles_Inr [OF b], of "re_de E" "re_readable E" "re_fs E" "re_now E"] assms(1,3)
  show ?thesis by (auto simp: build_node_common_def is_ok_iff)
qed

lemma runtime_builds:
  assumes r: "role_of_mode (cli_mode c) = Inr r" and ok: "outside_ok E c url"
  shows "\<exists>m :: ('tx, 's) montana. runtime_build_node E c has_tui url = Some (Inr m) \<and> wired c has_tui m"
proof -
  obtain start where "runtime_start_block E c = Inr start"
    using ok runtime_start_block_ok [of E c] by (auto simp: outside_ok_def)
  moreover define rpc where "rpc = \<lparr>rp_poll_interval_ms = cli_poll_interval_ms c, rp_start = start\<rparr>"
  ultimately have run: "(runtime_build_node E c has_tui url :: (node_error + ('tx, 's) montana) option)
      = build_node_common E c has_tui rpc url"
    using ok by (simp add: runtime_build_node_def outside_ok_def)
  obtain m :: "('tx, 's) montana" where m: "build_node_common E c has_tui rpc url = Some (Inr m)"
    using build_common_ok [OF r, of E has_tui rpc url] ok by (auto simp: outside_ok_def)
  have "wired c has_tui m"
  proof (rule build_common_Inr [OF m], goal_cases)
    case (1 r b)
    have "n_sequencer (m_node m) \<noteq> None \<longleftrightarrow> runs_sequencer r"
      using 1(5) built_node_fields(4) [OF 1(4)] by (cases "runs_sequencer r") (auto simp: roles_attached_def)
    moreover have "n_validator (m_node m) \<noteq> None \<longleftrightarrow> runs_validator r"
      using 1(5) built_node_fields(5) [OF 1(4)] by (cases "runs_validator r") (auto simp: roles_attached_def)
    ultimately show ?case
      using 1 built_node_fields [OF 1(4)] context_mode_of [OF 1(3)]
      by (simp add: wired_def roles_attached_def runtime_node_config_def runtime_feeder_def)
  qed
  with m run show ?thesis by auto
qed


text \<open>A machine where everything works, and the default command line with a URL.\<close>

definition demo_runtime :: "unit runtime_env" where
  "demo_runtime =
     \<lparr>re_connect = (\<lambda>_. Inr ()), re_tip = Inr 100, re_de = unary_de, re_readable = True,
      re_spawn_anvil = (\<lambda>_. Inr 1), re_create_dir = Inr (), re_anvil_json = Inr one_account,
      re_kvdb = (\<lambda>_. Inr ()), re_triedb = (\<lambda>_. Inr ()), re_source = (), re_now = 0,
      re_fs = \<lparr>files = Map.empty, dirs = {}\<rparr>\<rparr>"

definition demo_cli :: montana_cli where
  "demo_cli = montana_cli_default\<lparr>cli_rpc_url := Some ''u''\<rparr>"

lemma demo_main: "montana_main True demo_cli (re_fs demo_runtime) = (Run_Node demo_cli, re_fs demo_runtime)"
  by (simp add: montana_main_def demo_cli_def montana_cli_default_def harness_adjust_def reset_checkpoint_file_def Let_def)

lemma demo_outside: "outside_ok demo_runtime demo_cli ''u''"
  by (simp add: outside_ok_def demo_runtime_def demo_cli_def montana_cli_default_def load_def batch_context_new_def
      Let_def open_validator_database_def)

lemma demo_node_built:
  "\<exists>m :: ('tx, unit) montana. runtime_build_node demo_runtime demo_cli False ''u'' = Some (Inr m) \<and> wired demo_cli False m"
  by (rule runtime_builds [OF _ demo_outside, of DualRole]) (simp add: demo_cli_def montana_cli_default_def)


section \<open>Without --skip-sync nothing is sequenced\<close>

text \<open>
  A sequencer whose channel is closed and empty, with nothing under way: nothing the
  surroundings do changes it, and every tick says \<^verbatim>\<open>Complete\<close> and does nothing.
\<close>

definition starved :: "'tx world \<Rightarrow> bool" where
  "starved w =
     (rx_closed w \<and> block_rx w = [] \<and> pending w = [] \<and> running w = [] \<and> prepared_rx w = []
      \<and> in_flight w = 0 \<and> ready w = [] \<and> spawned w = [] \<and> sink_log w = [] \<and> outputs w = [])"

lemma starved_env: "starved w \<Longrightarrow> env_steps d acts w = w"
proof (induction acts)
  case (Cons a acts)
  then have "env_step d a w = w" by (cases a; cases w) (simp_all add: starved_def)
  with Cons show ?case by (simp add: env_steps_def)
qed (simp add: env_steps_def)

lemma starved_tick:
  assumes "starved w"
  shows "sequencer_tick d e now w = Some (Inr Complete, w)"
proof -
  have "submit_ready_batches d w = (Inr 0, w)"
    using assms by (simp add: submit_ready_batches_def submit_loop.simps starved_def)
  moreover have "collect_prepared_batches w = w" using assms by (simp add: collect_prepared_batches_def starved_def)
  moreover have "accumulate_loop d m 0 w = ((0, True), w)" for m
    using assms by (simp add: accumulate_loop.simps starved_def)
  moreover have "spawn_phase d e now w = (0, w)" using assms by (simp add: spawn_phase_def Let_def starved_def)
  moreover have "spawn_final w = w" "flush_loop d e 0 w = Some (Inr (), w)"
    using assms by (simp_all add: spawn_final_def flush_loop.simps starved_def)
  ultimately show ?thesis by (simp add: sequencer_tick_def Let_def starved_env [OF assms])
qed

lemma starved_resume: "starved w \<Longrightarrow> starved (sequencer_resume c w)"
  by (simp add: starved_def sequencer_resume_def)

lemma starved_new: "unused s \<Longrightarrow> starved (fst (sequencer_object_new True fs s))"
  by (simp add: unused_def starved_def sequencer_object_new_def sequencer.defs)

text \<open>What a role keeps whenever it is resumed or ticked, it still has when the node stops.\<close>

definition held :: "('q \<Rightarrow> bool) \<Rightarrow> 'q option \<Rightarrow> bool" where
  "held P q = (case q of None \<Rightarrow> False | Some q \<Rightarrow> P q)"

lemma held_simps [simp]: "held P None = False" "held P (Some q) = P q"
  by (simp_all add: held_def)

lemma tick_role_keeps:
  assumes "\<And>q r q'. P q \<Longrightarrow> r_tick ops q = Some (r, q') \<Longrightarrow> P q'"
    and "tick_role ops note q c = Some (r, q', c')" and "held P q"
  shows "held P q'"
  using assms by (auto simp: tick_role_def split: option.splits sum.splits)

lemma save_keeps_sequencer:
  "n_sequencer (snd (save_checkpoint ser i n)) = n_sequencer n"
  "n_sequencer (snd (maybe_save_checkpoint ser i n)) = n_sequencer n"
  "n_sequencer (snd (stop_node ser i n)) = n_sequencer n"
  by (auto simp: maybe_save_checkpoint_def stop_node_def save_checkpoint_def set_state_def node_emit_def Let_def
      split: prod.splits sum.splits)

lemma shutdown_keeps_sequencer: "n_sequencer (snd (shutdown_requested (receive i n))) = n_sequencer n"
  by (simp add: shutdown_requested_def receive_def)

lemma active_stage_keeps:
  assumes "\<And>q r q'. P q \<Longrightarrow> r_tick qo q = Some (r, q') \<Longrightarrow> P q'"
  shows "run_active_stage ser qo vo inputs n = Some (r, n') \<Longrightarrow> held P (n_sequencer n)
    \<Longrightarrow> held P (n_sequencer n')"
proof (induction inputs arbitrary: n)
  case (Cons i inputs)
  obtain stop m where m: "shutdown_requested (receive i n) = (stop, m)" by force
  then have Pm: "held P (n_sequencer m)" using shutdown_keeps_sequencer [of i n] Cons.prems(2) by simp
  show ?case
  proof (cases stop)
    case True
    with Cons.prems(1) m Pm show ?thesis by simp
  next
    case False
    with Cons.prems(1) m obtain r1 q c where tick: "tick_role qo note_sequencer (n_sequencer m) (n_checkpoint m) = Some (r1, q, c)"
      by (auto split: option.splits)
    have Pq: "held P q" using tick_role_keeps [OF assms tick Pm] .
    show ?thesis
    proof (cases r1)
      case (Inl e)
      with Cons.prems(1) m False tick Pq show ?thesis by auto
    next
      case (Inr t)
      with Cons.prems(1) m False tick obtain r2 v c2
        where vtick: "tick_role vo note_validator (n_validator m) c = Some (r2, v, c2)"
        by (auto split: option.splits)
      define k where "k = m\<lparr>n_sequencer := q, n_checkpoint := c, n_validator := v, n_checkpoint := c2\<rparr>"
      obtain r3 k' where save: "maybe_save_checkpoint ser i k = (r3, k')" by force
      have "n_sequencer k' = q" using save_keeps_sequencer(2) [of ser i k] by (simp add: save) (simp add: k_def)
      with Pq have Pk: "held P (n_sequencer k')" by simp
      from Pq have Pk0: "held P (n_sequencer k)" by (simp add: k_def)
      have "case r2 of Inl e \<Rightarrow> n' = k
          | Inr _ \<Rightarrow> (case r3 of Inl e \<Rightarrow> n' = k' | Inr _ \<Rightarrow> run_active_stage ser qo vo inputs k' = Some (r, n'))"
        using Cons.prems(1) m False tick Inr vtick save by (auto simp: k_def split: sum.splits)
      with Pk Pk0 Cons.IH [of k'] show ?thesis by (auto split: sum.splits)
    qed
  qed
qed simp

lemma sync_stage_keeps_sequencer:
  "node_sync_loop ser ops inputs n = Some (r, rest, n') \<Longrightarrow> n_sequencer n' = n_sequencer n"
proof (induction inputs arbitrary: n)
  case (Cons i inputs)
  obtain stop m where m: "shutdown_requested (receive i n) = (stop, m)" by force
  then have keep: "n_sequencer m = n_sequencer n" using shutdown_keeps_sequencer [of i n] by simp
  show ?case
  proof (cases "stop \<or> n_sync m = None")
    case True
    with Cons.prems m keep show ?thesis by (auto split: if_splits bool.splits)
  next
    case False
    then obtain stage where stage: "n_sync m = Some stage" and "\<not> stop" by auto
    obtain t stage' where t: "sync_tick ops (clock i) stage = (t, stage')" by force
    consider e where "t = Inl e" | p where "t = Inr (sync_status.Syncing p)" | "t = Inr SyncComplete"
      by (metis sum.exhaust sync_status.exhaust)
    then show ?thesis
    proof cases
      case 1
      with Cons.prems m \<open>\<not> stop\<close> stage t keep show ?thesis by auto
    next
      case (2 p)
      define k where "k = node_emit (NodeSyncProgress p) (set_state (NodeSyncing p) (m\<lparr>n_sync := Some stage'\<rparr>))"
      obtain r3 k' where save: "maybe_save_checkpoint ser i k = (r3, k')" by force
      have k': "n_sequencer k' = n_sequencer n"
        using save_keeps_sequencer(2) [of ser i k] keep by (simp add: save) (simp add: k_def)
      show ?thesis
        using Cons.prems m \<open>\<not> stop\<close> stage t 2 save k' Cons.IH
        by (cases r3) (fastforce simp: k_def [symmetric] Let_def)+
    next
      case 3
      define k where "k = (node_emit (NodeSyncCompleted
          (saturating_sub (progress_current (sync_progress_of (clock i 5) stage'))
             (progress_start (sync_progress_of (clock i 5) stage'))) None) (m\<lparr>n_sync := Some stage'\<rparr>))
          \<lparr>n_checkpoint := sync_checkpoint stage'\<rparr>"
      obtain r3 k' where save: "save_checkpoint ser i k = (r3, k')" by force
      have k': "n_sequencer k' = n_sequencer n"
        using save_keeps_sequencer(1) [of ser i k] keep by (simp add: save) (simp add: k_def)
      show ?thesis
        using Cons.prems m \<open>\<not> stop\<close> stage t 3 save k' by (simp add: k_def [symmetric] Let_def)
    qed
  qed
qed simp

lemma run_sync_keeps_sequencer:
  "run_sync_stage ser ops i inputs n = Some (r, rest, n') \<Longrightarrow> n_sequencer n' = n_sequencer n"
  by (auto simp: run_sync_stage_def Let_def split: option.splits prod.splits sum.splits
      dest: sync_stage_keeps_sequencer)

lemma run_active_keeps:
  assumes tick: "\<And>q r q'. P q \<Longrightarrow> r_tick qo q = Some (r, q') \<Longrightarrow> P q'"
    and resume: "\<And>q r q' c. P q \<Longrightarrow> r_resume qo c q = (r, q') \<Longrightarrow> P q'"
    and run: "run_active ser qo vo inputs final n = Some (r, n')" and n: "held P (n_sequencer n)"
  shows "held P (n_sequencer n')"
proof -
  define k where "k = set_state Active n"
  obtain r1 q where q: "resume_role qo (n_checkpoint k) (n_sequencer k) = (r1, q)" by force
  have Pq: "held P q"
    using q n resume by (auto simp: resume_role_def k_def split: option.splits prod.splits)
  obtain r2 v where v: "resume_role vo (n_checkpoint k) (n_validator k) = (r2, v)" by force
  let ?k = "k\<lparr>n_sequencer := q, n_validator := v\<rparr>"
  consider "n_sequencer n' = q"
    | r3 m where "run_active_stage ser qo vo inputs ?k = Some (r3, m)" "n_sequencer n' = n_sequencer m"
  proof (cases "\<exists>e. r1 = Inl e \<or> r2 = Inl e")
    case True
    with run q v have "n_sequencer n' = q"
      by (cases r1) (auto simp: run_active_def Let_def k_def)
    then show thesis by (rule that(1))
  next
    case False
    then obtain u1 u2 where u: "r1 = Inr u1" "r2 = Inr u2" by (cases r1; cases r2) auto
    with run q v obtain r3 m where m: "run_active_stage ser qo vo inputs ?k = Some (r3, m)"
      by (auto simp: run_active_def Let_def k_def split: option.splits)
    have "case r3 of Inl e \<Rightarrow> n' = m | Inr _ \<Rightarrow> n' = snd (stop_node ser final m)"
      using run q v u m by (auto simp: run_active_def Let_def k_def split: sum.splits)
    with save_keeps_sequencer(3) [of ser final m] have "n_sequencer n' = n_sequencer m" by (cases r3) simp_all
    with m show thesis by (rule that(2))
  qed
  then show ?thesis
  proof cases
    case 1
    with Pq show ?thesis by simp
  next
    case 2
    with active_stage_keeps [OF tick 2(1)] Pq show ?thesis by simp
  qed
qed

lemma run_node_keeps:
  assumes "\<And>q r q'. P q \<Longrightarrow> r_tick qo q = Some (r, q') \<Longrightarrow> P q'"
    and "\<And>q r q' c. P q \<Longrightarrow> r_resume qo c q = (r, q') \<Longrightarrow> P q'"
    and "run_node ser ops qo vo start inputs final n = Some (r, n')" and "held P (n_sequencer n)"
  shows "held P (n_sequencer n')"
proof (cases "skip_sync (n_config n)")
  case True
  with assms(3) run_active_keeps [OF assms(1,2) _ assms(4)] show ?thesis by (simp add: run_node_def)
next
  case False
  with assms(3) obtain r1 rest m where m: "run_sync_stage ser ops start inputs n = Some (r1, rest, m)"
    by (auto simp: run_node_def split: option.splits)
  then have Pm: "held P (n_sequencer m)" using run_sync_keeps_sequencer [OF m] assms(4) by simp
  show ?thesis
  proof (cases r1)
    case (Inl e)
    with assms(3) False m Pm show ?thesis by (simp add: run_node_def)
  next
    case (Inr u)
    with assms(3) False m run_active_keeps [OF assms(1,2) _ Pm] show ?thesis by (simp add: run_node_def)
  qed
qed

lemma starved_role:
  "starved (fst q) \<Longrightarrow> r_tick (sequencer_role d sched clocks) q \<noteq> None"
  "starved (fst q) \<Longrightarrow> r_tick (sequencer_role d sched clocks) q = Some (t, q') \<Longrightarrow> starved (fst q')"
  "starved (fst q) \<Longrightarrow> r_resume (sequencer_role d sched clocks) k q = (t', q') \<Longrightarrow> starved (fst q')"
  by (cases q; force simp: sequencer_role_def starved_tick starved_resume)+

lemma built_starved:
  fixes m :: "('tx, 's) montana"
  assumes "runtime_build_node E c has_tui url = Some (Inr m)" and "\<not> cli_skip_sync c"
    and "cli_mode c \<noteq> ValidatorMode"
  shows "held (\<lambda>q. starved (fst q)) (n_sequencer (m_node m))"
proof -
  obtain rpc where m: "build_node_common E c has_tui rpc url = Some (Inr m)"
    using assms(1) by (auto simp: runtime_build_node_def split: sum.splits)
  show ?thesis
  proof (rule build_common_Inr [OF m], goal_cases)
    case (1 role b)
    from 1(1) assms(3) have "runs_sequencer role" by (cases "cli_mode c") (auto simp: runs_sequencer_def)
    with 1(5) assms(2) have "held (\<lambda>q. starved (fst q)) (nb_sequencer b)"
      by (auto simp: roles_attached_def intro: starved_new)
    with built_node_fields(4) [OF 1(4)] show ?case by simp
  qed
qed

text \<open>
  C10: Without \<^verbatim>\<open>--skip-sync\<close> a sequencer never sequences. Whatever node the runtime builds, and however it
  runs (any blocks to sync, any results of the outside, any inputs of the loop, ending normally or with an
  error), no block ever reaches its sequencer: nothing is handed to the compressor and nothing is
  submitted to the sink. The sender of its block channel is dropped when the builder returns, and the
  sync stage does not feed it.
\<close>

theorem normal_mode_sequences_nothing:
  fixes m :: "('tx, 's) montana"
  assumes "runtime_build_node E c has_tui url = Some (Inr m)" and "\<not> cli_skip_sync c"
    and "cli_mode c \<noteq> ValidatorMode"
    and "run_node ser ops (sequencer_role d sched clocks) vo start inputs final (m_node m) = Some (r, n')"
  shows "\<exists>w k. n_sequencer n' = Some (w, k) \<and> spawned w = [] \<and> outputs w = [] \<and> sink_log w = []"
proof -
  have "held (\<lambda>q. starved (fst q)) (n_sequencer n')"
    using starved_role(2,3) assms(4) built_starved [OF assms(1,2,3)] by (rule run_node_keeps)
  then show ?thesis by (cases "n_sequencer n'") (auto simp: starved_def)
qed

text \<open>Roles whose ticks return let the node return when it is told to stop.\<close>

lemma active_stage_returns:
  assumes "\<And>q. P q \<Longrightarrow> r_tick qo q \<noteq> None" and "\<And>q r q'. P q \<Longrightarrow> r_tick qo q = Some (r, q') \<Longrightarrow> P q'"
    and "\<And>v. r_tick vo v \<noteq> None" and "signal j"
  shows "held P (n_sequencer n) \<Longrightarrow> run_active_stage ser qo vo (inputs @ j # rest) n \<noteq> None"
proof (induction inputs arbitrary: n)
  case Nil
  with assms(4) show ?case by (simp add: shutdown_requested_def receive_def)
next
  case (Cons i inputs)
  obtain stop m where m: "shutdown_requested (receive i n) = (stop, m)" by force
  then have Pm: "held P (n_sequencer m)" using shutdown_keeps_sequencer [of i n] Cons.prems by simp
  have "tick_role qo note_sequencer (n_sequencer m) (n_checkpoint m) \<noteq> None"
    using Pm assms(1) by (cases "n_sequencer m") (fastforce simp: tick_role_def split: option.splits sum.splits)+
  then obtain r1 q c where tick: "tick_role qo note_sequencer (n_sequencer m) (n_checkpoint m) = Some (r1, q, c)" by auto
  have Pq: "held P q" by (rule tick_role_keeps [OF assms(2) tick Pm])
  have "tick_role vo note_validator (n_validator m) c \<noteq> None"
    using assms(3) by (cases "n_validator m") (fastforce simp: tick_role_def split: option.splits sum.splits)+
  then obtain r2 v c2 where vtick: "tick_role vo note_validator (n_validator m) c = Some (r2, v, c2)" by auto
  define k where "k = m\<lparr>n_sequencer := q, n_checkpoint := c, n_validator := v, n_checkpoint := c2\<rparr>"
  obtain r3 k' where save: "maybe_save_checkpoint ser i k = (r3, k')" by force
  have "n_sequencer k' = q" using save_keeps_sequencer(2) [of ser i k] by (simp add: save) (simp add: k_def)
  with Pq Cons.IH [of k'] have "run_active_stage ser qo vo (inputs @ j # rest) k' \<noteq> None" by simp
  with m tick vtick save show ?case
    by (cases stop; cases r1; cases r2; cases r3) (simp_all add: k_def)
qed

lemma interrupted_run_returns:
  assumes ticks: "\<And>q. P q \<Longrightarrow> r_tick qo q \<noteq> None" "\<And>q r q'. P q \<Longrightarrow> r_tick qo q = Some (r, q') \<Longrightarrow> P q'"
      "\<And>q r q' c. P q \<Longrightarrow> r_resume qo c q = (r, q') \<Longrightarrow> P q'" "\<And>v. r_tick vo v \<noteq> None"
    and n: "held P (n_sequencer n)" "\<not> skip_sync (n_config n)" "n_sync n = Some stage"
    and ops: "\<And>p. tip ops p = (Inr t, p)" and "signal i" "signal j"
  shows "run_node ser ops qo vo start (i # inputs @ j # rest) final n \<noteq> None"
proof -
  obtain stage' where init: "initialize ops (at start) (synced_to_block (n_checkpoint n)) stage = (Inr (), stage')"
    by (simp add: initialize_def refresh_tip_def ops)
  obtain m where m: "run_sync_stage ser ops start (i # inputs @ j # rest) n = Some (Inr (), inputs @ j # rest, m)"
    using n(3) init \<open>signal i\<close> by (simp add: run_sync_stage_def Let_def shutdown_requested_def receive_def)
  have Pm: "held P (n_sequencer m)" using run_sync_keeps_sequencer [OF m] n(1) by simp
  define k where "k = set_state Active m"
  obtain r1 q where q: "resume_role qo (n_checkpoint k) (n_sequencer k) = (r1, q)" by force
  have Pq: "held P q"
    using q Pm ticks(3) by (auto simp: resume_role_def k_def split: option.splits prod.splits)
  obtain r2 v where v: "resume_role vo (n_checkpoint k) (n_validator k) = (r2, v)" by force
  have "run_active_stage ser qo vo (inputs @ j # rest) (k\<lparr>n_sequencer := q, n_validator := v\<rparr>) \<noteq> None"
    by (rule active_stage_returns [where P = P, OF ticks(1,2,4) \<open>signal j\<close>]) (simp_all add: Pq)
  then have "run_active ser qo vo (inputs @ j # rest) final m \<noteq> None"
    using q v by (cases r1; cases r2) (auto simp: run_active_def Let_def k_def split: sum.splits)
  with n(2) m show ?thesis by (simp add: run_node_def)
qed

definition waiting_validator :: "('tx, 's) vworld role_ops" where
  "waiting_validator =
     \<lparr>r_resume = (\<lambda>c v. (Inr (), validator_resume c v)), r_tick = (\<lambda>v. Some (Inr Idle, v)),
      r_checkpoint = validator_checkpoint\<rparr>"

theorem normal_mode_sequences_nothing_witness:
  "\<exists>(m :: (unit, unit) montana) r n' w k. runtime_build_node demo_runtime demo_cli False ''u'' = Some (Inr m)
     \<and> run_node unary_ser \<lparr>tip = (\<lambda>p. (Inr 25, p)), fetch = (\<lambda>n p. (Inr (Some ()), p))\<rparr>
         (sequencer_role demo_deps (\<lambda>_. oldest_first) (\<lambda>k. k)) waiting_validator
         demo_input [demo_input\<lparr>signal := True\<rparr>, demo_input, demo_input\<lparr>signal := True\<rparr>] demo_input (m_node m) = Some (r, n')
     \<and> n_sequencer n' = Some (w, k) \<and> sink_log w = []"
proof -
  obtain m :: "(unit, unit) montana" where m: "runtime_build_node demo_runtime demo_cli False ''u'' = Some (Inr m)"
    and w: "wired demo_cli False m"
    using demo_node_built by blast
  have c: "\<not> cli_skip_sync demo_cli" "cli_mode demo_cli \<noteq> ValidatorMode" "role_of_mode (cli_mode demo_cli) = Inr DualRole"
    by (simp_all add: demo_cli_def montana_cli_default_def)
  then obtain stage where stage: "n_sync (m_node m) = Some stage" "\<not> skip_sync (n_config (m_node m))"
    using w by (auto simp: wired_def Let_def)
  let ?run = "run_node unary_ser \<lparr>tip = (\<lambda>p. (Inr 25, p)), fetch = (\<lambda>n p. (Inr (Some ()), p))\<rparr>
         (sequencer_role demo_deps (\<lambda>_. oldest_first) (\<lambda>k. k)) waiting_validator
         demo_input (demo_input\<lparr>signal := True\<rparr> # [demo_input] @ demo_input\<lparr>signal := True\<rparr> # []) demo_input (m_node m)"
  have "?run \<noteq> None"
    by (rule interrupted_run_returns [where P = "\<lambda>q. starved (fst q)" and t = 25, OF starved_role _
          built_starved [OF m c(1,2)] stage(2,1)]) (simp_all add: waiting_validator_def)
  then obtain r n' where run: "?run = Some (r, n')" by auto
  from normal_mode_sequences_nothing [OF m c(1,2) run] m run show ?thesis by simp blast
qed

text \<open>The roles of a built node are new, and without a checkpoint file all its marks are zero.\<close>

lemma built_roles:
  fixes m :: "('tx, 's) montana"
  assumes "runtime_build_node E c has_tui url = Some (Inr m)"
  shows "n_sequencer (m_node m) = Some q \<Longrightarrow> \<exists>s. q = sequencer_object_new (\<not> cli_skip_sync c) (re_fs E) s \<and> unused s
      \<and> cp_path s = runtime_checkpoint_path c"
    and "n_validator (m_node m) = Some v \<Longrightarrow> executions v = [] \<and> source v = re_source E
      \<and> v_cp_path v = runtime_checkpoint_path c"
    and "m_feeder m = runtime_feeder c"
    and "batch_context_new (re_spawn_anvil E) (cli_batch_mode c) BATCH_INBOX = Inr (m_context m)"
    and "load (re_de E) (re_readable E) (re_fs E) (cli_checkpoint_path c) = Inr None \<Longrightarrow> n_checkpoint (m_node m) = checkpoint_default"
proof -
  obtain rpc where m: "build_node_common E c has_tui rpc url = Some (Inr m)"
    using assms by (auto simp: runtime_build_node_def split: sum.splits)
  obtain r b where b: "m_feeder m = runtime_feeder c"
    "batch_context_new (re_spawn_anvil E) (cli_batch_mode c) BATCH_INBOX = Inr (m_context m)" "roles_attached E c r has_tui b"
    "build_node (re_de E) (re_readable E) (re_fs E) (re_now E) b = Inr (m_node m)"
    using build_common_Inr [OF m] by metis
  show "m_feeder m = runtime_feeder c" by (rule b(1))
  show "batch_context_new (re_spawn_anvil E) (cli_batch_mode c) BATCH_INBOX = Inr (m_context m)" by (rule b(2))
  show "\<exists>s. q = sequencer_object_new (\<not> cli_skip_sync c) (re_fs E) s \<and> unused s
    \<and> cp_path s = runtime_checkpoint_path c" if "n_sequencer (m_node m) = Some q"
    using that b(3) built_node_fields(4) [OF b(4)] by (auto simp: roles_attached_def split: if_splits)
  show "executions v = [] \<and> source v = re_source E \<and> v_cp_path v = runtime_checkpoint_path c" if "n_validator (m_node m) = Some v"
    using that b(3) built_node_fields(5) [OF b(4)]
    by (auto simp: roles_attached_def vworld_of_def validator.defs split: if_splits)
  show "n_checkpoint (m_node m) = checkpoint_default"
    if "load (re_de E) (re_readable E) (re_fs E) (cli_checkpoint_path c) = Inr None"
  proof -
    have "checkpoint_path (nb_config b) = cli_checkpoint_path c"
      using b(3) by (simp add: roles_attached_def runtime_node_config_def)
    with built_node_fields(7) [OF b(4)] that show ?thesis by simp
  qed
qed

section \<open>One checkpoint file for both roles\<close>

lemma save_if_path_loads:
  assumes "\<And>c json. ser c = Some json \<Longrightarrow> de json = Some c"
    and "save_if_path ser fault c (Some path) fs = (Inr (), fs')"
  shows "load de True fs' path = Inr (Some c)"
proof -
  have "save ser fault c path fs = (Inr (), fs')"
    using assms(2) by (cases "save ser fault c path fs"; cases "fst (save ser fault c path fs)") (auto simp: save_if_path_def)
  with assms(1) show ?thesis by (rule save_load_roundtrip)
qed

lemma submit_saves:
  assumes "\<And>c json. cp_ser d c = Some json \<Longrightarrow> de json = Some c"
    and "submit_prepared_batch d p w = (Inr (), w')" and "\<not> should_skip_batch (cp w) (prepared_number p)"
    and "cp_path w = Some path"
  shows "load de True (disk w') path = Inr (Some (cp w'))"
    and "last_batch_derived (cp w') = last_batch_derived (cp w)"
proof -
  define n where "n = prepared_number p"
  define k where "k = Suc (length (sink_log w))"
  define c where "c = touch (touched_at d k) (record_batch_submitted n (cp w))"
  obtain receipt where r: "sink_submit d (sink_log w) (prepared_batch p) = Inr receipt"
    using assms(2,3) by (auto simp: submit_prepared_batch_def Let_def split: sum.splits)
  obtain saved fs where s: "save_if_path (cp_ser d) (cp_fault d k) c (cp_path w) (disk w) = (saved, fs)" by force
  have "saved = Inr () \<and> cp w' = c \<and> disk w' = fs"
    using assms(2,3) r s by (auto simp: submit_prepared_batch_def Let_def c_def n_def k_def report_submitted_def split: sum.splits)
  with s assms(1,4) save_if_path_loads show "load de True (disk w') path = Inr (Some (cp w'))"
    by metis
  from \<open>saved = Inr () \<and> cp w' = c \<and> disk w' = fs\<close>
  show "last_batch_derived (cp w') = last_batch_derived (cp w)"
    by (simp add: c_def record_batch_submitted_def)
qed

lemma process_saves:
  assumes "\<And>c json. v_cp_ser d c = Some json \<Longrightarrow> de json = Some c"
    and "process_batch d b v = (Inr (), v')" and "last_batch_derived (v_cp v) < batch_number b"
    and "v_cp_path v = Some path"
  shows "load de True (v_disk v') path = Inr (Some (v_cp v'))"
proof -
  obtain data blks where data: "v_decompress d (batch_data b) = Inr data" "v_from_bytes d data = Inr blks"
    using assms(3) by (cases rule: process_batch_cases [OF assms(2)]) (auto simp: v_decode_def split: sum.splits)
  define x where "x = execute_blocks d blks (v_emit (BatchDerived (batch_number b) (unat (block_count b))) v)"
  define c where "c = touch (v_touched_at d (saves x)) (record_batch_derived (batch_number b) (v_cp x))"
  obtain saved fs where s: "save_if_path (v_cp_ser d) (v_cp_fault d (saves x)) c (v_cp_path x) (v_disk x) = (saved, fs)" by force
  have new: "\<not> batch_number b \<le> last_batch_derived (v_cp v)" using assms(3) by simp
  have "saved = Inr () \<and> v_cp v' = c \<and> v_disk v' = fs"
    using assms(2) unfolding process_batch_def Let_def data x_def [symmetric] sum.case c_def [symmetric] prod.case
    by (cases saved) (auto simp: s new)
  moreover have "v_cp_path x = v_cp_path v" by (simp add: x_def)
  ultimately show ?thesis using s assms(1,4) save_if_path_loads by metis
qed

text \<open>What the operations of the sequencer leave alone.\<close>

lemma atomic_keeps:
  assumes "atomic d w w'"
  shows "cp_path w' = cp_path w \<and> last_batch_derived (cp w') = last_batch_derived (cp w)"
  using assms
proof cases
  case (environment a)
  then show ?thesis by (cases a) simp_all
next
  case (collect x xs)
  then show ?thesis by (cases x) (simp_all add: push_ready_def)
next
  case (submit p rest r)
  then show ?thesis
    by (auto simp: submit_prepared_batch_def report_submitted_def emit_def Let_def record_batch_submitted_def touch_def
        split: sum.splits prod.splits if_splits)
next
  case receive
  then show ?thesis
    by (cases "block_rx w") (simp_all add: receive_block_def accumulate_block_def emit_def Let_def record_block_executed_def)
next
  case (spawn k)
  then show ?thesis by (simp add: spawn_batch_def spawn_preparation_worker_def Let_def)
qed simp_all

lemma steps_keep: "steps d w w' \<Longrightarrow> cp_path w' = cp_path w \<and> last_batch_derived (cp w') = last_batch_derived (cp w)"
  by (induction rule: rtranclp_induct) (auto dest: atomic_keeps)

text \<open>
  C11: In a dual node the sequencer and the validator save their checkpoints to the same file, and a
  save by one forgets what the other has saved. Take the two roles of a node that the runtime has
  built without the harness, resumed from the node's checkpoint and run in any way. When the
  validator has executed a batch, and has saved that it has to the file of \<^verbatim>\<open>--checkpoint-path\<close>, and
  then the sequencer submits a batch of its own, a validator restarted from the file the runtime
  gives it executes the first batch again, on top of the state the first execution has left.
\<close>

theorem shared_checkpoint_forgets:
  fixes m :: "('tx, 's) montana"
  assumes "runtime_build_node E c has_tui url = Some (Inr m)" and "\<not> cli_with_harness c"
    and "n_sequencer (m_node m) = Some (w\<^sub>0, j)" and "n_validator (m_node m) = Some v\<^sub>0"
    and "steps e (sequencer_resume (n_checkpoint (m_node m)) w\<^sub>0) w"
    and "validator_run d (validator_resume (n_checkpoint (m_node m)) v\<^sub>0) v"
    and "\<And>c json. v_cp_ser d c = Some json \<Longrightarrow> re_de E json = Some c"
    and "\<And>c json. cp_ser e c = Some json \<Longrightarrow> re_de E json = Some c"
    and "process_batch d b v = (Inr (), v')" and "last_batch_derived (v_cp v) < batch_number b"
    and "submit_prepared_batch e p (w\<lparr>disk := v_disk v'\<rparr>) = (Inr (), w')"
    and "\<not> should_skip_batch (cp w) (prepared_number p)"
    and "validator_new (re_de E) True (disk w') (runtime_checkpoint_path c) = Inr v2"
  shows "load (re_de E) True (v_disk v') (cli_checkpoint_path c) = Inr (Some (v_cp v'))
    \<and> last_batch_derived (v_cp v') = batch_number b
    \<and> (\<exists>blks. map fst (executions v') = map fst (executions v) @ blks
        \<and> map fst (executions (snd (process_batch d b (vworld_of v2 src (disk w'))))) = blks)"
proof -
  have path: "runtime_checkpoint_path c = Some (cli_checkpoint_path c)"
    using assms(2) by (simp add: runtime_checkpoint_path_def)
  have v_path: "v_cp_path v = Some (cli_checkpoint_path c)"
    using run_frames(1) [OF assms(6)] built_roles(2) [OF assms(1,4)] path by (simp add: validator_resume_def)
  have w_path: "cp_path w = Some (cli_checkpoint_path c)"
    using steps_keep [OF assms(5)] built_roles(1) [OF assms(1,3)] path
    by (auto simp: sequencer_resume_def sequencer_object_new_def sequencer.defs)
  have "last_batch_derived (cp w) \<le> last_batch_derived (v_cp v)"
    using steps_keep [OF assms(5)] run_frames(2) [OF assms(6)] by (simp add: sequencer_resume_def validator_resume_def)
  then have w_mark: "last_batch_derived (cp w) < batch_number b" using assms(10) by simp
  have first: "load (re_de E) True (v_disk v') (cli_checkpoint_path c) = Inr (Some (v_cp v'))"
    using process_saves [OF assms(7,9,10) v_path] .
  have second: "load (re_de E) True (disk w') (cli_checkpoint_path c) = Inr (Some (cp w'))"
    "last_batch_derived (cp w') = last_batch_derived (cp w)"
    using submit_saves [OF assms(8,11)] w_path assms(12) by simp_all
  then have v2: "v_cp v2 = cp w'" using assms(13) path by (auto simp: validator_new_def initial_checkpoint_def)
  define x where "x = (vworld_of v2 src (disk w') :: ('tx, 's) vworld)"
  have x: "last_batch_derived (v_cp x) < batch_number b" "executions x = []"
    using v2 second(2) w_mark by (simp_all add: x_def vworld_of_def validator.defs)
  from assms(9) show ?thesis
  proof (cases rule: process_batch_cases)
    case (validated blks)
    obtain r x' where px: "process_batch d b x = (r, x')" by force
    then have "map fst (executions x') = blks"
      using validated(2) x by (cases rule: process_batch_cases) auto
    with px first validated(3,5) show ?thesis unfolding x_def by auto
  qed (use assms(10) in auto)
qed

text \<open>A dual node with one batch to validate and one to submit.\<close>

definition demo_prepared :: prepared_batch where
  "demo_prepared =
     \<lparr>prepared_number = 1, prepared_batch = demo_batch, prepared_uncompressed_size = 3,
      prepared_compressed_size = 3, prepared_block_count = 1, prepared_first_block = 7,
      prepared_last_block = 7, prepared_tx_counts = [1]\<rparr>"

definition dual_runtime :: "batch_queue runtime_env" where
  "dual_runtime =
     \<lparr>re_connect = (\<lambda>_. Inr ()), re_tip = Inr 100, re_de = unary_de, re_readable = True,
      re_spawn_anvil = (\<lambda>_. Inr 1), re_create_dir = Inr (), re_anvil_json = Inr one_account,
      re_kvdb = (\<lambda>_. Inr ()), re_triedb = (\<lambda>_. Inr ()), re_source = [], re_now = 0,
      re_fs = \<lparr>files = Map.empty, dirs = {}\<rparr>\<rparr>"

definition shared_cli :: montana_cli where
  "shared_cli = demo_cli\<lparr>cli_skip_sync := True\<rparr>"

lemma shared_outside: "outside_ok dual_runtime shared_cli ''u''"
  by (simp add: outside_ok_def dual_runtime_def shared_cli_def demo_cli_def montana_cli_default_def load_def
      batch_context_new_def Let_def open_validator_database_def)

lemma shared_built:
  obtains m :: "(unit, batch_queue) montana" and w j v where
    "runtime_build_node dual_runtime shared_cli False ''u'' = Some (Inr m)"
    "n_sequencer (m_node m) = Some (w, j)" "n_validator (m_node m) = Some v" "n_checkpoint (m_node m) = checkpoint_default"
proof -
  have r: "role_of_mode (cli_mode shared_cli) = Inr DualRole"
    and load: "load (re_de dual_runtime) (re_readable dual_runtime) (re_fs dual_runtime) (cli_checkpoint_path shared_cli) = Inr None"
    by (simp_all add: shared_cli_def demo_cli_def montana_cli_default_def dual_runtime_def load_def)
  obtain m :: "(unit, batch_queue) montana" where
    m: "runtime_build_node dual_runtime shared_cli False ''u'' = Some (Inr m)" "wired shared_cli False m"
    using runtime_builds [OF r shared_outside] by blast
  then have "n_sequencer (m_node m) \<noteq> None" "n_validator (m_node m) \<noteq> None"
    using r by (auto simp: wired_def Let_def runs_sequencer_def runs_validator_def)
  with that [OF m(1)] built_roles(5) [OF m(1) load] show thesis by auto
qed

lemma demo_submits:
  assumes "last_batch_submitted (cp w) = 0"
  shows "fst (submit_prepared_batch demo_deps demo_prepared w) = Inr ()"
proof -
  have "fst (save_if_path unary_ser None c p fs) = Inr ()" for c p fs
    by (rule save_if_path_ok) (simp add: unary_ser_def)
  then show ?thesis
    using assms by (simp add: submit_prepared_batch_def demo_prepared_def demo_deps_def should_skip_batch_def Let_def
        case_prod_unfold split: sum.split)
qed

theorem shared_checkpoint_forgets_witness:
  "\<exists>(m :: (unit, batch_queue) montana) w j v v' w' v2.
     runtime_build_node dual_runtime shared_cli False ''u'' = Some (Inr m)
     \<and> n_sequencer (m_node m) = Some (w, j) \<and> n_validator (m_node m) = Some v
     \<and> process_batch vdemo_deps (vdemo_batch 1 [1]) (validator_resume (n_checkpoint (m_node m)) v) = (Inr (), v')
     \<and> submit_prepared_batch demo_deps demo_prepared
          ((sequencer_resume (n_checkpoint (m_node m)) w)\<lparr>disk := v_disk v'\<rparr>) = (Inr (), w')
     \<and> validator_new unary_de True (disk w') (runtime_checkpoint_path shared_cli) = Inr v2
     \<and> map fst (executions v') = [vdemo_block]
     \<and> map fst (executions (snd (process_batch vdemo_deps (vdemo_batch 1 [1]) (vworld_of v2 [] (disk w'))))) = [vdemo_block]"
proof -
  let ?b = "vdemo_batch 1 [1]"
  obtain m :: "(unit, batch_queue) montana" and w j v where
    m: "runtime_build_node dual_runtime shared_cli False ''u'' = Some (Inr m)"
    "n_sequencer (m_node m) = Some (w, j)" "n_validator (m_node m) = Some v" "n_checkpoint (m_node m) = checkpoint_default"
    by (rule shared_built)
  let ?v = "validator_resume (n_checkpoint (m_node m)) v" and ?w = "sequencer_resume (n_checkpoint (m_node m)) w"
  have ser: "cp_ser demo_deps = unary_ser" "v_cp_ser vdemo_deps = unary_ser" "re_de dual_runtime = unary_de"
    by (simp_all add: demo_deps_def vdemo_deps_def dual_runtime_def)
  have harness: "\<not> cli_with_harness shared_cli" by (simp add: shared_cli_def demo_cli_def montana_cli_default_def)
  have "fst (process_batch vdemo_deps ?b ?v) = Inr ()"
    by (rule process_ok [OF vdemo_deps_laws(2)]) (simp add: vdemo_decode)
  then obtain v' where v': "process_batch vdemo_deps ?b ?v = (Inr (), v')" by (metis prod.collapse)
  have marks: "last_batch_derived (v_cp ?v) < batch_number ?b" "\<not> should_skip_batch (cp ?w) (prepared_number demo_prepared)"
    "last_batch_submitted (cp (?w\<lparr>disk := v_disk v'\<rparr>)) = 0" "executions ?v = []"
    using built_roles(2) [OF m(1,3)]
    by (simp_all add: m(4) validator_resume_def sequencer_resume_def checkpoint_default_def vdemo_batch_def
        should_skip_batch_def demo_prepared_def)
  obtain w' where w': "submit_prepared_batch demo_deps demo_prepared (?w\<lparr>disk := v_disk v'\<rparr>) = (Inr (), w')"
    using demo_submits [OF marks(3)] by (metis prod.collapse)
  have blks: "map fst (executions v') = [vdemo_block]"
    using v' by (cases rule: process_batch_cases) (use marks vdemo_decode [of 1 "[1]"] in auto)
  have w_path: "cp_path (?w\<lparr>disk := v_disk v'\<rparr>) = Some (cli_checkpoint_path shared_cli)"
    using built_roles(1) [OF m(1,2)] harness
    by (auto simp: sequencer_resume_def sequencer_object_new_def sequencer.defs runtime_checkpoint_path_def)
  have "load unary_de True (disk w') (cli_checkpoint_path shared_cli) = Inr (Some (cp w'))"
    by (rule submit_saves(1) [OF _ w' _ w_path]) (use marks ser unary_roundtrip in simp_all)
  then obtain v2 where v2: "validator_new unary_de True (disk w') (runtime_checkpoint_path shared_cli) = Inr v2"
    using harness by (simp add: validator_new_def initial_checkpoint_def runtime_checkpoint_path_def)
  from shared_checkpoint_forgets [where E = dual_runtime and e = demo_deps and d = vdemo_deps and src = "[]", unfolded ser,
      OF m(1) harness m(2,3) rtranclp.rtrancl_refl vrun_start unary_roundtrip unary_roundtrip v' marks(1) w' marks(2) v2]
  have "map fst (executions (snd (process_batch vdemo_deps ?b (vworld_of v2 [] (disk w'))))) = [vdemo_block]"
    using blks marks(4) by auto
  with m v' w' v2 blks show ?thesis
    by - (rule exI [of _ m], rule exI [of _ w], rule exI [of _ j], rule exI [of _ v], rule exI [of _ v'],
        rule exI [of _ w'], rule exI [of _ v2], intro conjI, assumption+)
qed

end
