(* ===== verification/Dual_Node.thy ===== *)
theory Dual_Node
  imports Runtime Tui_Feed
begin

text \<open>
  The node in dual mode as a whole: the block feeder, the sequencer, the batch context and the
  validator, put together the way \<^verbatim>\<open>node/runtime/src/builder.rs\<close> does it and ticked the way
  \<^verbatim>\<open>node/node/src/builder.rs\<close> does it: in each iteration first the sequencer, whose sink puts the
  accepted batches into the queue of the batch context, then the validator, which takes them from
  there.
\<close>

section \<open>What the feeder sends\<close>

text \<open>The blocks of a chain from a number on; the numbers wrap as the feeder's do.\<close>

definition chain_from :: "(u64 \<Rightarrow> 'b) \<Rightarrow> u64 \<Rightarrow> nat \<Rightarrow> 'b list" where
  "chain_from b start n = map (\<lambda>k. b (start + of_nat k)) [0..<n]"

lemma length_chain_from [simp]: "length (chain_from b start n) = n"
  by (simp add: chain_from_def)

lemma chain_from_Suc: "chain_from b start (Suc n) = chain_from b start n @ [b (start + of_nat n)]"
  by (simp add: chain_from_def)

lemma chain_from_prefix:
  assumes "xs @ rest = chain_from b start n"
  shows "xs = chain_from b start (length xs)"
proof -
  have "xs = take (length xs) (chain_from b start n)" by (simp flip: assms)
  moreover have "length xs \<le> n" using arg_cong [OF assms, of length] by simp
  ultimately show ?thesis by (simp add: chain_from_def take_map)
qed

text \<open>Whatever the node answers, the feeder has sent consecutive blocks of its chain.\<close>

definition in_chain :: "(u64 \<Rightarrow> 'b) \<Rightarrow> u64 \<Rightarrow> ('b, 'f) feeder \<Rightarrow> bool" where
  "in_chain b start s =
     (fd_sent s = chain_from b start (length (fd_sent s)) \<and> fd_current s = start + of_nat (length (fd_sent s)))"

lemma feeder_tell_frames [simp]:
  "fd_sent (feeder_tell has_tui es s) = fd_sent s" "fd_current (feeder_tell has_tui es s) = fd_current s"
  by (simp_all add: feeder_tell_def)

lemma feed_one_in_chain:
  assumes "\<And>n x. src n = Inr (Some x) \<Longrightarrow> x = b n" and "in_chain b start s"
  shows "in_chain b start (snd (feed_one B src accepts has_tui s))"
  using assms
  by (auto simp: feed_one_def Let_def in_chain_def chain_from_Suc algebra_simps split: sum.split option.split)

lemma feed_to_tip_in_chain:
  assumes "feed_to_tip B src accepts has_tui head_n s = Some y"
    and "\<forall>n x. src n = Inr (Some x) \<longrightarrow> x = b n" and "in_chain b start s"
  shows "in_chain b start (snd y)"
proof -
  have "(\<forall>n x. src n = Inr (Some x) \<longrightarrow> x = b n) \<longrightarrow> in_chain b start s \<longrightarrow> in_chain b start (snd y)"
  proof (rule feed_to_tip.raw_induct [where P = "\<lambda>B src accepts has_tui head_n s y.
      (\<forall>n x. src n = Inr (Some x) \<longrightarrow> x = b n) \<longrightarrow> in_chain b start s \<longrightarrow> in_chain b start (snd y)", OF _ assms(1)])
    fix feed B and src :: "u64 \<Rightarrow> string + 'a option" and accepts has_tui head_n and s :: "('a, 'b) feeder" and y
    assume IH: "\<And>B src accepts has_tui head_n s y. feed B src accepts has_tui head_n s = Some y
        \<Longrightarrow> (\<forall>n x. src n = Inr (Some x) \<longrightarrow> x = b n) \<longrightarrow> in_chain b start s \<longrightarrow> in_chain b start (snd y)"
      and step: "(if fd_current s \<le> head_n
         then let r = feed_one B src accepts has_tui s in
              if fst r = None then feed B src accepts has_tui head_n (snd r) else Some r
         else Some (None, s)) = Some y"
    show "(\<forall>n x. src n = Inr (Some x) \<longrightarrow> x = b n) \<longrightarrow> in_chain b start s \<longrightarrow> in_chain b start (snd y)"
    proof (intro impI)
      assume src: "\<forall>n x. src n = Inr (Some x) \<longrightarrow> x = b n" and s: "in_chain b start s"
      have one: "in_chain b start (snd (feed_one B src accepts has_tui s))"
        using src s by (intro feed_one_in_chain) blast+
      show "in_chain b start (snd y)"
        using step s one src IH [of B src accepts has_tui head_n "snd (feed_one B src accepts has_tui s)" y]
        by (auto simp: Let_def split: if_splits)
    qed
  qed
  with assms(2,3) show ?thesis by blast
qed

lemma run_block_feeder_in_chain:
  assumes "\<forall>n x. src n = Inr (Some x) \<longrightarrow> x = b n"
  shows "run_block_feeder B src accepts has_tui polls s = Some (r, s') \<Longrightarrow> in_chain b start s \<Longrightarrow> in_chain b start s'"
proof (induction polls arbitrary: s)
  case (Cons poll polls)
  show ?case
  proof (cases poll)
    case (Inl e)
    with Cons.prems show ?thesis by simp
  next
    case (Inr head_n)
    with Cons.prems(1) obtain q t where tip: "feed_to_tip B src accepts has_tui head_n s = Some (q, t)"
      by (auto split: option.splits)
    then have "in_chain b start t" using feed_to_tip_in_chain [OF tip assms Cons.prems(2)] by simp
    with Cons.prems(1) Cons.IH [of t] Inr tip show ?thesis by (cases q) auto
  qed
qed simp

lemma feeder_sends_chain:
  assumes "\<forall>n x. src n = Inr (Some x) \<longrightarrow> x = b n"
    and "run_block_feeder B src accepts has_tui polls (feeder_new start) = Some (r, f)"
  shows "fd_sent f = chain_from b start (length (fd_sent f))"
  using run_block_feeder_in_chain [OF assms, of start] by (simp add: in_chain_def feeder_new_def chain_from_def)

section \<open>What the validator takes\<close>

text \<open>Whatever happens in a tick, what was executed is what was taken from the queue.\<close>

lemma process_takes:
  assumes "process_batch d b w = (r, w')" and "v_decode d b \<noteq> None" and "last_batch_derived (v_cp w) < batch_number b"
  shows "executed_between d [b] w w' \<and> source w' = source w"
  using assms(1)
proof (cases rule: process_batch_cases)
  case (validated blks)
  with assms(3) show ?thesis by (simp add: executed_between_def)
qed (use assms in auto)

lemma drain_takes:
  assumes "v_next_batch d = queue_source"
  shows "drain_batches d n w = (r, w') \<Longrightarrow> sorted_wrt (<) (last_batch_derived (v_cp w) # map batch_number (source w))
    \<Longrightarrow> list_all (\<lambda>b. v_decode d b \<noteq> None) (source w)
    \<Longrightarrow> \<exists>k. executed_between d (take k (source w)) w w' \<and> source w' = drop k (source w)"
proof (induction "length (source w)" arbitrary: n w)
  case 0
  then have "source w = []" by simp
  with 0 have "w' = w\<lparr>source := []\<rparr>" by (simp add: drain_batches.simps [of d n w] assms)
  with \<open>source w = []\<close> show ?case by (simp add: executed_between_def)
next
  case (Suc j)
  then obtain b q where src: "source w = b # q" by (cases "source w") auto
  obtain p y where p: "process_batch d b (w\<lparr>source := q\<rparr>) = (p, y)" by force
  have y: "executed_between d [b] w y" "source y = q"
    using process_takes [OF p] Suc.prems(2,3) src by (auto simp: executed_set_source)
  show ?case
  proof (cases "is_ok p \<and> \<not> MAX_BATCHES_PER_TICK \<le> n + 1")
    case False
    then have "w' = y"
      using Suc.prems(1) src p by (cases p) (auto simp: drain_batches.simps [of d n w] assms)
    with y src show ?thesis by (intro exI [of _ 1]) simp
  next
    case True
    then obtain u where u: "p = Inr u" by (cases p) auto
    have rec: "drain_batches d (n + 1) y = (r, w')"
      using Suc.prems(1) src p u True by (simp add: drain_batches.simps [of d n w] assms)
    have "last_batch_derived (v_cp y) = batch_number b" using y(1) by (simp add: executed_between_def)
    then obtain k where k: "executed_between d (take k q) y w'" "source w' = drop k q"
      using Suc.hyps(1) [OF _ rec] Suc.hyps(2) Suc.prems(2,3) src y(2) by auto
    with executed_trans [OF y(1) k(1)] src show ?thesis by (intro exI [of _ "Suc k"]) simp
  qed
qed

lemma validator_tick_takes:
  assumes "v_next_batch d = queue_source" and "validator_tick d w = (r, w')"
    and "sorted_wrt (<) (last_batch_derived (v_cp w) # map batch_number (source w))"
    and "list_all (\<lambda>b. v_decode d b \<noteq> None) (source w)"
  shows "\<exists>k. executed_between d (take k (source w)) w w' \<and> source w' = drop k (source w)"
proof -
  let ?v = "notify_l1_blocks d w"
  obtain q where "drain_batches d 0 ?v = (q, w')"
    using assms(2) by (auto simp: validator_tick_def split: prod.splits sum.splits)
  from drain_takes [OF assms(1) this] assms(3,4) show ?thesis by (auto simp: executed_between_def)
qed

lemma tick_of_one_batch:
  assumes "v_next_batch d = queue_source" and "v_accepting d" and "source w = [b]"
    and "v_decode d b = Some blks" and "last_batch_derived (v_cp w) = 0" and "0 < batch_number b"
  shows "map fst (executions (snd (validator_tick d w))) = map fst (executions w) @ blks"
  using ticks_queue [OF assms(1,2), of w 1] assms(3-6) by (simp add: executed_between_def)

section \<open>The node in dual mode\<close>

text \<open>
  After a tick of the sequencer, the batches that its sink has newly accepted are in the queue.
\<close>

definition deliver :: "'tx world \<Rightarrow> 'tx world \<Rightarrow> ('tx, batch_queue) vworld \<Rightarrow> ('tx, batch_queue) vworld" where
  "deliver w w' v = v\<lparr>source := source v @ drop (length (accepted_batches w)) (accepted_batches w')\<rparr>"

text \<open>
  The iterations of the active stage. Between and during the ticks of the sequencer the feeder
  sends blocks and workers finish. When the sequencer fails the validator is not ticked any more;
  when the validator fails the node stops, so that continuing here is more than the node does.
\<close>

inductive dual_run :: "'tx deps \<Rightarrow> ('tx, batch_queue) vdeps \<Rightarrow> 'tx world \<times> ('tx, batch_queue) vworld
    \<Rightarrow> 'tx world \<times> ('tx, batch_queue) vworld \<Rightarrow> bool" for d dv s where
  dual_start: "dual_run d dv s s"
| dual_env: "dual_run d dv s (w, v) \<Longrightarrow> dual_run d dv s (env_step d a w, v)"
| dual_tick: "dual_run d dv s (w, v) \<Longrightarrow> sequencer_tick d e now w = Some (Inr t, w')
    \<Longrightarrow> validator_tick dv (deliver w w' v) = (r, v') \<Longrightarrow> dual_run d dv s (w', v')"
| dual_fails: "dual_run d dv s (w, v) \<Longrightarrow> sequencer_tick d e now w = Some (Inl err, w')
    \<Longrightarrow> dual_run d dv s (w', deliver w w' v)"

lemma spawned_grows: "steps d w w' \<Longrightarrow> length (spawned w) \<le> length (spawned w')"
proof (induction rule: rtranclp_induct)
  case (step y z)
  from step(2) have "length (spawned y) \<le> length (spawned z)"
  proof cases
    case (environment a)
    then show ?thesis by (cases a) simp_all
  next
    case (submit p rest r)
    then show ?thesis using submit_frames [of d p "y\<lparr>ready := rest\<rparr>"] by simp
  qed simp_all
  with step(3) show ?case by simp
qed simp

text \<open>At any time the accepted batches are those taken by the validator and those in the queue.\<close>

definition dual_inv :: "('tx, batch_queue) vdeps \<Rightarrow> 'tx world \<times> ('tx, batch_queue) vworld \<Rightarrow> bool" where
  "dual_inv dv s =
     (case s of (w, v) \<Rightarrow>
        \<exists>taken. accepted_batches w = taken @ source v
          \<and> map fst (executions v) = decoded dv taken
          \<and> last_batch_derived (v_cp v) = last (0 # map batch_number taken))"

lemma accepted_env [simp]: "accepted_batches (env_step d a w) = accepted_batches w"
  by (cases a) (simp_all add: accepted_batches_def)

lemma deliver_frames [simp]:
  "executions (deliver w w' v) = executions v" "v_cp (deliver w w' v) = v_cp v"
  "source (deliver w w' v) = source v @ drop (length (accepted_batches w)) (accepted_batches w')"
  by (simp_all add: deliver_def)

lemma dual_inv_deliver:
  assumes "steps d w w'" and "dual_inv dv (w, v)"
  shows "dual_inv dv (w', deliver w w' v)"
proof -
  obtain taken where t: "accepted_batches w = taken @ source v" "map fst (executions v) = decoded dv taken"
    "last_batch_derived (v_cp v) = last (0 # map batch_number taken)"
    using assms(2) by (auto simp: dual_inv_def)
  have "accepted_batches w' = taken @ source (deliver w w' v)"
    unfolding deliver_frames append_assoc [symmetric] t(1) [symmetric] by (rule accepted_grows_with_steps [OF assms(1)])
  with t(2,3) show ?thesis unfolding dual_inv_def prod.case deliver_frames(1,2) by blast
qed

lemma last_last: "last (last (x # xs) # ys) = last (x # xs @ ys)"
  by (cases ys rule: rev_cases) simp_all

lemma dual_inv_tick:
  assumes "dual_inv dv (w, v)" and "sorted_wrt (<) (0 # map batch_number (accepted_batches w))"
    and "list_all (\<lambda>b. v_decode dv b \<noteq> None) (accepted_batches w)"
    and "v_next_batch dv = queue_source" and "validator_tick dv v = (r, v')"
  shows "dual_inv dv (w, v')"
proof -
  obtain taken where t: "accepted_batches w = taken @ source v" "map fst (executions v) = decoded dv taken"
    "last_batch_derived (v_cp v) = last (0 # map batch_number taken)"
    using assms(1) by (auto simp: dual_inv_def)
  have "sorted_wrt (<) ((0 # map batch_number taken) @ map batch_number (source v))"
    using assms(2) unfolding t(1) by simp
  then have s: "sorted_wrt (<) (map batch_number (source v))"
    and less: "\<forall>x\<in>set (0 # map batch_number taken). \<forall>y\<in>set (map batch_number (source v)). x < y"
    unfolding sorted_wrt_append by blast+
  have "last (0 # map batch_number taken) \<in> set (0 # map batch_number taken)" by (rule last_in_set) simp
  with s less have "sorted_wrt (<) (last_batch_derived (v_cp v) # map batch_number (source v))"
    unfolding t(3) sorted_wrt.simps by blast
  moreover have "list_all (\<lambda>b. v_decode dv b \<noteq> None) (source v)"
    using assms(3) unfolding t(1) list_all_append by blast
  ultimately obtain k where k: "executed_between dv (take k (source v)) v v'" "source v' = drop k (source v)"
    using validator_tick_takes [OF assms(4,5)] by blast
  have "last_batch_derived (v_cp v') = last (last (0 # map batch_number taken) # map batch_number (take k (source v)))"
    using k(1) unfolding executed_between_def t(3) by blast
  also have "\<dots> = last (0 # map batch_number (taken @ take k (source v)))"
    unfolding map_append by (rule last_last)
  finally have "last_batch_derived (v_cp v') = last (0 # map batch_number (taken @ take k (source v)))" .
  moreover have "accepted_batches w = (taken @ take k (source v)) @ source v'" by (simp add: t(1) k(2))
  moreover have "map fst (executions v') = decoded dv (taken @ take k (source v))"
    using k(1) t(2) by (simp add: executed_between_def)
  ultimately show ?thesis unfolding dual_inv_def prod.case by blast
qed

lemma dual_run_inv:
  assumes "fresh w\<^sub>0" and "last_batch_submitted (cp w\<^sub>0) = 0" and "codecs_match d dv"
    and "v_next_batch dv = queue_source" and "dual_inv dv (w\<^sub>0, v\<^sub>0)"
  shows "dual_run d dv (w\<^sub>0, v\<^sub>0) s \<Longrightarrow> length (spawned (fst s)) < 2 ^ 64 - 1
    \<Longrightarrow> steps d w\<^sub>0 (fst s) \<and> dual_inv dv s"
proof (induction rule: dual_run.induct)
  case dual_start
  with assms(5) show ?case by simp
next
  case (dual_env w v a)
  have st: "steps d w (env_step d a w)" by (blast intro: r_into_rtranclp atomic.environment)
  with dual_env spawned_grows [OF st] have "steps d w\<^sub>0 w \<and> dual_inv dv (w, v)" by auto
  with st show ?case by (auto simp: dual_inv_def)
next
  case (dual_tick w v e now t w' r v')
  have st: "steps d w w'" by (rule tick_steps [OF dual_tick.hyps(2)])
  with dual_tick spawned_grows [OF st] have w: "steps d w\<^sub>0 w" "dual_inv dv (w, v)" by auto
  have w': "steps d w\<^sub>0 w'" using w(1) st by simp
  note stream = accepted_stream [OF assms(1) w' _ assms(2,3)]
  have "dual_inv dv (w', v')"
    by (rule dual_inv_tick [OF dual_inv_deliver [OF st w(2)] stream(1,2) assms(4) dual_tick.hyps(3)])
      (use dual_tick.prems in simp_all)
  with w' show ?case by simp
next
  case (dual_fails w v e now err w')
  have st: "steps d w w'" by (rule tick_steps [OF dual_fails.hyps(2)])
  with dual_fails spawned_grows [OF st] have w: "steps d w\<^sub>0 w" "dual_inv dv (w, v)" by auto
  with dual_inv_deliver [OF st w(2)] st show ?case by simp
qed

text \<open>What the validator has executed is, at any time, a prefix of what was sent to the sequencer.\<close>

lemma dual_run_executes_sent:
  assumes "fresh w\<^sub>0" and "last_batch_submitted (cp w\<^sub>0) = 0" and "codecs_match d dv"
    and "v_next_batch dv = queue_source"
    and "executions v\<^sub>0 = []" and "source v\<^sub>0 = []" and "last_batch_derived (v_cp v\<^sub>0) = 0"
    and "dual_run d dv (w\<^sub>0, v\<^sub>0) (w, v)" and "length (spawned w) < 2 ^ 64 - 1"
  shows "\<exists>rest. map fst (executions v) @ rest = sent w"
proof -
  have "dual_inv dv (w\<^sub>0, v\<^sub>0)"
    using assms(1,5-7) by (simp add: dual_inv_def accepted_batches_def fresh_def)
  from dual_run_inv [OF assms(1-4) this assms(8)] assms(9)
  have w: "steps d w\<^sub>0 w" "dual_inv dv (w, v)" by simp_all
  obtain taken where taken: "accepted_batches w = taken @ source v" "map fst (executions v) = decoded dv taken"
    using w(2) by (auto simp: dual_inv_def)
  obtain rest where "decoded dv (accepted_batches w) @ rest = sent w"
    using accepted_stream(3) [OF assms(1) w(1) assms(9,2,3)] by blast
  then show ?thesis by (auto simp: taken)
qed

text \<open>
  \<^verbatim>\<open>BatchSourceAdapter\<close> over the node's batch context in the in-memory mode: the source is the queue that
  the context's sink fills. The rest of the validator's surroundings is as given.
\<close>

definition memory_source :: "('tx, batch_queue) vdeps \<Rightarrow> ('tx, batch_queue) vdeps" where
  "memory_source dv = dv\<lparr>v_next_batch := queue_source, v_l1_head := \<lambda>q. adapt_source_result (queue_l1_head q)\<rparr>"

lemma memory_context: "batch_context_new spawn InMemory inbox = Inr ctx \<Longrightarrow> context_store ctx = QueueStore []"
  by (auto simp: batch_context_new_def)

lemma memory_source_fields [simp]:
  "v_next_batch (memory_source dv) = queue_source" "codecs_match d (memory_source dv) = codecs_match d dv"
  by (simp_all add: memory_source_def codecs_match_def)

text \<open>
  C5: What a dual node executes is the chain, in the in-memory mode. Take a node that the runtime has built from a
  command line with \<^verbatim>\<open>--batch-mode in-memory\<close> and \<^verbatim>\<open>--skip-sync\<close> and no checkpoint file, its validator reading
  from the queue of its batch context, and let it run in any way: the feeder polls an RPC node that may fail or lag, the
  workers and the sink of the sequencer do what they do, ticks of the two roles alternate, and any of them may fail. At
  any time the blocks that the validator has executed are the blocks of the chain from the start of the feeder on,
  consecutive, each once, in order. This supposes that what was serialised and compressed is read back, that the RPC
  node answers with blocks of one chain, and fewer than \<open>2 ^ 64 - 1\<close> batches.
\<close>

theorem dual_node_follows_chain:
  fixes m :: "('tx, batch_queue) montana"
  assumes "runtime_build_node E c has_tui url = Some (Inr m)" and "cli_skip_sync c" and "cli_batch_mode c = InMemory"
    and "context_store (m_context m) = QueueStore (re_source E)"
    and "load (re_de E) (re_readable E) (re_fs E) (cli_checkpoint_path c) = Inr None"
    and "n_sequencer (m_node m) = Some (w\<^sub>0, j)" and "n_validator (m_node m) = Some v\<^sub>0"
    and "dual_run d (memory_source dv) (sequencer_resume (n_checkpoint (m_node m)) w\<^sub>0,
           validator_resume (n_checkpoint (m_node m)) v\<^sub>0) (w, v)"
    and "length (spawned w) < 2 ^ 64 - 1" and "codecs_match d dv"
    and "\<forall>n x. src n = Inr (Some x) \<longrightarrow> x = b n"
    and "run_block_feeder B src accepts has_tui polls (feeder_new (feeder_start c)) = Some (r, f)"
    and "sent w @ waiting = fd_sent f"
  shows "map fst (executions v) = chain_from b (feeder_start c) (length (executions v))"
proof -
  have cp: "n_checkpoint (m_node m) = checkpoint_default" by (rule built_roles(5) [OF assms(1,5)])
  have empty: "re_source E = []"
    using memory_context built_roles(4) [OF assms(1)] assms(3,4) by fastforce
  obtain s where "w\<^sub>0 = fst (sequencer_object_new (\<not> cli_skip_sync c) (re_fs E) s)" "unused s"
    using built_roles(1) [OF assms(1,6)] by (metis fst_conv)
  then have "fresh w\<^sub>0" by (simp add: unused_fresh)
  then have fresh: "fresh (sequencer_resume checkpoint_default w\<^sub>0)"
    by (simp add: fresh_def sequencer_resume_def)
  obtain rest where "map fst (executions v) @ rest = sent w"
    using dual_run_executes_sent [OF fresh _ _ _ _ _ _ assms(8) [unfolded cp] assms(9)]
      built_roles(2) [OF assms(1,7)] assms(10) empty
    by (auto simp: sequencer_resume_def validator_resume_def checkpoint_default_def)
  then have "map fst (executions v) @ (rest @ waiting) = chain_from b (feeder_start c) (length (fd_sent f))"
    using assms(13) feeder_sends_chain [OF assms(11,12)] by (metis append_assoc)
  from chain_from_prefix [OF this] show ?thesis by simp
qed

text \<open>A dual node on a chain of one block, which is sequenced and executed.\<close>

definition dual_cli :: montana_cli where
  "dual_cli = demo_cli\<lparr>cli_skip_sync := True, cli_batch_mode := InMemory, cli_with_harness := True\<rparr>"

lemma dual_outside: "outside_ok dual_runtime dual_cli ''u''"
  by (simp add: outside_ok_def dual_runtime_def dual_cli_def demo_cli_def montana_cli_default_def load_def
      batch_context_new_def Let_def open_validator_database_def)

text \<open>The sequencer of the node with the batcher configuration of harness mode.\<close>

definition dual_world :: "unit world" where
  "dual_world = demo_start\<lparr>config := runtime_batcher_config dual_cli\<rparr>"

lemma dual_config: "config dual_world = batcher_config_default\<lparr>min_batch_size := 10, batch_interval := 2 * SECS,
    max_blocks_per_batch := 3\<rparr>"
  by (simp add: dual_world_def runtime_batcher_config_def dual_cli_def build_def builder_def set_min_batch_size_def
      set_batch_interval_def set_max_blocks_per_batch_def)

lemmas dual_eval = dual_world_def demo_eval tick_eval demo_mid_def demo_end_def new_worker_def record_defs touch_def

lemma dual_config_eq: "runtime_batcher_config dual_cli = batcher_config_default\<lparr>min_batch_size := 10,
    batch_interval := 2 * SECS, max_blocks_per_batch := 3\<rparr>"
  using dual_config by (simp add: dual_world_def)

lemma dual_first: "sequencer_tick demo_deps (\<lambda>_. []) 0 (env_step demo_deps (Send demo_block) dual_world)
    = Some (Inr Progress, demo_mid\<lparr>config := config dual_world\<rparr>)"
  by (simp add: dual_config_eq dual_eval del: receive_block_rx receive_pending receive_frames)

lemma dual_second: "sequencer_tick demo_deps (\<lambda>_. []) 0 (env_step demo_deps (Finish 0) (demo_mid\<lparr>config := config dual_world\<rparr>))
    = Some (Inr Progress, demo_end\<lparr>config := config dual_world\<rparr>)"
  by (simp add: dual_config_eq dual_eval)

definition dual_validator :: "(unit, batch_queue) vworld" where
  "dual_validator = vworld_of
     \<lparr>v_cp = checkpoint_default, v_cp_path = None, poll_interval_ms = 50, v_has_event_tx = False,
      has_derivation_callback = False, last_l1_head = 0\<rparr> [] \<lparr>files = Map.empty, dirs = {}\<rparr>"

lemma dual_attach:
  "attach_sequencer dual_runtime dual_cli False False b = Inr (with_sequencer (dual_world, 0) b)"
  "attach_validator dual_runtime dual_cli False b = Inr (with_validator dual_validator b)"
proof -
  have path: "runtime_checkpoint_path dual_cli = None" by (simp add: runtime_checkpoint_path_def dual_cli_def)
  show "attach_sequencer dual_runtime dual_cli False False b = Inr (with_sequencer (dual_world, 0) b)"
    by (simp add: attach_sequencer_def path sequencer_new_def initial_checkpoint_def dual_world_def demo_start_def
        start_world_def sequencer_object_new_def sequencer.defs dual_runtime_def)
  show "attach_validator dual_runtime dual_cli False b = Inr (with_validator dual_validator b)"
    using dual_outside
    by (simp add: attach_validator_def outside_ok_def path validator_new_def initial_checkpoint_def dual_validator_def dual_runtime_def)
qed

lemma dual_built:
  obtains m :: "(unit, batch_queue) montana" where
    "runtime_build_node dual_runtime dual_cli False ''u'' = Some (Inr m)"
    "n_sequencer (m_node m) = Some (dual_world, 0)" "n_validator (m_node m) = Some dual_validator"
proof -
  have r: "role_of_mode (cli_mode dual_cli) = Inr DualRole" and skip: "cli_skip_sync dual_cli"
    by (simp_all add: dual_cli_def demo_cli_def montana_cli_default_def)
  obtain m :: "(unit, batch_queue) montana" where m: "runtime_build_node dual_runtime dual_cli False ''u'' = Some (Inr m)"
    using runtime_builds [OF r dual_outside] by blast
  then obtain rpc where "build_node_common dual_runtime dual_cli False rpc ''u'' = Some (Inr m)"
    by (auto simp: runtime_build_node_def split: sum.splits)
  then have n: "build_node (re_de dual_runtime) (re_readable dual_runtime) (re_fs dual_runtime) (re_now dual_runtime)
      (with_validator dual_validator (with_sequencer (dual_world, 0) (base_builder dual_runtime dual_cli DualRole rpc))) = Inr (m_node m)"
    using skip
    by (auto simp: build_node_common_def r rbind_Inr_iff attach_roles_def runtime_feeder_def dual_attach
        runs_sequencer_def runs_validator_def)
  show thesis
    using that [OF m] built_node_fields(4,5) [OF n] by (simp add: with_sequencer_def with_validator_def)
qed

lemma dual_accepted [simp]:
  "accepted_batches (demo_mid\<lparr>config := c\<rparr>) = []" "accepted_batches (demo_end\<lparr>config := c\<rparr>) = [demo_batch]"
  by (simp_all add: accepted_batches_def demo_mid_def demo_end_def demo_eval)

theorem dual_node_follows_chain_witness:
  "\<exists>(m :: (unit, batch_queue) montana) v. runtime_build_node dual_runtime dual_cli False ''u'' = Some (Inr m)
     \<and> dual_run demo_deps demo_validator_deps (sequencer_resume (n_checkpoint (m_node m)) dual_world,
          validator_resume (n_checkpoint (m_node m)) dual_validator) (demo_end\<lparr>config := config dual_world\<rparr>, v)
     \<and> map fst (executions v) = chain_from (\<lambda>_. demo_block) 0 1"
proof -
  obtain m :: "(unit, batch_queue) montana" where
    m: "runtime_build_node dual_runtime dual_cli False ''u'' = Some (Inr m)"
    "n_sequencer (m_node m) = Some (dual_world, 0)" "n_validator (m_node m) = Some dual_validator"
    by (rule dual_built)
  have skip: "cli_skip_sync dual_cli" and src: "re_source dual_runtime = []" and start: "feeder_start dual_cli = 0"
    and load: "load (re_de dual_runtime) (re_readable dual_runtime) (re_fs dual_runtime) (cli_checkpoint_path dual_cli) = Inr None"
    by (simp_all add: dual_cli_def demo_cli_def montana_cli_default_def dual_runtime_def feeder_start_def load_def)
  have cp: "n_checkpoint (m_node m) = checkpoint_default" by (rule built_roles(5) [OF m(1) load])
  have mode: "cli_batch_mode dual_cli = InMemory" by (simp add: dual_cli_def)
  have store: "context_store (m_context m) = QueueStore (re_source dual_runtime)"
    using memory_context built_roles(4) [OF m(1), unfolded mode] src by simp
  have source_eq: "memory_source demo_validator_deps = demo_validator_deps"
    by (simp add: memory_source_def demo_validator_deps_def vdemo_deps_def queue_source_def fun_eq_iff)
  let ?w1 = "demo_mid\<lparr>config := config dual_world\<rparr>" and ?w2 = "demo_end\<lparr>config := config dual_world\<rparr>"
  let ?v0 = "validator_resume (n_checkpoint (m_node m)) dual_validator"
  have queue: "v_next_batch demo_validator_deps = queue_source"
    by (simp add: demo_validator_deps_def vdemo_deps_def queue_source_def fun_eq_iff)
  have match: "codecs_match demo_deps demo_validator_deps"
    by (simp add: codecs_match_def demo_validator_deps_def vdemo_deps_def demo_deps_def
        noop_compress_def noop_decompress_def)
  have w0: "sequencer_resume (n_checkpoint (m_node m)) dual_world = dual_world"
    by (simp add: cp sequencer_resume_def dual_world_def demo_start_def start_world_def sequencer.defs)
  let ?d0 = "deliver (env_step demo_deps (Send demo_block) dual_world) ?w1 ?v0"
  obtain r1 v1 where v1: "validator_tick demo_validator_deps ?d0 = (r1, v1)" by force
  let ?d1 = "deliver (env_step demo_deps (Finish 0) ?w1) ?w2 v1"
  obtain r2 v2 where v2: "validator_tick demo_validator_deps ?d1 = (r2, v2)" by force
  have run: "dual_run demo_deps demo_validator_deps (sequencer_resume (n_checkpoint (m_node m)) dual_world, ?v0) (?w2, v2)"
    unfolding w0
    by (rule dual_tick [OF dual_env [OF dual_tick [OF dual_env [OF dual_start] dual_first v1]] dual_second v2])
  have d0: "source ?d0 = []" "executions ?d0 = []" "last_batch_derived (v_cp ?d0) = 0"
    by (simp_all add: cp validator_resume_def dual_validator_def vworld_of_def validator.defs checkpoint_default_def
        accepted_batches_def demo_mid_def dual_world_def)
  have e1: "source v1 = []" "executions v1 = []" "last_batch_derived (v_cp v1) = 0"
    using validator_tick_takes [OF queue v1] d0 by (auto simp: executed_between_def)
  have d1: "source ?d1 = [demo_batch]" "executions ?d1 = []" "last_batch_derived (v_cp ?d1) = 0"
    unfolding deliver_frames accepted_env dual_accepted e1 by simp_all
  have accepting: "v_accepting demo_validator_deps"
    by (simp add: v_accepting_def demo_validator_deps_def vdemo_deps_def unary_ser_def)
  have dec: "v_decode demo_validator_deps demo_batch = Some [demo_block]"
    by (simp add: v_decode_def demo_validator_deps_def vdemo_deps_def demo_batch_def noop_decompress_def)
  have ex: "map fst (executions v2) = [demo_block]"
    using tick_of_one_batch [OF queue accepting d1(1) dec d1(3)] v2 unfolding d1(2) by (simp add: demo_batch_def)
  obtain f :: "(unit op_block, unit) feeder" where
    f: "run_block_feeder empty_blocks (\<lambda>_. Inr (Some demo_block)) (\<lambda>_. True) False (map Inr [0]) (feeder_new 0) = Some (None, f)"
    "fd_sent f = [demo_block]"
    using run_block_feeder_all [where src = "\<lambda>_. Inr (Some demo_block)" and b = "\<lambda>_. demo_block" and accepts = "\<lambda>_. True"
        and tips = "[0]" and s = "feeder_new 0" and B = empty_blocks and has_tui = False]
    by (auto simp: feeder_new_def blocks_in_def)
  have "map fst (executions v2) = chain_from (\<lambda>_. demo_block) 0 (length (executions v2))"
    using dual_node_follows_chain [where src = "\<lambda>_. Inr (Some demo_block)" and b = "\<lambda>_. demo_block" and r = None and waiting = "[]"
          and dv = demo_validator_deps, unfolded source_eq, OF m(1) skip mode store load m(2,3) run _ match _ f(1) [folded start]] f(2) start
    by (simp add: demo_fields)
  moreover have "length (executions v2) = 1" using arg_cong [OF ex, of length] by simp
  ultimately show ?thesis using m(1) run by auto
qed

end
