(* ===== verification/Tui_Draw.thy ===== *)
theory Tui_Draw
  imports Tui_App
begin

text \<open>
  What the terminal interface draws: \<^verbatim>\<open>draw_ui\<close> and the functions under it
  (\<^verbatim>\<open>crates/utilities/tui/src/tui.rs\<close>) and the rendering of logs (\<^verbatim>\<open>tui-common/src/render.rs\<close>). A frame
  is the list of widgets with their areas, in the order in which they are rendered.

  A text is a list of Unicode scalar values, each one column wide. The messages of the logs, the
  role and the numbers are ASCII. How \<^verbatim>\<open>ratatui\<close> splits an area and where the inside of a bordered
  block lies are parameters; an index beyond the areas of a split is a panic, \<open>None\<close>. The k-th place
  of the code that reads the time reads \<open>clk k\<close>.
\<close>

section \<open>Texts and widgets\<close>

type_synonym glyphs = "nat list"

definition str :: "string \<Rightarrow> glyphs" where "str s = map of_char s"

datatype color =
    White | Black | Gray | DarkGray | Red | LightRed | Green | LightGreen | Yellow | Blue | Cyan | Magenta
  | Rgb nat nat nat

record style =
  st_fg :: "color option"
  st_bg :: "color option"
  st_bold :: bool

definition plain_style :: style where "plain_style = \<lparr>st_fg = None, st_bg = None, st_bold = False\<rparr>"
definition fg :: "color \<Rightarrow> style" where "fg c = \<lparr>st_fg = Some c, st_bg = None, st_bold = False\<rparr>"
definition fg_bold :: "color \<Rightarrow> style" where "fg_bold c = \<lparr>st_fg = Some c, st_bg = None, st_bold = True\<rparr>"

type_synonym span = "style \<times> glyphs"
type_synonym text_line = "span list"

text \<open>A block with a border on all sides; a paragraph is wrapped or not.\<close>

record bordered =
  bd_border :: style
  bd_title :: glyphs
  bd_title_style :: style

datatype alignment = Left_Aligned | Centered

datatype widget =
    Paragraph (lines_of: "text_line list") style "bordered option" bool alignment
  | Border bordered

record rect =
  r_x :: u16
  r_y :: u16
  r_width :: u16
  r_height :: u16

datatype direction = Horizontal | Vertical

datatype constraint = Length u16 | Min u16 | Percentage u16 | Ratio u32 u32

record layout_ops =
  lo_split :: "direction \<Rightarrow> constraint list \<Rightarrow> rect \<Rightarrow> rect list"
  lo_inner :: "bordered \<Rightarrow> rect \<Rightarrow> rect"

type_synonym frame = "(widget \<times> rect) list"

text \<open>The documentation of \<^verbatim>\<open>Layout::split\<close>: one area for each constraint.\<close>

definition layout_laws :: "layout_ops \<Rightarrow> bool" where
  "layout_laws L = (\<forall>d cs area. length (lo_split L d cs area) = length cs)"

definition draw_at :: "rect list \<Rightarrow> nat \<Rightarrow> (rect \<Rightarrow> frame option) \<Rightarrow> frame option" where
  "draw_at chunks i draw = (if i < length chunks then draw (chunks ! i) else None)"

definition panels :: "frame option list \<Rightarrow> frame option" where
  "panels ps = map_option concat (those ps)"

text \<open>A titled paragraph, as most panels are.\<close>

definition panel :: "glyphs \<Rightarrow> color \<Rightarrow> color \<Rightarrow> text_line list \<Rightarrow> rect \<Rightarrow> frame option" where
  "panel title title_color border_color text area =
     Some [(Paragraph text plain_style
              (Some \<lparr>bd_border = fg border_color, bd_title = title, bd_title_style = fg_bold title_color\<rparr>)
              True Left_Aligned, area)]"

text \<open>Comparison and conversion of floating point numbers, which only drawing needs.\<close>

record 'f f64_draw =
  f_ge :: "'f \<Rightarrow> nat \<Rightarrow> bool"
  f_to_usize :: "'f \<Rightarrow> usize"

section \<open>Colors\<close>

definition BATCH_SUBMISSION_COLOR :: color where "BATCH_SUBMISSION_COLOR = Cyan"
definition DERIVATION_ORIGIN_COLOR :: color where "DERIVATION_ORIGIN_COLOR = Magenta"
definition BLOCK_BUILDER_COLOR :: color where "BLOCK_BUILDER_COLOR = Green"
definition EXECUTION_COLOR :: color where "EXECUTION_COLOR = LightGreen"
definition SYNC_COLOR :: color where "SYNC_COLOR = Rgb 100 149 237"
definition L1_CHAIN_COLOR :: color where "L1_CHAIN_COLOR = Rgb 255 191 0"
definition CHAIN_STATE_COLOR :: color where "CHAIN_STATE_COLOR = Cyan"
definition METRICS_COLOR :: color where "METRICS_COLOR = Rgb 255 165 0"
definition SEQUENCER_COLOR :: color where "SEQUENCER_COLOR = Rgb 0 191 255"
definition VALIDATOR_COLOR :: color where "VALIDATOR_COLOR = Rgb 147 112 219"
definition HARNESS_COLOR :: color where "HARNESS_COLOR = Rgb 65 105 225"

section \<open>Logs\<close>

definition log_level_style :: "log_level \<Rightarrow> glyphs \<times> color \<times> color" where
  "log_level_style l =
     (case l of
        Log_Info \<Rightarrow> ([8226], Cyan, Gray)
      | Log_Warn \<Rightarrow> ([9650], Yellow, Yellow)
      | Log_Error \<Rightarrow> ([10006], Red, LightRed))"

definition render_entry :: "log_entry \<Rightarrow> text_line" where
  "render_entry e =
     (case log_level_style (le_level e) of (prefix, prefix_color, msg_color) \<Rightarrow>
        [(fg_bold prefix_color, prefix), (plain_style, str '' ''), (fg msg_color, str (le_message e))])"

definition render_logs :: "log_entry list \<Rightarrow> text_line list" where
  "render_logs logs = map render_entry logs"

definition render_logs_reversed :: "log_entry list \<Rightarrow> text_line list" where
  "render_logs_reversed logs = map render_entry (rev logs)"

section \<open>The header\<close>

definition draw_harness_banner :: "rect \<Rightarrow> frame option" where
  "draw_harness_banner area =
     Some [(Paragraph [[(plain_style, str '' '' @ [9888]
              @ str '' HARNESS MODE (TESTING) - Local anvil chain, not production '' @ [9888] @ str '' '')]]
              \<lparr>st_fg = Some Black, st_bg = Some Yellow, st_bold = True\<rparr> None False Centered, area)]"

definition number :: "u64 \<Rightarrow> glyphs" where "number n = str (''#'' @ dec (unat n))"

definition draw_chain_state :: "'f app \<Rightarrow> rect \<Rightarrow> frame option" where
  "draw_chain_state a area =
     panel (str '' L2 Chain State '') CHAIN_STATE_COLOR CHAIN_STATE_COLOR
       [[(fg_bold White, 9672 # str '' ''), (fg DarkGray, str ''Unsafe:    ''), (fg_bold White, number (ui_unsafe_head a))],
        [(fg_bold Green, 9672 # str '' ''), (fg DarkGray, str ''Safe:      ''), (fg_bold Green, number (ui_safe_head a))],
        [(fg_bold Blue, 9672 # str '' ''), (fg DarkGray, str ''Finalized: ''), (fg_bold Blue, number (ui_finalized_head a))]]
       area"

definition create_progress_bar :: "'f f64_ops \<Rightarrow> 'f f64_draw \<Rightarrow> 'f \<Rightarrow> usize \<Rightarrow> text_line" where
  "create_progress_bar F D progress width =
     (let filled = f_to_usize D (f_mul F (f_div F progress (f_of_nat F 100)) (f_of_nat F width));
          empty = width - filled;
          bar_color = (if f_ge D progress 100 then Green
                       else if f_ge D progress 75 then LightGreen
                       else if f_ge D progress 50 then Yellow
                       else if f_ge D progress 25 then Rgb 255 165 0
                       else Rgb 255 99 71)
      in [(fg DarkGray, str ''[''), (fg bar_color, replicate filled 9608),
          (fg (Rgb 60 60 60), replicate empty 9617), (fg DarkGray, str '']'')])"

definition eta_text :: "duration option \<Rightarrow> string" where
  "eta_text eta = (case eta of None \<Rightarrow> ''calculating...'' | Some d \<Rightarrow> format_duration d)"

text \<open>The status line of the sync panel and the lines under it.\<close>

definition sync_lines :: "'f f64_ops \<Rightarrow> 'f f64_draw \<Rightarrow> 'f app \<Rightarrow> text_line \<times> text_line list" where
  "sync_lines F D a =
     (case ui_sync_state a of
        Sync_Idle \<Rightarrow>
          if ui_skip_sync a
          then ([(fg_bold Magenta, 8856 # str '' ''), (fg DarkGray, str ''Status: ''), (fg_bold Magenta, str ''SKIPPED'')],
                [[(plain_style, [])], [(fg Magenta, str ''  Sync skipped via --skip-sync'')]])
          else ([(fg_bold DarkGray, 9676 # str '' ''), (fg DarkGray, str ''Status: ''), (fg DarkGray, str ''IDLE'')],
                [[(plain_style, [])], [(fg DarkGray, str ''  Waiting for sync...'')]])
      | Syncing start current target rate eta \<Rightarrow>
          let progress = sync_progress_percent F a;
              remaining = saturating_sub target current
          in ([(fg_bold Yellow, 8635 # str '' ''), (fg DarkGray, str ''Status: ''),
               (fg_bold Yellow, str (''SYNCING '' @ f_show F 1 progress @ ''%''))],
              [(plain_style, str ''  '') # create_progress_bar F D progress 16,
               [(fg DarkGray, str ''  Block: ''), (fg White, number current), (fg DarkGray, str '' / '' @ number target)],
               [(fg DarkGray, str ''  Speed: ''), (fg SYNC_COLOR, str (f_show F 1 rate @ '' blks/s''))],
               [(fg DarkGray, str ''  ETA:   ''), (fg White, str (eta_text eta)),
                (fg DarkGray, str ('' ('' @ dec (unat remaining) @ '' left)''))]])
      | Sync_Completed n secs \<Rightarrow>
          let speed = (if f_pos F secs then f_div F (f_of_nat F (unat n)) secs else f_of_nat F 0)
          in ([(fg_bold Green, 10003 # str '' ''), (fg DarkGray, str ''Status: ''), (fg_bold Green, str ''COMPLETE'')],
              [(plain_style, str ''  '') # create_progress_bar F D (f_of_nat F 100) 16,
               [(fg DarkGray, str ''  Synced: ''), (fg Green, str (dec (unat n) @ '' blocks''))],
               [(fg DarkGray, str ''  Time:   ''), (fg White, str (f_show F 1 secs @ ''s''))],
               [(fg DarkGray, str ''  Avg:    ''), (fg SYNC_COLOR, str (f_show F 1 speed @ '' blks/s''))]]))"

definition draw_sync_stats :: "'f f64_ops \<Rightarrow> 'f f64_draw \<Rightarrow> 'f app \<Rightarrow> rect \<Rightarrow> frame option" where
  "draw_sync_stats F D a area =
     (case sync_lines F D a of (status_line, details) \<Rightarrow>
        let text = status_line # details @
              (if 0 < ui_syncs_completed a
               then [[(fg DarkGray, str ''  Syncs: ''),
                      (fg Magenta, str (dec (unat (ui_syncs_completed a)) @ '' completed''))]]
               else []);
            (title_color, border_color) =
              (case ui_sync_state a of
                 Sync_Completed _ _ \<Rightarrow> (Green, Green)
               | Syncing _ _ _ _ _ \<Rightarrow> (Yellow, Yellow)
               | Sync_Idle \<Rightarrow> (Magenta, DarkGray))
        in panel (str '' Sync Stats '') title_color border_color text area)"

text \<open>Icon and text for how far the finalized head is behind.\<close>

definition head_status :: "'f app \<Rightarrow> span \<times> span" where
  "head_status a =
     (if ui_unsafe_head a = ui_finalized_head a \<and> 0 < ui_unsafe_head a
      then ((fg_bold Green, 9679 # str '' ''), (fg_bold Green, str ''IN SYNC''))
      else if 0 < ui_unsafe_head a
      then ((fg_bold Yellow, 9680 # str '' ''),
            (fg Yellow, str (dec (unat (saturating_sub (ui_unsafe_head a) (ui_finalized_head a))) @ '' behind'')))
      else ((fg_bold DarkGray, 9675 # str '' ''), (fg DarkGray, str ''WAITING'')))"

definition gas_throughput :: "'f f64_ops \<Rightarrow> 'f f64_draw \<Rightarrow> 'f \<Rightarrow> string \<times> color" where
  "gas_throughput F D mgas =
     ((if f_ge D mgas 1000 then f_show F 2 (f_div F mgas (f_of_nat F 1000)) @ '' Ggas/s''
       else if f_pos F mgas then f_show F 1 mgas @ '' Mgas/s''
       else ''--''),
      (if f_ge D mgas 1000 then Rgb 50 205 50
       else if f_ge D mgas 100 then Rgb 0 191 255
       else if f_pos F mgas then White
       else DarkGray))"

text \<open>A number with a unit, or a replacement when it is not positive.\<close>

definition if_pos :: "'f f64_ops \<Rightarrow> 'f \<Rightarrow> glyphs \<Rightarrow> glyphs \<Rightarrow> glyphs" where
  "if_pos F x shown otherwise = (if f_pos F x then shown else otherwise)"

definition draw_metrics :: "'f f64_ops \<Rightarrow> 'f f64_draw \<Rightarrow> (nat \<Rightarrow> instant) \<Rightarrow> 'f app \<Rightarrow> rect \<Rightarrow> frame option" where
  "draw_metrics F D clk a area =
     (let avg_latency = ui_avg_latency_ms F a;
          dev = latency_stddev_ms F a;
          txs_per_sec = transactions_per_second F (clk 0) a;
          avg_compression = avg_compression_ratio F a;
          compression_dev = compression_stddev F a;
          mgas_per_sec = mgas_per_second F (clk 1) a;
          (sync_icon, sync_text) = head_status a;
          (gas, gas_color) = gas_throughput F D mgas_per_sec
      in panel (str '' Performance '') METRICS_COLOR METRICS_COLOR
           [[sync_icon, (fg DarkGray, str ''Status: ''), sync_text],
            [(fg_bold METRICS_COLOR, 9889 # str '' ''), (fg DarkGray, str ''Gas:    ''), (fg_bold gas_color, str gas)],
            [(fg_bold Cyan, 8596 # str '' ''), (fg DarkGray, str ''Latency:''),
             (fg White, if_pos F avg_latency (str ('' '' @ f_show F 1 avg_latency @ ''ms'')) (str '' --'')),
             (fg DarkGray, if_pos F dev (str '' '' @ 177 # str (f_show F 1 dev)) [])],
            [(fg_bold LightGreen, 8593 # str '' ''), (fg DarkGray, str ''Txs/s:  ''),
             (fg White, if_pos F txs_per_sec (str (f_show F 1 txs_per_sec)) (str ''--''))],
            [(fg_bold Magenta, 9670 # str '' ''), (fg DarkGray, str ''Compress:''),
             (fg White, if_pos F avg_compression (str ('' '' @ f_show F 1 avg_compression @ ''%'')) (str '' --'')),
             (fg DarkGray, if_pos F compression_dev (str '' '' @ 177 # str (f_show F 1 compression_dev)) [])]]
           area)"

text \<open>\<^verbatim>\<open>as_secs\<close> of a duration, which is in nanoseconds.\<close>

definition as_secs :: "duration \<Rightarrow> nat" where "as_secs d = d div 1000000000"

definition execution_status :: "instant \<Rightarrow> 'f app \<Rightarrow> glyphs \<times> string \<times> color" where
  "execution_status now a =
     (if ui_blocks_executed a = 0 \<and> ui_blocks_fetched a = 0 then ([9675], ''WAITING'', DarkGray)
      else if ui_blocks_executed a = 0 \<and> 0 < ui_blocks_fetched a then ([9680], ''STARTING'', Yellow)
      else (case time_since_last_execution now a of
              Some elapsed \<Rightarrow>
                if 30 < as_secs elapsed then ([10006], ''STALLED'', Red)
                else if 5 < as_secs elapsed then ([9680], ''SLOW'', Yellow)
                else ([9654], ''RUNNING'', Green)
            | None \<Rightarrow> ([9675], ''IDLE'', DarkGray)))"

definition backlog_color :: "u64 \<Rightarrow> color" where
  "backlog_color n =
     (if 500 < n then Red else if 100 < n then Yellow else if 0 < n then Green else DarkGray)"

definition draw_execution_stats :: "'f f64_ops \<Rightarrow> (nat \<Rightarrow> instant) \<Rightarrow> 'f app \<Rightarrow> rect \<Rightarrow> frame option" where
  "draw_execution_stats F clk a area =
     (let backlog = backlog_size a;
          rate = execution_rate F (clk 2) a;
          avg_time = avg_execution_time_ms F a;
          (status_icon, status_text, status_color) = execution_status (clk 3) a
      in panel (str '' Execution '') EXECUTION_COLOR EXECUTION_COLOR
           [[(fg_bold status_color, status_icon @ str '' ''), (fg DarkGray, str ''Status: ''),
             (fg_bold status_color, str status_text)],
            [(fg_bold EXECUTION_COLOR, 9635 # str '' ''), (fg DarkGray, str ''Block:  ''),
             (fg_bold White, number (ui_last_executed_block a))],
            [(fg_bold Cyan, 8594 # str '' ''), (fg DarkGray, str ''Rate:   ''), (fg Cyan, str (f_show F 1 rate @ '' blks/s''))],
            [(fg_bold (backlog_color backlog), 8801 # str '' ''), (fg DarkGray, str ''Backlog:''),
             (fg (backlog_color backlog), str ('' '' @ dec (unat backlog)))],
            [(fg_bold White, 9719 # str '' ''), (fg DarkGray, str ''Avg:    ''),
             (fg White, if_pos F avg_time (str (f_show F 1 avg_time @ ''ms'')) (str ''--''))]]
           area)"

definition draw_header :: "layout_ops \<Rightarrow> 'f f64_ops \<Rightarrow> 'f f64_draw \<Rightarrow> (nat \<Rightarrow> instant) \<Rightarrow> 'f app \<Rightarrow> rect \<Rightarrow> frame option" where
  "draw_header L F D clk a area =
     (let chunks = lo_split L Horizontal [Percentage 25, Percentage 25, Percentage 25, Percentage 25] area
      in panels [draw_at chunks 0 (draw_chain_state a), draw_at chunks 1 (draw_sync_stats F D a),
           draw_at chunks 2 (draw_metrics F D clk a), draw_at chunks 3 (draw_execution_stats F clk a)])"

section \<open>The body\<close>

definition draw_harness_activity :: "'f app \<Rightarrow> rect \<Rightarrow> frame option" where
  "draw_harness_activity a area =
     panel (str '' '' @ [9935] @ str ('' Anvil #'' @ dec (unat (ui_harness_block a)) @ '' '')) HARNESS_COLOR HARNESS_COLOR
       (render_logs_reversed (ui_harness_logs a)) area"

definition draw_sync_updates :: "'f app \<Rightarrow> rect \<Rightarrow> frame option" where
  "draw_sync_updates a area =
     (let logs = render_logs_reversed (ui_sync_logs a);
          (title_color, border_color) =
            (case ui_sync_state a of
               Sync_Completed _ _ \<Rightarrow> (Green, Green)
             | Syncing _ _ _ _ _ \<Rightarrow> (Yellow, Yellow)
             | Sync_Idle \<Rightarrow> (SYNC_COLOR, DarkGray))
      in panel (str '' '' @ [8635] @ str '' Sync Updates '') title_color border_color logs area)"

definition draw_block_builder :: "'f app \<Rightarrow> rect \<Rightarrow> frame option" where
  "draw_block_builder a area =
     panel (str '' '' @ [9635] @ str '' Block Builder '') BLOCK_BUILDER_COLOR BLOCK_BUILDER_COLOR
       (render_logs_reversed (ui_block_builder_logs a)) area"

definition execution_color :: "instant \<Rightarrow> 'f app \<Rightarrow> color" where
  "execution_color now a =
     (if ui_blocks_executed a = 0 \<and> ui_blocks_fetched a = 0 then DarkGray
      else (case time_since_last_execution now a of
              Some elapsed \<Rightarrow>
                if 30 < as_secs elapsed then Red
                else if 5 < as_secs elapsed \<or> 100 < backlog_size a then Yellow
                else EXECUTION_COLOR
            | None \<Rightarrow> EXECUTION_COLOR))"

definition draw_execution :: "(nat \<Rightarrow> instant) \<Rightarrow> 'f app \<Rightarrow> rect \<Rightarrow> frame option" where
  "draw_execution clk a area =
     (let c = execution_color (clk 4) a
      in panel (str '' '' @ [9654] @ str '' Execution '') c c (render_logs_reversed (ui_execution_logs a)) area)"

definition draw_batch_submissions :: "'f app \<Rightarrow> rect \<Rightarrow> frame option" where
  "draw_batch_submissions a area =
     panel (str '' '' @ [8599] @ str '' Batches '') BATCH_SUBMISSION_COLOR BATCH_SUBMISSION_COLOR
       (render_logs_reversed (ui_batch_logs a)) area"

definition draw_execution_and_batches :: "layout_ops \<Rightarrow> (nat \<Rightarrow> instant) \<Rightarrow> 'f app \<Rightarrow> rect \<Rightarrow> frame option" where
  "draw_execution_and_batches L clk a area =
     (let chunks = lo_split L Vertical [Percentage 50, Percentage 50] area
      in panels [draw_at chunks 0 (draw_execution clk a), draw_at chunks 1 (draw_batch_submissions a)])"

definition draw_derivation_execution :: "'f app \<Rightarrow> rect \<Rightarrow> frame option" where
  "draw_derivation_execution a area =
     panel (str '' '' @ [9654] @ str '' Execution '') EXECUTION_COLOR EXECUTION_COLOR
       (render_logs_reversed (ui_derivation_execution_logs a)) area"

definition draw_derivation_logs :: "'f app \<Rightarrow> rect \<Rightarrow> frame option" where
  "draw_derivation_logs a area =
     panel (str '' '' @ [8601] @ str '' Derived '') DERIVATION_ORIGIN_COLOR DERIVATION_ORIGIN_COLOR
       (render_logs_reversed (ui_derivation_logs a)) area"

definition draw_derived_blocks :: "layout_ops \<Rightarrow> 'f app \<Rightarrow> rect \<Rightarrow> frame option" where
  "draw_derived_blocks L a area =
     (let chunks = lo_split L Vertical [Percentage 50, Percentage 50] area
      in panels [draw_at chunks 0 (draw_derivation_execution a), draw_at chunks 1 (draw_derivation_logs a)])"

definition draw_sequencer_section :: "layout_ops \<Rightarrow> (nat \<Rightarrow> instant) \<Rightarrow> 'f app \<Rightarrow> rect \<Rightarrow> frame option" where
  "draw_sequencer_section L clk a area =
     (let outer_block = \<lparr>bd_border = fg SEQUENCER_COLOR, bd_title = str '' '' @ [9881] @ str '' Sequencer '',
            bd_title_style = fg_bold SEQUENCER_COLOR\<rparr>;
          inner_area = lo_inner L outer_block area;
          columns = lo_split L Horizontal [Percentage 50, Percentage 50] inner_area
      in panels [Some [(Border outer_block, area)], draw_at columns 0 (draw_block_builder a),
           draw_at columns 1 (draw_execution_and_batches L clk a)])"

definition draw_validator_section :: "layout_ops \<Rightarrow> 'f app \<Rightarrow> rect \<Rightarrow> frame option" where
  "draw_validator_section L a area =
     (let outer_block = \<lparr>bd_border = fg VALIDATOR_COLOR, bd_title = str '' '' @ [8853] @ str '' Validator '',
            bd_title_style = fg_bold VALIDATOR_COLOR\<rparr>;
          inner_area = lo_inner L outer_block area
      in panels [Some [(Border outer_block, area)], draw_derived_blocks L a inner_area])"

definition draw_body :: "layout_ops \<Rightarrow> (nat \<Rightarrow> instant) \<Rightarrow> 'f app \<Rightarrow> rect \<Rightarrow> frame option" where
  "draw_body L clk a area =
     (if ui_harness_mode a
      then if ui_skip_sync a
           then (let chunks = lo_split L Horizontal
                       [Percentage 20, Length 1, Percentage 39, Length 1, Percentage 39] area
                 in panels [draw_at chunks 0 (draw_harness_activity a), draw_at chunks 2 (draw_sequencer_section L clk a),
                      draw_at chunks 4 (draw_validator_section L a)])
           else (let chunks = lo_split L Horizontal
                       [Percentage 16, Percentage 16, Length 1, Percentage 33, Length 1, Percentage 33] area
                 in panels [draw_at chunks 0 (draw_harness_activity a), draw_at chunks 1 (draw_sync_updates a),
                      draw_at chunks 3 (draw_sequencer_section L clk a), draw_at chunks 5 (draw_validator_section L a)])
      else if ui_skip_sync a
      then (let chunks = lo_split L Horizontal [Percentage 49, Length 2, Percentage 49] area
            in panels [draw_at chunks 0 (draw_sequencer_section L clk a), draw_at chunks 2 (draw_validator_section L a)])
      else (let chunks = lo_split L Horizontal
                  [Percentage 24, Length 1, Percentage 37, Length 1, Percentage 37] area
            in panels [draw_at chunks 0 (draw_sync_updates a), draw_at chunks 2 (draw_sequencer_section L clk a),
                 draw_at chunks 4 (draw_validator_section L a)]))"

section \<open>The footer\<close>

definition footer_line :: "'f app \<Rightarrow> text_line" where
  "footer_line a =
     (let start_block_display = (case ui_start_block a of None \<Rightarrow> str ''checkpoint'' | Some n \<Rightarrow> number n);
          (sync_icon, sync_display, sync_color) =
            (if ui_skip_sync a then ([8856], ''SKIP'', Magenta)
             else if ui_unsafe_head a = ui_finalized_head a \<and> 0 < ui_unsafe_head a then ([10003], ''SYNC'', Green)
             else ([8635], ''SYNC'', Yellow));
          bar = (fg DarkGray, str '' '' @ [9474] @ str '' '')
      in [(fg DarkGray, str '' [''), (fg_bold (Rgb 255 99 71), str ''q''), (fg DarkGray, str '']''),
          (fg Gray, str '' Quit ''), (fg DarkGray, str ''[''), (fg_bold Yellow, str ''p''),
          (fg DarkGray, str '']''), (fg Gray, str '' Pause ''), (fg DarkGray, str ''[''),
          (fg_bold Cyan, str ''r''), (fg DarkGray, str '']''), (fg Gray, str '' Reset ''), bar,
          (fg_bold SEQUENCER_COLOR, str (ui_node_role a)), bar,
          (fg DarkGray, str ''Start: ''), (fg Blue, start_block_display), bar,
          (fg_bold (if ui_is_paused a then Yellow else Green),
           if ui_is_paused a then 9208 # str '' PAUSED'' else 9654 # str '' RUN''), bar,
          (fg_bold sync_color, sync_icon), (fg sync_color, str ('' '' @ sync_display))])"

definition draw_footer :: "'f app \<Rightarrow> rect \<Rightarrow> frame option" where
  "draw_footer a area =
     Some [(Paragraph [footer_line a] plain_style
              (Some \<lparr>bd_border = fg (if ui_is_paused a then Yellow else Rgb 80 80 80),
                     bd_title = str '' Montana '', bd_title_style = fg_bold SEQUENCER_COLOR\<rparr>)
              False Left_Aligned, area)]"

section \<open>The L1 chain\<close>

definition BLOCK_WIDTH :: nat where "BLOCK_WIDTH = 8"

text \<open>\<^verbatim>\<open>{:^7}\<close> and \<^verbatim>\<open>{:>4}\<close>.\<close>

definition centered :: "nat \<Rightarrow> glyphs \<Rightarrow> glyphs" where
  "centered w t =
     (let pad = w - length t in replicate (pad div 2) 32 @ t @ replicate (pad - pad div 2) 32)"

definition right_aligned :: "nat \<Rightarrow> glyphs \<Rightarrow> glyphs" where
  "right_aligned w t = replicate (w - length t) 32 @ t"

definition max_visible_blocks :: "rect \<Rightarrow> nat" where
  "max_visible_blocks area = unat (saturating_sub (r_width area) 2) div BLOCK_WIDTH"

definition blocks_to_display :: "nat \<Rightarrow> l1_entry list \<Rightarrow> l1_entry list" where
  "blocks_to_display m bs = (if m < length bs then drop (length bs - m) bs else bs)"

definition brightness :: "nat \<Rightarrow> nat \<Rightarrow> nat" where
  "brightness n i = (if 1 < n then (50 + i * 150 div (n - 1)) mod 256 else 200)"

definition number_cell :: "nat \<Rightarrow> nat \<Rightarrow> l1_entry \<Rightarrow> span list" where
  "number_cell n i b =
     [(fg (Rgb (brightness n i) (brightness n i div 2) 0), centered 7 (str (dec (unat (l1e_number b))))),
      (plain_style, str '' '')]"

definition visual_cell :: "l1_entry \<Rightarrow> span list" where
  "visual_cell b =
     [(case l1e_batch_number b of
         Some batch_num \<Rightarrow>
           (fg_bold BATCH_SUBMISSION_COLOR, str ''[B'' @ right_aligned 4 (str (dec (unat batch_num))) @ str '']'')
       | None \<Rightarrow> (fg (Rgb 80 80 80), str ''[  '' @ [183] @ str ''  ]'')),
      (plain_style, str '' '')]"

definition cursor_cell :: "u64 option \<Rightarrow> u64 option \<Rightarrow> l1_entry \<Rightarrow> span list" where
  "cursor_cell sub orig b =
     (let is_batch_cursor = (sub = Some (l1e_number b));
          is_derivation_cursor = (orig = Some (l1e_number b))
      in if is_batch_cursor \<and> is_derivation_cursor
         then [(plain_style, str ''  ''), (fg_bold BATCH_SUBMISSION_COLOR, [9650]),
               (fg_bold DERIVATION_ORIGIN_COLOR, [9650]), (plain_style, str ''   '')]
         else if is_batch_cursor
         then [(plain_style, str ''   ''), (fg_bold BATCH_SUBMISSION_COLOR, [9650]), (plain_style, str ''    '')]
         else if is_derivation_cursor
         then [(plain_style, str ''   ''), (fg_bold DERIVATION_ORIGIN_COLOR, [9650]), (plain_style, str ''    '')]
         else [(plain_style, str ''        '')])"

text \<open>The three lines: numbers, boxes, cursors.\<close>

definition l1_lines :: "'f app \<Rightarrow> rect \<Rightarrow> text_line \<times> text_line \<times> text_line" where
  "l1_lines a area =
     (let m = max_visible_blocks area;
          shown = blocks_to_display m (ui_l1_blocks a);
          n = length shown;
          scrolled = (m < length (ui_l1_blocks a))
      in if shown = []
         then ([(fg DarkGray, str ''  '' @ [9203] @ str '' Waiting for L1 blocks...'')],
               [(plain_style, [])], [(plain_style, [])])
         else ((if scrolled then [(fg L1_CHAIN_COLOR, 9664 # str '' '')] else [])
                 @ concat (map (\<lambda>(i, b). number_cell n i b) (enumerate 0 shown))
                 @ [(fg L1_CHAIN_COLOR, str '' '' @ [9654])],
               (if scrolled then [(fg DarkGray, str ''  '')] else [])
                 @ concat (map visual_cell shown) @ [(plain_style, str ''  '')],
               (if scrolled then [(fg DarkGray, str ''  '')] else [])
                 @ concat (map (cursor_cell (ui_latest_batch_submission a) (ui_latest_derivation_origin a)) shown)
                 @ [(plain_style, str ''  '')]))"

definition draw_l1_chain :: "'f app \<Rightarrow> rect \<Rightarrow> frame option" where
  "draw_l1_chain a area =
     (case l1_lines a area of (numbers, visuals, cursors) \<Rightarrow>
        let title = (if 0 < ui_l1_head a
                     then str '' '' @ [9939] @ str ('' L1 Chain #'' @ dec (unat (ui_l1_head a)) @ '' '')
                     else str '' '' @ [9939] @ str '' L1 Chain '')
        in Some [(Paragraph [numbers, visuals, cursors] plain_style
             (Some \<lparr>bd_border = fg L1_CHAIN_COLOR, bd_title = title, bd_title_style = fg_bold L1_CHAIN_COLOR\<rparr>)
             False Left_Aligned, area)])"

section \<open>The frame\<close>

definition draw_ui :: "layout_ops \<Rightarrow> 'f f64_ops \<Rightarrow> 'f f64_draw \<Rightarrow> (nat \<Rightarrow> instant) \<Rightarrow> 'f app \<Rightarrow> rect \<Rightarrow> frame option" where
  "draw_ui L F D clk a area =
     (if ui_harness_mode a
      then (let chunks = lo_split L Vertical [Length 1, Length 8, Min 5, Length 5, Length 3] area
            in panels [draw_at chunks 0 draw_harness_banner, draw_at chunks 1 (draw_header L F D clk a),
                 draw_at chunks 2 (draw_body L clk a), draw_at chunks 3 (draw_l1_chain a), draw_at chunks 4 (draw_footer a)])
      else (let chunks = lo_split L Vertical [Length 8, Min 5, Length 5, Length 3] area
            in panels [draw_at chunks 0 (draw_header L F D clk a), draw_at chunks 1 (draw_body L clk a),
                 draw_at chunks 2 (draw_l1_chain a), draw_at chunks 3 (draw_footer a)]))"

section \<open>Columns\<close>

text \<open>A line as a list of styled columns, and as plain text.\<close>

definition styled :: "text_line \<Rightarrow> (style \<times> nat) list" where
  "styled l = concat (map (\<lambda>(s, t). map (Pair s) t) l)"

definition text_of :: "text_line \<Rightarrow> glyphs" where
  "text_of l = map snd (styled l)"

definition arrows :: "color \<Rightarrow> (style \<times> nat) list \<Rightarrow> nat set" where
  "arrows c row = {p. p < length row \<and> row ! p = (fg_bold c, 9650)}"

lemma styled_simps [simp]:
  "styled [] = []" "styled ((s, t) # l) = map (Pair s) t @ styled l" "styled (l @ l') = styled l @ styled l'"
  by (simp_all add: styled_def)

lemma styled_concat: "styled (concat ls) = concat (map styled ls)"
  by (induction ls) simp_all

lemma text_of_simps [simp]:
  "text_of [] = []" "text_of ((s, t) # l) = t @ text_of l" "text_of (l @ l') = text_of l @ text_of l'"
  by (simp_all add: text_of_def comp_def)

lemma text_of_concat: "text_of (concat ls) = concat (map text_of ls)"
  by (induction ls) simp_all

lemma length_text_of: "length (text_of l) = length (styled l)"
  by (simp add: text_of_def)

lemma str_simps [simp]: "length (str s) = length s" "str [] = []" "str (c # s) = of_char c # str s" "str (s @ t) = str s @ str t"
  by (simp_all add: str_def)

lemma length_right_aligned: "length t \<le> w \<Longrightarrow> length (right_aligned w t) = w"
  by (simp add: right_aligned_def)

lemma length_centered: "length t \<le> w \<Longrightarrow> length (centered w t) = w"
  by (simp add: centered_def Let_def)

lemma length_dec: "n < 10 ^ Suc k \<Longrightarrow> length (dec n) \<le> Suc k"
proof (induction k arbitrary: n)
  case 0
  then show ?case by (simp add: dec.simps [of n])
next
  case (Suc k)
  then have "n div 10 < 10 ^ Suc k" by (simp add: less_mult_imp_div_less algebra_simps)
  then have "length (dec (n div 10)) \<le> Suc k" by (rule Suc.IH)
  then show ?case by (simp add: dec.simps [of n])
qed

lemma length_concat_cells: "(\<And>x. x \<in> set xs \<Longrightarrow> length (f x) = w) \<Longrightarrow> length (concat (map f xs)) = w * length xs"
  by (induction xs) (simp_all add: algebra_simps)

text \<open>In a row of cells of one width, the i-th cell starts at i times the width.\<close>

lemma cell_at:
  assumes "\<And>x. x \<in> set xs \<Longrightarrow> length (f x) = w" and "i < length xs"
  shows "take w (drop (w * i) (concat (map f xs) @ rest)) = f (xs ! i)"
  using assms
proof (induction xs arbitrary: i)
  case (Cons x xs)
  then show ?case by (cases i) simp_all
qed simp

lemma arrows_Nil [simp]: "arrows c [] = {}"
  by (simp add: arrows_def)

lemma arrows_Cons:
  "arrows c (x # row) = (if x = (fg_bold c, 9650) then {0} else {}) \<union> Suc ` arrows c row"
proof (rule set_eqI)
  fix p
  show "p \<in> arrows c (x # row) \<longleftrightarrow> p \<in> (if x = (fg_bold c, 9650) then {0} else {}) \<union> Suc ` arrows c row"
    by (cases p) (auto simp: arrows_def)
qed

lemma arrows_append: "arrows c (xs @ ys) = arrows c xs \<union> (+) (length xs) ` arrows c ys"
  by (induction xs) (auto simp: arrows_Cons image_Un image_image)

text \<open>The k-th columns of the cells of the blocks with a property.\<close>

definition block_columns :: "nat \<Rightarrow> (l1_entry \<Rightarrow> bool) \<Rightarrow> l1_entry list \<Rightarrow> nat set" where
  "block_columns k P bs = {8 * i + k | i. i < length bs \<and> P (bs ! i)}"

lemma block_columns_Nil [simp]: "block_columns k P [] = {}"
  by (simp add: block_columns_def)

lemma block_columns_Cons:
  "block_columns k P (b # bs) = (if P b then {k} else {}) \<union> (+) 8 ` block_columns k P bs"
proof (rule set_eqI)
  fix p
  have "p \<in> block_columns k P (b # bs) \<longleftrightarrow> (\<exists>i<Suc (length bs). p = 8 * i + k \<and> P ((b # bs) ! i))"
    by (auto simp: block_columns_def)
  also have "\<dots> \<longleftrightarrow> (p = k \<and> P b) \<or> (\<exists>j<length bs. p = 8 * Suc j + k \<and> P (bs ! j))"
    by (simp add: Ex_less_Suc2)
  finally show "p \<in> block_columns k P (b # bs) \<longleftrightarrow> p \<in> (if P b then {k} else {}) \<union> (+) 8 ` block_columns k P bs"
    by (auto simp: block_columns_def)
qed

lemma block_columns_none: "\<forall>b \<in> set bs. \<not> P b \<Longrightarrow> block_columns k P bs = {}"
  by (auto simp: block_columns_def)

lemma arrows_blank: "arrows c (replicate n (st, 32)) = {}"
  by (auto simp: arrows_def)

lemma cursor_cell_columns:
  "styled (cursor_cell sub orig b) =
     (let blanks = (\<lambda>n. replicate n (plain_style, 32));
          m = (fg_bold BATCH_SUBMISSION_COLOR, 9650); d = (fg_bold DERIVATION_ORIGIN_COLOR, 9650)
      in if sub = Some (l1e_number b) \<and> orig = Some (l1e_number b) then blanks 2 @ [m, d] @ blanks 3
         else if sub = Some (l1e_number b) then blanks 3 @ [m] @ blanks 4
         else if orig = Some (l1e_number b) then blanks 3 @ [d] @ blanks 4
         else blanks 8)"
  by (simp add: cursor_cell_def Let_def numeral_eq_Suc)

lemma cursor_cell_arrows:
  "arrows BATCH_SUBMISSION_COLOR (styled (cursor_cell sub orig b))
     = (if sub = Some (l1e_number b) then {if sub = orig then 2 else 3} else {})"
  "arrows DERIVATION_ORIGIN_COLOR (styled (cursor_cell sub orig b))
     = (if orig = Some (l1e_number b) then {3} else {})"
  "length (styled (cursor_cell sub orig b)) =
     (if sub = Some (l1e_number b) \<and> orig = Some (l1e_number b) then 7 else 8)"
  by (auto simp: cursor_cell_columns Let_def arrows_append arrows_Cons arrows_blank
      BATCH_SUBMISSION_COLOR_def DERIVATION_ORIGIN_COLOR_def fg_bold_def)

text \<open>
  The row of cursors. When both cursors stand on one block its cell is one column short, but no
  other cell has a cursor then.
\<close>

lemma arrows_cursor_row:
  assumes "\<And>c. arrows c rest = {}"
  shows "distinct (map l1e_number bs) \<Longrightarrow>
      arrows BATCH_SUBMISSION_COLOR (concat (map (\<lambda>b. styled (cursor_cell sub orig b)) bs) @ rest)
        = block_columns (if sub = orig then 2 else 3) (\<lambda>b. sub = Some (l1e_number b)) bs
    \<and> arrows DERIVATION_ORIGIN_COLOR (concat (map (\<lambda>b. styled (cursor_cell sub orig b)) bs) @ rest)
        = block_columns 3 (\<lambda>b. orig = Some (l1e_number b)) bs"
proof (induction bs)
  case Nil
  show ?case by (simp add: assms)
next
  case (Cons b bs)
  have none: "block_columns k (\<lambda>x. l1e_number b = l1e_number x) bs = {}" for k
    using Cons.prems by (intro block_columns_none) auto
  have IH: "arrows BATCH_SUBMISSION_COLOR (concat (map (\<lambda>b. styled (cursor_cell sub orig b)) bs) @ rest)
        = block_columns (if sub = orig then 2 else 3) (\<lambda>b. sub = Some (l1e_number b)) bs"
    "arrows DERIVATION_ORIGIN_COLOR (concat (map (\<lambda>b. styled (cursor_cell sub orig b)) bs) @ rest)
        = block_columns 3 (\<lambda>b. orig = Some (l1e_number b)) bs"
    using Cons by simp_all
  let ?R = "concat (map (\<lambda>b. styled (cursor_cell sub orig b)) bs) @ rest"
  have split: "arrows c (styled (cursor_cell sub orig b) @ ?R)
      = arrows c (styled (cursor_cell sub orig b)) \<union> (+) (length (styled (cursor_cell sub orig b))) ` arrows c ?R" for c
    by (rule arrows_append)
  show ?case
  proof (cases "sub = Some (l1e_number b) \<and> orig = Some (l1e_number b)")
    case True
    with IH none show ?thesis
      unfolding list.map concat.simps append_assoc split cursor_cell_arrows block_columns_Cons by simp
  next
    case False
    with IH show ?thesis
      unfolding list.map concat.simps append_assoc split cursor_cell_arrows block_columns_Cons by simp
  qed
qed

text \<open>What stands in a cell: the number, and the box with the batch.\<close>

definition number_text :: "l1_entry \<Rightarrow> glyphs" where
  "number_text b = centered 7 (str (dec (unat (l1e_number b))))"

definition box_text :: "l1_entry \<Rightarrow> glyphs" where
  "box_text b =
     (case l1e_batch_number b of
        Some n \<Rightarrow> str ''[B'' @ right_aligned 4 (str (dec (unat n))) @ str '']''
      | None \<Rightarrow> str ''[  '' @ [183] @ str ''  ]'')"

definition fits :: "l1_entry \<Rightarrow> bool" where
  "fits b = (l1e_number b < 10000000 \<and> (\<forall>n. l1e_batch_number b = Some n \<longrightarrow> n < 10000))"

lemma cell_texts:
  assumes "fits b"
  shows "text_of (number_cell n i b) = number_text b @ [32]" "length (number_text b) = 7"
    "text_of (visual_cell b) = box_text b @ [32]" "length (box_text b) = 7"
proof -
  show "text_of (number_cell n i b) = number_text b @ [32]"
    by (simp add: number_cell_def number_text_def)
  show "text_of (visual_cell b) = box_text b @ [32]"
    by (simp add: visual_cell_def box_text_def split: option.split)
  have "unat (l1e_number b) < 10 ^ Suc 6" using assms by (simp add: fits_def word_less_nat_alt)
  from length_dec [OF this] show "length (number_text b) = 7"
    by (simp add: number_text_def length_centered)
  show "length (box_text b) = 7"
  proof (cases "l1e_batch_number b")
    case (Some n)
    then have "unat n < 10 ^ Suc 3" using assms by (simp add: fits_def word_less_nat_alt)
    from length_dec [OF this] Some show ?thesis by (simp add: box_text_def length_right_aligned)
  qed (simp add: box_text_def)
qed

lemma text_of_row: "text_of (concat (map f xs)) = concat (map (\<lambda>x. text_of (f x)) xs)"
  by (simp add: text_of_concat comp_def)

text \<open>The first seven columns of the i-th cell, when the cells are texts of seven columns and a space.\<close>

lemma text_at:
  assumes "\<And>x. x \<in> set xs \<Longrightarrow> text_of (f x) = t x @ [32] \<and> length (t x) = 7" and "i < length xs"
  shows "take 7 (drop (length m + 8 * i) (m @ text_of (concat (map f xs)) @ rest)) = t (xs ! i)"
proof -
  have "take 8 (drop (8 * i) (concat (map (\<lambda>x. text_of (f x)) xs) @ rest)) = text_of (f (xs ! i))"
    by (rule cell_at) (use assms in auto)
  from arg_cong [OF this, of "take 7"]
  have "take 7 (drop (8 * i) (concat (map (\<lambda>x. text_of (f x)) xs) @ rest)) = take 7 (text_of (f (xs ! i)))"
    by (simp only: take_take) simp
  also have "\<dots> = t (xs ! i)" using assms(1) [of "xs ! i"] assms(2) by simp
  finally show ?thesis by (simp add: text_of_row)
qed

lemma blocks_to_display_part:
  "set (blocks_to_display m bs) \<subseteq> set bs"
  "distinct (map l1e_number bs) \<Longrightarrow> distinct (map l1e_number (blocks_to_display m bs))"
  by (auto simp: blocks_to_display_def drop_map [symmetric] distinct_drop dest: in_set_dropD)

lemma l1_lines_shown:
  assumes "shown = blocks_to_display (max_visible_blocks area) (ui_l1_blocks a)" and "shown \<noteq> []"
    and "l1_lines a area = (numbers, visuals, cursors)"
    and "margin = (if max_visible_blocks area < length (ui_l1_blocks a) then 2 else 0)"
  shows "\<exists>m rest. length m = margin
      \<and> text_of numbers = m @ text_of (concat (map (\<lambda>(i, b). number_cell (length shown) i b) (enumerate 0 shown))) @ rest"
    and "\<exists>m rest. length m = margin \<and> text_of visuals = m @ text_of (concat (map visual_cell shown)) @ rest"
    and "styled cursors = replicate margin (fg DarkGray, 32) @
      concat (map (\<lambda>b. styled (cursor_cell (ui_latest_batch_submission a) (ui_latest_derivation_origin a) b)) shown)
      @ [(plain_style, 32), (plain_style, 32)]"
proof -
  let ?scrolled = "max_visible_blocks area < length (ui_l1_blocks a)"
  have row: "numbers = (if ?scrolled then [(fg L1_CHAIN_COLOR, 9664 # str '' '')] else [])
        @ concat (map (\<lambda>(i, b). number_cell (length shown) i b) (enumerate 0 shown))
        @ [(fg L1_CHAIN_COLOR, str '' '' @ [9654])]"
    "visuals = (if ?scrolled then [(fg DarkGray, str ''  '')] else []) @ concat (map visual_cell shown) @ [(plain_style, str ''  '')]"
    "cursors = (if ?scrolled then [(fg DarkGray, str ''  '')] else [])
        @ concat (map (cursor_cell (ui_latest_batch_submission a) (ui_latest_derivation_origin a)) shown)
        @ [(plain_style, str ''  '')]"
    using assms(2,3) unfolding l1_lines_def Let_def assms(1) [symmetric] by (simp_all only: if_False prod.inject)
  show "\<exists>m rest. length m = margin
      \<and> text_of numbers = m @ text_of (concat (map (\<lambda>(i, b). number_cell (length shown) i b) (enumerate 0 shown))) @ rest"
    by (intro exI [of _ "if ?scrolled then [9664, 32] else []"] exI [of _ "[32, 9654]"]) (simp add: row(1) assms(4))
  show "\<exists>m rest. length m = margin \<and> text_of visuals = m @ text_of (concat (map visual_cell shown)) @ rest"
    by (intro exI [of _ "if ?scrolled then [32, 32] else []"] exI [of _ "[32, 32]"]) (simp add: row(2) assms(4))
  show "styled cursors = replicate margin (fg DarkGray, 32) @
      concat (map (\<lambda>b. styled (cursor_cell (ui_latest_batch_submission a) (ui_latest_derivation_origin a) b)) shown)
      @ [(plain_style, 32), (plain_style, 32)]"
    by (simp add: row(3) assms(4) styled_concat comp_def numeral_eq_Suc)
qed

text \<open>
  The view of the L1 chain is aligned. In whatever state the interface is, when the numbers of the
  blocks on the screen have at most seven digits and those of their batches at most four, the
  i-th block shown has its number and its box in the same seven columns, and the row below has an
  arrow for the latest batch submission in the middle of the columns of its block, one for the
  origin of the latest derivation likewise, the first one column to the left when both are the
  same block, and no other arrow.
\<close>

theorem cursors_stand_under_blocks:
  assumes "ui_event_loop F its app_new = Some (r, a)"
    and "shown = blocks_to_display (max_visible_blocks area) (ui_l1_blocks a)" and "shown \<noteq> []"
    and "list_all fits shown"
    and "l1_lines a area = (numbers, visuals, cursors)"
    and "margin = (if max_visible_blocks area < length (ui_l1_blocks a) then 2 else 0)"
  shows "(\<forall>i < length shown.
        take 7 (drop (margin + 8 * i) (text_of numbers)) = number_text (shown ! i)
      \<and> take 7 (drop (margin + 8 * i) (text_of visuals)) = box_text (shown ! i))
    \<and> arrows BATCH_SUBMISSION_COLOR (styled cursors) = (+) margin `
        block_columns (if ui_latest_batch_submission a = ui_latest_derivation_origin a then 2 else 3)
          (\<lambda>b. ui_latest_batch_submission a = Some (l1e_number b)) shown
    \<and> arrows DERIVATION_ORIGIN_COLOR (styled cursors) = (+) margin `
        block_columns 3 (\<lambda>b. ui_latest_derivation_origin a = Some (l1e_number b)) shown"
proof (intro conjI allI impI)
  note rows = l1_lines_shown [OF assms(2,3,5,6)]
  have fits: "fits b" if "b \<in> set shown" for b using assms(4) that by (simp add: list_all_iff)
  fix i assume i: "i < length shown"
  obtain m rest where m: "length m = margin"
    "text_of numbers = m @ text_of (concat (map (\<lambda>(i, b). number_cell (length shown) i b) (enumerate 0 shown))) @ rest"
    using rows(1) by blast
  have "take 7 (drop (length m + 8 * i) (text_of numbers)) = (\<lambda>(i, b). number_text b) (enumerate 0 shown ! i)"
    unfolding m(2) by (rule text_at) (use fits i cell_texts in \<open>auto simp: in_set_enumerate_eq\<close>)
  then show "take 7 (drop (margin + 8 * i) (text_of numbers)) = number_text (shown ! i)"
    by (simp add: m(1) nth_enumerate_eq i)
  obtain m rest where m: "length m = margin" "text_of visuals = m @ text_of (concat (map visual_cell shown)) @ rest"
    using rows(2) by blast
  have "take 7 (drop (length m + 8 * i) (text_of visuals)) = box_text (shown ! i)"
    unfolding m(2) by (rule text_at) (use fits i cell_texts in auto)
  then show "take 7 (drop (margin + 8 * i) (text_of visuals)) = box_text (shown ! i)" by (simp add: m(1))
next
  have "app_ok a" by (rule ui_event_loop_ok [OF app_ok_new assms(1)])
  then have "distinct (map l1e_number shown)"
    unfolding assms(2) by (intro blocks_to_display_part(2)) (simp add: app_ok_def l1_view_ok_def strict_sorted_iff)
  moreover have "arrows c [(plain_style, 32), (plain_style, 32)] = {}" for c
    using arrows_blank [of c 2 plain_style] by (simp add: numeral_eq_Suc)
  ultimately have row:
    "arrows BATCH_SUBMISSION_COLOR (concat (map (\<lambda>b. styled (cursor_cell (ui_latest_batch_submission a) (ui_latest_derivation_origin a) b)) shown)
      @ [(plain_style, 32), (plain_style, 32)])
      = block_columns (if ui_latest_batch_submission a = ui_latest_derivation_origin a then 2 else 3)
          (\<lambda>b. ui_latest_batch_submission a = Some (l1e_number b)) shown"
    "arrows DERIVATION_ORIGIN_COLOR (concat (map (\<lambda>b. styled (cursor_cell (ui_latest_batch_submission a) (ui_latest_derivation_origin a) b)) shown)
      @ [(plain_style, 32), (plain_style, 32)])
      = block_columns 3 (\<lambda>b. ui_latest_derivation_origin a = Some (l1e_number b)) shown"
    using arrows_cursor_row by blast+
  show "arrows BATCH_SUBMISSION_COLOR (styled cursors) = (+) margin `
        block_columns (if ui_latest_batch_submission a = ui_latest_derivation_origin a then 2 else 3)
          (\<lambda>b. ui_latest_batch_submission a = Some (l1e_number b)) shown"
    unfolding l1_lines_shown(3) [OF assms(2,3,5,6)] arrows_append [of _ "replicate _ _"] row by (simp add: arrows_blank)
  show "arrows DERIVATION_ORIGIN_COLOR (styled cursors) = (+) margin `
        block_columns 3 (\<lambda>b. ui_latest_derivation_origin a = Some (l1e_number b)) shown"
    unfolding l1_lines_shown(3) [OF assms(2,3,5,6)] arrows_append [of _ "replicate _ _"] row by (simp add: arrows_blank)
qed

text \<open>Three blocks on a screen for two: the margin marks the scroll, the arrow is under the block of the batch.\<close>

definition l1_demo :: "nat app" where
  "l1_demo = record_l1_block 12 (record_batch_in_l1_block 9 1 3 (record_l1_block 5 app_new))"

definition demo_entry :: "u64 \<Rightarrow> u64 option \<Rightarrow> l1_entry" where
  "demo_entry n b = \<lparr>l1e_number = n, l1e_batch_number = b, l1e_batch_block_count = map_option (\<lambda>_. 3) b,
     l1e_is_derivation_origin = False\<rparr>"

definition demo_area :: rect where "demo_area = \<lparr>r_x = 0, r_y = 0, r_width = 20, r_height = 5\<rparr>"

lemma l1_demo_first:
  "ui_l1_blocks (record_l1_block 5 app_new) = [demo_entry 5 None]" "ui_l1_head (record_l1_block 5 app_new) = 5"
  "ui_latest_derivation_origin (record_l1_block 5 app_new) = None"
  by (simp_all add: record_l1_block_def app_new_def push_capped_def MAX_L1_BLOCKS_def demo_entry_def)

lemma l1_demo_second:
  "ui_l1_blocks (record_batch_in_l1_block 9 1 3 (record_l1_block 5 app_new)) = [demo_entry 5 None, demo_entry 9 (Some 1)]"
  "ui_l1_head (record_batch_in_l1_block 9 1 3 (record_l1_block 5 app_new)) = 9"
  "ui_latest_derivation_origin (record_batch_in_l1_block 9 1 3 (record_l1_block 5 app_new)) = None"
  "ui_latest_batch_submission (record_batch_in_l1_block 9 1 3 (record_l1_block 5 app_new)) = Some 9"
  by (simp_all add: record_batch_in_l1_block_def Let_def l1_demo_first push_capped_def MAX_L1_BLOCKS_def demo_entry_def)

lemma l1_demo_fields:
  "ui_l1_blocks l1_demo = [demo_entry 5 None, demo_entry 9 (Some 1), demo_entry 12 None]"
  "ui_latest_batch_submission l1_demo = Some 9" "ui_latest_derivation_origin l1_demo = None"
  by (simp_all add: l1_demo_def record_l1_block_def [of 12] l1_demo_second push_capped_def MAX_L1_BLOCKS_def demo_entry_def [of 12])

lemma l1_demo_run:
  "ui_event_loop nat_f64 [(False, None, [(\<lambda>_. 0, L1BlockProduced 5),
     (\<lambda>_. 0, BatchIncludedInL1 9 1 3), (\<lambda>_. 0, L1BlockProduced 12)]), (True, None, [])] app_new = Some (True, l1_demo)"
proof -
  have "\<not> ui_is_paused (app_new :: nat app)" by (simp add: app_new_def)
  moreover have "ui_is_paused (record_l1_block n b) = ui_is_paused b"
    "ui_is_paused (record_batch_in_l1_block n k m b) = ui_is_paused b" for n k m and b :: "nat app"
    by (simp_all add: record_l1_block_def record_batch_in_l1_block_def Let_def)
  ultimately show ?thesis by (simp add: press_def l1_demo_def)
qed

lemma l1_demo_shown:
  "max_visible_blocks demo_area = 2"
  "blocks_to_display (max_visible_blocks demo_area) (ui_l1_blocks l1_demo) = [demo_entry 9 (Some 1), demo_entry 12 None]"
proof -
  show m: "max_visible_blocks demo_area = 2"
    by (simp add: max_visible_blocks_def BLOCK_WIDTH_def saturating_sub_def demo_area_def)
  show "blocks_to_display (max_visible_blocks demo_area) (ui_l1_blocks l1_demo) = [demo_entry 9 (Some 1), demo_entry 12 None]"
    by (simp add: m l1_demo_fields blocks_to_display_def)
qed

lemma demo_box: "box_text (demo_entry 9 (Some 1)) = str ''[B   1]''"
proof -
  have "dec 1 = ''1''" by code_simp
  then show ?thesis by (simp add: box_text_def right_aligned_def demo_entry_def numeral_eq_Suc)
qed

theorem cursors_stand_under_blocks_witness:
  "\<exists>numbers visuals cursors. l1_lines l1_demo demo_area = (numbers, visuals, cursors)
    \<and> take 7 (drop 2 (text_of visuals)) = str ''[B   1]'' \<and> arrows BATCH_SUBMISSION_COLOR (styled cursors) = {5}"
proof -
  obtain numbers visuals cursors where l: "l1_lines l1_demo demo_area = (numbers, visuals, cursors)" by (metis prod_cases3)
  have fits: "list_all fits [demo_entry 9 (Some 1), demo_entry 12 None]" by (simp add: fits_def demo_entry_def)
  have margin: "2 = (if max_visible_blocks demo_area < length (ui_l1_blocks l1_demo) then 2 else 0)"
    by (simp add: l1_demo_shown l1_demo_fields)
  have shown: "[demo_entry 9 (Some 1), demo_entry 12 None] \<noteq> []" by simp
  note rows = cursors_stand_under_blocks [OF l1_demo_run l1_demo_shown(2) [symmetric] shown fits l margin]
  have "take 7 (drop 2 (text_of visuals)) = box_text (demo_entry 9 (Some 1))"
    using rows [THEN conjunct1, rule_format, of 0] by simp
  moreover have "arrows BATCH_SUBMISSION_COLOR (styled cursors) = {5}"
    using rows [THEN conjunct2, THEN conjunct1] by (simp add: l1_demo_fields block_columns_Cons demo_entry_def)
  ultimately show ?thesis using l demo_box by auto
qed

section \<open>What is on the screen\<close>

text \<open>A frame shows lines when one of its paragraphs consists of them.\<close>

definition shows_lines :: "text_line list \<Rightarrow> frame \<Rightarrow> bool" where
  "shows_lines t fr = list_ex (\<lambda>(w, _). case w of Paragraph u _ _ _ _ \<Rightarrow> u = t | Border _ \<Rightarrow> False) fr"

definition draws :: "text_line list set \<Rightarrow> frame option \<Rightarrow> bool" where
  "draws P p = (\<exists>fr. p = Some fr \<and> (\<forall>t \<in> P. shows_lines t fr))"

lemma draws_panels: "list_all2 draws Ps ps \<Longrightarrow> draws (\<Union>(set Ps)) (panels ps)"
proof (induction rule: list_all2_induct)
  case Nil
  show ?case by (simp add: draws_def panels_def)
next
  case (Cons P Ps p ps)
  from Cons(1) obtain f where f: "p = Some f" "\<forall>t \<in> P. shows_lines t f" by (auto simp: draws_def)
  from Cons(3) obtain fs where fs: "those ps = Some fs" "\<forall>t \<in> \<Union>(set Ps). shows_lines t (concat fs)"
    by (auto simp: draws_def panels_def)
  have "shows_lines t (f @ concat fs)" if "t \<in> \<Union>(set (P # Ps))" for t
    using that f(2) fs(2) by (auto simp: shows_lines_def)
  then show ?case by (simp add: draws_def panels_def f(1) fs(1))
qed

lemma draws_at: "layout_laws L \<Longrightarrow> i < length cs \<Longrightarrow> (\<And>area. draws P (draw area))
    \<Longrightarrow> draws P (draw_at (lo_split L d cs area) i draw)"
  by (simp add: layout_laws_def draw_at_def)

lemma draws_weaken: "draws P p \<Longrightarrow> Q \<subseteq> P \<Longrightarrow> draws Q p"
  by (auto simp: draws_def)

lemma draws_panel: "draws {text} (panel title c c' text area)"
  by (simp add: draws_def panel_def shows_lines_def)

lemmas draws_logs =
  draw_harness_activity_def draw_sync_updates_def draw_block_builder_def draw_execution_def
  draw_batch_submissions_def draw_derivation_execution_def draw_derivation_logs_def

lemma draws_log_panels:
  "draws {render_logs_reversed (ui_harness_logs a)} (draw_harness_activity a area)"
  "draws {render_logs_reversed (ui_sync_logs a)} (draw_sync_updates a area)"
  "draws {render_logs_reversed (ui_block_builder_logs a)} (draw_block_builder a area)"
  "draws {render_logs_reversed (ui_execution_logs a)} (draw_execution clk a area)"
  "draws {render_logs_reversed (ui_batch_logs a)} (draw_batch_submissions a area)"
  "draws {render_logs_reversed (ui_derivation_execution_logs a)} (draw_derivation_execution a area)"
  "draws {render_logs_reversed (ui_derivation_logs a)} (draw_derivation_logs a area)"
  by (simp_all add: draws_logs draws_panel Let_def split: prod.split sync_state.split)

text \<open>A panel without logs is drawn as well.\<close>

lemma draws_others:
  "draws {} (draw_harness_banner area)" "draws {} (draw_chain_state a area)" "draws {} (draw_sync_stats F D a area)"
  "draws {} (draw_metrics F D clk a area)" "draws {} (draw_execution_stats F clk a area)"
  "draws {} (draw_footer a area)" "draws {} (draw_l1_chain a area)" "draws {} (Some fr)"
  by (simp_all add: draws_def draw_harness_banner_def draw_chain_state_def draw_sync_stats_def draw_metrics_def
      draw_execution_stats_def draw_footer_def draw_l1_chain_def panel_def Let_def split: prod.split sync_state.split)

definition sequencer_logs :: "'f app \<Rightarrow> text_line list set" where
  "sequencer_logs a = render_logs_reversed ` {ui_block_builder_logs a, ui_execution_logs a, ui_batch_logs a}"

definition validator_logs :: "'f app \<Rightarrow> text_line list set" where
  "validator_logs a = render_logs_reversed ` {ui_derivation_execution_logs a, ui_derivation_logs a}"

lemma draws_sections:
  assumes "layout_laws L"
  shows "draws (sequencer_logs a) (draw_sequencer_section L clk a area)"
    and "draws (validator_logs a) (draw_validator_section L a area)"
    and "draws {} (draw_header L F D clk a area)"
proof -
  note at = draws_at [OF assms]
  let ?r = render_logs_reversed
  have inner: "draws {?r (ui_execution_logs a), ?r (ui_batch_logs a)} (draw_execution_and_batches L clk a area)" for area
    unfolding draw_execution_and_batches_def Let_def
    by (rule draws_weaken [OF draws_panels [of "[{?r (ui_execution_logs a)}, {?r (ui_batch_logs a)}]"]])
      (auto intro!: at draws_log_panels)
  show "draws (sequencer_logs a) (draw_sequencer_section L clk a area)"
    unfolding draw_sequencer_section_def Let_def
    by (rule draws_weaken [OF draws_panels [of "[{}, {?r (ui_block_builder_logs a)}, {?r (ui_execution_logs a), ?r (ui_batch_logs a)}]"]])
      (auto intro!: at draws_log_panels draws_others inner simp: sequencer_logs_def)
  have derived: "draws (validator_logs a) (draw_derived_blocks L a area)" for area
    unfolding draw_derived_blocks_def Let_def
    by (rule draws_weaken [OF draws_panels [of "[{?r (ui_derivation_execution_logs a)}, {?r (ui_derivation_logs a)}]"]])
      (auto intro!: at draws_log_panels simp: validator_logs_def)
  show "draws (validator_logs a) (draw_validator_section L a area)"
    unfolding draw_validator_section_def Let_def
    by (rule draws_weaken [OF draws_panels [of "[{}, validator_logs a]"]]) (auto intro!: draws_others derived)
  show "draws {} (draw_header L F D clk a area)"
    unfolding draw_header_def Let_def
    by (rule draws_weaken [OF draws_panels [of "[{}, {}, {}, {}]"]]) (auto intro!: at draws_others)
qed

definition mode_logs :: "'f app \<Rightarrow> text_line list set" where
  "mode_logs a =
     (if ui_harness_mode a then {render_logs_reversed (ui_harness_logs a)} else {})
     \<union> (if ui_skip_sync a then {} else {render_logs_reversed (ui_sync_logs a)})"

lemma draws_body:
  assumes "layout_laws L"
  shows "draws (mode_logs a \<union> sequencer_logs a \<union> validator_logs a) (draw_body L clk a area)"
proof -
  note intros = draws_at [OF assms] draws_log_panels draws_sections(1,2) [OF assms]
  let ?h = "{render_logs_reversed (ui_harness_logs a)}" and ?s = "{render_logs_reversed (ui_sync_logs a)}"
  note weaken = draws_weaken [OF draws_panels]
  consider "ui_harness_mode a" "ui_skip_sync a" | "ui_harness_mode a" "\<not> ui_skip_sync a"
    | "\<not> ui_harness_mode a" "ui_skip_sync a" | "\<not> ui_harness_mode a" "\<not> ui_skip_sync a" by blast
  then show ?thesis
  proof cases
    case 1
    then show ?thesis unfolding draw_body_def Let_def mode_logs_def
      by simp (rule weaken [of "[?h, sequencer_logs a, validator_logs a]"], auto intro!: intros)
  next
    case 2
    then show ?thesis unfolding draw_body_def Let_def mode_logs_def
      by simp (rule weaken [of "[?h, ?s, sequencer_logs a, validator_logs a]"], auto intro!: intros)
  next
    case 3
    then show ?thesis unfolding draw_body_def Let_def mode_logs_def
      by simp (rule weaken [of "[sequencer_logs a, validator_logs a]"], auto intro!: intros)
  next
    case 4
    then show ?thesis unfolding draw_body_def Let_def mode_logs_def
      by simp (rule weaken [of "[?s, sequencer_logs a, validator_logs a]"], auto intro!: intros)
  qed
qed

text \<open>
  Drawing never panics, and every log is on the screen. Whatever the state and the size of the
  terminal, when \<^verbatim>\<open>ratatui\<close> answers one area for each constraint a frame is drawn, and a paragraph
  of it consists of the entries, newest first, of each log of the sequencer and of the validator, of
  the log of the harness in harness mode, and of that of the sync stage unless it is skipped.
\<close>

theorem every_log_is_drawn:
  assumes "layout_laws L"
  shows "\<exists>fr. draw_ui L F D clk a area = Some fr
    \<and> (\<forall>t \<in> mode_logs a \<union> sequencer_logs a \<union> validator_logs a. shows_lines t fr)"
proof -
  note intros = draws_at [OF assms] draws_others draws_sections(3) [OF assms] draws_body [OF assms]
  let ?all = "mode_logs a \<union> sequencer_logs a \<union> validator_logs a"
  have "draws ?all (draw_ui L F D clk a area)"
  proof (cases "ui_harness_mode a")
    case True
    then show ?thesis unfolding draw_ui_def Let_def
      by simp (rule draws_weaken [OF draws_panels [of "[{}, {}, ?all, {}, {}]"]], auto intro!: intros)
  next
    case False
    then show ?thesis unfolding draw_ui_def Let_def
      by simp (rule draws_weaken [OF draws_panels [of "[{}, ?all, {}, {}]"]], auto intro!: intros)
  qed
  then show ?thesis by (simp add: draws_def)
qed

definition same_area :: layout_ops where
  "same_area = \<lparr>lo_split = (\<lambda>_ cs area. replicate (length cs) area), lo_inner = (\<lambda>_ area. area)\<rparr>"

theorem every_log_is_drawn_witness:
  "\<exists>fr. draw_ui same_area nat_f64 \<lparr>f_ge = (\<lambda>x n. n \<le> x), f_to_usize = (\<lambda>x. x)\<rparr> (\<lambda>_. 0)
       (log_sync (log_warn ''slow'') app_new) demo_area = Some fr
     \<and> shows_lines [[(fg_bold Yellow, [9650]), (plain_style, [32]), (fg Yellow, str ''slow'')]] fr"
proof -
  have "layout_laws same_area" by (simp add: layout_laws_def same_area_def)
  from every_log_is_drawn [OF this, of nat_f64 "\<lparr>f_ge = (\<lambda>x n. n \<le> x), f_to_usize = (\<lambda>x. x)\<rparr>" "\<lambda>_. 0"
      "log_sync (log_warn ''slow'') app_new" demo_area]
  obtain fr where fr: "draw_ui same_area nat_f64 \<lparr>f_ge = (\<lambda>x n. n \<le> x), f_to_usize = (\<lambda>x. x)\<rparr> (\<lambda>_. 0)
       (log_sync (log_warn ''slow'') app_new) demo_area = Some fr"
    and logs: "\<forall>t \<in> mode_logs (log_sync (log_warn ''slow'') (app_new :: nat app)). shows_lines t fr" by blast
  have "[[(fg_bold Yellow, [9650]), (plain_style, [32]), (fg Yellow, str ''slow'')]]
      \<in> mode_logs (log_sync (log_warn ''slow'') (app_new :: nat app))"
    by (simp add: mode_logs_def log_sync_def app_new_def push_capped_def MAX_LOG_ENTRIES_def render_logs_reversed_def
        render_entry_def log_level_style_def log_warn_def)
  with fr logs show ?thesis by blast
qed

end
