(* ===== verification/Compressors.thy ===== *)
theory Compressors
  imports End_To_End
begin

text \<open>
  The compressors \<^verbatim>\<open>crates/consensus/{brotli,zlib,zstd}/src/compressor.rs\<close>: how they call their
  packages and what they make of the errors. The packages are parameters, each function as its
  crate offers it; what is relied on of them is \<open>compression_laws\<close>. The presets are in \<open>Pipeline\<close>.
\<close>

text \<open>
  \<^verbatim>\<open>brotli\<close> compresses with a quality and a window; \<^verbatim>\<open>flate2\<close> writes to an encoder made for a level
  and finishes it; \<^verbatim>\<open>zstd::bulk\<close> takes a level, and a capacity to decompress.
\<close>

record 'e compression_lib =
  lib_brotli_compress :: "int \<Rightarrow> int \<Rightarrow> bytes \<Rightarrow> string + bytes"
  lib_brotli_decompress :: "bytes \<Rightarrow> string + bytes"
  lib_zlib_encoder :: "u32 \<Rightarrow> 'e"
  lib_zlib_write_all :: "'e \<Rightarrow> bytes \<Rightarrow> string + 'e"
  lib_zlib_finish :: "'e \<Rightarrow> string + bytes"
  lib_zlib_read_to_end :: "bytes \<Rightarrow> string + bytes"
  lib_zstd_compress :: "bytes \<Rightarrow> int \<Rightarrow> string + bytes"
  lib_zstd_decompress :: "bytes \<Rightarrow> nat \<Rightarrow> string + bytes"

definition brotli_compress :: "'e compression_lib \<Rightarrow> compression_config \<Rightarrow> bytes \<Rightarrow> compression_error + bytes" where
  "brotli_compress L c data =
     map_err CompressionFailed (lib_brotli_compress L (sint (level c)) (sint (window_size c)) data)"

definition brotli_decompress :: "'e compression_lib \<Rightarrow> bytes \<Rightarrow> compression_error + bytes" where
  "brotli_decompress L data = map_err (\<lambda>_. Corrupted) (lib_brotli_decompress L data)"

definition zlib_compress :: "'e compression_lib \<Rightarrow> compression_config \<Rightarrow> bytes \<Rightarrow> compression_error + bytes" where
  "zlib_compress L c data =
     rbind (map_err CompressionFailed (lib_zlib_write_all L (lib_zlib_encoder L (level c)) data)) (\<lambda>encoder.
       map_err CompressionFailed (lib_zlib_finish L encoder))"

definition zlib_decompress :: "'e compression_lib \<Rightarrow> bytes \<Rightarrow> compression_error + bytes" where
  "zlib_decompress L data = map_err (\<lambda>_. Corrupted) (lib_zlib_read_to_end L data)"

definition zstd_compress :: "'e compression_lib \<Rightarrow> compression_config \<Rightarrow> bytes \<Rightarrow> compression_error + bytes" where
  "zstd_compress L c data = map_err CompressionFailed (lib_zstd_compress L data (sint (level c)))"

definition zstd_decompress :: "'e compression_lib \<Rightarrow> bytes \<Rightarrow> compression_error + bytes" where
  "zstd_decompress L data = map_err (\<lambda>_. Corrupted) (lib_zstd_decompress L data (10 * 1024 * 1024))"

text \<open>
  The documented behaviour: what was compressed is decompressed, by \<^verbatim>\<open>zstd\<close> when it fits into the
  capacity, and is an error there otherwise.
\<close>

definition compression_laws :: "'e compression_lib \<Rightarrow> bool" where
  "compression_laws L =
     ((\<forall>q w d x. lib_brotli_compress L q w d = Inr x \<longrightarrow> lib_brotli_decompress L x = Inr d)
      \<and> (\<forall>l d e x. lib_zlib_write_all L (lib_zlib_encoder L l) d = Inr e \<longrightarrow> lib_zlib_finish L e = Inr x
            \<longrightarrow> lib_zlib_read_to_end L x = Inr d)
      \<and> (\<forall>d l x n. lib_zstd_compress L d l = Inr x \<longrightarrow> length d \<le> n \<longrightarrow> lib_zstd_decompress L x n = Inr d)
      \<and> (\<forall>d l x n. lib_zstd_compress L d l = Inr x \<longrightarrow> n < length d \<longrightarrow> isl (lib_zstd_decompress L x n)))"

lemma brotli_roundtrip:
  "compression_laws L \<Longrightarrow> brotli_compress L c d = Inr x \<Longrightarrow> brotli_decompress L x = Inr d"
  by (auto simp: compression_laws_def brotli_compress_def brotli_decompress_def split: sum.splits)

lemma zlib_roundtrip:
  "compression_laws L \<Longrightarrow> zlib_compress L c d = Inr x \<Longrightarrow> zlib_decompress L x = Inr d"
  by (auto simp: compression_laws_def zlib_compress_def zlib_decompress_def rbind_Inr_iff)

text \<open>Both keep the contract of the trait, whatever their configuration.\<close>

lemma brotli_compressor: "compression_laws L \<Longrightarrow> compressor (brotli_compress L c) (brotli_decompress L)"
  by unfold_locales (rule brotli_roundtrip)

lemma zlib_compressor: "compression_laws L \<Longrightarrow> compressor (zlib_compress L c) (zlib_decompress L)"
  by unfold_locales (rule zlib_roundtrip)

text \<open>
  The zstd compressor does so only up to 10 MiB: it compresses larger inputs without an error and
  then reports its own output as corrupted.
\<close>

lemma zstd_limit:
  assumes "compression_laws L" and "zstd_compress L c d = Inr x"
  shows "zstd_decompress L x = (if length d \<le> 10 * 1024 * 1024 then Inr d else Inl Corrupted)"
proof -
  obtain y where x: "lib_zstd_compress L d (sint (level c)) = Inr x"
    using assms(2) by (auto simp: zstd_compress_def split: sum.splits)
  show ?thesis
  proof (cases "length d \<le> 10 * 1024 * 1024")
    case True
    with assms(1) x have "lib_zstd_decompress L x (10 * 1024 * 1024) = Inr d" unfolding compression_laws_def by blast
    with True show ?thesis by (simp add: zstd_decompress_def)
  next
    case False
    with assms(1) x have "isl (lib_zstd_decompress L x (10 * 1024 * 1024))" unfolding compression_laws_def by force
    with False show ?thesis by (auto simp: zstd_decompress_def isl_def)
  qed
qed

text \<open>
  A sequencer and a validator with the brotli compressor, as the runtime builds them, have codecs
  that match when \<^verbatim>\<open>serde_json\<close> reads what it wrote.
\<close>

lemma brotli_codecs_match:
  assumes "compression_laws L" and "compress d = brotli_compress L c" and "v_decompress dv = brotli_decompress L"
    and "\<And>blks data. to_bytes d blks = Inr data \<Longrightarrow> v_from_bytes dv data = Inr blks"
  shows "codecs_match d dv"
  using brotli_roundtrip [OF assms(1)] assms(2-4) by (simp add: codecs_match_def)

text \<open>A library that stores what it is given, with a mark in front.\<close>

definition storing_lib :: "bytes compression_lib" where
  "storing_lib =
     \<lparr>lib_brotli_compress = (\<lambda>_ _ d. Inr (1 # d)), lib_brotli_decompress = (\<lambda>x. Inr (tl x)),
      lib_zlib_encoder = (\<lambda>_. []), lib_zlib_write_all = (\<lambda>e d. Inr (e @ d)), lib_zlib_finish = (\<lambda>e. Inr (2 # 2 # e)),
      lib_zlib_read_to_end = (\<lambda>x. Inr (drop 2 x)), lib_zstd_compress = (\<lambda>d _. Inr (3 # d)),
      lib_zstd_decompress = (\<lambda>x n. if length x \<le> n + 1 then Inr (tl x) else Inl ''too large'')\<rparr>"

lemma storing_laws: "compression_laws storing_lib"
  by (simp add: compression_laws_def storing_lib_def)

end
