(* ===== verification/Analyze.thy ===== *)
theory Analyze
  imports Compressors Local_IO Command_Line
begin

text \<open>
  The pipeline example \<^verbatim>\<open>examples/analyze/src/main.rs\<close>, which puts the local source, the compressors
  and the local sink together: batch mode compresses a file of blocks and writes a file of
  batches, derivation mode reads that file back, roundtrip mode does both in memory.

  The file system is a map from paths to contents; reading and writing may fail at a path, and a
  failed write leaves what it leaves. A panic is \<open>None\<close>. What derivation mode decompresses, of
  which the program only logs the size, is its result here.
\<close>

datatype analyze_error =
    AeLocal local_error
  | AeSource source_error
  | AeSink sink_error
  | AeCompression compression_error
  | AeMessage string

record 'e analyze_env =
  az_lib :: "'e compression_lib"
  az_parse_blocks :: "string \<Rightarrow> string + json_block list"
  az_ser :: "json_sink_data \<Rightarrow> string + string"
  az_parse_sink :: "string \<Rightarrow> string + json_sink_data"
  az_read_error :: "string \<Rightarrow> string option"
  az_write_error :: "string \<Rightarrow> (string \<times> string) option"  \<comment> \<open>the message, and what the file holds then\<close>

type_synonym text_files = "string \<rightharpoonup> string"

definition read_text :: "'e analyze_env \<Rightarrow> text_files \<Rightarrow> string \<Rightarrow> read_failure + string" where
  "read_text E fs path =
     (case az_read_error E path of
        Some m \<Rightarrow> Inl (Other_Io m)
      | None \<Rightarrow> (case fs path of None \<Rightarrow> Inl File_Not_Found | Some s \<Rightarrow> Inr s))"

definition sink_world :: "'e analyze_env \<Rightarrow> json_world" where
  "sink_world E =
     \<lparr>jw_ser = az_ser E,
      jw_write = (\<lambda>path _. case az_write_error E path of None \<Rightarrow> Inr () | Some (m, _) \<Rightarrow> Inl m)\<rparr>"

definition files_after :: "'e analyze_env \<Rightarrow> string \<Rightarrow> json_sink_data \<Rightarrow> text_files \<Rightarrow> text_files" where
  "files_after E path data fs =
     (case az_ser E data of
        Inl _ \<Rightarrow> fs
      | Inr json \<Rightarrow> fs(path \<mapsto> (case az_write_error E path of None \<Rightarrow> json | Some (_, torn) \<Rightarrow> torn)))"

section \<open>The steps\<close>

definition encode_blocks :: "l2_block_data list \<Rightarrow> bytes" where
  "encode_blocks blks = concat (map (\<lambda>b. concat (l2_transactions b)) blks)"

text \<open>The ratio that is logged, as numerator and denominator.\<close>

definition analyze_ratio :: "nat \<Rightarrow> nat \<Rightarrow> nat \<times> nat" where
  "analyze_ratio original compressed = (if original = 0 then (1, 1) else (compressed, original))"

text \<open>The compressor of an algorithm; none for \<^verbatim>\<open>all\<close>, where the code panics or refuses.\<close>

fun compressor_of :: "'e compression_lib \<Rightarrow> compression_algorithm
    \<Rightarrow> ((bytes \<Rightarrow> compression_error + bytes) \<times> (bytes \<Rightarrow> compression_error + bytes)) option" where
  "compressor_of L Alg_Brotli = Some (brotli_compress L brotli_balanced, brotli_decompress L)"
| "compressor_of L Alg_Zlib = Some (zlib_compress L zlib_balanced, zlib_decompress L)"
| "compressor_of L Alg_Zstd = Some (zstd_compress L zstd_balanced, zstd_decompress L)"
| "compressor_of L Alg_All = None"

definition get_compressor :: "'e compression_lib \<Rightarrow> compression_algorithm
    \<Rightarrow> analyze_error + (bytes \<Rightarrow> compression_error + bytes) \<times> (bytes \<Rightarrow> compression_error + bytes)" where
  "get_compressor L algo =
     (case compressor_of L algo of
        Some c \<Rightarrow> Inr c
      | None \<Rightarrow> Inl (AeMessage ''Cannot use 'all' compression for derivation/roundtrip mode''))"

fun show_read_failure :: "read_failure \<Rightarrow> string" where
  "show_read_failure File_Not_Found = ''No such file or directory (os error 2)''"
| "show_read_failure (Other_Io m) = m"

definition load_sink_data :: "'e analyze_env \<Rightarrow> text_files \<Rightarrow> string \<Rightarrow> analyze_error + json_sink_data" where
  "load_sink_data E fs path =
     rbind (map_err (\<lambda>e. AeMessage (''Failed to read sink file \"'' @ path @ ''\": '' @ show_read_failure e)) (read_text E fs path)) (\<lambda>content.
       map_err (\<lambda>e. AeMessage (''Failed to parse sink file \"'' @ path @ ''\": '' @ e)) (az_parse_sink E content))"

text \<open>Its own copy of the hexadecimal decoder, which names the position of an error.\<close>

fun analyze_hex_pairs :: "nat \<Rightarrow> string \<Rightarrow> (analyze_error + bytes) option" where
  "analyze_hex_pairs i [] = Some (Inr [])"
| "analyze_hex_pairs i [c] = None"
| "analyze_hex_pairs i (c # d # cs) =
     (if continuation c \<or> (cs \<noteq> [] \<and> continuation (hd cs)) then None
      else (case radix_byte c d of
              None \<Rightarrow> Some (Inl (AeMessage (''Invalid hex at position '' @ dec i @ '': invalid digit found in string'')))
            | Some b \<Rightarrow> map_option (\<lambda>r. rbind r (\<lambda>bs. Inr (b # bs))) (analyze_hex_pairs (i + 2) cs)))"

definition analyze_hex_to_bytes :: "string \<Rightarrow> (analyze_error + bytes) option" where
  "analyze_hex_to_bytes hex = analyze_hex_pairs 0 (if take 2 hex = ''0x'' then drop 2 hex else hex)"

definition load_blocks :: "'e analyze_env \<Rightarrow> text_files \<Rightarrow> string \<Rightarrow> (analyze_error + l2_block_data list) option" where
  "load_blocks E fs path =
     (case source_from_file (az_parse_blocks E) (read_text E fs) path of
        Inl e \<Rightarrow> Some (Inl (AeLocal e))
      | Inr src \<Rightarrow> map_option (map_err AeSource) (fst (local_pending_blocks src)))"

text \<open>A new sink, one batch with number 0.\<close>

definition submit_compressed :: "'e analyze_env \<Rightarrow> string \<Rightarrow> bytes \<Rightarrow> text_files
    \<Rightarrow> (analyze_error + submission_receipt) \<times> text_files" where
  "submit_compressed E output compressed fs =
     (let batch = \<lparr>batch_number = 0, batch_data = compressed, block_count = 0, first_block = 0, last_block = 0\<rparr>
      in case local_submit (sink_world E) batch (local_sink_new output) of
           (r, sink) \<Rightarrow> (map_err AeSink r, files_after E output (ls_data sink) fs))"

section \<open>The modes\<close>

definition run_single_compression :: "'e analyze_env \<Rightarrow> bytes \<Rightarrow> compression_algorithm \<Rightarrow> string \<Rightarrow> text_files
    \<Rightarrow> (analyze_error + unit) option \<times> text_files" where
  "run_single_compression E raw algo output fs =
     (case compressor_of (az_lib E) algo of
        None \<Rightarrow> (None, fs)
      | Some (cmp, _) \<Rightarrow>
          (case cmp raw of
             Inl e \<Rightarrow> (Some (Inl (AeCompression e)), fs)
           | Inr compressed \<Rightarrow>
               (case submit_compressed E output compressed fs of
                  (r, fs) \<Rightarrow> (Some (rbind r (\<lambda>_. Inr ())), fs))))"

text \<open>Every algorithm with the size and the ratio it reaches.\<close>

fun compress_all :: "'e compression_lib \<Rightarrow> bytes \<Rightarrow> compression_algorithm list
    \<Rightarrow> (compression_error + (compression_algorithm \<times> nat \<times> nat \<times> nat) list) option" where
  "compress_all L raw [] = Some (Inr [])"
| "compress_all L raw (algo # algos) =
     (case compressor_of L algo of
        None \<Rightarrow> None
      | Some (cmp, _) \<Rightarrow>
          (case cmp raw of
             Inl e \<Rightarrow> Some (Inl e)
           | Inr c \<Rightarrow> map_option (\<lambda>r. rbind r (\<lambda>rest.
                 Inr ((algo, length c, analyze_ratio (length raw) (length c)) # rest))) (compress_all L raw algos)))"

text \<open>\<^verbatim>\<open>sort_by\<close> is stable, as \<open>sort_key\<close>.\<close>

definition run_all_compressions :: "'e analyze_env \<Rightarrow> bytes \<Rightarrow> string \<Rightarrow> text_files
    \<Rightarrow> (analyze_error + unit) option \<times> text_files" where
  "run_all_compressions E raw output fs =
     (case compress_all (az_lib E) raw all_algorithms of
        None \<Rightarrow> (None, fs)
      | Some (Inl e) \<Rightarrow> (Some (Inl (AeCompression e)), fs)
      | Some (Inr results) \<Rightarrow>
          (case sort_key (\<lambda>(_, size, _). size) results of
             [] \<Rightarrow> (None, fs)
           | (best, _) # _ \<Rightarrow>
               (case compressor_of (az_lib E) best of
                  None \<Rightarrow> (None, fs)
                | Some (cmp, _) \<Rightarrow>
                    (case cmp raw of
                       Inl e \<Rightarrow> (Some (Inl (AeCompression e)), fs)
                     | Inr compressed \<Rightarrow>
                         (case submit_compressed E output compressed fs of
                            (r, fs) \<Rightarrow> (Some (rbind r (\<lambda>_. Inr ())), fs))))))"

definition run_batch_mode :: "'e analyze_env \<Rightarrow> pipeline_cli \<Rightarrow> text_files
    \<Rightarrow> (analyze_error + unit) option \<times> text_files" where
  "run_batch_mode E cli fs =
     (case load_blocks E fs (pc_input cli) of
        None \<Rightarrow> (None, fs)
      | Some (Inl e) \<Rightarrow> (Some (Inl e), fs)
      | Some (Inr blks) \<Rightarrow>
          (if blks = [] then (Some (Inr ()), fs)
           else (let raw_batch = encode_blocks blks in
             case pc_compression cli of
               Alg_All \<Rightarrow> run_all_compressions E raw_batch (pc_output cli) fs
             | algo \<Rightarrow> run_single_compression E raw_batch algo (pc_output cli) fs)))"

fun derive_batches :: "(bytes \<Rightarrow> compression_error + bytes) \<Rightarrow> json_batch list \<Rightarrow> (analyze_error + bytes list) option" where
  "derive_batches dcmp [] = Some (Inr [])"
| "derive_batches dcmp (b # bs) =
     (case analyze_hex_to_bytes (jb_data b) of
        None \<Rightarrow> None
      | Some (Inl e) \<Rightarrow> Some (Inl e)
      | Some (Inr compressed) \<Rightarrow>
          (case dcmp compressed of
             Inl e \<Rightarrow> Some (Inl (AeCompression e))
           | Inr decompressed \<Rightarrow>
               map_option (\<lambda>r. rbind r (\<lambda>rest. Inr (decompressed # rest))) (derive_batches dcmp bs)))"

definition run_derivation_mode :: "'e analyze_env \<Rightarrow> pipeline_cli \<Rightarrow> text_files \<Rightarrow> (analyze_error + bytes list) option" where
  "run_derivation_mode E cli fs =
     (case load_sink_data E fs (pc_output cli) of
        Inl e \<Rightarrow> Some (Inl e)
      | Inr data \<Rightarrow>
          (if js_batches data = [] then Some (Inr [])
           else (case get_compressor (az_lib E) (pc_compression cli) of
                   Inl e \<Rightarrow> Some (Inl e)
                 | Inr (_, dcmp) \<Rightarrow> derive_batches dcmp (js_batches data))))"

definition run_roundtrip_mode :: "'e analyze_env \<Rightarrow> pipeline_cli \<Rightarrow> text_files
    \<Rightarrow> (analyze_error + unit) option \<times> text_files" where
  "run_roundtrip_mode E cli fs =
     (case load_blocks E fs (pc_input cli) of
        None \<Rightarrow> (None, fs)
      | Some (Inl e) \<Rightarrow> (Some (Inl e), fs)
      | Some (Inr blks) \<Rightarrow>
          (if blks = [] then (Some (Inr ()), fs)
           else (let original_batch = encode_blocks blks in
             case get_compressor (az_lib E) (pc_compression cli) of
               Inl e \<Rightarrow> (Some (Inl e), fs)
             | Inr (cmp, dcmp) \<Rightarrow>
                 (case cmp original_batch of
                    Inl e \<Rightarrow> (Some (Inl (AeCompression e)), fs)
                  | Inr compressed \<Rightarrow>
                      (case dcmp compressed of
                         Inl e \<Rightarrow> (Some (Inl (AeCompression e)), fs)
                       | Inr decompressed \<Rightarrow>
                           (if original_batch = decompressed
                            then (case submit_compressed E (pc_output cli) compressed fs of
                                    (r, fs) \<Rightarrow> (Some (rbind r (\<lambda>_. Inr ())), fs))
                            else (Some (Inl (AeMessage ''Roundtrip validation failed'')), fs)))))))"

text \<open>\<^verbatim>\<open>run\<close>; what derivation mode found is dropped.\<close>

definition analyze_run :: "'e analyze_env \<Rightarrow> pipeline_cli \<Rightarrow> text_files
    \<Rightarrow> (analyze_error + unit) option \<times> text_files" where
  "analyze_run E cli fs =
     (case pc_mode cli of
        Mode_Batch \<Rightarrow> run_batch_mode E cli fs
      | Mode_Derivation \<Rightarrow> (map_option (\<lambda>r. rbind r (\<lambda>_. Inr ())) (run_derivation_mode E cli fs), fs)
      | Mode_Roundtrip \<Rightarrow> run_roundtrip_mode E cli fs)"

section \<open>Properties\<close>

text \<open>The copy of the decoder reads what the local source reads.\<close>

lemma analyze_hex_pairs_same: "hex_pairs cs = Some (Inr bs) \<Longrightarrow> analyze_hex_pairs i cs = Some (Inr bs)"
proof (induction cs arbitrary: i bs rule: hex_pairs.induct)
  case (3 c d cs)
  then show ?case by (auto simp: rbind_Inr_iff split: if_splits option.splits)
qed simp_all

lemma analyze_hex_to_bytes_hex: "analyze_hex_to_bytes (bytes_to_hex bs) = Some (Inr bs)"
  by (simp add: analyze_hex_to_bytes_def bytes_to_hex_def analyze_hex_pairs_same [OF hex_pairs_hex])

text \<open>After a submission that succeeded, the output file holds the one batch.\<close>

lemma submit_compressed_Inr:
  assumes "submit_compressed E output compressed fs = (Inr r, fs')"
  shows "\<exists>data json. az_ser E data = Inr json \<and> fs' = fs(output \<mapsto> json)
    \<and> map jb_data (js_batches data) = [bytes_to_hex compressed]"
proof -
  let ?b = "\<lparr>batch_number = 0, batch_data = compressed, block_count = 0, first_block = 0, last_block = 0\<rparr>"
  obtain q s where q: "local_submit (sink_world E) ?b (local_sink_new output) = (q, s)" by force
  have data: "map jb_data (js_batches (ls_data s)) = [bytes_to_hex compressed]" and path: "ls_output_path s = Some output"
    and ok: "rbind (write_to_file (sink_world E) s) (\<lambda>_. Inr r) = Inr r" and fs': "fs' = files_after E output (ls_data s) fs"
    using assms q
    by (auto simp: submit_compressed_def local_submit_def Let_def local_sink_new_def sink_data_default_def rbind_Inr_iff)
  then obtain json where "az_ser E (ls_data s) = Inr json" "az_write_error E output = None"
    by (auto simp: rbind_Inr_iff write_to_file_def sink_world_def split: option.splits prod.splits)
  with data fs' show ?thesis by (intro exI [of _ "ls_data s"] exI [of _ json]) (simp add: files_after_def)
qed

text \<open>The algorithm that batch mode uses: under \<^verbatim>\<open>all\<close> the first of those with the smallest output.\<close>

definition used_algorithm :: "'e compression_lib \<Rightarrow> bytes \<Rightarrow> compression_algorithm \<Rightarrow> compression_algorithm" where
  "used_algorithm L raw algo =
     (if algo = Alg_All
      then (case compress_all L raw all_algorithms of
              Some (Inr results) \<Rightarrow> fst (hd (sort_key (\<lambda>(_, size, _). size) results))
            | _ \<Rightarrow> Alg_All)
      else algo)"

lemma compress_all_sizes:
  assumes "compress_all L raw algos = Some (Inr results)"
  shows "map fst results = algos"
    and "\<forall>(a, size, q) \<in> set results. \<exists>cmp dcmp c. compressor_of L a = Some (cmp, dcmp) \<and> cmp raw = Inr c \<and> size = length c"
proof -
  have "map fst results = algos \<and> (\<forall>(a, size, q) \<in> set results. \<exists>cmp dcmp c.
      compressor_of L a = Some (cmp, dcmp) \<and> cmp raw = Inr c \<and> size = length c)"
    using assms
  proof (induction algos arbitrary: results)
    case (Cons a algos)
    then obtain cmp dcmp c rest where "compressor_of L a = Some (cmp, dcmp)" "cmp raw = Inr c"
      "compress_all L raw algos = Some (Inr rest)"
      "results = (a, length c, analyze_ratio (length raw) (length c)) # rest"
      by (auto simp: rbind_Inr_iff split: option.splits sum.splits prod.splits)
    with Cons.IH [of rest] show ?case by auto
  qed simp
  then show "map fst results = algos"
    "\<forall>(a, size, q) \<in> set results. \<exists>cmp dcmp c. compressor_of L a = Some (cmp, dcmp) \<and> cmp raw = Inr c \<and> size = length c"
    by blast+
qed

lemma batch_mode_submits:
  assumes "run_batch_mode E cli fs = (Some (Inr ()), fs')" and "load_blocks E fs (pc_input cli) = Some (Inr blks)"
    and "blks \<noteq> []"
  shows "\<exists>cmp dcmp c r.
      compressor_of (az_lib E) (used_algorithm (az_lib E) (encode_blocks blks) (pc_compression cli)) = Some (cmp, dcmp)
    \<and> cmp (encode_blocks blks) = Inr c \<and> submit_compressed E (pc_output cli) c fs = (Inr r, fs')"
proof (cases "pc_compression cli = Alg_All")
  case True
  then have "run_all_compressions E (encode_blocks blks) (pc_output cli) fs = (Some (Inr ()), fs')"
    using assms by (simp add: run_batch_mode_def)
  with True show ?thesis
    by (auto simp: run_all_compressions_def used_algorithm_def rbind_Inr_iff
        split: option.splits sum.splits list.splits prod.splits)
next
  case False
  then have "run_single_compression E (encode_blocks blks) (pc_compression cli) (pc_output cli) fs = (Some (Inr ()), fs')"
    using assms by (cases "pc_compression cli") (simp_all add: run_batch_mode_def)
  with False show ?thesis
    by (auto simp: run_single_compression_def used_algorithm_def rbind_Inr_iff
        split: option.splits sum.splits prod.splits)
qed

text \<open>No algorithm does better than the one used under \<^verbatim>\<open>all\<close>.\<close>

lemma used_is_smallest:
  assumes "compress_all L raw all_algorithms = Some (Inr results)"
    and "compressor_of L (used_algorithm L raw Alg_All) = Some (cmp, dcmp)" and "cmp raw = Inr c"
    and "compressor_of L algo = Some (cmp', dcmp')" and "cmp' raw = Inr c'"
  shows "length c \<le> length c'"
proof -
  let ?sorted = "sort_key (\<lambda>(_, size, _). size) results"
  note sizes = compress_all_sizes [OF assms(1)]
  have "algo \<noteq> Alg_All" using assms(4) by auto
  then have "algo \<in> fst ` set results"
    using sizes(1) by (cases algo) (simp_all add: all_algorithms_def flip: list.set_map)
  then obtain size q where algo: "(algo, size, q) \<in> set results" by auto
  then obtain best size' q' rest where best: "?sorted = (best, size', q') # rest"
    by (metis list.exhaust list.set_cases prod_cases3 set_sort)
  then have "used_algorithm L raw Alg_All = best" using assms(1) by (simp add: used_algorithm_def)
  moreover have "(best, size', q') \<in> set results" using best by (metis list.set_intros(1) set_sort)
  ultimately have "size' = length c" "size = length c'" using sizes(2) algo assms(2-5) by fastforce+
  moreover have "size' \<le> size"
  proof -
    have "sorted (map (\<lambda>(_, size, _). size) ?sorted)" by (rule sorted_sort_key)
    moreover have "(algo, size, q) \<in> set ?sorted" using algo by simp
    ultimately show ?thesis unfolding best by force
  qed
  ultimately show ?thesis by simp
qed

lemma compressor_of_roundtrip:
  assumes "compression_laws L" and "compressor_of L algo = Some (cmp, dcmp)" and "cmp d = Inr c"
    and "algo = Alg_Zstd \<longrightarrow> length d \<le> 10 * 1024 * 1024"
  shows "dcmp c = Inr d"
  using assms brotli_roundtrip [OF assms(1)] zlib_roundtrip [OF assms(1)] zstd_limit [OF assms(1)]
  by (cases algo) auto

text \<open>
  C36: What batch mode has written, derivation mode reads. When batch mode returns Ok on a file of
  blocks, with one algorithm or with \<^verbatim>\<open>all\<close>, then derivation mode, run on the file it has written with
  the algorithm that was used, returns Ok and decompresses the one batch to the concatenated
  transactions of the blocks, byte for byte; with zstd, when these are at most 10 MiB. Under
  \<^verbatim>\<open>all\<close> the algorithm used is one with the smallest output.
\<close>

theorem analyze_roundtrip:
  assumes "compression_laws (az_lib E)" and "\<forall>d json. az_ser E d = Inr json \<longrightarrow> az_parse_sink E json = Inr d"
    and "az_read_error E (pc_output cli) = None"
    and "run_batch_mode E cli fs = (Some (Inr ()), fs')"
    and "load_blocks E fs (pc_input cli) = Some (Inr blks)" and "blks \<noteq> []"
    and "used = used_algorithm (az_lib E) (encode_blocks blks) (pc_compression cli)"
    and "used = Alg_Zstd \<longrightarrow> length (encode_blocks blks) \<le> 10 * 1024 * 1024"
  shows "run_derivation_mode E (cli\<lparr>pc_mode := Mode_Derivation, pc_compression := used\<rparr>) fs' = Some (Inr [encode_blocks blks])
    \<and> (\<forall>algo cmp dcmp c cmp' dcmp' c'. pc_compression cli = Alg_All
        \<and> compressor_of (az_lib E) used = Some (cmp, dcmp) \<and> cmp (encode_blocks blks) = Inr c
        \<and> compressor_of (az_lib E) algo = Some (cmp', dcmp') \<and> cmp' (encode_blocks blks) = Inr c' \<longrightarrow> length c \<le> length c')"
proof (intro conjI allI impI)
  obtain cmp dcmp c r where c: "compressor_of (az_lib E) used = Some (cmp, dcmp)" "cmp (encode_blocks blks) = Inr c"
    and submitted: "submit_compressed E (pc_output cli) c fs = (Inr r, fs')"
    using batch_mode_submits [OF assms(4-6)] assms(7) by blast
  have again: "dcmp c = Inr (encode_blocks blks)" by (rule compressor_of_roundtrip [OF assms(1) c assms(8)])
  obtain data json where data: "az_ser E data = Inr json" "fs' = fs(pc_output cli \<mapsto> json)"
    "map jb_data (js_batches data) = [bytes_to_hex c]"
    using submit_compressed_Inr [OF submitted] by (elim exE conjE)
  from data(3) obtain jb where jb: "js_batches data = [jb]" "jb_data jb = bytes_to_hex c" by auto
  have "load_sink_data E fs' (pc_output cli) = Inr data"
    using data(1,2) assms(2,3) by (simp add: load_sink_data_def read_text_def)
  then show "run_derivation_mode E (cli\<lparr>pc_mode := Mode_Derivation, pc_compression := used\<rparr>) fs' = Some (Inr [encode_blocks blks])"
    by (simp add: run_derivation_mode_def jb get_compressor_def c(1) analyze_hex_to_bytes_hex again)
next
  fix algo cmp dcmp c cmp' dcmp' c'
  assume all: "pc_compression cli = Alg_All \<and> compressor_of (az_lib E) used = Some (cmp, dcmp)
        \<and> cmp (encode_blocks blks) = Inr c
        \<and> compressor_of (az_lib E) algo = Some (cmp', dcmp') \<and> cmp' (encode_blocks blks) = Inr c'"
  then obtain results where "compress_all (az_lib E) (encode_blocks blks) all_algorithms = Some (Inr results)"
    using assms(7) by (auto simp: used_algorithm_def split: option.splits sum.splits)
  with all assms(7) show "length c \<le> length c'" by (auto intro: used_is_smallest)
qed

text \<open>A file with one transaction, under \<^verbatim>\<open>all\<close>.\<close>

definition az_demo_cli :: pipeline_cli where
  "az_demo_cli = \<lparr>pc_verbose = 0, pc_mode = Mode_Batch, pc_input = ''in'', pc_output = ''out'', pc_compression = Alg_All\<rparr>"

definition az_demo_batch :: compressed_batch where
  "az_demo_batch = \<lparr>batch_number = 0, batch_data = [1, 7], block_count = 0, first_block = 0, last_block = 0\<rparr>"

definition az_demo_data :: json_sink_data where
  "az_demo_data = ls_data (snd (local_submit \<lparr>jw_ser = (\<lambda>_. Inl []), jw_write = (\<lambda>_ _. Inr ())\<rparr>
     az_demo_batch (local_sink_new ''out'')))"

definition az_demo :: "bytes analyze_env" where
  "az_demo =
     \<lparr>az_lib = storing_lib, az_parse_blocks = (\<lambda>_. Inr [\<lparr>jk_block_number = 0, jk_timestamp = 0, jk_transactions = [''0x07'']\<rparr>]),
      az_ser = (\<lambda>d. if d = az_demo_data then Inr ''batches'' else Inl ''other''),
      az_parse_sink = (\<lambda>s. if s = ''batches'' then Inr az_demo_data else Inl ''syntax''),
      az_read_error = (\<lambda>_. None), az_write_error = (\<lambda>_. None)\<rparr>"

definition az_demo_blocks :: "l2_block_data list" where
  "az_demo_blocks = [\<lparr>l2_block_number = 0, l2_timestamp = 0, l2_transactions = [[7]]\<rparr>]"

lemma az_demo_loads: "load_blocks az_demo [''in'' \<mapsto> ''blocks''] ''in'' = Some (Inr az_demo_blocks)"
proof -
  have "bytes_to_hex [7] = ''0x07''" by code_simp
  with hex_to_bytes_hex [of "[7]"] have "hex_to_bytes ''0x07'' = Some (Inr [7])" by simp
  then show ?thesis
    by (simp add: load_blocks_def source_from_file_def source_from_json_def source_from_data_def read_text_def
        az_demo_def az_demo_blocks_def local_pending_blocks_def source_block_def)
qed

lemma az_demo_used:
  "compress_all storing_lib [7] all_algorithms = Some (Inr [(Alg_Brotli, 2, 2, 1), (Alg_Zlib, 3, 3, 1), (Alg_Zstd, 2, 2, 1)])"
  by (simp add: all_algorithms_def brotli_compress_def zlib_compress_def zstd_compress_def storing_lib_def analyze_ratio_def)

lemma az_demo_runs: "\<exists>fs'. run_batch_mode az_demo az_demo_cli [''in'' \<mapsto> ''blocks''] = (Some (Inr ()), fs')"
proof -
  obtain r sink where r: "local_submit (sink_world az_demo) az_demo_batch (local_sink_new ''out'') = (r, sink)" by force
  then have "ls_data sink = az_demo_data" "ls_output_path sink = Some ''out''"
    by (auto simp: az_demo_data_def local_submit_def Let_def local_sink_new_def)
  then have "write_to_file (sink_world az_demo) sink = Inr ()"
    by (simp add: write_to_file_def sink_world_def az_demo_def)
  with r have ok: "\<exists>x. r = Inr x" by (auto simp: local_submit_def Let_def)
  have "encode_blocks az_demo_blocks = [7]" by (simp add: encode_blocks_def az_demo_blocks_def)
  moreover have "\<exists>x fs'. submit_compressed az_demo ''out'' [1, 7] fs = (Inr x, fs')" for fs
    using r ok by (auto simp: submit_compressed_def az_demo_batch_def)
  moreover have "az_lib az_demo = storing_lib" by (simp add: az_demo_def)
  moreover have "brotli_compress storing_lib c [7] = Inr [1, 7]" for c
    by (simp add: brotli_compress_def storing_lib_def)
  moreover obtain x fs' where "submit_compressed az_demo ''out'' [1, 7] [''in'' \<mapsto> ''blocks''] = (Inr x, fs')"
    using calculation(2) by blast
  ultimately have "run_all_compressions az_demo (encode_blocks az_demo_blocks) ''out'' [''in'' \<mapsto> ''blocks''] = (Some (Inr ()), fs')"
    by (simp add: run_all_compressions_def az_demo_used)
  moreover have "az_demo_blocks \<noteq> []" by (simp add: az_demo_blocks_def)
  ultimately have "run_batch_mode az_demo az_demo_cli [''in'' \<mapsto> ''blocks''] = (Some (Inr ()), fs')"
    by (simp add: run_batch_mode_def az_demo_cli_def az_demo_loads)
  then show ?thesis by blast
qed

theorem analyze_roundtrip_witness:
  "\<exists>fs'. run_batch_mode az_demo az_demo_cli [''in'' \<mapsto> ''blocks''] = (Some (Inr ()), fs')
     \<and> run_derivation_mode az_demo (az_demo_cli\<lparr>pc_mode := Mode_Derivation, pc_compression := Alg_Brotli\<rparr>) fs' = Some (Inr [[7]])"
proof -
  obtain fs' where run: "run_batch_mode az_demo az_demo_cli [''in'' \<mapsto> ''blocks''] = (Some (Inr ()), fs')"
    using az_demo_runs by blast
  have enc: "encode_blocks az_demo_blocks = [7]" by (simp add: encode_blocks_def az_demo_blocks_def)
  have lib: "az_lib az_demo = storing_lib" by (simp add: az_demo_def)
  have used: "Alg_Brotli = used_algorithm (az_lib az_demo) (encode_blocks az_demo_blocks) (pc_compression az_demo_cli)"
    by (simp add: used_algorithm_def lib enc az_demo_used az_demo_cli_def)
  have "run_derivation_mode az_demo (az_demo_cli\<lparr>pc_mode := Mode_Derivation, pc_compression := Alg_Brotli\<rparr>) fs'
      = Some (Inr [encode_blocks az_demo_blocks])"
    by (rule analyze_roundtrip [THEN conjunct1, OF _ _ _ run _ _ used])
      (simp_all add: storing_laws az_demo_def az_demo_loads [unfolded az_demo_def] az_demo_cli_def az_demo_blocks_def)
  with run show ?thesis unfolding enc by blast
qed

end
