(* ===== verification/Shadow_App.thy ===== *)
theory Shadow_App
  imports Batch_Runner Derivation_Runner Tui_Draw Analyze Tx_Errors
begin

text \<open>
  The example \<^verbatim>\<open>examples/shadow\<close>, which follows a chain with a batch runner and a derivation runner
  in one process: the state of its interface (\<^verbatim>\<open>app.rs\<close>), how the callbacks of the runners change it,
  the choices made at the start, and what is drawn (\<^verbatim>\<open>main.rs\<close>). The tasks are in \<open>Shadow\<close>.

  Floating point numbers are a parameter as in \<open>Tui_App\<close>.
\<close>

section \<open>State\<close>

record 'f shadow_stats =
  ss_chain_head :: u64
  ss_current_block :: u64
  ss_batches_submitted :: u64
  ss_blocks_processed :: u64
  ss_bytes_original :: usize
  ss_bytes_compressed :: usize
  ss_compression_ratio :: 'f
  ss_batches_derived :: u64
  ss_blocks_derived :: u64
  ss_bytes_decompressed :: usize
  ss_derivation_healthy :: bool
  ss_latencies_ms :: "u64 list"

text \<open>\<^verbatim>\<open>Stats { derivation_healthy: true, ..Default::default() }\<close>\<close>

definition shadow_stats_new :: "'f f64_ops \<Rightarrow> 'f shadow_stats" where
  "shadow_stats_new F =
     \<lparr>ss_chain_head = 0, ss_current_block = 0, ss_batches_submitted = 0, ss_blocks_processed = 0,
      ss_bytes_original = 0, ss_bytes_compressed = 0, ss_compression_ratio = f_of_nat F 0,
      ss_batches_derived = 0, ss_blocks_derived = 0, ss_bytes_decompressed = 0,
      ss_derivation_healthy = True, ss_latencies_ms = []\<rparr>"

definition shadow_record_latency :: "u64 \<Rightarrow> 'f shadow_stats \<Rightarrow> 'f shadow_stats" where
  "shadow_record_latency ms s = s\<lparr>ss_latencies_ms := push_bounded 100 (ss_latencies_ms s) ms\<rparr>"

definition shadow_avg_latency_ms :: "'f f64_ops \<Rightarrow> 'f shadow_stats \<Rightarrow> 'f option" where
  "shadow_avg_latency_ms F s =
     (if ss_latencies_ms s = [] then None
      else Some (f_div F (f_of_nat F (unat (sum_list (ss_latencies_ms s)))) (f_of_nat F (length (ss_latencies_ms s)))))"

definition shadow_latency_variance_ms :: "'f f64_ops \<Rightarrow> 'f shadow_stats \<Rightarrow> 'f option" where
  "shadow_latency_variance_ms F s =
     (case shadow_avg_latency_ms F s of
        None \<Rightarrow> None
      | Some avg \<Rightarrow>
          if length (ss_latencies_ms s) < 2 then None
          else Some (f_div F
            (f_sum F (map (\<lambda>x. let diff = f_sub F (f_of_nat F (unat x)) avg in f_mul F diff diff) (ss_latencies_ms s)))
            (f_of_nat F (length (ss_latencies_ms s) - 1))))"

definition shadow_latency_stddev_ms :: "'f f64_ops \<Rightarrow> 'f shadow_stats \<Rightarrow> 'f option" where
  "shadow_latency_stddev_ms F s = map_option (f_sqrt F) (shadow_latency_variance_ms F s)"

record 'f shadow_app =
  sa_rpc_url :: string
  sa_compression :: string
  sa_submission_mode :: submission_mode
  sa_anvil_endpoint :: "string option"
  sa_is_paused :: bool
  sa_stats :: "'f shadow_stats"
  sa_batch_logs :: "log_entry list"
  sa_derivation_logs :: "log_entry list"
  sa_max_logs :: usize
  sa_submission_times :: "u64 \<rightharpoonup> instant"

definition shadow_app_new :: "'f f64_ops \<Rightarrow> string \<Rightarrow> string \<Rightarrow> submission_mode \<Rightarrow> string option \<Rightarrow> 'f shadow_app" where
  "shadow_app_new F rpc_url compression mode endpoint =
     (let (batch_logs, derivation_logs) =
        (case mode of
           InMemory \<Rightarrow> ([log_info ''Using in-memory batch queue''], [log_info ''Waiting for batches (in-memory)...''])
         | AnvilMode \<Rightarrow>
             ((case endpoint of None \<Rightarrow> [] | Some e \<Rightarrow> [log_info (''Anvil started at '' @ e)]),
              [log_info ''Waiting for batches (anvil)...''])
         | Remote \<Rightarrow> ([log_warn ''Remote mode is not yet supported''], [log_warn ''Remote mode is not yet supported'']))
      in \<lparr>sa_rpc_url = rpc_url, sa_compression = compression, sa_submission_mode = mode,
          sa_anvil_endpoint = endpoint, sa_is_paused = False, sa_stats = shadow_stats_new F,
          sa_batch_logs = log_info ''Connecting to RPC...'' # batch_logs, sa_derivation_logs = derivation_logs,
          sa_max_logs = 1000, sa_submission_times = Map.empty\<rparr>)"

definition shadow_reset :: "'f f64_ops \<Rightarrow> 'f shadow_app \<Rightarrow> 'f shadow_app" where
  "shadow_reset F a =
     a\<lparr>sa_is_paused := False, sa_stats := shadow_stats_new F,
       sa_batch_logs := [log_info ''Reset - reconnecting to RPC...''],
       sa_derivation_logs := [log_info ''Reset - waiting for batches...''],
       sa_submission_times := Map.empty\<rparr>"

definition shadow_toggle_pause :: "'f shadow_app \<Rightarrow> 'f shadow_app" where
  "shadow_toggle_pause a =
     (let paused = \<not> sa_is_paused a; msg = (if paused then ''Paused'' else ''Resumed'')
      in a\<lparr>sa_is_paused := paused, sa_batch_logs := sa_batch_logs a @ [log_info msg],
           sa_derivation_logs := sa_derivation_logs a @ [log_info msg]\<rparr>)"

definition push_log :: "usize \<Rightarrow> log_entry list \<Rightarrow> log_entry \<Rightarrow> log_entry list" where
  "push_log max_logs logs e = (let l = logs @ [e] in if max_logs < length l then tl l else l)"

definition shadow_log_batch :: "log_entry \<Rightarrow> 'f shadow_app \<Rightarrow> 'f shadow_app" where
  "shadow_log_batch e a = a\<lparr>sa_batch_logs := push_log (sa_max_logs a) (sa_batch_logs a) e\<rparr>"

definition shadow_log_derivation :: "log_entry \<Rightarrow> 'f shadow_app \<Rightarrow> 'f shadow_app" where
  "shadow_log_derivation e a = a\<lparr>sa_derivation_logs := push_log (sa_max_logs a) (sa_derivation_logs a) e\<rparr>"

definition shadow_set_chain_head :: "u64 \<Rightarrow> 'f shadow_app \<Rightarrow> 'f shadow_app" where
  "shadow_set_chain_head n a = a\<lparr>sa_stats := (sa_stats a)\<lparr>ss_chain_head := n\<rparr>\<rparr>"

definition shadow_set_current_block :: "u64 \<Rightarrow> 'f shadow_app \<Rightarrow> 'f shadow_app" where
  "shadow_set_current_block n a = a\<lparr>sa_stats := (sa_stats a)\<lparr>ss_current_block := n\<rparr>\<rparr>"

section \<open>Callbacks\<close>

definition ratio_of :: "'f f64_ops \<Rightarrow> usize \<Rightarrow> usize \<Rightarrow> 'f" where
  "ratio_of F compressed original =
     (if 0 < original then f_div F (f_of_nat F compressed) (f_of_nat F original) else f_of_nat F 1)"

definition shadow_on_batch_submitted :: "'f f64_ops \<Rightarrow> instant \<Rightarrow> u64 \<Rightarrow> usize \<Rightarrow> usize \<Rightarrow> usize \<Rightarrow> bytes
    \<Rightarrow> 'f shadow_app \<Rightarrow> 'f shadow_app" where
  "shadow_on_batch_submitted F now n blocks_count original_size compressed_size hash a =
     (let s = sa_stats a;
          original = ss_bytes_original s + original_size;
          compressed = ss_bytes_compressed s + compressed_size;
          s = s\<lparr>ss_batches_submitted := ss_batches_submitted s + 1,
                ss_blocks_processed := ss_blocks_processed s + of_nat blocks_count,
                ss_bytes_original := original, ss_bytes_compressed := compressed,
                ss_compression_ratio := ratio_of F compressed original\<rparr>;
          a = a\<lparr>sa_stats := s, sa_submission_times := (sa_submission_times a)(n \<mapsto> now)\<rparr>;
          msg = ''Batch #'' @ dec (unat n) @ '': '' @ dec blocks_count @ '' blocks, '' @ dec original_size @ '' -> ''
            @ dec compressed_size @ '' bytes (''
            @ f_show F 1 (f_mul F (ratio_of F compressed_size original_size) (f_of_nat F 100)) @ ''%)''
            @ (if hash \<noteq> replicate 32 0 then '' tx:0x'' @ concat (map hex_byte (take 4 hash)) @ ''...'' else [])
      in shadow_log_batch (log_info msg) a)"

fun shadow_callback :: "'f f64_ops \<Rightarrow> instant \<Rightarrow> submission_callback \<Rightarrow> 'f shadow_app \<Rightarrow> 'f shadow_app" where
  "shadow_callback F now (submission_callback.OnBatchSubmitted n blocks_count original_size compressed_size hash) a =
     shadow_on_batch_submitted F now n blocks_count original_size compressed_size hash a"
| "shadow_callback F now (submission_callback.OnBatchFailed n e) a =
     shadow_log_batch (log_error (''Batch #'' @ dec (unat n) @ '' submit failed: '' @ show_submission_error e)) a"
| "shadow_callback F now (OnBlockProcessed n txs bytes_n) a =
     shadow_log_batch (log_info (''Block #'' @ dec (unat n) @ '': '' @ dec txs @ '' txs, '' @ dec bytes_n @ '' bytes''))
       (shadow_set_current_block n a)"
| "shadow_callback F now (OnChainHeadUpdated head_n) a = shadow_set_chain_head head_n a"

text \<open>What the derivation task does with the result of a tick.\<close>

definition shadow_derived :: "instant \<Rightarrow> derivation_metrics \<Rightarrow> 'f shadow_app \<Rightarrow> 'f shadow_app" where
  "shadow_derived now ms a =
     (let n = saturating_sub (dm_batches_derived ms) 1;
          s = (sa_stats a)\<lparr>ss_batches_derived := dm_batches_derived ms, ss_blocks_derived := dm_blocks_derived ms,
                ss_bytes_decompressed := unat (dm_bytes_decompressed ms), ss_derivation_healthy := True\<rparr>;
          s = (case sa_submission_times a n of
                 None \<Rightarrow> s
               | Some t \<Rightarrow> shadow_record_latency (of_nat ((now - t) div 1000000)) s)
      in shadow_log_derivation
           (log_info (''Derived batch #'' @ dec (unat n) @ '': decompressed to '' @ dec (unat (dm_bytes_decompressed ms))
              @ '' bytes''))
           (a\<lparr>sa_stats := s, sa_submission_times := (sa_submission_times a)(n := None)\<rparr>))"

definition shadow_tick_result :: "instant \<Rightarrow> derivation_error + derivation_metrics option
    \<Rightarrow> 'f shadow_app \<Rightarrow> 'f shadow_app" where
  "shadow_tick_result now result a =
     (case result of
        Inr (Some ms) \<Rightarrow> shadow_derived now ms a
      | Inr None \<Rightarrow> a
      | Inl e \<Rightarrow> shadow_log_derivation (log_error (''Derivation error: '' @ show_derivation_error e))
                  (a\<lparr>sa_stats := (sa_stats a)\<lparr>ss_derivation_healthy := False\<rparr>\<rparr>))"

text \<open>The adapters between the batch context and the runners.\<close>

definition shadow_sink_result :: "ctx_sink_error + 'a \<Rightarrow> sink_error + 'a" where
  "shadow_sink_result r = map_err (\<lambda>e. TxFailed (show_ctx_sink_error e)) r"

definition shadow_source_result :: "ctx_source_error + 'a \<Rightarrow> source_error + 'a" where
  "shadow_source_result r = map_err (\<lambda>e. SourceConnection (show_ctx_source_error e)) r"

definition shadow_l1_head :: "source_error + u64" where "shadow_l1_head = Inr 0"
definition shadow_capacity :: "sink_error + usize" where "shadow_capacity = Inr (128 * 1024)"
definition shadow_health_check :: "sink_error + unit" where "shadow_health_check = Inr ()"

section \<open>At the start\<close>

text \<open>A byte as a character of its own, in UTF-8.\<close>

definition latin_char :: "char \<Rightarrow> string" where
  "latin_char c =
     (let n = of_char c in if n < (128 :: nat) then [c] else [char_of (192 + n div 64), char_of (128 + n mod 64)])"

definition hex_char_to_nibble :: "char \<Rightarrow> string + u8" where
  "hex_char_to_nibble c =
     (let n = of_char c in
      if 48 \<le> n \<and> n \<le> (57 :: nat) then Inr (of_nat (n - 48))
      else if 97 \<le> n \<and> n \<le> 102 then Inr (of_nat (n - 97 + 10))
      else if 65 \<le> n \<and> n \<le> 70 then Inr (of_nat (n - 65 + 10))
      else Inl (''Invalid hex character: '' @ latin_char c))"

text \<open>
  The loop over the pairs of characters, of which the i-th comes next; a last single character is
  an index out of range. What is not written stays zero.
\<close>

fun shadow_hex_chunks :: "nat \<Rightarrow> string \<Rightarrow> (string + bytes) option" where
  "shadow_hex_chunks i [] = Some (Inr (replicate (20 - i) 0))"
| "shadow_hex_chunks i [c] =
     (if 20 \<le> i then Some (Inl ''Too many bytes'')
      else (case hex_char_to_nibble c of Inl e \<Rightarrow> Some (Inl e) | Inr _ \<Rightarrow> None))"
| "shadow_hex_chunks i (c # d # cs) =
     (if 20 \<le> i then Some (Inl ''Too many bytes'')
      else (case rbind (hex_char_to_nibble c) (\<lambda>high. rbind (hex_char_to_nibble d) (\<lambda>low. Inr (or (push_bit 4 high) low))) of
              Inl e \<Rightarrow> Some (Inl e)
            | Inr b \<Rightarrow> map_option (\<lambda>r. rbind r (\<lambda>bs. Inr (b # bs))) (shadow_hex_chunks (i + 1) cs)))"

definition shadow_hex_decode :: "string \<Rightarrow> (string + bytes) option" where
  "shadow_hex_decode s = shadow_hex_chunks 0 s"

text \<open>\<^verbatim>\<open>Address::from\<close> reads the 20 bytes with the most significant one first.\<close>

definition address_of_bytes :: "bytes \<Rightarrow> address" where
  "address_of_bytes bs = foldl (\<lambda>a b. a * 256 + ucast b) 0 bs"

definition parse_address :: "string \<Rightarrow> (string + address) option" where
  "parse_address s =
     (let s = (if take 2 s = ''0x'' then drop 2 s else s)
      in if length s \<noteq> 40 then Some (Inl (''Expected 40 hex characters, got '' @ dec (length s)))
         else map_option (\<lambda>r. rbind r (\<lambda>bs. Inr (address_of_bytes bs))) (shadow_hex_decode s))"

record shadow_args =
  arg_verbose :: u8
  arg_rpc :: string
  arg_start :: "u64 option"
  arg_compression :: string
  arg_poll_interval :: u64
  arg_max_blocks_per_batch :: usize
  arg_target_batch_size :: usize
  arg_submission_mode :: submission_mode
  arg_batch_inbox :: string

definition shadow_args_default :: shadow_args where
  "shadow_args_default =
     \<lparr>arg_verbose = 0, arg_rpc = ''https://mainnet.base.org'', arg_start = None, arg_compression = ''brotli'',
      arg_poll_interval = 2000, arg_max_blocks_per_batch = 10, arg_target_batch_size = 131072,
      arg_submission_mode = AnvilMode, arg_batch_inbox = ''0x4242424242424242424242424242424242424242''\<rparr>"

definition shadow_batch_config :: "shadow_args \<Rightarrow> submission_config" where
  "shadow_batch_config args =
     submission_config_build (set_sb_target_batch_size (arg_target_batch_size args)
       (set_sb_max_blocks_per_batch (arg_max_blocks_per_batch args)
         (set_sb_poll_interval_ms (arg_poll_interval args) submission_builder)))"

definition shadow_derivation_config :: derivation_config where
  "shadow_derivation_config = derivation_config_build (set_db_poll_interval_ms 50 derivation_builder)"

definition shadow_compressor :: "string \<Rightarrow> compression_algorithm" where
  "shadow_compressor name =
     (let name = to_lowercase name in
      if name = ''zlib'' then Alg_Zlib else if name = ''zstd'' then Alg_Zstd else Alg_Brotli)"

fun show_block_source_error :: "block_source_error \<Rightarrow> string" where
  "show_block_source_error (SrcBlockNotFound n) = ''Block not found: '' @ dec (unat n)"
| "show_block_source_error (SrcConnectionError m) = ''Connection error: '' @ m"
| "show_block_source_error (SrcRpcError m) = ''RPC error: '' @ m"

text \<open>The first block: the argument, or the head of the chain, or 0 when there is no answer.\<close>

definition shadow_start_block :: "shadow_args \<Rightarrow> string + unit \<Rightarrow> string + u64 \<Rightarrow> 'f shadow_app \<Rightarrow> u64 \<times> 'f shadow_app" where
  "shadow_start_block args connect answer a =
     (case arg_start args of
        Some n \<Rightarrow> (n, a)
      | None \<Rightarrow>
          (case connect of
             Inl e \<Rightarrow> (0, shadow_log_batch (log_error (''Failed to connect: '' @ e)) a)
           | Inr _ \<Rightarrow>
               (case rpc_source_head answer of
                  Inr head_n \<Rightarrow>
                    (head_n, shadow_set_chain_head head_n
                       (shadow_log_batch (log_info (''Connected! Chain head at #'' @ dec (unat head_n))) a))
                | Inl e \<Rightarrow> (0, shadow_log_batch (log_error (''Failed to connect: '' @ show_block_source_error e)) a))))"

section \<open>Drawing\<close>

definition shadow_panel :: "text_line list \<Rightarrow> string \<Rightarrow> style \<Rightarrow> bool \<Rightarrow> rect \<Rightarrow> frame option" where
  "shadow_panel text title title_style wrapped area =
     Some [(Paragraph text plain_style
              (Some \<lparr>bd_border = plain_style, bd_title = str title, bd_title_style = title_style\<rparr>) wrapped Left_Aligned, area)]"

definition shadow_log_prefix :: "log_level \<Rightarrow> string \<times> color" where
  "shadow_log_prefix l =
     (case l of Log_Info \<Rightarrow> (''INFO '', Green) | Log_Warn \<Rightarrow> (''WARN '', Yellow) | Log_Error \<Rightarrow> (''ERROR'', Red))"

definition shadow_render_logs :: "log_entry list \<Rightarrow> usize \<Rightarrow> text_line list" where
  "shadow_render_logs logs max_lines =
     map (\<lambda>e. case shadow_log_prefix (le_level e) of (prefix, c) \<Rightarrow>
            [(fg c, str (''['' @ prefix @ ''] '')), (plain_style, str (le_message e))])
       (drop (length logs - max_lines) logs)"

definition pane_lines :: "rect \<Rightarrow> usize" where
  "pane_lines area = unat (saturating_sub (r_height area) 2)"

definition shadow_batch_pane :: "'f shadow_app \<Rightarrow> rect \<Rightarrow> frame option" where
  "shadow_batch_pane a area =
     shadow_panel (shadow_render_logs (sa_batch_logs a) (pane_lines area)) '' Batch Submission '' (fg_bold Blue) True area"

definition shadow_derivation_pane :: "'f shadow_app \<Rightarrow> rect \<Rightarrow> frame option" where
  "shadow_derivation_pane a area =
     shadow_panel (shadow_render_logs (sa_derivation_logs a) (pane_lines area)) '' Derivation '' (fg_bold Magenta) True area"

definition raw_span :: "string \<Rightarrow> span" where "raw_span s = (plain_style, str s)"

definition shadow_stats_lines :: "'f f64_ops \<Rightarrow> string \<Rightarrow> 'f shadow_app \<Rightarrow> text_line list" where
  "shadow_stats_lines F url a =
     (let s = sa_stats a
      in [[(fg_bold Cyan, str ''  MONTANA SHADOW  ''), raw_span '' | '',
           (if sa_is_paused a then (fg Yellow, str ''PAUSED'') else (fg Green, str ''RUNNING'')), raw_span '' | '',
           raw_span (''RPC: '' @ url)],
          [raw_span ''Chain Head: '', (fg_bold White, number (ss_chain_head s)), raw_span ''  |  Current: '',
           (fg_bold White, number (ss_current_block s)),
           raw_span (''  |  Lag: '' @ dec (unat (saturating_sub (ss_chain_head s) (ss_current_block s))) @ '' blocks'')],
          [(fg_bold Blue, str ''Batch Submission''), raw_span ''  |  '', raw_span (''Batches: '' @ dec (unat (ss_batches_submitted s))),
           raw_span ''  |  '', raw_span (''Blocks: '' @ dec (unat (ss_blocks_processed s))), raw_span ''  |  '',
           raw_span (''Bytes: '' @ format_bytes F (ss_bytes_compressed s)), raw_span ''  |  '',
           raw_span (''Ratio: '' @ f_show F 1 (f_mul F (ss_compression_ratio s) (f_of_nat F 100)) @ ''%'')],
          [(fg_bold Magenta, str ''Derivation      ''), raw_span ''  |  '', raw_span (''Batches: '' @ dec (unat (ss_batches_derived s))),
           raw_span ''  |  '', raw_span (''Blocks: '' @ dec (unat (ss_blocks_derived s))), raw_span ''  |  '',
           raw_span (''Bytes: '' @ format_bytes F (ss_bytes_decompressed s)), raw_span ''  |  '',
           (if ss_derivation_healthy s then (fg Green, str ''HEALTHY'') else (fg Red, str ''UNHEALTHY''))],
          [(fg Yellow, str ''[q]''), raw_span '' Quit  '', (fg Yellow, str ''[p]''), raw_span '' Pause  '',
           (fg Yellow, str ''[r]''), raw_span '' Reset  '', raw_span ''  |  '', raw_span (''Compression: '' @ sa_compression a),
           raw_span ''  |  '', raw_span (''Mode: '' @ show_submission_mode (sa_submission_mode a))]])"

definition shadow_timing_lines :: "'f f64_ops \<Rightarrow> 'f shadow_stats \<Rightarrow> text_line list" where
  "shadow_timing_lines F s =
     (let show_ms = (\<lambda>x. case x of None \<Rightarrow> ''--'' | Some v \<Rightarrow> f_show F 1 v @ ''ms'')
      in [[(fg_bold Yellow, str ''Derivation Latency'')],
          [],
          [(fg DarkGray, str ''Avg: ''), (fg_bold White, str (show_ms (shadow_avg_latency_ms F s)))],
          [(fg DarkGray, str ''Std Dev: ''), (fg White, str (show_ms (shadow_latency_stddev_ms F s)))],
          [(fg DarkGray, str ''Samples: ''), (fg White, str (dec (length (ss_latencies_ms s))))]])"

definition shadow_header :: "layout_ops \<Rightarrow> 'f f64_ops \<Rightarrow> 'f shadow_app \<Rightarrow> rect \<Rightarrow> frame option" where
  "shadow_header L F a area =
     (let chunks = lo_split L Horizontal [Percentage 70, Percentage 30] area
      in case truncate_url (sa_rpc_url a) 40 of
           None \<Rightarrow> None
         | Some url \<Rightarrow>
             panels [draw_at chunks 0 (shadow_panel (shadow_stats_lines F url a) '' Stats '' (fg_bold Cyan) True),
                     draw_at chunks 1 (shadow_panel (shadow_timing_lines F (sa_stats a)) '' Timing Metrics ''
                       (fg_bold Yellow) True)])"

definition da_provider :: "submission_mode \<Rightarrow> string \<times> string \<times> color" where
  "da_provider mode =
     (case mode of
        InMemory \<Rightarrow> (''MEM'', ''In-Memory'', Cyan)
      | AnvilMode \<Rightarrow> (''ANV'', ''Anvil'', Green)
      | Remote \<Rightarrow> (''RPC'', ''Remote'', Yellow))"

definition shadow_footer :: "'f shadow_app \<Rightarrow> rect \<Rightarrow> frame option" where
  "shadow_footer a area =
     (case da_provider (sa_submission_mode a) of (icon, name, c) \<Rightarrow>
        (case (case sa_anvil_endpoint a of
                 None \<Rightarrow> Some []
               | Some e \<Rightarrow> map_option (\<lambda>u. '' @ '' @ u) (truncate_url e 25)) of
           None \<Rightarrow> None
         | Some endpoint_info \<Rightarrow>
             (let s = sa_stats a; in_sync = (ss_batches_submitted s = ss_batches_derived s)
              in shadow_panel
                   [[(fg DarkGray, str '' DA Provider: ''), (fg_bold c, str (''['' @ icon @ ''] '')), (fg c, str name),
                     (fg DarkGray, str endpoint_info), raw_span ''  |  '', (fg DarkGray, str ''Sink: ''),
                     (fg Blue, str (dec (unat (ss_batches_submitted s)) @ '' batches'')), raw_span ''  |  '',
                     (fg DarkGray, str ''Source: ''),
                     (fg Magenta, str (dec (unat (ss_batches_derived s)) @ '' batches'')), raw_span ''  |  '',
                     (if in_sync then (fg Green, str ''IN SYNC'') else (fg Yellow, str ''SYNCING''))]]
                   '' Data Availability '' (fg Gray) False area)))"

definition shadow_draw_ui :: "layout_ops \<Rightarrow> 'f f64_ops \<Rightarrow> 'f shadow_app \<Rightarrow> rect \<Rightarrow> frame option" where
  "shadow_draw_ui L F a area =
     (let main = lo_split L Vertical [Ratio 1 4, Min 5, Length 3] area
      in panels [draw_at main 0 (shadow_header L F a),
           draw_at main 1 (\<lambda>r. let body = lo_split L Horizontal [Percentage 50, Percentage 50] r
             in panels [draw_at body 0 (shadow_batch_pane a), draw_at body 1 (shadow_derivation_pane a)]),
           draw_at main 2 (shadow_footer a)])"

section \<open>What holds of the interface\<close>

text \<open>The nibbles of a byte.\<close>

lemma nibble_of_hex: "d < 16 \<Longrightarrow> hex_char_to_nibble (hex_digit d) = Inr (of_nat d)"
proof -
  assume d: "d < 16"
  have n: "(of_char (hex_digit d) :: nat) = (if d < 10 then 48 + d else 87 + d)"
    using d by (simp add: hex_digit_def)
  show ?thesis
    using d unfolding hex_char_to_nibble_def Let_def n by auto
qed

lemma nibbles_of_byte: "or (push_bit 4 (of_nat (unat b div 16))) (of_nat (unat b mod 16)) = (b :: u8)"
proof -
  have hi: "of_nat (unat b div 16) = drop_bit 4 b"
    by (simp add: drop_bit_eq_div word_arith_nat_div)
  have lo: "of_nat (unat b mod 16) = take_bit 4 b"
    by (simp add: take_bit_eq_mod word_arith_nat_mod)
  have "and (push_bit 4 (drop_bit 4 b)) (take_bit 4 b) = 0"
    by (simp add: bit_eq_iff bit_and_iff bit_push_bit_iff bit_take_bit_iff)
  then have "or (push_bit 4 (drop_bit 4 b)) (take_bit 4 b) = push_bit 4 (drop_bit 4 b) + take_bit 4 b"
    by (rule disjunctive_add_eq_or [symmetric])
  then show ?thesis unfolding hi lo by (simp add: bits_ident)
qed

text \<open>An address printed with its prefix is parsed to itself.\<close>

lemma shadow_hex_chunks_hex:
  "i + length bs \<le> 20 \<Longrightarrow> shadow_hex_chunks i (concat (map hex_byte bs)) = Some (Inr (bs @ replicate (20 - i - length bs) 0))"
proof (induction bs arbitrary: i)
  case (Cons b bs)
  have "unat b < 256" using unsigned_less [of b, where ?'a = nat] by simp
  then have "hex_char_to_nibble (hex_digit (unat b div 16)) = Inr (of_nat (unat b div 16))"
    "hex_char_to_nibble (hex_digit (unat b mod 16)) = Inr (of_nat (unat b mod 16))"
    by (auto intro!: nibble_of_hex)
  with Cons nibbles_of_byte [of b] show ?case by (simp add: hex_byte_def)
qed simp

lemma parse_address_hex:
  assumes "length bs = 20"
  shows "parse_address (bytes_to_hex bs) = Some (Inr (address_of_bytes bs))"
proof -
  have "length (concat (map hex_byte bs)) = 40" using assms by (simp add: length_concat comp_def hex_byte_def sum_list_triv)
  then show ?thesis
    using shadow_hex_chunks_hex [of 0 bs] assms by (simp add: parse_address_def bytes_to_hex_def shadow_hex_decode_def)
qed

text \<open>
  A log holds at most its maximum, but for the messages of the pause key, which are added without
  the check: each of them leaves the log longer for good.
\<close>

lemma length_push_log: "length (push_log m logs e) = (if length logs < m then Suc (length logs) else length logs)"
  by (auto simp: push_log_def Let_def)

lemma pause_outgrows_the_log:
  assumes "length (sa_batch_logs a) = sa_max_logs a" and "0 < sa_max_logs a"
  shows "length (sa_batch_logs (shadow_log_batch e (shadow_toggle_pause a))) = sa_max_logs a + 1"
  using assms by (simp add: shadow_log_batch_def shadow_toggle_pause_def Let_def length_push_log)

text \<open>
  The batch runner passes on the total of the compressed bytes so far, and the callback adds it
  to its own total: after two batches of one byte each the interface shows three bytes.
\<close>

lemma compressed_bytes_counted_again:
  "ss_bytes_compressed (sa_stats (shadow_on_batch_submitted F t' 1 k' o' (c + c') h'
     (shadow_on_batch_submitted F t 0 k or_size c h a))) = ss_bytes_compressed (sa_stats a) + c + (c + c')"
  by (simp add: shadow_on_batch_submitted_def Let_def shadow_log_batch_def)

text \<open>
  The frame is drawn whatever the state, unless a URL cannot be cut at its limit: five widgets,
  or none.
\<close>

lemma shadow_frame:
  assumes "layout_laws L" and "truncate_url (sa_rpc_url a) 40 \<noteq> None"
    and "\<And>e. sa_anvil_endpoint a = Some e \<Longrightarrow> truncate_url e 25 \<noteq> None"
  shows "\<exists>f. shadow_draw_ui L F a area = Some f \<and> length f = 5"
proof -
  obtain url where url: "truncate_url (sa_rpc_url a) 40 = Some url" using assms(2) by blast
  obtain info where info: "(case sa_anvil_endpoint a of None \<Rightarrow> Some [] | Some e \<Rightarrow> map_option (\<lambda>u. '' @ '' @ u) (truncate_url e 25)) = Some info"
    using assms(3) by (cases "sa_anvil_endpoint a") fastforce+
  obtain icon name c where da: "da_provider (sa_submission_mode a) = (icon, name, c)" by (metis prod_cases3)
  have "lo_split L d cs r = [] \<longleftrightarrow> cs = []" for d cs r
    using assms(1) unfolding layout_laws_def by (metis length_0_conv)
  with assms(1) url info da show ?thesis
    by (simp add: shadow_draw_ui_def layout_laws_def Let_def draw_at_def panels_def shadow_header_def shadow_footer_def
        shadow_panel_def shadow_batch_pane_def shadow_derivation_pane_def)
qed

end
