(* ===== verification/Shadow.thy ===== *)
theory Shadow
  imports Shadow_App Anvil_State Kv_Database Cached_Database
begin

text \<open>
  The tasks of \<^verbatim>\<open>examples/shadow/src/main.rs\<close> (\<^verbatim>\<open>run_app\<close>, \<^verbatim>\<open>run_with_compressor\<close>) as steps of three
  tasks over shared state: the batch task, the derivation task and the loop of the interface. The
  batches go through the in-memory queue (\<^verbatim>\<open>--submission-mode in-memory\<close>); the mode with Anvil
  runs the same tasks over another store, which is modelled in \<^verbatim>\<open>AnvilL1\<close> and not connected here.

  A step is what a task does between two points at which others may run. The runner's mutexes are
  held as in the code: the batch task holds its own from the start of \<^verbatim>\<open>run\<close> to its end, the
  derivation task holds its own for one tick. The mutex of the interface's state is held for one
  step only. What an iteration of the batch runner tells its callback and hands to the sink is
  done in steps of their own, in that order.
\<close>

section \<open>The program\<close>

text \<open>\<^verbatim>\<open>run_app\<close> up to the choice of the compressor; \<open>endpoint\<close> is that of the Anvil process.\<close>

definition shadow_setup :: "'f f64_ops \<Rightarrow> (anvil_config \<Rightarrow> string + address) \<Rightarrow> string \<Rightarrow> string + unit \<Rightarrow> string + u64
    \<Rightarrow> shadow_args \<Rightarrow> (string + batch_context \<times> compression_algorithm \<times> u64 \<times> 'f shadow_app) option" where
  "shadow_setup F spawn endpoint connect answer args =
     map_option (\<lambda>parsed.
       rbind (map_err (\<lambda>e. ''Invalid batch inbox address '' @ CHR 0x27 # arg_batch_inbox args @ CHR 0x27 # '': '' @ e) parsed) (\<lambda>inbox.
       rbind (map_err show_ctx_sink_error (batch_context_new spawn (arg_submission_mode args) inbox)) (\<lambda>ctx.
         let e = (case context_mode ctx of AnvilMode \<Rightarrow> Some endpoint | _ \<Rightarrow> None);
             (start_block, a) = shadow_start_block args connect answer
               (shadow_app_new F (arg_rpc args) (arg_compression args) (context_mode ctx) e)
         in Inr (ctx, shadow_compressor (arg_compression args), start_block, a))))
       (parse_address (arg_batch_inbox args))"

text \<open>
  The databases under the executor, from the genesis state that comes with the harness; \<open>created_dir\<close>
  is the outcome of creating their directory. Every failure is a panic.
\<close>

definition shadow_databases :: "'r rocks \<Rightarrow> (bytes \<Rightarrow> bytes) \<Rightarrow> bool \<Rightarrow> string + 'r \<Rightarrow> ('t, 'x) trie_ops \<Rightarrow> 'r kv_ops
    \<Rightarrow> 'c bytecode_ops \<Rightarrow> 't open_result \<Rightarrow> string + 't \<Rightarrow> anvil_state_error + anvil_state \<Rightarrow> string + unit
    \<Rightarrow> ('c, ('t, 'r) trie_database) cached option" where
  "shadow_databases R hash_slow exists kv_opened D K B trie_opened trie_created state created_dir =
     (case (state, created_dir) of
        (Inr S, Inr _) \<Rightarrow>
          (let alloc = gen_alloc (into_genesis S)
           in case kv_open_or_create R hash_slow exists kv_opened (map (g_code \<circ> snd) alloc) of
                Inl _ \<Rightarrow> None
              | Inr kvdb \<Rightarrow>
                  (case trie_open_or_create D K B trie_opened trie_created alloc kvdb of
                     Inl _ \<Rightarrow> None
                   | Inr trie_db \<Rightarrow> Some (cached_new trie_db)))
      | _ \<Rightarrow> None)"

datatype shadow_action = Submit compressed_batch | Tell submission_callback | Fail submission_error

datatype batch_task = Batch_Waiting | Batch_Running "shadow_action list" | Batch_Returned

datatype derivation_task =
  Der_Idle | Der_Holding | Der_Report "derivation_error + derivation_metrics option"

text \<open>The interface waits for the batch runner's mutex, then for the derivation runner's.\<close>

datatype ui_task = Ui_Free | Ui_Wants_Batch bool | Ui_Wants_Derivation bool | Ui_Done

record ('tx, 'x, 'f) shadow_world =
  sw_app :: "'f shadow_app"
  sw_batch :: batch_task
  sw_runner :: "'tx runner"
  sw_derivation_task :: derivation_task
  sw_derivation :: "('tx, batch_queue, 'x) derivation_runner"
  sw_ui :: ui_task

record ('tx, 'x, 'f) shadow_env =
  se_float :: "'f f64_ops"
  se_codec :: "'tx runner_codec"
  se_deps :: "('tx, batch_queue, 'x) derivation_deps"

text \<open>\<^verbatim>\<open>BatchSinkWrapper\<close> and \<^verbatim>\<open>BatchSourceAdapter\<close> over the queue.\<close>

fun show_pipeline_source_error :: "source_error \<Rightarrow> string" where
  "show_pipeline_source_error (SourceConnection m) = ''RPC connection failed: '' @ m"
| "show_pipeline_source_error SourceEmpty = ''No blocks available''"

definition shadow_input :: "'tx runner_input \<Rightarrow> 'tx runner_input" where
  "shadow_input i = i\<lparr>in_submit := \<lambda>b. shadow_sink_result (fst (queue_submit b []))\<rparr>"

definition shadow_next_batch :: "batch_queue \<Rightarrow> (string + compressed_batch option) \<times> batch_queue" where
  "shadow_next_batch q =
     (case queue_next_batch q of (r, q) \<Rightarrow> (map_err show_pipeline_source_error (shadow_source_result r), q))"

definition shadow_deps :: "('tx, 'x, 'f) shadow_env \<Rightarrow> ('tx, batch_queue, 'x) derivation_deps" where
  "shadow_deps E = (se_deps E)\<lparr>d_next_batch := shadow_next_batch\<rparr>"

text \<open>The two runners and the tasks as \<^verbatim>\<open>run_with_compressor\<close> starts them.\<close>

definition shadow_init :: "submission_config \<Rightarrow> 'f shadow_app \<Rightarrow> 'x \<Rightarrow> file_system \<Rightarrow> ('tx, 'x, 'f) shadow_world" where
  "shadow_init cfg a executor fs =
     \<lparr>sw_app = a, sw_batch = Batch_Waiting, sw_runner = runner_with_callback (runner_new cfg),
      sw_derivation_task = Der_Idle, sw_derivation = derivation_new [] shadow_derivation_config executor fs,
      sw_ui = Ui_Free\<rparr>"

text \<open>The batch that \<^verbatim>\<open>submit_batch\<close> hands to the sink.\<close>

definition batch_built :: "'tx runner_codec \<Rightarrow> u64 \<times> 'tx op_block list \<times> bool \<Rightarrow> compressed_batch" where
  "batch_built cd = (\<lambda>(n, blks, ok).
     \<lparr>batch_number = n,
      batch_data = (case rbind (map_err (\<lambda>_. Corrupted) (rc_to_bytes cd blks)) (rc_compress cd) of Inl _ \<Rightarrow> [] | Inr c \<Rightarrow> c),
      block_count = of_nat (length blks),
      first_block = (case first_block_number \<lparr>blocks = blks\<rparr> of Some k \<Rightarrow> k | None \<Rightarrow> 0),
      last_block = (case last_block_number \<lparr>blocks = blks\<rparr> of Some k \<Rightarrow> k | None \<Rightarrow> 0)\<rparr>)"

definition accepted :: "'tx runner \<Rightarrow> (u64 \<times> 'tx op_block list \<times> bool) list" where
  "accepted r = filter (snd \<circ> snd) (br_attempts r)"

text \<open>
  What an iteration does to the shared state, in its order: a batch that the sink takes comes
  right before the last call of the callback.
\<close>

definition shadow_actions :: "'tx runner_codec \<Rightarrow> 'tx runner \<Rightarrow> 'tx runner \<Rightarrow> shadow_action list" where
  "shadow_actions cd r r' =
     (let told = map Tell (drop (length (br_callbacks r)) (br_callbacks r'));
          sent = map (Submit \<circ> batch_built cd) (filter (snd \<circ> snd) (drop (length (br_attempts r)) (br_attempts r')))
      in if sent = [] then told else butlast told @ sent @ drop (length told - 1) told)"

datatype 'tx shadow_event =
    Start_Batch
  | Iterate "'tx runner_input"
  | Act instant
  | Lock_Derivation
  | Tick instant
  | Report instant
  | Key_Quit
  | Key_Reset
  | Key_Pause
  | Take_Batch_Lock
  | Finish_Pause

fun shadow_act :: "('tx, 'x, 'f) shadow_env \<Rightarrow> instant \<Rightarrow> shadow_action \<Rightarrow> shadow_action list
    \<Rightarrow> ('tx, 'x, 'f) shadow_world \<Rightarrow> ('tx, 'x, 'f) shadow_world" where
  "shadow_act E now (Submit b) acts w =
     w\<lparr>sw_batch := Batch_Running acts,
       sw_derivation := (sw_derivation w)\<lparr>dr_source := queue_push b (dr_source (sw_derivation w))\<rparr>\<rparr>"
| "shadow_act E now (Tell c) acts w =
     w\<lparr>sw_batch := Batch_Running acts, sw_app := shadow_callback (se_float E) now c (sw_app w)\<rparr>"
| "shadow_act E now (Fail e) acts w =
     w\<lparr>sw_batch := Batch_Returned,
       sw_app := shadow_log_batch (log_error (''Batch runner error: '' @ show_submission_error e)) (sw_app w)\<rparr>"

text \<open>The steps of the tasks; \<open>None\<close> when the task is not there, or waits for a mutex.\<close>

definition set_paused :: "bool \<Rightarrow> ('tx, 'x, 'f) shadow_world \<Rightarrow> ('tx, 'x, 'f) shadow_world" where
  "set_paused p w =
     w\<lparr>sw_runner := (if p then pause else resume) (sw_runner w),
       sw_derivation := (if p then dr_pause else dr_resume) (sw_derivation w), sw_ui := Ui_Free\<rparr>"

fun shadow_task :: "('tx, 'x, 'f) shadow_env \<Rightarrow> u64 \<Rightarrow> 'tx shadow_event \<Rightarrow> ('tx, 'x, 'f) shadow_world
    \<Rightarrow> ('tx, 'x, 'f) shadow_world option" where
  "shadow_task E start Start_Batch w =
     (case (sw_batch w, sw_ui w) of
        (Batch_Waiting, Ui_Wants_Derivation _) \<Rightarrow> None
      | (Batch_Waiting, _) \<Rightarrow>
          Some (w\<lparr>sw_batch := Batch_Running [],
                  sw_runner := (sw_runner w)\<lparr>br_current_block := start, br_batch_number := 0, br_pending_blocks := [],
                    br_pending_size := 0\<rparr>\<rparr>)
      | _ \<Rightarrow> None)"
| "shadow_task E start (Iterate i) w =
     (case sw_batch w of
        Batch_Running [] \<Rightarrow>
          (case runner_iteration (se_codec E) (shadow_input i) (sw_runner w) of (result, r) \<Rightarrow>
             Some (w\<lparr>sw_runner := r,
                     sw_batch := Batch_Running (shadow_actions (se_codec E) (sw_runner w) r
                       @ (case result of Inl e \<Rightarrow> [Fail e] | Inr _ \<Rightarrow> []))\<rparr>))
      | _ \<Rightarrow> None)"
| "shadow_task E start (Act now) w =
     (case sw_batch w of Batch_Running (a # acts) \<Rightarrow> Some (shadow_act E now a acts w) | _ \<Rightarrow> None)"
| "shadow_task E start Lock_Derivation w =
     (if sw_derivation_task w = Der_Idle then Some (w\<lparr>sw_derivation_task := Der_Holding\<rparr>) else None)"
| "shadow_task E start (Tick now) w =
     (if sw_derivation_task w = Der_Holding
      then (case derivation_tick (shadow_deps E) now (sw_derivation w) of (result, r) \<Rightarrow>
              Some (w\<lparr>sw_derivation := r, sw_derivation_task := Der_Report result\<rparr>))
      else None)"
| "shadow_task E start (Report now) w =
     (case sw_derivation_task w of
        Der_Report result \<Rightarrow>
          Some (w\<lparr>sw_app := shadow_tick_result now result (sw_app w), sw_derivation_task := Der_Idle\<rparr>)
      | _ \<Rightarrow> None)"
| "shadow_task E start Key_Quit w = (if sw_ui w = Ui_Free then Some (w\<lparr>sw_ui := Ui_Done\<rparr>) else None)"
| "shadow_task E start Key_Reset w =
     (if sw_ui w = Ui_Free then Some (w\<lparr>sw_app := shadow_reset (se_float E) (sw_app w)\<rparr>) else None)"
| "shadow_task E start Key_Pause w =
     (if sw_ui w = Ui_Free
      then (let a = shadow_toggle_pause (sw_app w) in Some (w\<lparr>sw_app := a, sw_ui := Ui_Wants_Batch (sa_is_paused a)\<rparr>))
      else None)"
| "shadow_task E start Take_Batch_Lock w =
     (case (sw_ui w, sw_batch w) of
        (Ui_Wants_Batch p, Batch_Running _) \<Rightarrow> None
      | (Ui_Wants_Batch p, _) \<Rightarrow> Some (w\<lparr>sw_ui := Ui_Wants_Derivation p\<rparr>)
      | _ \<Rightarrow> None)"
| "shadow_task E start Finish_Pause w =
     (case sw_ui w of
        Ui_Wants_Derivation p \<Rightarrow> if sw_derivation_task w = Der_Holding then None else Some (set_paused p w)
      | _ \<Rightarrow> None)"

text \<open>When the interface has returned, the runtime is dropped with its tasks.\<close>

definition shadow_step :: "('tx, 'x, 'f) shadow_env \<Rightarrow> u64 \<Rightarrow> 'tx shadow_event \<Rightarrow> ('tx, 'x, 'f) shadow_world
    \<Rightarrow> ('tx, 'x, 'f) shadow_world option" where
  "shadow_step E start ev w = (if sw_ui w = Ui_Done then None else shadow_task E start ev w)"

fun shadow_run :: "('tx, 'x, 'f) shadow_env \<Rightarrow> u64 \<Rightarrow> 'tx shadow_event list \<Rightarrow> ('tx, 'x, 'f) shadow_world
    \<Rightarrow> ('tx, 'x, 'f) shadow_world option" where
  "shadow_run E start [] w = Some w"
| "shadow_run E start (ev # evs) w =
     (case shadow_step E start ev w of None \<Rightarrow> None | Some w \<Rightarrow> shadow_run E start evs w)"

section \<open>What the runners leave alone\<close>

text \<open>No error of an iteration is fatal, so the batch task never returns.\<close>

lemma submit_pending_Inr: "fst (submit_pending cd i r) = Inr ()"
proof -
  obtain res ms where sb: "submit_batch cd i (br_batch_number r) (br_pending_blocks r) (br_metrics r) = (res, ms)" by force
  then show ?thesis using submit_batch_not_fatal [of cd i "br_batch_number r" "br_pending_blocks r" "br_metrics r"]
    by (cases res) (simp_all add: submit_pending_def Let_def)
qed

lemma runner_iteration_Inr: "fst (runner_iteration cd i r) = Inr ()"
  by (simp add: runner_iteration_def Let_def submit_pending_Inr split: prod.splits)

lemma fetch_blocks_frames:
  "snd (fetch_blocks i k off r) = r' \<Longrightarrow>
     br_paused r' = br_paused r \<and> br_attempts r' = br_attempts r \<and> br_has_callback r' = br_has_callback r
     \<and> (\<exists>cs. br_callbacks r' = br_callbacks r @ cs)"
proof (induction i k off r arbitrary: r' rule: fetch_blocks.induct)
  case (2 i k off r)
  show ?case
  proof (cases "in_block i (br_current_block r + of_nat off)")
    case (Inl e)
    with "2.prems" show ?thesis by auto
  next
    case (Inr b)
    let ?r1 = "call_back (OnBlockProcessed (br_current_block r + of_nat off) (length (transactions b)) (estimated_size b)) r"
    let ?r2 = "?r1\<lparr>br_pending_blocks := br_pending_blocks ?r1 @ [b], br_pending_size := br_pending_size ?r1 + estimated_size b\<rparr>"
    have first: "br_paused ?r2 = br_paused r" "br_attempts ?r2 = br_attempts r" "br_has_callback ?r2 = br_has_callback r"
      "\<exists>cs. br_callbacks ?r2 = br_callbacks r @ cs"
      by (auto simp: call_back_def)
    show ?thesis
    proof (cases "sc_target_batch_size (br_config ?r2) \<le> br_pending_size ?r2")
      case True
      with "2.prems" Inr have "r' = ?r2" by (simp add: Let_def)
      with first show ?thesis by simp
    next
      case False
      with "2.prems" Inr have "snd (fetch_blocks i k (off + 1) ?r2) = r'" by (simp add: Let_def)
      with "2.IH" [OF refl Inr refl refl refl, of r'] False first show ?thesis by fastforce
    qed
  qed
qed auto

text \<open>A batch that was accepted had been serialised and compressed.\<close>

definition encoded :: "'tx runner_codec \<Rightarrow> 'tx op_block list \<Rightarrow> bool" where
  "encoded cd blks = (\<exists>raw c. rc_to_bytes cd blks = Inr raw \<and> rc_compress cd raw = Inr c)"

lemma submit_batch_encoded: "submit_batch cd i n blks ms = (Inr h, ms') \<Longrightarrow> encoded cd blks"
  by (auto simp: submit_batch_def encoded_def split: sum.splits)

lemma submit_pending_frames:
  "snd (submit_pending cd i r) = r' \<Longrightarrow>
     br_paused r' = br_paused r
     \<and> (\<exists>ok. br_attempts r' = br_attempts r @ [(br_batch_number r, br_pending_blocks r, ok)]
          \<and> (ok \<longrightarrow> encoded cd (br_pending_blocks r)))"
proof -
  assume r': "snd (submit_pending cd i r) = r'"
  obtain res ms where sb: "submit_batch cd i (br_batch_number r) (br_pending_blocks r) (br_metrics r) = (res, ms)" by force
  show ?thesis
  proof (cases res)
    case (Inl e)
    with sb r' submit_batch_not_fatal [of cd i "br_batch_number r" "br_pending_blocks r" "br_metrics r"]
    show ?thesis by (auto simp: submit_pending_def Let_def)
  next
    case (Inr h)
    with sb r' submit_batch_encoded [of cd i "br_batch_number r" "br_pending_blocks r" "br_metrics r"]
    show ?thesis by (auto simp: submit_pending_def Let_def)
  qed
qed

lemma runner_iteration_frames:
  assumes "snd (runner_iteration cd i r) = r'"
  shows "br_paused r' = br_paused r
    \<and> (\<exists>tried. br_attempts r' = br_attempts r @ tried \<and> list_all (\<lambda>a. snd (snd a) \<longrightarrow> encoded cd (fst (snd a))) tried)"
proof (cases "br_paused r")
  case True
  with assms show ?thesis by (auto simp: runner_iteration_def)
next
  case False
  define head_n where "head_n = (case in_head i of Inr h \<Rightarrow> h | Inl _ \<Rightarrow> br_current_block r)"
  define k where "k = blocks_to_fetch (br_config r) (saturating_sub head_n (br_current_block r)) (length (br_pending_blocks r))"
  obtain n failed r1 where fetched: "fetch_blocks i k 0 (call_back (OnChainHeadUpdated head_n) r) = ((n, failed), r1)"
    by (metis surj_pair)
  have r1: "br_paused (advance n r1) = br_paused r" "br_attempts (advance n r1) = br_attempts r"
    using fetch_blocks_frames [OF arg_cong [OF fetched, of snd, simplified]]
    by (auto simp: advance_def Let_def call_back_def)
  have "r' = snd (submit_pending cd i (advance n r1)) \<or> r' = advance n r1"
    using assms fetched False unfolding runner_iteration_def head_n_def k_def by (auto simp: Let_def split: if_splits)
  then show ?thesis
  proof
    assume "r' = snd (submit_pending cd i (advance n r1))"
    from submit_pending_frames [OF this [symmetric]] r1 show ?thesis by auto
  next
    assume "r' = advance n r1"
    with r1 show ?thesis by simp
  qed
qed

lemma derivation_tick_pause: "dr_paused (snd (derivation_tick d now r)) = dr_paused r"
proof -
  have execute: "dr_execute_blocks d n blks r = (e, r') \<Longrightarrow> dr_paused r' = dr_paused r" for n blks r e r'
    by (induction blks arbitrary: r) (auto split: prod.splits sum.splits)
  have marked: "dr_record_batch_derived d n r = (e, r') \<Longrightarrow> dr_paused r' = dr_paused r" for n r e r'
    by (auto simp: dr_record_batch_derived_def Let_def split: prod.splits)
  have finalize: "dr_paused (dr_finalize n sz t r) = dr_paused r" for n sz t r
    by (simp add: dr_finalize_def Let_def)
  have "dr_paused (snd (derive_batch d now b r)) = dr_paused r" for b r
    by (auto simp: derive_batch_def Let_def finalize dest!: execute marked split: prod.splits sum.splits)
  then show ?thesis by (auto simp: derivation_tick_def split: prod.splits sum.splits option.splits)
qed

lemma shadow_log_pause [simp]:
  "sa_is_paused (shadow_log_batch e a) = sa_is_paused a"
  "sa_is_paused (shadow_log_derivation e a) = sa_is_paused a"
  by (simp_all add: shadow_log_batch_def shadow_log_derivation_def)

lemma shadow_callback_pause [simp]: "sa_is_paused (shadow_callback F now c a) = sa_is_paused a"
  by (cases c) (simp_all add: shadow_on_batch_submitted_def Let_def shadow_set_current_block_def shadow_set_chain_head_def)

lemma shadow_tick_result_pause [simp]: "sa_is_paused (shadow_tick_result now result a) = sa_is_paused a"
  by (simp add: shadow_tick_result_def shadow_derived_def Let_def split: sum.splits option.splits)

section \<open>The pause key\<close>

text \<open>The batch task keeps its mutex for as long as the program runs.\<close>

fun batch_alive :: "batch_task \<Rightarrow> bool" where
  "batch_alive Batch_Waiting = True"
| "batch_alive (Batch_Running acts) = (\<forall>e. Fail e \<notin> set acts)"
| "batch_alive Batch_Returned = False"

lemma shadow_actions_no_failure: "Fail e \<notin> set (shadow_actions cd r r')"
  by (auto simp: shadow_actions_def Let_def dest!: in_set_butlastD in_set_dropD)

lemma shadow_act_alive:
  "batch_alive (Batch_Running (a # acts)) \<Longrightarrow>
     sw_batch (shadow_act E now a acts w) = Batch_Running acts
     \<and> sw_ui (shadow_act E now a acts w) = sw_ui w \<and> sw_runner (shadow_act E now a acts w) = sw_runner w
     \<and> dr_paused (sw_derivation (shadow_act E now a acts w)) = dr_paused (sw_derivation w)
     \<and> sa_is_paused (sw_app (shadow_act E now a acts w)) = sa_is_paused (sw_app w)"
  by (cases a) auto

lemma shadow_step_alive:
  assumes "shadow_step E start ev w = Some w'" and "batch_alive (sw_batch w)"
  shows "batch_alive (sw_batch w') \<and> (sw_batch w \<noteq> Batch_Waiting \<longrightarrow> sw_batch w' \<noteq> Batch_Waiting)"
proof (cases ev)
  case Start_Batch
  with assms show ?thesis by (auto simp: shadow_step_def split: batch_task.splits ui_task.splits if_splits)
next
  case (Iterate i)
  obtain res r where run: "runner_iteration (se_codec E) (shadow_input i) (sw_runner w) = (res, r)" by force
  with runner_iteration_Inr [of "se_codec E" "shadow_input i" "sw_runner w"] have "res = Inr ()" by simp
  with Iterate assms run show ?thesis
    by (auto simp: shadow_step_def shadow_actions_no_failure split: batch_task.splits list.splits if_splits)
next
  case (Act now)
  with assms obtain a acts where acts: "sw_batch w = Batch_Running (a # acts)" "w' = shadow_act E now a acts w"
    by (auto simp: shadow_step_def split: batch_task.splits list.splits if_splits)
  with assms(2) shadow_act_alive [of a acts E now w] show ?thesis by simp
qed (use assms in \<open>auto simp: shadow_step_def set_paused_def Let_def split: if_splits prod.splits derivation_task.splits
      ui_task.splits batch_task.splits\<close>)

lemma shadow_run_alive:
  "shadow_run E start evs w = Some w' \<Longrightarrow> batch_alive (sw_batch w) \<Longrightarrow> batch_alive (sw_batch w')"
proof (induction evs arbitrary: w)
  case (Cons ev evs)
  then obtain w1 where "shadow_step E start ev w = Some w1" "shadow_run E start evs w1 = Some w'"
    by (auto split: option.splits)
  with Cons shadow_step_alive show ?case by blast
qed simp

text \<open>The interface waits for that mutex, and nothing is paused or resumed meanwhile.\<close>

definition frozen :: "bool \<Rightarrow> bool \<Rightarrow> bool \<Rightarrow> ('tx, 'x, 'f) shadow_world \<Rightarrow> bool" where
  "frozen p b d w =
     (batch_alive (sw_batch w) \<and> sw_batch w \<noteq> Batch_Waiting \<and> sw_ui w = Ui_Wants_Batch p
      \<and> br_paused (sw_runner w) = b \<and> dr_paused (sw_derivation w) = d \<and> sa_is_paused (sw_app w) = p)"

fun of_interface :: "'tx shadow_event \<Rightarrow> bool" where
  "of_interface Key_Quit = True"
| "of_interface Key_Reset = True"
| "of_interface Key_Pause = True"
| "of_interface Take_Batch_Lock = True"
| "of_interface Finish_Pause = True"
| "of_interface _ = False"

lemma shadow_step_frozen:
  assumes step: "shadow_step E start ev w = Some w'" and "frozen p b d w"
  shows "frozen p b d w' \<and> \<not> of_interface ev"
proof -
  obtain acts where acts: "sw_batch w = Batch_Running acts" "batch_alive (sw_batch w)" and ui: "sw_ui w = Ui_Wants_Batch p"
    using assms(2) by (cases "sw_batch w") (auto simp: frozen_def)
  note alive = shadow_step_alive [OF step acts(2)]
  have "sw_ui w' = Ui_Wants_Batch p \<and> br_paused (sw_runner w') = br_paused (sw_runner w)
    \<and> dr_paused (sw_derivation w') = dr_paused (sw_derivation w) \<and> sa_is_paused (sw_app w') = sa_is_paused (sw_app w)
    \<and> \<not> of_interface ev"
  proof (cases ev)
    case (Iterate i)
    obtain res r where run: "runner_iteration (se_codec E) (shadow_input i) (sw_runner w) = (res, r)" by force
    with Iterate step ui acts runner_iteration_frames [of "se_codec E" "shadow_input i" "sw_runner w" r] show ?thesis
      by (auto simp: shadow_step_def split: list.splits)
  next
    case (Act now)
    with step ui acts obtain a rest where "acts = a # rest" "w' = shadow_act E now a rest w"
      by (auto simp: shadow_step_def split: list.splits)
    with acts ui Act shadow_act_alive [of a rest E now w] show ?thesis by simp
  next
    case (Tick now)
    with step ui derivation_tick_pause [of "shadow_deps E" now "sw_derivation w"] show ?thesis
      by (auto simp: shadow_step_def split: if_splits prod.splits)
  qed (use step ui acts in \<open>auto simp: shadow_step_def split: if_splits derivation_task.splits\<close>)
  with assms(2) acts alive show ?thesis by (simp add: frozen_def)
qed

lemma shadow_run_frozen:
  "shadow_run E start evs w = Some w' \<Longrightarrow> frozen p b d w \<Longrightarrow> frozen p b d w' \<and> list_all (\<lambda>ev. \<not> of_interface ev) evs"
proof (induction evs arbitrary: w)
  case (Cons ev evs)
  then obtain w1 where "shadow_step E start ev w = Some w1" "shadow_run E start evs w1 = Some w'"
    by (auto split: option.splits)
  with Cons shadow_step_frozen [of E start ev w w1] show ?case by simp
qed simp

text \<open>
  C26: The pause key ends the interface. Once the batch task of the shadow program has started, then
  after the key that toggles the pause is pressed no key is ever handled again, the quit key
  included, whatever the tasks do: the interface waits for a mutex that the batch task keeps for
  good, since the batch runner never returns. What is shown says the opposite of before, but
  neither runner is paused or resumed; the batch task goes on.
\<close>

theorem pause_key_freezes_interface:
  assumes "shadow_run E start evs (shadow_init cfg a x fs) = Some w" and "sw_batch w \<noteq> Batch_Waiting"
    and "shadow_step E start Key_Pause w = Some w1"
    and "shadow_run E start evs' w1 = Some w2"
  shows "list_all (\<lambda>ev. \<not> of_interface ev) evs' \<and> sw_ui w2 = Ui_Wants_Batch (sa_is_paused (sw_app w2))
    \<and> sa_is_paused (sw_app w2) = (\<not> sa_is_paused (sw_app w))
    \<and> br_paused (sw_runner w2) = br_paused (sw_runner w) \<and> dr_paused (sw_derivation w2) = dr_paused (sw_derivation w)
    \<and> ((\<exists>i. shadow_step E start (Iterate i) w2 \<noteq> None) \<or> (\<exists>now. shadow_step E start (Act now) w2 \<noteq> None))"
proof -
  have alive: "batch_alive (sw_batch w)"
    using shadow_run_alive [OF assms(1)] by (simp add: shadow_init_def)
  have "frozen (\<not> sa_is_paused (sw_app w)) (br_paused (sw_runner w)) (dr_paused (sw_derivation w)) w1"
    using assms(2,3) alive by (auto simp: shadow_step_def frozen_def shadow_toggle_pause_def Let_def split: if_splits)
  note w2 = shadow_run_frozen [OF assms(4) this]
  then obtain acts where acts: "sw_batch w2 = Batch_Running acts"
    by (cases "sw_batch w2") (auto simp: frozen_def)
  have "(\<exists>i. shadow_step E start (Iterate i) w2 \<noteq> None) \<or> (\<exists>now. shadow_step E start (Act now) w2 \<noteq> None)"
    using acts w2 by (cases acts) (auto simp: shadow_step_def frozen_def split: prod.split)
  with w2 show ?thesis by (simp add: frozen_def)
qed

text \<open>The key pressed while the first block is batched.\<close>

definition shadow_demo_codec :: "nat runner_codec" where
  "shadow_demo_codec =
     \<lparr>rc_to_bytes = (\<lambda>blks. if blks = [runner_block 5] then Inr [1] else Inl ''unknown''), rc_compress = (\<lambda>d. Inr (7 # d))\<rparr>"

definition shadow_demo_deps :: "(nat, batch_queue, nat) derivation_deps" where
  "shadow_demo_deps =
     \<lparr>d_next_batch = shadow_next_batch, d_decompress = (\<lambda>c. Inr (tl c)),
      d_from_bytes = (\<lambda>d. if d = [1] then Inr [runner_block 5] else Inl ''unknown''),
      d_execute = (\<lambda>b n. (Inr (), n + 1)), d_cp_ser = (\<lambda>_. None), d_cp_fault = (\<lambda>_. None), d_touched_at = (\<lambda>_. 0),
      d_show_error = (\<lambda>_. ''error'')\<rparr>"

definition shadow_demo_env :: "(nat, nat, nat) shadow_env" where
  "shadow_demo_env = \<lparr>se_float = nat_f64, se_codec = shadow_demo_codec, se_deps = shadow_demo_deps\<rparr>"

definition shadow_demo_start :: "(nat, nat, nat) shadow_world" where
  "shadow_demo_start =
     shadow_init one_per_batch (shadow_app_new nat_f64 ''rpc'' ''brotli'' InMemory None) 0 \<lparr>files = Map.empty, dirs = {}\<rparr>"

theorem pause_key_freezes_interface_witness:
  "\<exists>w w1 w2. shadow_run shadow_demo_env 5 [Start_Batch] shadow_demo_start = Some w
     \<and> shadow_step shadow_demo_env 5 Key_Pause w = Some w1
     \<and> shadow_run shadow_demo_env 5 [Iterate (runner_demo_input True)] w1 = Some w2
     \<and> sw_ui w2 = Ui_Wants_Batch True \<and> \<not> br_paused (sw_runner w2)"
proof -
  obtain w where w: "shadow_run shadow_demo_env 5 [Start_Batch] shadow_demo_start = Some w" "sw_batch w = Batch_Running []"
    "sw_ui w = Ui_Free" "\<not> sa_is_paused (sw_app w)" "br_paused (sw_runner w) = False"
    by (simp add: shadow_demo_start_def shadow_step_def shadow_init_def shadow_app_new_def runner_with_callback_def runner_new_def)
  then obtain w1 where w1: "shadow_step shadow_demo_env 5 Key_Pause w = Some w1" "sw_batch w1 = Batch_Running []"
    "sw_ui w1 = Ui_Wants_Batch True" "sw_runner w1 = sw_runner w"
    by (simp add: shadow_step_def shadow_toggle_pause_def Let_def)
  obtain result r where "runner_iteration (se_codec shadow_demo_env) (shadow_input (runner_demo_input True)) (sw_runner w1) = (result, r)"
    by force
  with w1 obtain w2 where w2: "shadow_run shadow_demo_env 5 [Iterate (runner_demo_input True)] w1 = Some w2"
    by (simp add: shadow_step_def)
  with pause_key_freezes_interface [OF w(1) [unfolded shadow_demo_start_def] _ w1(1) w2] w w1 show ?thesis by simp
qed

section \<open>What is executed\<close>

text \<open>The numbers of the batches accepted increase.\<close>

lemma sorted_counting: "k \<le> 2 ^ 64 \<Longrightarrow> sorted_wrt (<) (counting 0 k)"
proof -
  assume k: "k \<le> 2 ^ 64"
  have "(of_nat i :: u64) < of_nat j" if "i < j" "j < k" for i j
    using that k by (simp add: word_less_nat_alt unat_of_nat)
  then show ?thesis by (auto simp: counting_def sorted_wrt_iff_nth_less)
qed

lemma sorted_accepted:
  assumes "map fst (br_attempts r) = counting 0 (length (br_attempts r))" and "length (br_attempts r) \<le> 2 ^ 64"
  shows "sorted_wrt (<) (map fst (accepted r))"
proof -
  have "sorted_wrt (<) (map fst (br_attempts r))" using assms sorted_counting by simp
  then show ?thesis by (simp add: accepted_def sorted_wrt_map sorted_wrt_filter)
qed

text \<open>
  Executing a batch ends with the first block that the executor refuses, and executing batches
  goes on with the next one: the blocks executed, and the executor's state after it.
\<close>

type_synonym ('tx, 'x) block_fun = "'tx op_block \<Rightarrow> 'x \<Rightarrow> (string + unit) \<times> 'x"

fun execute_upto :: "('tx, 'x) block_fun \<Rightarrow> 'tx op_block list \<Rightarrow> 'x \<Rightarrow> 'tx op_block list \<times> 'x" where
  "execute_upto ex [] x = ([], x)"
| "execute_upto ex (b # bs) x =
     (case ex b x of
        (Inl _, y) \<Rightarrow> ([], y)
      | (Inr _, y) \<Rightarrow> (case execute_upto ex bs y of (did, z) \<Rightarrow> (b # did, z)))"

fun execute_batches :: "('tx, 'x) block_fun \<Rightarrow> 'tx op_block list list \<Rightarrow> 'x \<Rightarrow> 'tx op_block list \<times> 'x" where
  "execute_batches ex [] x = ([], x)"
| "execute_batches ex (bs # bss) x =
     (case execute_upto ex bs x of (did, y) \<Rightarrow>
        (case execute_batches ex bss y of (others, z) \<Rightarrow> (did @ others, z)))"

lemma execute_batches_snoc:
  "execute_batches ex bss x = (did, y) \<Longrightarrow> execute_upto ex bs y = (final, z) \<Longrightarrow>
     execute_batches ex (bss @ [bs]) x = (did @ final, z)"
  by (induction bss arbitrary: x did) (auto split: prod.splits)

lemma execute_upto_all: "(\<And>b x. fst (ex b x) = Inr ()) \<Longrightarrow> fst (execute_upto ex bs x) = bs"
proof (induction bs arbitrary: x)
  case (Cons b bs)
  obtain y where "ex b x = (Inr (), y)" using Cons.prems [of b x] by (metis prod.collapse)
  with Cons.IH [OF Cons.prems, of y] show ?case by (simp add: case_prod_unfold)
qed simp

lemma execute_batches_all: "(\<And>b x. fst (ex b x) = Inr ()) \<Longrightarrow> fst (execute_batches ex bss x) = concat bss"
proof (induction bss arbitrary: x)
  case (Cons blks bss)
  from execute_upto_all [OF Cons.prems] Cons.IH [OF Cons.prems] show ?case
    by (simp add: case_prod_unfold)
qed simp

lemma dr_execute_upto:
  "dr_execute_blocks d n blks r = (result, r') \<Longrightarrow> execute_upto (d_execute d) blks (dr_executor r) = (did, x) \<Longrightarrow>
     r' = r\<lparr>dr_executor := x, dr_executed := dr_executed r @ did\<rparr>"
proof (induction blks arbitrary: r did)
  case (Cons b blks)
  obtain e y where ex: "d_execute d b (dr_executor r) = (e, y)" by force
  show ?case
  proof (cases e)
    case (Inl m)
    with Cons.prems ex show ?thesis by auto
  next
    case (Inr u)
    with Cons.prems(2) ex obtain others where "execute_upto (d_execute d) blks y = (others, x)" "did = b # others"
      by (auto split: prod.splits)
    with Cons.IH [of "r\<lparr>dr_executor := y, dr_executed := dr_executed r @ [b]\<rparr>" others] Cons.prems(1) ex Inr
    show ?thesis by simp
  qed
qed simp

lemma dr_finalize_frames:
  "dr_executed (dr_finalize n sz t r) = dr_executed r" "dr_executor (dr_finalize n sz t r) = dr_executor r"
  "dr_source (dr_finalize n sz t r) = dr_source r" "dr_checkpoint (dr_finalize n sz t r) = dr_checkpoint r"
  "dr_checkpoint_path (dr_finalize n sz t r) = dr_checkpoint_path r"
  by (simp_all add: dr_finalize_def Let_def)

lemma derive_batch_executes:
  assumes "dr_checkpoint_path r = None"
    and "last_batch_derived (dr_checkpoint r) = 0 \<or> last_batch_derived (dr_checkpoint r) < batch_number b"
    and "d_decompress d (batch_data b) = Inr raw" and "d_from_bytes d raw = Inr blks"
    and did: "execute_upto (d_execute d) blks (dr_executor r) = (did, x)"
    and step: "derive_batch d now b r = (result, r')"
  shows "dr_executed r' = dr_executed r @ did \<and> dr_executor r' = x \<and> dr_source r' = dr_source r
      \<and> dr_checkpoint_path r' = None
      \<and> last_batch_derived (dr_checkpoint r') \<in> {last_batch_derived (dr_checkpoint r), batch_number b}"
proof -
  obtain e r1 where ex: "dr_execute_blocks d (batch_number b) blks r = (e, r1)" by force
  note r1 = dr_execute_upto [OF ex did]
  have "\<not> dr_should_skip r (batch_number b)" using assms(2) by (auto simp: dr_should_skip_def)
  then show ?thesis
    using assms(1,2) step r1
    by (cases e) (auto simp: derive_batch_def Let_def assms(3,4) ex dr_record_batch_derived_def save_if_path_def
        dr_finalize_frames touch_def record_batch_derived_def word_gt_0 split: if_splits)
qed

text \<open>
  Where the accepted batches are: the first k were handed to the executor, the others in the queue or about to be
  put there by the batch task.
\<close>

definition submits :: "shadow_action list \<Rightarrow> compressed_batch list" where
  "submits acts = concat (map (\<lambda>a. case a of Submit b \<Rightarrow> [b] | _ \<Rightarrow> []) acts)"

fun in_hand :: "batch_task \<Rightarrow> compressed_batch list" where
  "in_hand (Batch_Running acts) = submits acts"
| "in_hand _ = []"

definition passes :: "('tx, 'x, 'f) shadow_env \<Rightarrow> u64 \<Rightarrow> 'x \<Rightarrow> nat \<Rightarrow> ('tx, 'x, 'f) shadow_world \<Rightarrow> bool" where
  "passes E start x k w =
     ((sw_batch w = Batch_Waiting \<and> br_attempts (sw_runner w) = [] \<or> runner_inv start (sw_runner w))
      \<and> k \<le> length (accepted (sw_runner w))
      \<and> list_all (\<lambda>a. encoded (se_codec E) (fst (snd a))) (accepted (sw_runner w))
      \<and> dr_source (sw_derivation w) @ in_hand (sw_batch w)
          = map (batch_built (se_codec E)) (drop k (accepted (sw_runner w)))
      \<and> execute_batches (d_execute (se_deps E)) (map (fst \<circ> snd) (take k (accepted (sw_runner w)))) x
          = (dr_executed (sw_derivation w), dr_executor (sw_derivation w))
      \<and> last_batch_derived (dr_checkpoint (sw_derivation w)) \<in> insert 0 (fst ` set (take k (accepted (sw_runner w))))
      \<and> dr_checkpoint_path (sw_derivation w) = None)"

lemma submits_simps [simp]:
  "submits [] = []" "submits (Submit b # acts) = b # submits acts" "submits (Tell c # acts) = submits acts"
  "submits (Fail e # acts) = submits acts" "submits (map Tell cs) = []" "submits (map (Submit \<circ> g) as) = map g as"
  "submits (as1 @ as2) = submits as1 @ submits as2"
  by (simp_all add: submits_def comp_def)

lemma submits_actions:
  "submits (shadow_actions cd r r') = map (batch_built cd) (filter (snd \<circ> snd) (drop (length (br_attempts r)) (br_attempts r')))"
proof -
  have "submits (butlast (map Tell cs)) = []" "submits (drop n (map Tell cs)) = []" for cs n
    by (simp_all add: map_butlast [symmetric] drop_map)
  then show ?thesis by (simp add: shadow_actions_def Let_def filter_empty_conv)
qed

lemma accepted_append:
  "br_attempts r' = br_attempts r @ tried \<Longrightarrow> accepted r' = accepted r @ filter (snd \<circ> snd) tried"
  by (simp add: accepted_def)

text \<open>A tick executes the next batch of the queue, if there is one and the runner is not paused.\<close>

definition decodes_back :: "('tx, 'x, 'f) shadow_env \<Rightarrow> bool" where
  "decodes_back E =
     (\<forall>blks plain c. rc_to_bytes (se_codec E) blks = Inr plain \<and> rc_compress (se_codec E) plain = Inr c
        \<longrightarrow> d_decompress (se_deps E) c = Inr plain \<and> d_from_bytes (se_deps E) plain = Inr blks)"

lemma shadow_tick_passes:
  assumes P: "passes E start x k w" and "decodes_back E"
    and sorted: "sorted_wrt (<) (map fst (accepted (sw_runner w)))"
    and tick: "derivation_tick (shadow_deps E) now (sw_derivation w) = (result, r)"
  shows "\<exists>k'. passes E start x k' (w\<lparr>sw_derivation := r, sw_derivation_task := Der_Report result\<rparr>)"
proof (cases "dr_paused (sw_derivation w) \<or> dr_source (sw_derivation w) = []")
  case True
  let ?d = "sw_derivation w"
  have "?d\<lparr>dr_source := dr_source ?d\<rparr> = ?d" by simp
  with tick True have "r = ?d"
    by (auto simp: derivation_tick_def shadow_deps_def shadow_next_batch_def queue_next_batch_def shadow_source_result_def
        split: if_splits)
  with P show ?thesis by (intro exI [of _ k]) (simp add: passes_def)
next
  case False
  then obtain b q where q: "dr_source (sw_derivation w) = b # q" by (cases "dr_source (sw_derivation w)") auto
  let ?acc = "accepted (sw_runner w)"
  have k: "k < length ?acc" using P q by (cases "k = length ?acc") (auto simp: passes_def)
  then obtain n blks ok where a: "?acc ! k = (n, blks, ok)" by (metis prod_cases3)
  have rest: "drop k ?acc = (n, blks, ok) # drop (Suc k) ?acc" using Cons_nth_drop_Suc [OF k] a by simp
  have b: "b = batch_built (se_codec E) (n, blks, ok)" "q @ in_hand (sw_batch w) = map (batch_built (se_codec E)) (drop (Suc k) ?acc)"
    using P q rest by (auto simp: passes_def)
  have "encoded (se_codec E) blks" using P k a by (auto simp: passes_def list_all_length)
  then obtain plain c where enc: "rc_to_bytes (se_codec E) blks = Inr plain" "rc_compress (se_codec E) plain = Inr c"
    by (auto simp: encoded_def)
  then have back_again: "d_decompress (shadow_deps E) (batch_data b) = Inr plain" "d_from_bytes (shadow_deps E) plain = Inr blks"
    using assms(2) b(1) by (auto simp: decodes_back_def shadow_deps_def batch_built_def)
  have num: "batch_number b = n" using b(1) by (simp add: batch_built_def)
  have mark: "last_batch_derived (dr_checkpoint (sw_derivation w)) = 0
      \<or> last_batch_derived (dr_checkpoint (sw_derivation w)) < batch_number b"
  proof -
    have "fst p < n" if "p \<in> set (take k ?acc)" for p
      using that sorted a k sorted_wrt_nth_less [OF sorted, of _ k] by (auto simp: in_set_conv_nth)
    with P num show ?thesis by (auto simp: passes_def)
  qed
  obtain result' r' where d: "derive_batch (shadow_deps E) now b ((sw_derivation w)\<lparr>dr_source := q\<rparr>) = (result', r')" by force
  with tick False q have r: "r = r'"
    by (auto simp: derivation_tick_def shadow_deps_def shadow_next_batch_def queue_next_batch_def shadow_source_result_def)
  obtain did y where did: "execute_upto (d_execute (se_deps E)) blks (dr_executor (sw_derivation w)) = (did, y)" by force
  have r_is: "dr_executed r = dr_executed (sw_derivation w) @ did \<and> dr_executor r = y \<and> dr_source r = q
      \<and> dr_checkpoint_path r = None
      \<and> last_batch_derived (dr_checkpoint r) \<in> {last_batch_derived (dr_checkpoint (sw_derivation w)), n}"
    using derive_batch_executes [of "(sw_derivation w)\<lparr>dr_source := q\<rparr>" b "shadow_deps E" plain blks did y now result' r']
      did P mark back_again d r num by (simp add: passes_def shadow_deps_def)
  have run: "execute_batches (d_execute (se_deps E)) (map (fst \<circ> snd) (take (Suc k) ?acc)) x
      = (dr_executed (sw_derivation w) @ did, y)"
    using P k a execute_batches_snoc [OF _ did] by (simp add: passes_def take_Suc_conv_app_nth)
  have "last_batch_derived (dr_checkpoint r) \<in> insert 0 (fst ` set (take (Suc k) ?acc))"
  proof -
    have "fst ` set (take (Suc k) ?acc) = insert n (fst ` set (take k ?acc))"
      using k a by (simp add: take_Suc_conv_app_nth)
    moreover have "last_batch_derived (dr_checkpoint (sw_derivation w)) \<in> insert 0 (fst ` set (take k ?acc))"
      using P unfolding passes_def by blast
    ultimately show ?thesis using r_is by (metis empty_iff insert_iff)
  qed
  with r_is run show ?thesis
    using P k b by (intro exI [of _ "Suc k"]) (simp add: passes_def)
qed

lemma runner_inv_pause [simp]:
  "runner_inv start (pause r) = runner_inv start r" "runner_inv start (resume r) = runner_inv start r"
  "accepted (pause r) = accepted r" "accepted (resume r) = accepted r"
  "br_attempts (pause r) = br_attempts r" "br_attempts (resume r) = br_attempts r"
  by (simp_all add: runner_inv_def seen_def attempted_def accepted_def pause_def resume_def)

lemma iterate_passes:
  assumes P: "passes E start x k w" and run: "sw_batch w = Batch_Running []" and "honest i"
    and it: "runner_iteration (se_codec E) (shadow_input i) (sw_runner w) = (result, r)"
  shows "passes E start x k (w\<lparr>sw_runner := r,
    sw_batch := Batch_Running (shadow_actions (se_codec E) (sw_runner w) r @ (case result of Inl e \<Rightarrow> [Fail e] | Inr _ \<Rightarrow> []))\<rparr>)"
proof -
  have I: "runner_inv start (sw_runner w)" using P run by (simp add: passes_def)
  have "honest (shadow_input i)" using assms(3) by (simp add: honest_def shadow_input_def)
  from runner_iteration_inv [OF I this, of "se_codec E"] it have r: "result = Inr ()" "runner_inv start r" by auto
  obtain tried where tried: "br_attempts r = br_attempts (sw_runner w) @ tried"
      "list_all (\<lambda>a. snd (snd a) \<longrightarrow> encoded (se_codec E) (fst (snd a))) tried"
    using runner_iteration_frames [of "se_codec E" "shadow_input i" "sw_runner w" r] it by auto
  then have "list_all (\<lambda>a. encoded (se_codec E) (fst (snd a))) (filter (snd \<circ> snd) tried)" by (auto simp: list_all_iff)
  then show ?thesis
    using P run r tried(1) accepted_append [OF tried(1)] by (auto simp: passes_def submits_actions nth_append)
qed

text \<open>Before the batch task has started, the runner has tried nothing.\<close>

definition untouched :: "('tx, 'x, 'f) shadow_world \<Rightarrow> bool" where
  "untouched w = (sw_batch w = Batch_Waiting \<longrightarrow> br_attempts (sw_runner w) = [])"

lemma start_passes:
  assumes "passes E start x k w" and "untouched w" and "sw_batch w = Batch_Waiting"
  shows "passes E start x k (w\<lparr>sw_batch := Batch_Running [],
    sw_runner := (sw_runner w)\<lparr>br_current_block := start, br_batch_number := 0, br_pending_blocks := [], br_pending_size := 0\<rparr>\<rparr>)"
  using assms by (simp add: untouched_def passes_def runner_inv_def seen_def attempted_def accepted_def counting_def)

lemma passes_frame:
  "passes E start x k w \<Longrightarrow> sw_batch w' = sw_batch w \<Longrightarrow> sw_runner w' = sw_runner w \<Longrightarrow> sw_derivation w' = sw_derivation w
     \<Longrightarrow> passes E start x k w'"
  by (simp add: passes_def)

lemma shadow_step_frame:
  assumes "shadow_step E start ev w = Some w'"
    and "ev \<in> {Lock_Derivation, Key_Quit, Key_Reset, Key_Pause, Take_Batch_Lock} \<or> (\<exists>now. ev = Report now)"
  shows "sw_batch w' = sw_batch w \<and> sw_runner w' = sw_runner w \<and> sw_derivation w' = sw_derivation w"
  using assms
  by (auto simp: shadow_step_def Let_def split: if_splits derivation_task.splits ui_task.splits batch_task.splits)

lemma act_passes:
  "passes E start x k w \<Longrightarrow> sw_batch w = Batch_Running (a # acts) \<Longrightarrow> (\<And>e. a \<noteq> Fail e) \<Longrightarrow>
     passes E start x k (shadow_act E now a acts w)"
  by (cases a) (auto simp: passes_def queue_push_def queue_submit_def)

lemma shadow_step_passes:
  assumes step: "shadow_step E start ev w = Some w'" and P: "passes E start x k w" and alive: "batch_alive (sw_batch w)"
    and fresh: "untouched w" and "decodes_back E"
    and "\<And>i. ev = Iterate i \<Longrightarrow> honest i" and len: "length (br_attempts (sw_runner w)) \<le> 2 ^ 64"
  shows "(\<exists>k'. passes E start x k' w') \<and> untouched w'"
proof (cases ev)
  case Start_Batch
  with step have w: "sw_batch w = Batch_Waiting" "w' = w\<lparr>sw_batch := Batch_Running [],
       sw_runner := (sw_runner w)\<lparr>br_current_block := start, br_batch_number := 0, br_pending_blocks := [], br_pending_size := 0\<rparr>\<rparr>"
    by (auto simp: shadow_step_def split: batch_task.splits ui_task.splits if_splits)
  with start_passes [OF P fresh w(1)] show ?thesis by (auto simp: untouched_def)
next
  case (Iterate i)
  then have h: "honest i" using assms(6) by blast
  obtain result r where it: "runner_iteration (se_codec E) (shadow_input i) (sw_runner w) = (result, r)" by force
  with step Iterate have w: "sw_batch w = Batch_Running []" "w' = w\<lparr>sw_runner := r,
      sw_batch := Batch_Running (shadow_actions (se_codec E) (sw_runner w) r @ (case result of Inl e \<Rightarrow> [Fail e] | Inr _ \<Rightarrow> []))\<rparr>"
    by (auto simp: shadow_step_def split: batch_task.splits list.splits if_splits)
  obtain tried where "br_attempts r = br_attempts (sw_runner w) @ tried"
    using runner_iteration_frames [of "se_codec E" "shadow_input i" "sw_runner w" r] it by auto
  with iterate_passes [OF P w(1) h it] w(2) show ?thesis by (auto simp: untouched_def)
next
  case (Act now)
  with step obtain a acts where acts: "sw_batch w = Batch_Running (a # acts)" "w' = shadow_act E now a acts w"
    by (auto simp: shadow_step_def split: batch_task.splits list.splits if_splits)
  have "a \<noteq> Fail e" for e using alive acts(1) by auto
  then have "passes E start x k w'" using act_passes [OF P acts(1)] acts(2) by blast
  with acts shadow_act_alive [of a acts E now w] alive show ?thesis by (auto simp: untouched_def)
next
  case (Tick now)
  obtain result r where tick: "derivation_tick (shadow_deps E) now (sw_derivation w) = (result, r)" by force
  with step Tick have w: "w' = w\<lparr>sw_derivation := r, sw_derivation_task := Der_Report result\<rparr>"
    by (auto simp: shadow_step_def split: if_splits)
  have "map fst (br_attempts (sw_runner w)) = counting 0 (length (br_attempts (sw_runner w)))"
    using P by (auto simp: passes_def runner_inv_def counting_def)
  from shadow_tick_passes [OF P assms(5) sorted_accepted [OF this len] tick] w fresh show ?thesis
    by (simp add: untouched_def)
next
  case Finish_Pause
  with step obtain p where w: "w' = set_paused p w"
    by (auto simp: shadow_step_def split: if_splits ui_task.splits)
  from P have "passes E start x k (set_paused p w)"
    by (simp add: passes_def set_paused_def dr_pause_def dr_resume_def)
  with w fresh show ?thesis by (auto simp: untouched_def set_paused_def)
qed (use shadow_step_frame [OF step] passes_frame [OF P, of w'] fresh in \<open>auto simp: untouched_def\<close>)

text \<open>The attempts are only added to.\<close>

lemma shadow_act_runner [simp]: "sw_runner (shadow_act E now a acts w) = sw_runner w"
  by (cases a) simp_all

lemma shadow_step_attempts:
  assumes "shadow_step E start ev w = Some w'"
  shows "length (br_attempts (sw_runner w)) \<le> length (br_attempts (sw_runner w'))"
proof (cases ev)
  case (Iterate i)
  obtain result r where it: "runner_iteration (se_codec E) (shadow_input i) (sw_runner w) = (result, r)" by force
  have "length (br_attempts (sw_runner w)) \<le> length (br_attempts r)"
    using runner_iteration_frames [of "se_codec E" "shadow_input i" "sw_runner w" r] it by auto
  with assms Iterate it show ?thesis
    by (auto simp: shadow_step_def split: batch_task.splits list.splits if_splits)
next
  case Finish_Pause
  with assms show ?thesis by (auto simp: shadow_step_def set_paused_def split: if_splits ui_task.splits)
next
  case (Act now)
  with assms show ?thesis by (auto simp: shadow_step_def split: if_splits batch_task.splits list.splits)
next
  case Start_Batch
  with assms show ?thesis by (auto simp: shadow_step_def split: if_splits batch_task.splits ui_task.splits)
next
  case (Tick now)
  with assms show ?thesis by (auto simp: shadow_step_def split: if_splits prod.splits)
qed (use shadow_step_frame [OF assms] in auto)

lemma shadow_run_attempts:
  "shadow_run E start evs w = Some w' \<Longrightarrow> length (br_attempts (sw_runner w)) \<le> length (br_attempts (sw_runner w'))"
proof (induction evs arbitrary: w)
  case (Cons ev evs)
  then obtain w1 where "shadow_step E start ev w = Some w1" "shadow_run E start evs w1 = Some w'"
    by (auto split: option.splits)
  with Cons.IH [of w1] shadow_step_attempts [of E start ev w w1] show ?case by simp
qed simp

lemma shadow_run_passes:
  assumes "decodes_back E" and "length (br_attempts (sw_runner w')) \<le> 2 ^ 64"
  shows "shadow_run E start evs w = Some w' \<Longrightarrow> passes E start x k w \<Longrightarrow> batch_alive (sw_batch w) \<Longrightarrow> untouched w
    \<Longrightarrow> (\<And>i. Iterate i \<in> set evs \<Longrightarrow> honest i) \<Longrightarrow> \<exists>k'. passes E start x k' w'"
proof (induction evs arbitrary: w k)
  case (Cons ev evs)
  from Cons.prems(1) obtain w1 where w1: "shadow_step E start ev w = Some w1" "shadow_run E start evs w1 = Some w'"
    by (auto split: option.splits)
  have "length (br_attempts (sw_runner w)) \<le> 2 ^ 64"
    using shadow_run_attempts [OF Cons.prems(1)] assms(2) by simp
  moreover have "honest i" if "ev = Iterate i" for i using Cons.prems(5) [of i] that by simp
  ultimately obtain k1 where "passes E start x k1 w1" "untouched w1"
    using shadow_step_passes [OF w1(1) Cons.prems(2-4) assms(1)] by blast
  with Cons.IH [OF w1(2)] shadow_step_alive [OF w1(1) Cons.prems(3)] Cons.prems(5) show ?case by simp
qed auto

lemma passes_init: "passes E start x 0 (shadow_init cfg a x fs)"
  by (simp add: passes_def shadow_init_def runner_with_callback_def runner_new_def accepted_def derivation_new_def
      derivation_with_start_block_def checkpoint_default_def)

text \<open>When no submission has failed, the batches are cut from the chain from the start block on.\<close>

lemma passes_numbers:
  assumes "passes E start x k w" and all: "list_all (snd \<circ> snd) (br_attempts (sw_runner w))"
    and b: "bs = concat (map (fst \<circ> snd) (take k (accepted (sw_runner w))))"
  shows "map header_number bs = counting start (length bs)"
proof (cases "br_attempts (sw_runner w) = []")
  case True
  with b show ?thesis by (simp add: accepted_def counting_def)
next
  case False
  then have I: "map header_number (seen (sw_runner w)) = counting start (length (seen (sw_runner w)))"
    using assms(1) by (auto simp: passes_def runner_inv_def)
  have "accepted (sw_runner w) = br_attempts (sw_runner w)" using all by (simp add: accepted_def filter_id_conv list_all_iff)
  then have "seen (sw_runner w) = bs @ concat (map (fst \<circ> snd) (drop k (br_attempts (sw_runner w)))) @ br_pending_blocks (sw_runner w)"
    by (simp add: b seen_def attempted_def flip: concat_append map_append)
  then obtain rest where rest: "seen (sw_runner w) = bs @ rest" by blast
  have "map header_number bs = take (length bs) (map header_number (seen (sw_runner w)))" by (simp add: rest)
  also have "\<dots> = counting start (length bs)" unfolding I by (simp add: rest counting_def take_map)
  finally show ?thesis .
qed

text \<open>
  C35: What the shadow program derives is what it batches, in the in-memory mode. Whatever the
  interleaving of its tasks and whatever keys are pressed, the derivation runner has handed the
  first batches that the batch runner's sink took to the executor, in order and each once, and the
  batches after these wait in the queue or are about to be put there: none is lost, repeated or
  overtaken. The executor's state and the blocks it executed are those of running these batches one
  after the other, where a block that the executor refuses ends its batch, whose other blocks are
  lost; so they are all blocks of these batches when it refuses none. When no submission has
  failed, the batches are cut from the chain from the start block on, without a gap. This supposes
  that what was serialised and compressed is read back, that the source answers with the block it
  was asked for, and at most \<open>2 ^ 64\<close> batches.
\<close>

theorem shadow_derives_what_it_batches:
  assumes "shadow_run E start evs (shadow_init cfg a x fs) = Some w"
    and "decodes_back E"
    and "\<forall>i. Iterate i \<in> set evs \<longrightarrow> honest i" and "length (br_attempts (sw_runner w)) \<le> 2 ^ 64"
  shows "\<exists>k derived. derived = map (fst \<circ> snd) (take k (accepted (sw_runner w)))
    \<and> dr_source (sw_derivation w) @ in_hand (sw_batch w) = map (batch_built (se_codec E)) (drop k (accepted (sw_runner w)))
    \<and> execute_batches (d_execute (se_deps E)) derived x
        = (dr_executed (sw_derivation w), dr_executor (sw_derivation w))
    \<and> ((\<forall>b y. fst (d_execute (se_deps E) b y) = Inr ()) \<longrightarrow> dr_executed (sw_derivation w) = concat derived)
    \<and> (list_all (snd \<circ> snd) (br_attempts (sw_runner w)) \<longrightarrow>
        map header_number (concat derived) = counting start (length (concat derived)))"
proof -
  have "batch_alive (sw_batch (shadow_init cfg a x fs)) \<and> untouched (shadow_init cfg a x fs)"
    by (simp add: shadow_init_def untouched_def runner_with_callback_def runner_new_def)
  then obtain k where k: "passes E start x k w"
    using shadow_run_passes [OF assms(2,4,1) passes_init] assms(3) by blast
  let ?derived = "map (fst \<circ> snd) (take k (accepted (sw_runner w)))"
  have run: "execute_batches (d_execute (se_deps E)) ?derived x = (dr_executed (sw_derivation w), dr_executor (sw_derivation w))"
    and rest: "dr_source (sw_derivation w) @ in_hand (sw_batch w) = map (batch_built (se_codec E)) (drop k (accepted (sw_runner w)))"
    using k by (simp_all add: passes_def)
  have "dr_executed (sw_derivation w) = concat ?derived" if "\<forall>b y. fst (d_execute (se_deps E) b y) = Inr ()"
    using execute_batches_all [of "d_execute (se_deps E)" ?derived x] that run by simp
  with run rest passes_numbers [OF k] show ?thesis by blast
qed

text \<open>One block, batched, derived and reported.\<close>

definition shadow_demo_batch :: compressed_batch where
  "shadow_demo_batch = \<lparr>batch_number = 0, batch_data = [7, 1], block_count = 1, first_block = 5, last_block = 5\<rparr>"

lemma shadow_demo_decodes: "decodes_back shadow_demo_env"
  by (simp add: decodes_back_def shadow_demo_env_def shadow_demo_codec_def shadow_demo_deps_def)

lemma shadow_demo_iteration:
  "\<exists>r. runner_iteration shadow_demo_codec (shadow_input (runner_demo_input True))
        ((runner_with_callback (runner_new one_per_batch))\<lparr>br_current_block := 5, br_batch_number := 0,
           br_pending_blocks := [], br_pending_size := 0\<rparr>) = (Inr (), r)
     \<and> br_attempts r = [(0, [runner_block 5], True)] \<and> length (br_callbacks r) = 3"
  by (simp add: runner_eval runner_with_callback_def shadow_input_def shadow_demo_codec_def shadow_sink_result_def
      queue_submit_def first_block_number_def last_block_number_def)

lemma shadow_demo_batched:
  "\<exists>r c1 c2 c3. runner_iteration shadow_demo_codec (shadow_input (runner_demo_input True))
        ((runner_with_callback (runner_new one_per_batch))\<lparr>br_current_block := 5, br_batch_number := 0,
           br_pending_blocks := [], br_pending_size := 0\<rparr>) = (Inr (), r)
     \<and> br_attempts r = [(0, [runner_block 5], True)]
     \<and> shadow_actions shadow_demo_codec ((runner_with_callback (runner_new one_per_batch))\<lparr>br_current_block := 5,
           br_batch_number := 0, br_pending_blocks := [], br_pending_size := 0\<rparr>) r
        = [Tell c1, Tell c2, Submit shadow_demo_batch, Tell c3]"
proof -
  obtain r where r: "runner_iteration shadow_demo_codec (shadow_input (runner_demo_input True))
        ((runner_with_callback (runner_new one_per_batch))\<lparr>br_current_block := 5, br_batch_number := 0,
           br_pending_blocks := [], br_pending_size := 0\<rparr>) = (Inr (), r)"
     "br_attempts r = [(0, [runner_block 5], True)]" "length (br_callbacks r) = 3"
    using shadow_demo_iteration by blast
  then obtain c1 c2 c3 where c: "br_callbacks r = [c1, c2, c3]" by (auto simp: numeral_3_eq_3 length_Suc_conv)
  have "batch_built shadow_demo_codec (0, [runner_block 5], True) = shadow_demo_batch"
    by (simp add: batch_built_def shadow_demo_codec_def shadow_demo_batch_def first_block_number_def
        last_block_number_def runner_block_def)
  with r c show ?thesis by (simp add: shadow_actions_def runner_with_callback_def runner_new_def)
qed

lemma shadow_demo_tick:
  "\<exists>result d. derivation_tick (shadow_deps shadow_demo_env) 0 ((derivation_new [] shadow_derivation_config 0 fs)
       \<lparr>dr_source := [shadow_demo_batch]\<rparr>) = (result, d) \<and> dr_executed d = [runner_block 5]"
proof -
  let ?d = "(derivation_new [] shadow_derivation_config 0 fs)\<lparr>dr_source := [shadow_demo_batch]\<rparr>"
  obtain result d where d: "derive_batch (shadow_deps shadow_demo_env) 0 shadow_demo_batch (?d\<lparr>dr_source := []\<rparr>) = (result, d)"
    by force
  then have "dr_executed d = [runner_block 5]"
    using derive_batch_executes [of "?d\<lparr>dr_source := []\<rparr>" shadow_demo_batch "shadow_deps shadow_demo_env" "[1]" "[runner_block 5]" _ _ 0]
    by (simp add: shadow_deps_def shadow_demo_env_def shadow_demo_deps_def shadow_demo_batch_def derivation_new_def
        derivation_with_start_block_def checkpoint_default_def)
  with d show ?thesis
    by (simp add: derivation_tick_def derivation_new_def derivation_with_start_block_def shadow_deps_def shadow_next_batch_def
        queue_next_batch_def shadow_source_result_def)
qed

theorem shadow_derives_what_it_batches_witness:
  "\<exists>w. shadow_run shadow_demo_env 5 [Start_Batch, Iterate (runner_demo_input True), Act 0, Act 0, Act 0, Lock_Derivation,
        Tick 0, Act 0, Report 0] shadow_demo_start = Some w
     \<and> dr_executed (sw_derivation w) = [runner_block 5] \<and> map header_number (dr_executed (sw_derivation w)) = counting 5 1"
proof -
  let ?evs = "[Start_Batch, Iterate (runner_demo_input True), Act 0, Act 0, Act 0, Lock_Derivation, Tick 0, Act 0, Report 0]"
  obtain r c1 c2 c3 where r: "runner_iteration shadow_demo_codec (shadow_input (runner_demo_input True))
        ((runner_with_callback (runner_new one_per_batch))\<lparr>br_current_block := 5, br_batch_number := 0,
           br_pending_blocks := [], br_pending_size := 0\<rparr>) = (Inr (), r)"
     "br_attempts r = [(0, [runner_block 5], True)]"
     "shadow_actions shadow_demo_codec ((runner_with_callback (runner_new one_per_batch))\<lparr>br_current_block := 5,
           br_batch_number := 0, br_pending_blocks := [], br_pending_size := 0\<rparr>) r
        = [Tell c1, Tell c2, Submit shadow_demo_batch, Tell c3]"
    using shadow_demo_batched by blast
  obtain result d where d: "derivation_tick (shadow_deps shadow_demo_env) 0
      ((derivation_new [] shadow_derivation_config 0 \<lparr>files = Map.empty, dirs = {}\<rparr>)\<lparr>dr_source := [shadow_demo_batch]\<rparr>) = (result, d)"
    "dr_executed d = [runner_block 5]"
    using shadow_demo_tick by blast
  have codec: "se_codec shadow_demo_env = shadow_demo_codec" by (simp add: shadow_demo_env_def)
  obtain w where w: "shadow_run shadow_demo_env 5 ?evs shadow_demo_start = Some w" "sw_derivation w = d" "sw_runner w = r"
    using d r
    by (simp add: shadow_demo_start_def shadow_init_def shadow_step_def codec queue_push_def queue_submit_def derivation_new_def
        derivation_with_start_block_def del: shadow_callback.simps)
  have "\<forall>i. Iterate i \<in> set ?evs \<longrightarrow> honest i" by (simp add: honest_def runner_demo_input_def runner_block_def)
  moreover have "\<forall>b x. fst (d_execute (se_deps shadow_demo_env) b x) = Inr ()"
    by (simp add: shadow_demo_env_def shadow_demo_deps_def)
  ultimately obtain derived where "dr_executed (sw_derivation w) = concat derived"
      "map header_number (concat derived) = counting 5 (length (concat derived))"
    using shadow_derives_what_it_batches [OF w(1) [unfolded shadow_demo_start_def] shadow_demo_decodes] w(3) r(2) by auto
  moreover have "dr_executed (sw_derivation w) = [runner_block 5]" using w(2) d(2) by simp
  ultimately have "concat derived = [runner_block 5]" and "map header_number (dr_executed (sw_derivation w)) = counting 5 1"
    by (metis, metis One_nat_def length_Cons list.size(3))
  with w d show ?thesis by simp
qed

end
