(* ===== verification/Example_Tools.thy ===== *)
theory Example_Tools
  imports Analyze Migrator
begin

text \<open>
  The two small examples. \<^verbatim>\<open>examples/fetcher/src/main.rs\<close> writes a range of blocks of an RPC node to a
  file for the local source; \<^verbatim>\<open>examples/migrate/src/main.rs\<close> is a command line over the migrator. The
  HTTP client, \<^verbatim>\<open>serde_json\<close> and the file system are parameters.
\<close>

section \<open>Fetcher\<close>

record fetcher_cli =
  fc_verbose :: u8
  fc_start :: u64
  fc_end :: "u64 option"
  fc_output :: string
  fc_rpc :: string

definition DEFAULT_BLOCK_COUNT :: u64 where "DEFAULT_BLOCK_COUNT = 10"

text \<open>The parameters are a block number in hexadecimal and \<^verbatim>\<open>true\<close>.\<close>

record json_rpc_request =
  rq_jsonrpc :: string
  rq_method :: string
  rq_params :: "string \<times> bool"
  rq_id :: u64

record json_rpc_error =
  re_code :: int
  re_message :: string

record rpc_transaction =
  rt_hash :: string
  rt_input :: string

record rpc_block =
  rb_number :: string
  rb_timestamp :: string
  rb_hash :: string
  rb_parent_hash :: string
  rb_transactions :: "rpc_transaction list"

record json_rpc_response =
  rs_result :: "rpc_block option"
  rs_error :: "json_rpc_error option"

text \<open>The block as it is written: time and transactions, without its number.\<close>

record fetched_block =
  fb_timestamp :: u64
  fb_transactions :: "string list"

fun hex_nat :: "nat \<Rightarrow> string" where
  "hex_nat n = (if n < 16 then [hex_digit n] else hex_nat (n div 16) @ [hex_digit (n mod 16)])"

declare hex_nat.simps [simp del]

definition show_code :: "int \<Rightarrow> string" where
  "show_code c = (if c < 0 then CHR ''-'' # dec (nat (- c)) else dec (nat c))"

definition fetch_block :: "(string \<Rightarrow> json_rpc_request \<Rightarrow> string + json_rpc_response) \<Rightarrow> string \<Rightarrow> u64 \<Rightarrow> string + rpc_block" where
  "fetch_block post rpc_url n =
     rbind (post rpc_url \<lparr>rq_jsonrpc = ''2.0'', rq_method = ''eth_getBlockByNumber'',
              rq_params = (''0x'' @ hex_nat (unat n), True), rq_id = 1\<rparr>) (\<lambda>response.
       case rs_error response of
         Some e \<Rightarrow> Inl (''RPC error '' @ show_code (re_code e) @ '': '' @ re_message e)
       | None \<Rightarrow> (case rs_result response of
           None \<Rightarrow> Inl (''Block '' @ dec (unat n) @ '' not found'')
         | Some b \<Rightarrow> Inr b))"

text \<open>\<^verbatim>\<open>u64::from_str_radix(_, 16)\<close> on the digits, then with a sign and on nothing.\<close>

fun radix_digits :: "nat \<Rightarrow> string \<Rightarrow> string + u64" where
  "radix_digits n [] = Inr (of_nat n)"
| "radix_digits n (c # cs) =
     (case digit_of c of
        None \<Rightarrow> Inl ''invalid digit found in string''
      | Some d \<Rightarrow> if 2 ^ 64 \<le> 16 * n + d then Inl ''number too large to fit in target type''
                  else radix_digits (16 * n + d) cs)"

definition parse_hex_u64 :: "string \<Rightarrow> string + u64" where
  "parse_hex_u64 hex =
     (let s = (if take 2 hex = ''0x'' then drop 2 hex else hex)
      in if s = [] then Inl ''cannot parse integer from empty string''
         else if s = ''+'' then Inl ''invalid digit found in string''
         else if hd s = CHR ''+'' then radix_digits 0 (tl s)
         else radix_digits 0 s)"

fun fetch_list :: "(string \<Rightarrow> json_rpc_request \<Rightarrow> string + json_rpc_response) \<Rightarrow> string \<Rightarrow> u64 list
    \<Rightarrow> string + fetched_block list" where
  "fetch_list post rpc_url [] = Inr []"
| "fetch_list post rpc_url (n # ns) =
     rbind (fetch_block post rpc_url n) (\<lambda>b.
     rbind (parse_hex_u64 (rb_timestamp b)) (\<lambda>t.
     rbind (fetch_list post rpc_url ns) (\<lambda>bs.
       Inr (\<lparr>fb_timestamp = t, fb_transactions = map rt_input (rb_transactions b)\<rparr> # bs))))"

definition block_range :: "u64 \<Rightarrow> u64 \<Rightarrow> u64 list" where
  "block_range a b = map of_nat [unat a..<Suc (unat b)]"

definition fetch_to_file :: "(string \<Rightarrow> json_rpc_request \<Rightarrow> string + json_rpc_response) \<Rightarrow> (fetched_block list \<Rightarrow> string + string)
    \<Rightarrow> (string \<Rightarrow> (string \<times> string) option) \<Rightarrow> fetcher_cli \<Rightarrow> u64 \<Rightarrow> u64 \<Rightarrow> text_files \<Rightarrow> (string + unit) \<times> text_files" where
  "fetch_to_file post ser write_err cli start end_n fs =
     (case rbind (fetch_list post (fc_rpc cli) (block_range start end_n)) ser of
        Inl e \<Rightarrow> (Inl e, fs)
      | Inr json \<Rightarrow>
          (case write_err json of
             Some (e, torn) \<Rightarrow> (Inl e, fs(fc_output cli \<mapsto> torn))
           | None \<Rightarrow> (Inr (), fs(fc_output cli \<mapsto> json))))"

definition fetcher_run :: "(string \<Rightarrow> json_rpc_request \<Rightarrow> string + json_rpc_response) \<Rightarrow> (fetched_block list \<Rightarrow> string + string)
    \<Rightarrow> (string \<Rightarrow> (string \<times> string) option) \<Rightarrow> fetcher_cli \<Rightarrow> text_files \<Rightarrow> (string + unit) \<times> text_files" where
  "fetcher_run post ser write_err cli fs =
     (let end_n = (case fc_end cli of Some e \<Rightarrow> e | None \<Rightarrow> fc_start cli + DEFAULT_BLOCK_COUNT - 1)
      in if end_n < fc_start cli then (Inl ''End block must be >= start block'', fs)
         else fetch_to_file post ser write_err cli (fc_start cli) end_n fs)"

section \<open>What is fetched\<close>

text \<open>A number printed in hexadecimal is parsed to itself.\<close>

lemma radix_hex_nat: "m < 2 ^ 64 \<Longrightarrow> radix_digits 0 (hex_nat m @ cs) = radix_digits m cs"
proof (induction m arbitrary: cs rule: hex_nat.induct)
  case (1 m)
  have d: "digit_of (hex_digit (m mod 16)) = Some (m mod 16)" using digit_of_hex [of "m mod 16"] by simp
  show ?case
  proof (cases "m < 16")
    case True
    with d 1(2) show ?thesis by (simp add: hex_nat.simps [of m])
  next
    case False
    have "m div 16 < 2 ^ 64" using 1(2) by linarith
    with False 1 d show ?thesis by (simp add: hex_nat.simps [of m])
  qed
qed

lemma hex_nat_head: "hex_nat m \<noteq> [] \<and> hd (hex_nat m) \<noteq> CHR ''+''"
proof (induction m rule: hex_nat.induct)
  case (1 m)
  then show ?case using digit_of_hex [of m] by (cases "m < 16") (simp_all add: hex_nat.simps [of m])
qed

lemma parse_hex_nat: "parse_hex_u64 (''0x'' @ hex_nat (unat n)) = Inr n"
proof -
  have "unat n < 2 ^ 64" using unsigned_less [of n, where ?'a = nat] by simp
  from radix_hex_nat [OF this, of "[]"] have "radix_digits 0 (hex_nat (unat n)) = Inr n" by simp
  moreover have "hex_nat (unat n) \<noteq> ''+''" using hex_nat_head [of "unat n"] by auto
  ultimately show ?thesis using hex_nat_head [of "unat n"] by (simp add: parse_hex_u64_def)
qed

text \<open>The default range ends before its start when it wraps: nothing is fetched.\<close>

lemma default_range_wraps:
  assumes "fc_end cli = None" and "2 ^ 64 \<le> unat (fc_start cli) + 9"
  shows "fetcher_run post ser write_err cli fs = (Inl ''End block must be >= start block'', fs)"
proof -
  have "fc_start cli + 10 - 1 = fc_start cli + 9" by simp
  moreover have "fc_start cli + 9 < fc_start cli"
    using assms(2) unsigned_less [of "fc_start cli", where ?'a = nat]
    by (simp add: word_less_nat_alt unat_word_ariths mod_if)
  ultimately show ?thesis using assms(1) by (simp add: fetcher_run_def DEFAULT_BLOCK_COUNT_def Let_def add.commute)
qed

text \<open>
  The local source reads the file, but the numbers of the blocks are not in it: every block comes
  back with number 0, the default of the missing field.
\<close>

definition read_back :: "fetched_block \<Rightarrow> json_block" where
  "read_back b = \<lparr>jk_block_number = 0, jk_timestamp = fb_timestamp b, jk_transactions = fb_transactions b\<rparr>"

lemma collect_or_panic_Inr:
  "collect_or_panic f xs = Some (Inr ys) \<Longrightarrow> list_all2 (\<lambda>x y. f x = Some (Inr y)) xs ys"
  by (induction xs arbitrary: ys) (auto simp: rbind_Inr_iff split: option.splits sum.splits)

lemma fetched_numbers_are_lost:
  assumes "fetcher_run post ser write_err cli fs = (Inr (), fs')"
    and "\<And>bs json. ser bs = Inr json \<Longrightarrow> az_parse_blocks E json = Inr (map read_back bs)"
    and "az_read_error E (fc_output cli) = None" and "load_blocks E fs' (fc_output cli) = Some (Inr blks)"
  shows "\<exists>bs end_n. fetch_list post (fc_rpc cli) (block_range (fc_start cli) end_n) = Inr bs
    \<and> map l2_timestamp blks = map fb_timestamp bs \<and> list_all (\<lambda>b. l2_block_number b = 0) blks"
proof -
  obtain end_n bs json where bs: "fetch_list post (fc_rpc cli) (block_range (fc_start cli) end_n) = Inr bs" "ser bs = Inr json"
    "fs' = fs(fc_output cli \<mapsto> json)"
    using assms(1) by (auto simp: fetcher_run_def fetch_to_file_def Let_def rbind_Inr_iff split: if_splits sum.splits option.splits)
  with assms(2-4) have "collect_or_panic source_block (map read_back bs) = Some (Inr blks)"
    by (auto simp: load_blocks_def read_text_def source_from_file_def source_from_json_def local_pending_blocks_def
        map_err_Inr_iff)
  then have all2: "list_all2 (\<lambda>x y. source_block (read_back x) = Some (Inr y)) bs blks"
    using collect_or_panic_Inr by (fastforce simp: list_all2_map1)
  have one: "l2_timestamp y = fb_timestamp x \<and> l2_block_number y = 0" if "source_block (read_back x) = Some (Inr y)" for x y
    using that by (auto simp: source_block_def read_back_def rbind_Inr_iff)
  from all2 one have "map l2_timestamp blks = map fb_timestamp bs \<and> list_all (\<lambda>b. l2_block_number b = 0) blks"
    by (induction rule: list_all2_induct) auto
  with bs(1) show ?thesis by blast
qed

section \<open>Migrate\<close>

record migrate_args =
  ma_source :: string
  ma_dest :: string
  ma_batch_size :: u64
  ma_log_interval :: u64

text \<open>The answers of the outside are those of \<open>migrator_with_config\<close> and \<open>migrate_all\<close>.\<close>

definition migrate_main :: "('t, 'x) trie_ops \<Rightarrow> string + 's \<Rightarrow> bool \<Rightarrow> string + 't \<Rightarrow> bool \<Rightarrow> string + unit \<Rightarrow> string + 't
    \<Rightarrow> ('s \<Rightarrow> string + (string + entry) list) \<Rightarrow> ('s \<Rightarrow> string + (string + entry) list) \<Rightarrow> ('t \<Rightarrow> string + unit)
    \<Rightarrow> migrate_args \<Rightarrow> (migration_error + migration_stats) option" where
  "migrate_main D opened_source exists opened parent_missing created_dir created accounts storage close args =
     (let config = with_log_interval (ma_log_interval args) (with_batch_size (ma_batch_size args) migrator_config_default)
      in case migrator_with_config opened_source exists opened parent_missing created_dir created config of
           Inl e \<Rightarrow> Some (Inl e)
         | Inr (s, t, cfg) \<Rightarrow>
             map_option (\<lambda>(r, t). rbind r (\<lambda>stats. rbind (migrator_close close t) (\<lambda>_. Inr stats)))
               (migrate_all D cfg (accounts s) (storage s) t))"

end
