(* ===== verification/Spec2Isabelle.thy ===== *)
theory Spec2Isabelle
  imports End_To_End Node_Main Seq_Buffer Blob_Fee Tx_Manager Batch_Runner Derivation_Runner Executor
    Migrator Local_IO Tui_Feed Remote_Database Runtime Dual_Node Tui_Draw Analyze Shadow Example_Tools
begin

text \<open>
  A model of Montana, a node for an optimistic rollup, and the theorems that make it correct.

  The program. A block producer or feeder reads L2 blocks from an RPC node. The sequencer role
  accumulates them, cuts batches, serialises and compresses each batch in one of several
  concurrent workers, and hands the batches in order to a sink on L1. The validator role takes
  batches from an L1 source, decodes them and executes their blocks on a state database. A node
  runs a sync stage until it is near the tip of the chain, then ticks its roles; a checkpoint
  file records which batches and blocks are done, so that a restarted node skips them. Beside
  these there are a stand-alone batch submitter and a stand-alone derivation runner, a
  transaction manager for L1 with gas oracle and nonces, a bounded buffer of executed blocks, a
  migration of Reth databases, and a terminal interface fed with events.

  The theories, in the order of their imports, with the code under \<^verbatim>\<open>src/crates\<close> they model:

  \<^item> \<^verbatim>\<open>Montana_Prelude\<close>: machine integers, results, byte encodings, bounded lists; no code.
  \<^item> \<^verbatim>\<open>Chainspec\<close>: \<^verbatim>\<open>common/chainspec\<close>; hardforks, the two chains. Locale \<open>fork_schedule\<close>.
  \<^item> \<^verbatim>\<open>Pipeline\<close>: \<^verbatim>\<open>common/primitives\<close>, \<^verbatim>\<open>common/channel\<close>, \<^verbatim>\<open>consensus/pipeline\<close> and the presets of
    the compressors \<^verbatim>\<open>consensus/{brotli,zlib,zstd}\<close>; data, errors, constants.
  \<^item> \<^verbatim>\<open>Checkpoint\<close>: \<^verbatim>\<open>node/checkpoint\<close>; the marks, and load and save over a file system any call of
    which may fail.
  \<^item> \<^verbatim>\<open>Role\<close>, \<^verbatim>\<open>Batcher\<close>: the data of \<^verbatim>\<open>node/roles\<close>, and \<^verbatim>\<open>consensus/batcher\<close>.
  \<^item> \<^verbatim>\<open>Sequencer\<close>, \<^verbatim>\<open>Sequencer_Safety\<close>, \<^verbatim>\<open>Sequencer_Ledger\<close>, \<^verbatim>\<open>Sequencer_Props\<close>,
    \<^verbatim>\<open>Sequencer_Flush\<close>: \<^verbatim>\<open>node/roles/src/sequencer.rs\<close>. The state is a world: the sequencer, its
    channel, the workers and the calls of the sink; between any two operations a schedule lets
    the environment send blocks and workers finish.
  \<^item> \<^verbatim>\<open>AnvilL1\<close>, \<^verbatim>\<open>Batch_Context\<close>: \<^verbatim>\<open>consensus/anvil\<close>, \<^verbatim>\<open>consensus/batch-context\<close>; the L1 chain as a
    list of blocks of transactions, and the in-memory queue.
  \<^item> \<^verbatim>\<open>Validator\<close>, \<^verbatim>\<open>End_To_End\<close>: \<^verbatim>\<open>node/roles/src/validator.rs\<close>, and sequencer and validator
    connected by the queue.
  \<^item> \<^verbatim>\<open>Compressors\<close>: the compressors \<^verbatim>\<open>consensus/{brotli,zlib,zstd}\<close> over their packages.
  \<^item> \<^verbatim>\<open>Node_Sync\<close>, \<^verbatim>\<open>Node_Main\<close>: \<^verbatim>\<open>node/node\<close>; the sync stage, the builder and the life cycle.
  \<^item> \<^verbatim>\<open>Seq_Buffer\<close>: \<^verbatim>\<open>common/sequencer\<close>; the buffer as interleaved steps of any number of tasks.
  \<^item> \<^verbatim>\<open>Tx_Config\<close>, \<^verbatim>\<open>Tx_Errors\<close>, \<^verbatim>\<open>Tx_Gas\<close>, \<^verbatim>\<open>Blob_Fee\<close>, \<^verbatim>\<open>Tx_Manager\<close>: \<^verbatim>\<open>consensus/txmgr\<close>.
  \<^item> \<^verbatim>\<open>Batch_Runner\<close>, \<^verbatim>\<open>Derivation_Runner\<close>: \<^verbatim>\<open>consensus/batch-runner\<close>,
    \<^verbatim>\<open>consensus/derivation-runner\<close>.
  \<^item> \<^verbatim>\<open>Kv_Database\<close>, \<^verbatim>\<open>Trie_Database\<close>, \<^verbatim>\<open>Cached_Database\<close>: \<^verbatim>\<open>execution/database\<close>, from the
    key-value database up to the cache that the executor reads through. Locale \<open>code_database\<close>.
  \<^item> \<^verbatim>\<open>Executor\<close>: \<^verbatim>\<open>execution/vm\<close>, \<^verbatim>\<open>execution/blocksource/src/convert.rs\<close>, \<^verbatim>\<open>execution/runner\<close>.
  \<^item> \<^verbatim>\<open>Reth_Compact\<close>, \<^verbatim>\<open>Migrator\<close>: \<^verbatim>\<open>execution/migration\<close>.
  \<^item> \<^verbatim>\<open>Local_IO\<close>: \<^verbatim>\<open>consensus/local\<close>.
  \<^item> \<^verbatim>\<open>Tui_App\<close>, \<^verbatim>\<open>Tui_Draw\<close>, \<^verbatim>\<open>Tui_Feed\<close>: the state and events of \<^verbatim>\<open>utilities/tui\<close>, what it
    draws, and \<^verbatim>\<open>consensus/block-feeder\<close> with the producers of \<^verbatim>\<open>execution/blocksource\<close>.
  \<^item> \<^verbatim>\<open>Remote_Database\<close>: \<^verbatim>\<open>execution/database/src/remote.rs\<close>; reads over RPC, remembered in cache
    files, are those of an archive node.
  \<^item> \<^verbatim>\<open>Harness\<close>, \<^verbatim>\<open>Anvil_State\<close>: \<^verbatim>\<open>utilities/harness\<close>; the test chain, its transaction generator and
    the state file it starts from.
  \<^item> \<^verbatim>\<open>Adapters\<close>, \<^verbatim>\<open>Command_Line\<close>, \<^verbatim>\<open>Runtime\<close>: \<^verbatim>\<open>utilities/adapters\<close>, \<^verbatim>\<open>utilities/cli\<close> with
    \<^verbatim>\<open>bin/montana\<close>, and \<^verbatim>\<open>node/runtime\<close>; from the arguments of the program to a node with its roles,
    whose tick, resume and checkpoint operations are those of the theories above.
  \<^item> \<^verbatim>\<open>Analyze\<close>: the example \<^verbatim>\<open>src/examples/analyze\<close>, which compresses a file of blocks and reads
    the result back.
  \<^item> \<^verbatim>\<open>Shadow_App\<close>, \<^verbatim>\<open>Shadow\<close>: the example \<^verbatim>\<open>src/examples/shadow\<close>; the state and drawing of its
    interface, and its batch task, derivation task and interface as interleaved steps.
  \<^item> \<^verbatim>\<open>Example_Tools\<close>: the examples \<^verbatim>\<open>src/examples/fetcher\<close> and \<^verbatim>\<open>src/examples/migrate\<close>.
  \<^item> \<^verbatim>\<open>Dual_Node\<close>: no code of its own; the feeder, the two roles and the queue between them, built
    by the runtime and ticked in turn.

  How code corresponds to definitions. A struct is a record, an enum a datatype, \<^verbatim>\<open>Result\<close> a sum
  with the error on the left, a panic \<open>None\<close> around the result, a mutable receiver the state
  returned updated, an integer a word of its width, and the length of a collection a natural
  number. An \<^verbatim>\<open>await\<close> at which others may run is a point of a schedule. A loop without end takes
  the list of what its surroundings answer in each iteration. Packages outside the repository
  are parameters: serde_json, the compressors, RocksDB, TrieDB, MDBX, revm, the L1 provider, the
  clock and the file system. What is relied on of them is a named predicate, such as \<open>trie_laws\<close>
  or \<open>rocks_laws\<close>, each with a concrete instance.
\<close>

text \<open>
  What is shown.

  \<^item> Sequencer: whatever the interleaving of workers and channel, the sink sees consecutive batch
    numbers, each once; the blocks decoded from what it was given are the blocks sent, in order;
    on a closed channel with a fair schedule the role completes with everything submitted. A
    failed preparation hangs the flush, and a refused batch is the last one.
  \<^item> Validator and derivation runner: of the batches that the source hands out (\<open>pulled\<close>), exactly
    those above the mark are executed, completely and in order (\<open>due\<close>, \<open>to_derive\<close>); a batch that
    fails is lost, and to the derivation runner number 0 may come again. Its finalized head adds up
    the recorded block counts. The validator empties the in-memory queue at 10 batches a tick, and
    connected by it executes a prefix of what the sequencer was sent.
  \<^item> Node and checkpoint: save is atomic under any failing call, what is saved is what is loaded, a
    stopped node has saved, a rebuilt one has its checkpoint and with \<^verbatim>\<open>skip_sync\<close> resumes its roles
    with it, the marks never decrease while the roles run; completing the sync stage resets them.
  \<^item> Batch runner: every block is taken once, in order, whatever fails; the runner never returns.
  \<^item> Databases and executor: the key-value database refines an abstract store; a cache is
    invisible to readers; a sequence of accepted blocks leaves in the state database exactly the
    changes of its transactions, and cache and database agree. A refused block and a
    self-destruction break this agreement, as two further theorems show.
  \<^item> L1: Anvil's sink and source are inverse on the wire and deliver in order; two batches in one
    block lose one. Blob fees equal those of EIP-4844; fee bumps have exact bounds; nonces are
    consecutive.
  \<^item> Composition: every command line that the program accepts builds a node whose parts match its
    role, when the outside works. Such a node never sequences a block unless the sync stage is
    skipped, and its two roles forget each other's marks in the checkpoint file they share. When
    the sync stage is skipped, batches go through memory and there is no checkpoint, the blocks that
    the validator of a dual node executes are at any time the blocks of the chain from the start on,
    each once, in order.
  \<^item> Examples: what the pipeline example has compressed it reads back, given the algorithm, with zstd
    up to 10 MiB. The shadow program, with batches through memory, hands every batch to its executor
    once and in order under any interleaving; the rest of a batch with a refused block is lost. Its
    pause key freezes the interface for good. The fetcher loses the numbers of the blocks.
  \<^item> Remote database: through caches, torn files and restarts a client reads what the archive at
    that block says.
  \<^item> Buffer, local sink, migration, interface: bounded first in first out without deadlock;
    round trips; copied contents independent of the batch size, for storage whose address has an
    account; bounded and ordered state.

  Bounds. Theorems on counting ask for fewer than \<open>2 ^ 64\<close> batches, blocks or nonces, since \<^verbatim>\<open>u64\<close>
  wraps in the release profile. The blob fee is compared up to an excess of 32 update fractions,
  beyond which the 100 iterations of the source and its saturation no longer follow the
  unbounded loop. Loops that may run forever, the flush of the sequencer and the feeder's loop up
  to the tip, are partial functions whose \<open>None\<close> is not returning; that they return is proved.

  Not modelled. The terminal modes of \<^verbatim>\<open>run_with_tui\<close> and of the examples; clap, the HTTP client and
  the logging library. The algorithms of the compressors, of revm and of the databases, and the
  layout of \<^verbatim>\<open>ratatui\<close>, are not in the repository. Log messages and tracing are left out, except for
  the logs of the interfaces and the verdicts of the verifier, which are their only output. Rates
  that the code computes in floating point are pairs of numbers, or values of an arbitrary type.
\<close>

end
